(* ===== verification/H2K_Prelude.thy ===== *)
theory H2K_Prelude
  imports Main "HOL-Library.Word"
begin

text \<open>
  Shared base of the development: the kernel's integer types
  (\<^verbatim>\<open>kernel/util/std/c_std.h\<close>), addresses, the Hexagon bit-counting intrinsics the C
  code calls, the sequential effect of the kernel's LL/SC primitives
  (\<^verbatim>\<open>kernel/util/atomic/atomic.h\<close>), and the lemma collections the component
  theories extend.

  Addresses of kernel objects are natural numbers, with \<open>0\<close> for the C \<open>NULL\<close>. A kernel
  memory is a total function from addresses to objects; a C store to a field is a
  function update of one object.
\<close>

unbundle bit_operations_syntax

type_synonym u8 = "8 word"
type_synonym u16 = "16 word"
type_synonym u32 = "32 word"
type_synonym u64 = "64 word"
type_synonym ptr = nat

abbreviation NULL :: ptr where "NULL \<equiv> 0"

named_theorems ring_frame \<open>what a ring operation leaves unchanged\<close>
named_theorems bit_count \<open>facts on the bit-counting intrinsics\<close>
named_theorems kstate_frame \<open>what a kernel operation leaves unchanged\<close>

section \<open>Bit counting\<close>

text \<open>
  \<open>ct0\<close> counts trailing zeros (\<open>Q6_R_ct0_R\<close>, \<open>Q6_R_ct0_P\<close>) and is the
  width on \<open>0\<close>; \<open>cl0\<close> counts leading zeros (\<open>Q6_R_cl0_R\<close>).
\<close>

definition ct0 :: "'a::len word \<Rightarrow> nat" where
  "ct0 w = length (takeWhile (\<lambda>i. \<not> bit w i) [0..<LENGTH('a)])"

definition cl0 :: "'a::len word \<Rightarrow> nat" where
  "cl0 w = length (takeWhile (\<lambda>i. \<not> bit w i) (rev [0..<LENGTH('a)]))"

lemma word_bits_zero: "(\<forall>i<LENGTH('a). \<not> bit w i) \<longleftrightarrow> w = (0 :: 'a::len word)"
  by (metis bit_0_eq bot_apply bot_bool_def bit_word_eqI)

lemma takeWhile_upt_nth: "i < length (takeWhile P [0..<n]) \<Longrightarrow> P i \<and> i < n"
  by (metis (no_types, lifting) add_0 length_takeWhile_le length_upt less_le_trans diff_zero
      nth_mem nth_upt set_takeWhileD takeWhile_nth)

lemma takeWhile_upt_stop:
  "length (takeWhile P [0..<n]) < n \<Longrightarrow> \<not> P (length (takeWhile P [0..<n]))"
  using nth_length_takeWhile [of P "[0..<n]"] by simp

lemma ct0_le [bit_count]: "ct0 (w :: 'a::len word) \<le> LENGTH('a)"
  unfolding ct0_def using length_takeWhile_le [of _ "[0..<LENGTH('a)]"] by simp

lemma ct0_below [bit_count]: "i < ct0 w \<Longrightarrow> \<not> bit w i"
  unfolding ct0_def by (drule takeWhile_upt_nth) simp

lemma ct0_bit_lt: "ct0 (w :: 'a::len word) < LENGTH('a) \<Longrightarrow> bit w (ct0 w)"
  unfolding ct0_def by (drule takeWhile_upt_stop) simp

lemma ct0_lt_iff [bit_count]: "ct0 (w :: 'a::len word) < LENGTH('a) \<longleftrightarrow> w \<noteq> 0"
proof
  assume "ct0 w < LENGTH('a)"
  then have "bit w (ct0 w)" by (rule ct0_bit_lt)
  then show "w \<noteq> 0" by auto
next
  assume "w \<noteq> 0"
  then obtain i where "i < LENGTH('a)" "bit w i" using word_bits_zero [of w] by blast
  then show "ct0 w < LENGTH('a)" using ct0_below [of i w] by (meson le_less_trans not_le)
qed

lemma ct0_bit [bit_count]: "w \<noteq> 0 \<Longrightarrow> bit w (ct0 w)"
  by (simp add: ct0_bit_lt ct0_lt_iff)

lemma ct0_zero [simp]: "ct0 (0 :: 'a::len word) = LENGTH('a)"
  using ct0_lt_iff [of "0 :: 'a word"] ct0_le [of "0 :: 'a word"] by simp

lemma ct0_eqI: "bit w n \<Longrightarrow> (\<And>i. i < n \<Longrightarrow> \<not> bit w i) \<Longrightarrow> ct0 w = n"
  by (metis bit_0_eq bot_apply bot_bool_def ct0_below ct0_bit linorder_neqE_nat)

section \<open>Single bits of a word\<close>

text \<open>
  \<open>H2K_atomic_setbit\<close> and \<open>H2K_atomic_clrbit\<close> return the new word and what the C
  function returns: the set operation returns 1 if the bit was clear, the clear operation
  returns 1 if it was set.
\<close>

definition H2K_atomic_setbit :: "'a::len word \<Rightarrow> nat \<Rightarrow> 'a word \<times> u32" where
  "H2K_atomic_setbit w b = (set_bit b w, if bit w b then 0 else 1)"

definition H2K_atomic_clrbit :: "'a::len word \<Rightarrow> nat \<Rightarrow> 'a word \<times> u32" where
  "H2K_atomic_clrbit w b = (unset_bit b w, if bit w b then 1 else 0)"

lemma bit_set_bit_word [simp]:
  "bit (set_bit b w) i \<longleftrightarrow> (i = b \<and> b < LENGTH('a)) \<or> bit (w :: 'a::len word) i"
  by (auto simp: bit_set_bit_iff dest: bit_imp_le_length)

lemma bit_unset_bit_word [simp]:
  "bit (unset_bit b w) i \<longleftrightarrow> i \<noteq> b \<and> bit (w :: 'a::len word) i"
  by (auto simp: bit_unset_bit_iff)

lemma set_bit_nonzero [simp]: "b < LENGTH('a) \<Longrightarrow> set_bit b (w :: 'a::len word) \<noteq> 0"
  by (metis bit_0_eq bit_set_bit_word bot_apply bot_bool_def)

lemma and_mask_zero_iff_bit:
  "b < LENGTH('a) \<Longrightarrow> (w AND 2 ^ b) \<noteq> 0 \<longleftrightarrow> bit (w :: 'a::len word) b"
  by (simp add: bit_iff_and_push_bit_not_eq_0 and.commute)

lemma word_lt_exp_bits: "x < 2 ^ n \<Longrightarrow> n \<le> m \<Longrightarrow> \<not> bit (x :: 'a::len word) m"
  by (metis bit_and_iff bit_mask_iff less_mask_eq not_le)

lemma word_bits_lt_exp: "(\<And>m. n \<le> m \<Longrightarrow> \<not> bit x m) \<Longrightarrow> unat (x :: 'a::len word) < 2 ^ n"
proof -
  assume a: "\<And>m. n \<le> m \<Longrightarrow> \<not> bit x m"
  then have "take_bit n x = x" by (intro bit_word_eqI) (auto simp: bit_simps not_less [symmetric])
  then have "unat x = take_bit n (unat x)" by (metis unsigned_take_bit_eq)
  then show ?thesis by (metis take_bit_nat_less_exp)
qed

lemma uint_lt_nat: "unat (a :: 'a::len word) < n \<Longrightarrow> uint a < int n"
proof -
  assume "unat a < n"
  then have "int (unat a) < int n" by (simp only: of_nat_less_iff)
  then show ?thesis by simp
qed

lemma sint_small: "unat a < 2 ^ 31 \<Longrightarrow> sint (a :: u32) = int (unat a)"
proof -
  assume "unat a < 2 ^ 31"
  then have "uint a < 2 ^ 31" using uint_lt_nat [of a "2 ^ 31"] by simp
  moreover have "0 \<le> uint a" by simp
  ultimately have "signed_take_bit 31 (uint a) = uint a" by (intro signed_take_bit_int_eq_self) linarith+
  then show ?thesis by (simp add: sint_uint)
qed

lemma unat_suc: "unat w < unat (n :: 'a::len word) \<Longrightarrow> unat (w + 1 :: 'a::len word) = unat w + 1"
proof -
  assume a: "unat w < unat n"
  have "unat n < 2 ^ LENGTH('a)" by (rule unsigned_less)
  then have "unat w + 1 < 2 ^ LENGTH('a)" using a by linarith
  then show ?thesis by (simp add: unat_word_ariths)
qed

section \<open>Lists\<close>

lemma distinct_split_unique:
  "distinct (as @ x # bs) \<Longrightarrow> as @ x # bs = cs @ x # ds \<Longrightarrow> as = cs \<and> bs = ds"
  by (metis append_Cons_eq_iff distinct.simps(2) distinct_append not_distinct_conv_prefix)

lemma in_butlast_neq_last: "distinct xs \<Longrightarrow> z \<in> set (butlast xs) \<Longrightarrow> z \<noteq> last xs"
  by (cases xs rule: rev_cases) auto

lemma in_tl_neq_hd: "distinct xs \<Longrightarrow> z \<in> set (tl xs) \<Longrightarrow> z \<noteq> hd xs"
  by (cases xs) auto

lemma remove1_split: "x \<notin> set as \<Longrightarrow> remove1 x (as @ x # bs) = as @ bs"
  by (simp add: remove1_append)

end
