(* ===== verification/Ring.thy ===== *)
theory Ring
  imports H2K_Prelude
begin

text \<open>
  Doubly-linked rings, \<^verbatim>\<open>kernel/util/ring/ring.ref.c\<close> and \<^verbatim>\<open>ring.h\<close>. A ring node is the
  pair of link fields every ring-compatible object starts with; the record is extensible,
  so the operations apply unchanged to a memory of thread contexts, as the C casts do.
  A parameter \<open>ring\<close> of type \<open>H2K_ringnode_t **\<close> is the value of the head pointer before
  the call, and its value after the call is returned.

  The abstraction of a ring is the list of its nodes in \<open>next\<close> order from the head.
  \<open>is_ring\<close> relates a memory, a head pointer and that list. The locale \<open>ring_interface\<close>
  is the contract the ready list, the futex queues and the interrupt pool rely on.
\<close>

section \<open>Nodes and memory\<close>

record ringnode =
  "next" :: ptr
  prev :: ptr

type_synonym 'a rmem = "ptr \<Rightarrow> 'a ringnode_scheme"

definition set_next :: "'a rmem \<Rightarrow> ptr \<Rightarrow> ptr \<Rightarrow> 'a rmem" where
  "set_next h p v = h(p := (h p)\<lparr>next := v\<rparr>)"

definition set_prev :: "'a rmem \<Rightarrow> ptr \<Rightarrow> ptr \<Rightarrow> 'a rmem" where
  "set_prev h p v = h(p := (h p)\<lparr>prev := v\<rparr>)"

section \<open>Operations\<close>

definition H2K_ring_next_real :: "'a rmem \<Rightarrow> ptr \<Rightarrow> ptr \<Rightarrow> ptr" where
  "H2K_ring_next_real h ring node = (if next (h node) = ring then NULL else next (h node))"

definition H2K_ring_remove_real :: "'a rmem \<Rightarrow> ptr \<Rightarrow> ptr \<Rightarrow> 'a rmem \<times> ptr" where
  "H2K_ring_remove_real h ring node =
     (let h1 = set_next h (prev (h node)) (next (h node));
          h2 = set_prev h1 (next (h1 node)) (prev (h1 node))
      in if ring = node
         then (h2, if next (h2 node) = node then NULL else next (h2 node))
         else (h2, ring))"

text \<open>The four stores that link a node in before the head, shared by insert and append.\<close>

definition link_before_head :: "'a rmem \<Rightarrow> ptr \<Rightarrow> ptr \<Rightarrow> 'a rmem" where
  "link_before_head h ring node =
     (let h1 = set_next h node ring;
          h2 = set_prev h1 node (prev (h1 ring));
          h3 = set_next h2 (prev (h2 node)) node
      in set_prev h3 (next (h3 node)) node)"

definition link_alone :: "'a rmem \<Rightarrow> ptr \<Rightarrow> 'a rmem" where
  "link_alone h node = set_prev (set_next h node node) node node"

definition H2K_ring_insert_real :: "'a rmem \<Rightarrow> ptr \<Rightarrow> ptr \<Rightarrow> 'a rmem \<times> ptr" where
  "H2K_ring_insert_real h ring node =
     (if ring = NULL then (link_alone h node, node)
      else (link_before_head h ring node, node))"

definition H2K_ring_append_real :: "'a rmem \<Rightarrow> ptr \<Rightarrow> ptr \<Rightarrow> 'a rmem \<times> ptr" where
  "H2K_ring_append_real h ring node =
     (if ring = NULL then (link_alone h node, node)
      else (link_before_head h ring node, ring))"

definition H2K_ring_remove_append_real ::
  "'a rmem \<Rightarrow> ptr \<Rightarrow> ptr \<Rightarrow> ptr \<Rightarrow> 'a rmem \<times> ptr \<times> ptr" where
  "H2K_ring_remove_append_real h fromring toring node =
     (let h1 = set_next h (prev (h node)) (next (h node));
          h2 = set_prev h1 (next (h1 node)) (prev (h1 node));
          fromring' = (if fromring = node
                       then (if node = next (h2 node) then NULL else next (h2 node))
                       else fromring)
      in if toring = NULL then (link_alone h2 node, fromring', node)
         else (link_before_head h2 toring node, fromring', toring))"

section \<open>Chains and the ring abstraction\<close>

text \<open>\<open>chain h xs\<close>: consecutive elements of \<open>xs\<close> are linked in both directions.\<close>

fun chain :: "'a rmem \<Rightarrow> ptr list \<Rightarrow> bool" where
  "chain h [] = True"
| "chain h [x] = True"
| "chain h (x # y # zs) = (next (h x) = y \<and> prev (h y) = x \<and> chain h (y # zs))"

definition cyc :: "'a rmem \<Rightarrow> ptr list \<Rightarrow> bool" where
  "cyc h xs \<longleftrightarrow> (xs \<noteq> [] \<longrightarrow> chain h (xs @ [hd xs]))"

definition is_ring :: "'a rmem \<Rightarrow> ptr \<Rightarrow> ptr list \<Rightarrow> bool" where
  "is_ring h r xs \<longleftrightarrow>
     distinct xs \<and> NULL \<notin> set xs \<and> r = (if xs = [] then NULL else hd xs) \<and> cyc h xs"

lemma set_next_sel [simp]:
  "next (set_next h p v q) = (if q = p then v else next (h q))"
  "prev (set_next h p v q) = prev (h q)"
  "ringnode.more (set_next h p v q) = ringnode.more (h q)"
  by (simp_all add: set_next_def)

lemma set_prev_sel [simp]:
  "prev (set_prev h p v q) = (if q = p then v else prev (h q))"
  "next (set_prev h p v q) = next (h q)"
  "ringnode.more (set_prev h p v q) = ringnode.more (h q)"
  by (simp_all add: set_prev_def)

lemma set_link_other [simp]:
  "q \<noteq> p \<Longrightarrow> set_next h p v q = h q"
  "q \<noteq> p \<Longrightarrow> set_prev h p v q = h q"
  by (simp_all add: set_next_def set_prev_def)

lemma chain_append: "chain h (as @ b # cs) \<longleftrightarrow> chain h (as @ [b]) \<and> chain h (b # cs)"
  by (induction h as rule: chain.induct) auto

lemma chain_cong:
  assumes "\<And>x. x \<in> set (butlast xs) \<Longrightarrow> next (h x) = next (g x)"
    and "\<And>x. x \<in> set (tl xs) \<Longrightarrow> prev (h x) = prev (g x)"
  shows "chain h xs = chain g xs"
  using assms by (induction h xs rule: chain.induct) (auto simp: Ball_def)

lemma chain_Cons: "chain h (x # xs) \<longleftrightarrow>
    xs = [] \<or> next (h x) = hd xs \<and> prev (h (hd xs)) = x \<and> chain h xs"
  by (cases xs) auto

lemma chain_snoc: "chain h (xs @ [y]) \<longleftrightarrow>
    xs = [] \<or> next (h (last xs)) = y \<and> prev (h y) = last xs \<and> chain h xs"
  by (induction h xs rule: chain.induct) auto

lemma cyc_rotate: "cyc h (as @ bs) \<longleftrightarrow> cyc h (bs @ as)"
proof (cases "as = [] \<or> bs = []")
  case True
  then show ?thesis by auto
next
  case False
  then obtain a as' b bs' where "as = a # as'" "bs = b # bs'"
    by (meson neq_Nil_conv)
  then show ?thesis
    using chain_append [of h as b "bs' @ [a]"] chain_append [of h bs a "as' @ [b]"]
    by (auto simp: cyc_def)
qed

lemma cyc_Cons: "ys \<noteq> [] \<Longrightarrow> cyc h (x # ys) \<longleftrightarrow>
    next (h x) = hd ys \<and> prev (h (hd ys)) = x \<and> chain h ys \<and>
    next (h (last ys)) = x \<and> prev (h x) = last ys"
  by (auto simp: cyc_def chain_Cons chain_snoc)

lemma cyc_nonempty: "ys \<noteq> [] \<Longrightarrow> cyc h ys \<longleftrightarrow>
    chain h ys \<and> next (h (last ys)) = hd ys \<and> prev (h (hd ys)) = last ys"
  by (auto simp: cyc_def chain_snoc)

lemma cyc_frame:
  assumes "cyc h xs" and "\<And>x. x \<in> set xs \<Longrightarrow> next (g x) = next (h x)"
    and "\<And>x. x \<in> set xs \<Longrightarrow> prev (g x) = prev (h x)"
  shows "cyc g xs"
proof (cases "xs = []")
  case False
  have "chain g (xs @ [hd xs]) = chain h (xs @ [hd xs])"
    using assms(2,3) False
    by (intro chain_cong) (auto simp: butlast_append tl_append split: list.splits)
  with assms(1) show ?thesis by (simp add: cyc_def)
qed (simp add: cyc_def)

lemma is_ring_frame:
  "is_ring h r xs \<Longrightarrow> (\<And>x. x \<in> set xs \<Longrightarrow> next (g x) = next (h x) \<and> prev (g x) = prev (h x))
   \<Longrightarrow> is_ring g r xs"
  unfolding is_ring_def by (blast intro: cyc_frame)

section \<open>Linking and unlinking\<close>

lemma link_before_head_cyc:
  assumes "cyc h ys" "ys \<noteq> []" "distinct ys" "x \<notin> set ys"
  shows "cyc (link_before_head h (hd ys) x) (x # ys)"
proof -
  let ?g = "link_before_head h (hd ys) x"
  from assms have ne: "hd ys \<noteq> x" "last ys \<noteq> x" by auto
  from assms(1,2) have p: "prev (h (hd ys)) = last ys" and n: "next (h (last ys)) = hd ys"
    and c: "chain h ys" by (simp_all add: cyc_nonempty)
  have "chain ?g ys = chain h ys"
  proof (rule chain_cong)
    fix z assume "z \<in> set (butlast ys)"
    with assms(3,4) have "z \<noteq> last ys" "z \<noteq> x"
      by (auto dest: in_butlast_neq_last in_set_butlastD)
    then show "next (?g z) = next (h z)"
      using ne p by (simp add: link_before_head_def Let_def)
  next
    fix z assume "z \<in> set (tl ys)"
    with assms(2,3,4) have "z \<noteq> hd ys" "z \<noteq> x"
      by (auto dest: in_tl_neq_hd list.set_sel(2))
    then show "prev (?g z) = prev (h z)"
      using ne p by (simp add: link_before_head_def Let_def)
  qed
  with assms(2) ne p c show ?thesis
    by (simp add: cyc_Cons) (simp add: link_before_head_def Let_def)
qed

lemma unlink_cyc:
  assumes "cyc h (x # ys)" "ys \<noteq> []" "distinct (x # ys)"
  shows "cyc (set_prev (set_next h (last ys) (hd ys)) (hd ys) (last ys)) ys"
proof -
  let ?g = "set_prev (set_next h (last ys) (hd ys)) (hd ys) (last ys)"
  have "chain ?g ys = chain h ys"
  proof (rule chain_cong)
    fix z assume "z \<in> set (butlast ys)"
    with assms(3) have "z \<noteq> last ys" by (auto dest: in_butlast_neq_last)
    then show "next (?g z) = next (h z)" by simp
  next
    fix z assume "z \<in> set (tl ys)"
    with assms(3) have "z \<noteq> hd ys" by (auto dest: in_tl_neq_hd)
    then show "prev (?g z) = prev (h z)" by simp
  qed
  moreover have "chain h ys" using assms(1,2) by (simp add: cyc_Cons)
  ultimately show ?thesis using assms(2) by (simp add: cyc_nonempty)
qed

text \<open>The neighbours of a node are found by rotating the ring to it.\<close>

lemma is_ring_rotate_to:
  assumes "is_ring h r xs" "xs = as @ x # bs"
  shows "cyc h (x # bs @ as)" "distinct (x # bs @ as)"
  using assms cyc_rotate [of h as "x # bs"] by (auto simp: is_ring_def)

lemma ring_neighbours:
  assumes "is_ring h r (as @ x # bs)" "bs @ as \<noteq> []"
  shows "next (h x) = hd (bs @ as)" "prev (h x) = last (bs @ as)"
  using is_ring_rotate_to(1) [OF assms(1) refl] assms(2) by (simp_all add: cyc_Cons)

section \<open>Correctness of the operations\<close>

lemma is_ring_head: "is_ring h r xs \<Longrightarrow> xs \<noteq> [] \<Longrightarrow> r = hd xs \<and> r \<noteq> NULL"
  by (metis hd_in_set is_ring_def)

lemma is_ring_null [simp]: "is_ring h NULL xs \<longleftrightarrow> xs = []"
  using is_ring_head [of h NULL xs] by (auto simp: is_ring_def cyc_def)

lemma is_ring_Nil [simp]: "is_ring h r [] \<longleftrightarrow> r = NULL"
  by (auto simp: is_ring_def cyc_def)

lemma is_ring_null_iff: "is_ring h r xs \<Longrightarrow> r = NULL \<longleftrightarrow> xs = []"
  using is_ring_head [of h r xs] by auto

lemma link_alone_ring: "x \<noteq> NULL \<Longrightarrow> is_ring (link_alone h x) x [x]"
  by (simp add: is_ring_def link_alone_def cyc_def)

lemma insert_real_ring:
  assumes "is_ring h r xs" "x \<notin> set xs" "x \<noteq> NULL"
  shows "is_ring (fst (H2K_ring_insert_real h r x)) (snd (H2K_ring_insert_real h r x)) (x # xs)"
proof (cases "xs = []")
  case True
  with assms show ?thesis
    by (simp add: H2K_ring_insert_real_def is_ring_def [of h] link_alone_ring)
next
  case False
  with assms(1) have "r = hd xs" "r \<noteq> NULL" by (auto dest: is_ring_head)
  with assms False link_before_head_cyc [of h xs x] show ?thesis
    by (simp add: H2K_ring_insert_real_def is_ring_def)
qed

lemma append_real_ring:
  assumes "is_ring h r xs" "x \<notin> set xs" "x \<noteq> NULL"
  shows "is_ring (fst (H2K_ring_append_real h r x)) (snd (H2K_ring_append_real h r x)) (xs @ [x])"
proof (cases "xs = []")
  case True
  with assms show ?thesis
    by (simp add: H2K_ring_append_real_def is_ring_def [of h] link_alone_ring)
next
  case False
  with assms(1) have "r = hd xs" "r \<noteq> NULL" by (auto dest: is_ring_head)
  moreover from assms False have "cyc (link_before_head h (hd xs) x) (xs @ [x])"
    using link_before_head_cyc [of h xs x] cyc_rotate [of "link_before_head h (hd xs) x" "[x]" xs]
    by (simp add: is_ring_def)
  ultimately show ?thesis
    using assms False by (simp add: H2K_ring_append_real_def is_ring_def)
qed

lemma unlink_ring:
  assumes "is_ring h r (as @ x # bs)" "bs @ as \<noteq> []"
  shows "cyc (fst (H2K_ring_remove_real h r x)) (as @ bs)"
    and "next (fst (H2K_ring_remove_real h r x) x) = hd (bs @ as)"
proof -
  let ?ys = "bs @ as"
  from assms(1) have d: "distinct (x # ?ys)" and c: "cyc h (x # ?ys)"
    by (rule is_ring_rotate_to [OF _ refl])+
  from ring_neighbours [OF assms] have n: "next (h x) = hd ?ys" "prev (h x) = last ?ys" .
  from d assms(2) have ne: "last ?ys \<noteq> x" "hd ?ys \<noteq> x"
    by (metis distinct.simps(2) last_in_set, metis distinct.simps(2) hd_in_set)
  have h: "fst (H2K_ring_remove_real h r x) =
      set_prev (set_next h (last ?ys) (hd ?ys)) (hd ?ys) (last ?ys)"
    using n ne by (simp add: H2K_ring_remove_real_def Let_def)
  have "cyc (fst (H2K_ring_remove_real h r x)) ?ys"
    unfolding h by (rule unlink_cyc [OF c assms(2) d])
  then show "cyc (fst (H2K_ring_remove_real h r x)) (as @ bs)"
    by (simp add: cyc_rotate [of _ as bs])
  show "next (fst (H2K_ring_remove_real h r x) x) = hd ?ys"
    unfolding h using n ne by simp
qed

lemma remove_real_ring:
  assumes "is_ring h r xs" "x \<in> set xs"
  shows "is_ring (fst (H2K_ring_remove_real h r x)) (snd (H2K_ring_remove_real h r x)) (remove1 x xs)"
proof -
  from assms(2) obtain as bs where xs: "xs = as @ x # bs" "x \<notin> set as"
    by (meson split_list_first)
  have r: "r = hd xs" and d: "distinct xs" and nz: "NULL \<notin> set xs"
    using assms by (auto simp: is_ring_def)
  show ?thesis
  proof (cases "bs @ as = []")
    case True
    with xs r assms(1) show ?thesis
      by (simp add: is_ring_def H2K_ring_remove_real_def Let_def cyc_def)
  next
    case False
    from assms(1) xs(1) have "is_ring h r (as @ x # bs)" by simp
    note u = unlink_ring [OF this False]
    have hd: "snd (H2K_ring_remove_real h r x) = hd (as @ bs)"
    proof (cases "as = []")
      case True
      with u(2) xs False d r show ?thesis
        by (auto simp: H2K_ring_remove_real_def Let_def hd_append split: if_splits)
    next
      case as: False
      with xs r d have "r \<noteq> x" "hd (as @ bs) = r" by auto
      then show ?thesis by (simp add: H2K_ring_remove_real_def Let_def)
    qed
    from False xs d nz u(1) hd show ?thesis
      by (auto simp: is_ring_def remove1_split)
  qed
qed

lemma next_real_ring:
  assumes "is_ring h r (as @ x # bs)"
  shows "H2K_ring_next_real h r x = (if bs = [] then NULL else hd bs)"
proof (cases "bs @ as = []")
  case True
  with assms show ?thesis by (simp add: is_ring_def H2K_ring_next_real_def cyc_def)
next
  case False
  from assms have r: "r = hd (as @ [x])" and d: "distinct (as @ x # bs)"
    by (auto simp: is_ring_def hd_append)
  show ?thesis
  proof (cases "bs = []")
    case True
    with False r ring_neighbours [OF assms False] show ?thesis
      by (auto simp: H2K_ring_next_real_def hd_append)
  next
    case bs: False
    then have "hd bs \<noteq> r" using d r by (cases as; cases bs) auto
    with bs False ring_neighbours [OF assms False] show ?thesis
      by (auto simp: H2K_ring_next_real_def)
  qed
qed

text \<open>Linking a node in after a given node of a ring.\<close>

lemma set_next_prev_commute: "set_next (set_prev h a v) b w = set_prev (set_next h b w) a v"
  by (auto simp: set_next_def set_prev_def fun_eq_iff)

definition link_after :: "'a rmem \<Rightarrow> ptr \<Rightarrow> ptr \<Rightarrow> 'a rmem" where
  "link_after h t x =
     (let h1 = set_next h x (next (h t));
          h2 = set_prev h1 x t;
          h3 = set_prev h2 (next (h2 x)) x
      in set_next h3 (prev (h3 x)) x)"

lemma link_after_before_head:
  assumes "prev (h (next (h t))) = t" "next (h t) \<noteq> x" "t \<noteq> x"
  shows "link_after h t x = link_before_head h (next (h t)) x"
  using assms by (simp add: link_after_def link_before_head_def Let_def set_next_prev_commute)

lemma ring_next_prev:
  assumes "is_ring h r xs" "t \<in> set xs"
  shows "next (h t) \<in> set xs" "prev (h t) \<in> set xs" "prev (h (next (h t))) = t"
proof -
  obtain as bs where xs: "xs = as @ t # bs" using assms(2) by (meson split_list)
  then have c: "cyc h (t # bs @ as)" using assms(1) cyc_rotate [of h as "t # bs"] by (simp add: is_ring_def)
  have "next (h t) \<in> set xs \<and> prev (h t) \<in> set xs \<and> prev (h (next (h t))) = t"
  proof (cases "bs @ as = []")
    case True
    with c xs show ?thesis by (simp add: cyc_def)
  next
    case False
    then have "hd (bs @ as) \<in> set (bs @ as)" "last (bs @ as) \<in> set (bs @ as)" by (rule hd_in_set, rule last_in_set)
    with c False xs show ?thesis by (auto simp: cyc_Cons)
  qed
  then show "next (h t) \<in> set xs" "prev (h t) \<in> set xs" "prev (h (next (h t))) = t" by simp_all
qed

lemma link_after_ring:
  assumes "is_ring h r (as @ t # bs)" "x \<notin> set (as @ t # bs)" "x \<noteq> NULL"
  shows "is_ring (link_after h t x) r (as @ t # x # bs)"
proof -
  let ?ys = "bs @ as @ [t]"
  have n: "next (h t) \<in> set (as @ t # bs)" "prev (h (next (h t))) = t"
    using ring_next_prev [OF assms(1), of t] by auto
  have c: "cyc h ?ys" using assms(1) cyc_rotate [of h "as @ [t]" bs] by (simp add: is_ring_def)
  have "hd ?ys = next (h t)"
    using c cyc_nonempty [of ?ys h] by simp
  then have "link_after h t x = link_before_head h (hd ?ys) x"
    using link_after_before_head [of h t x] n assms(2) by (metis in_set_conv_decomp)
  with link_before_head_cyc [OF c, of x] assms have "cyc (link_after h t x) (x # ?ys)"
    by (auto simp: is_ring_def)
  then have "cyc (link_after h t x) ((as @ [t]) @ x # bs)"
    using cyc_rotate [of "link_after h t x" "x # bs" "as @ [t]"] by simp
  with assms show ?thesis by (cases as) (auto simp: is_ring_def)
qed

lemma link_after_frame [ring_frame]:
  "is_ring h r xs \<Longrightarrow> t \<in> set xs \<Longrightarrow> q \<notin> set xs \<Longrightarrow> q \<noteq> x \<Longrightarrow> link_after h t x q = h q"
  "ringnode.more (link_after h t x q) = ringnode.more (h q)"
proof -
  assume a: "is_ring h r xs" "t \<in> set xs" "q \<notin> set xs" "q \<noteq> x"
  then have "q \<noteq> t" "q \<noteq> next (h t)" using ring_next_prev(1) [OF a(1,2)] by auto
  with a(4) show "link_after h t x q = h q" by (simp add: link_after_def Let_def)
qed (simp add: link_after_def Let_def)

section \<open>What the operations leave unchanged\<close>

lemma link_alone_frame [ring_frame]:
  "q \<noteq> x \<Longrightarrow> link_alone h x q = h q"
  "ringnode.more (link_alone h x q) = ringnode.more (h q)"
  by (simp_all add: link_alone_def)

lemma link_before_head_frame [ring_frame]:
  "is_ring h r xs \<Longrightarrow> xs \<noteq> [] \<Longrightarrow> q \<notin> set xs \<Longrightarrow> q \<noteq> x \<Longrightarrow> link_before_head h r x q = h q"
  "ringnode.more (link_before_head h r x q) = ringnode.more (h q)"
proof -
  assume a: "is_ring h r xs" "xs \<noteq> []" "q \<notin> set xs" "q \<noteq> x"
  then have "q \<noteq> r" using is_ring_head by fastforce
  moreover have "q \<noteq> prev (h r)"
    using a is_ring_head [OF a(1,2)] by (auto simp: is_ring_def cyc_nonempty)
  ultimately show "link_before_head h r x q = h q"
    using a(4) by (simp add: link_before_head_def Let_def)
qed (simp add: link_before_head_def Let_def)

lemma remove_real_frame [ring_frame]:
  "is_ring h r xs \<Longrightarrow> x \<in> set xs \<Longrightarrow> q \<notin> set xs \<Longrightarrow> fst (H2K_ring_remove_real h r x) q = h q"
  "ringnode.more (fst (H2K_ring_remove_real h r x) q) = ringnode.more (h q)"
proof -
  assume a: "is_ring h r xs" "x \<in> set xs" "q \<notin> set xs"
  then obtain as bs where xs: "xs = as @ x # bs" by (meson split_list)
  have "prev (h x) \<in> set xs \<and> next (h x) \<in> set xs"
  proof (cases "bs @ as = []")
    case True
    with a(1) xs show ?thesis by (simp add: is_ring_def cyc_def)
  next
    case False
    then have "hd (bs @ as) \<in> set (bs @ as)" "last (bs @ as) \<in> set (bs @ as)"
      by (rule hd_in_set, rule last_in_set)
    with xs ring_neighbours [OF a(1) [unfolded xs] False] show ?thesis by auto
  qed
  with a(2,3) have "q \<noteq> prev (h x)" "q \<noteq> next (h x)" "q \<noteq> x" by auto
  then show "fst (H2K_ring_remove_real h r x) q = h q"
    by (auto simp: H2K_ring_remove_real_def Let_def split: if_splits)
qed (simp add: H2K_ring_remove_real_def Let_def)

lemma insert_real_frame [ring_frame]:
  "is_ring h r xs \<Longrightarrow> q \<notin> set xs \<Longrightarrow> q \<noteq> x \<Longrightarrow> fst (H2K_ring_insert_real h r x) q = h q"
  "ringnode.more (fst (H2K_ring_insert_real h r x) q) = ringnode.more (h q)"
  by (cases "xs = []"; force simp: H2K_ring_insert_real_def ring_frame)
     (simp add: H2K_ring_insert_real_def ring_frame)

lemma append_real_frame [ring_frame]:
  "is_ring h r xs \<Longrightarrow> q \<notin> set xs \<Longrightarrow> q \<noteq> x \<Longrightarrow> fst (H2K_ring_append_real h r x) q = h q"
  "ringnode.more (fst (H2K_ring_append_real h r x) q) = ringnode.more (h q)"
  by (cases "xs = []"; force simp: H2K_ring_append_real_def ring_frame)
     (simp add: H2K_ring_append_real_def ring_frame)

section \<open>The ring interface\<close>

text \<open>
  What the kernel's queues rely on: each operation has its list effect on the ring it is
  given, touches only that ring's nodes and the node it moves, and leaves the payload of
  every object alone. From it follow that rings with disjoint nodes do not disturb each
  other, that a node can be moved from one ring to another, and that nodes appended in
  some order are found in that order.
\<close>

locale ring_interface =
  fixes rep :: "(ptr \<Rightarrow> 'n) \<Rightarrow> ptr \<Rightarrow> ptr list \<Rightarrow> bool"
    and payload :: "'n \<Rightarrow> 'p"
    and ins :: "(ptr \<Rightarrow> 'n) \<Rightarrow> ptr \<Rightarrow> ptr \<Rightarrow> (ptr \<Rightarrow> 'n) \<times> ptr"
    and app :: "(ptr \<Rightarrow> 'n) \<Rightarrow> ptr \<Rightarrow> ptr \<Rightarrow> (ptr \<Rightarrow> 'n) \<times> ptr"
    and rem :: "(ptr \<Rightarrow> 'n) \<Rightarrow> ptr \<Rightarrow> ptr \<Rightarrow> (ptr \<Rightarrow> 'n) \<times> ptr"
  assumes rep_distinct: "rep h r xs \<Longrightarrow> distinct xs"
    and rep_ins: "rep h r xs \<Longrightarrow> x \<notin> set xs \<Longrightarrow> x \<noteq> NULL \<Longrightarrow>
      rep (fst (ins h r x)) (snd (ins h r x)) (x # xs)"
    and rep_app: "rep h r xs \<Longrightarrow> x \<notin> set xs \<Longrightarrow> x \<noteq> NULL \<Longrightarrow>
      rep (fst (app h r x)) (snd (app h r x)) (xs @ [x])"
    and rep_rem: "rep h r xs \<Longrightarrow> x \<in> set xs \<Longrightarrow>
      rep (fst (rem h r x)) (snd (rem h r x)) (remove1 x xs)"
    and rep_frame: "rep h r xs \<Longrightarrow> (\<And>x. x \<in> set xs \<Longrightarrow> g x = h x) \<Longrightarrow> rep g r xs"
    and ins_frame: "rep h r xs \<Longrightarrow> q \<notin> set xs \<Longrightarrow> q \<noteq> x \<Longrightarrow> fst (ins h r x) q = h q"
    and app_frame: "rep h r xs \<Longrightarrow> q \<notin> set xs \<Longrightarrow> q \<noteq> x \<Longrightarrow> fst (app h r x) q = h q"
    and rem_frame: "rep h r xs \<Longrightarrow> x \<in> set xs \<Longrightarrow> q \<notin> set xs \<Longrightarrow> fst (rem h r x) q = h q"
    and ins_payload: "payload (fst (ins h r x) q) = payload (h q)"
    and app_payload: "payload (fst (app h r x) q) = payload (h q)"
    and rem_payload: "payload (fst (rem h r x) q) = payload (h q)"
begin

lemma other_ring_ins:
  "rep h r xs \<Longrightarrow> rep h s ys \<Longrightarrow> set xs \<inter> set ys = {} \<Longrightarrow> x \<notin> set ys \<Longrightarrow> rep (fst (ins h r x)) s ys"
  by (rule rep_frame, assumption, rule ins_frame) auto

lemma other_ring_app:
  "rep h r xs \<Longrightarrow> rep h s ys \<Longrightarrow> set xs \<inter> set ys = {} \<Longrightarrow> x \<notin> set ys \<Longrightarrow> rep (fst (app h r x)) s ys"
  by (rule rep_frame, assumption, rule app_frame) auto

lemma other_ring_rem:
  "rep h r xs \<Longrightarrow> rep h s ys \<Longrightarrow> set xs \<inter> set ys = {} \<Longrightarrow> x \<in> set xs \<Longrightarrow> rep (fst (rem h r x)) s ys"
  by (rule rep_frame, assumption, rule rem_frame) auto

lemma move:
  assumes "rep h r xs" "rep h s ys" "set xs \<inter> set ys = {}" "x \<in> set xs" "x \<noteq> NULL"
    and "rem h r x = (h1, r1)" and "app h1 s x = (h2, s2)"
  shows "rep h2 r1 (remove1 x xs)" and "rep h2 s2 (ys @ [x])"
proof -
  from rep_rem [OF assms(1,4)] have r1: "rep h1 r1 (remove1 x xs)" by (simp add: assms(6))
  from other_ring_rem [OF assms(1-4)] have s1: "rep h1 s ys" by (simp add: assms(6))
  from assms(3,4) have x: "x \<notin> set ys" by auto
  from rep_app [OF s1 x assms(5)] show "rep h2 s2 (ys @ [x])" by (simp add: assms(7))
  from rep_distinct [OF assms(1)] assms(3) have "set ys \<inter> set (remove1 x xs) = {}" "x \<notin> set (remove1 x xs)"
    by auto
  from other_ring_app [OF s1 r1 this] show "rep h2 r1 (remove1 x xs)" by (simp add: assms(7))
qed

lemma append_all:
  assumes "rep h r xs" "distinct (xs @ ys)" "NULL \<notin> set ys"
  shows "case fold (\<lambda>x (g, s). app g s x) ys (h, r) of (g, s) \<Rightarrow> rep g s (xs @ ys)"
  using assms
proof (induction ys arbitrary: h r xs)
  case (Cons y ys)
  obtain g s where gs: "app h r y = (g, s)" by fastforce
  with rep_app [of h r xs y] Cons.prems have "rep g s (xs @ [y])" by auto
  with Cons.IH [of g s "xs @ [y]"] Cons.prems gs show ?case by simp
qed simp

end

interpretation kring: ring_interface
  "is_ring :: 'a rmem \<Rightarrow> ptr \<Rightarrow> ptr list \<Rightarrow> bool" ringnode.more
  H2K_ring_insert_real H2K_ring_append_real H2K_ring_remove_real
proof (unfold_locales, goal_cases)
  case (1 h r xs)
  then show ?case by (simp add: is_ring_def)
next
  case (2 h r xs x)
  then show ?case by (rule insert_real_ring)
next
  case (3 h r xs x)
  then show ?case by (rule append_real_ring)
next
  case (4 h r xs x)
  then show ?case by (rule remove_real_ring)
next
  case (5 h r xs g)
  then show ?case by (auto intro: is_ring_frame)
qed (simp_all add: ring_frame)

section \<open>Properties\<close>

lemma remove_append_real_eq:
  "H2K_ring_remove_append_real h fromring toring node =
     (let (h1, fromring') = H2K_ring_remove_real h fromring node;
          (h2, toring') = H2K_ring_append_real h1 toring node
      in (h2, fromring', toring'))"
  by (simp add: H2K_ring_remove_append_real_def H2K_ring_remove_real_def
      H2K_ring_append_real_def Let_def)

text \<open>
  moving a node with \<open>H2K_ring_remove_append\<close> takes it out of the source ring and
  makes it the last node of the destination ring; the order of all other nodes is kept.
\<close>

theorem ring_remove_append_moves:
  assumes "is_ring h fromring xs" "is_ring h toring ys" "set xs \<inter> set ys = {}" "x \<in> set xs"
    and "H2K_ring_remove_append_real h fromring toring x = (h', from', to')"
  shows "is_ring h' from' (remove1 x xs) \<and> is_ring h' to' (ys @ [x])"
proof -
  obtain h1 r1 where 1: "H2K_ring_remove_real h fromring x = (h1, r1)" by fastforce
  obtain h2 s2 where 2: "H2K_ring_append_real h1 toring x = (h2, s2)" by fastforce
  from assms(1,4) have "x \<noteq> NULL" by (metis is_ring_def)
  from kring.move [OF assms(1-4) this 1 2] assms(5) 1 2 show ?thesis
    by (simp add: remove_append_real_eq)
qed

text \<open>A concrete memory of two rings, \<open>[1, 2, 3]\<close> and \<open>[7]\<close>.\<close>

definition ring_example :: "unit rmem" where
  "ring_example = (\<lambda>_. \<lparr>next = 0, prev = 0\<rparr>)
     (1 := \<lparr>next = 2, prev = 3\<rparr>, 2 := \<lparr>next = 3, prev = 1\<rparr>, 3 := \<lparr>next = 1, prev = 2\<rparr>,
      7 := \<lparr>next = 7, prev = 7\<rparr>)"

theorem ring_remove_append_moves_witness:
  "is_ring (fst (H2K_ring_remove_append_real ring_example 1 7 2)) 1 [1, 3] \<and>
   is_ring (fst (H2K_ring_remove_append_real ring_example 1 7 2)) 7 [7, 2]"
proof -
  have a: "is_ring ring_example 1 [1, 2, 3]" "is_ring ring_example 7 [7]"
    by (simp_all add: is_ring_def cyc_def ring_example_def)
  have heads: "fst (snd (H2K_ring_remove_append_real ring_example 1 7 2)) = 1"
    "snd (snd (H2K_ring_remove_append_real ring_example 1 7 2)) = 7"
    by (simp_all add: H2K_ring_remove_append_real_def ring_example_def Let_def)
  show ?thesis
    using ring_remove_append_moves
      [OF a, of 2 "fst (H2K_ring_remove_append_real ring_example 1 7 2)" 1 7] heads
    by (simp add: prod_eq_iff)
qed

end
