(* ===== verification/Treenode.thy ===== *)
theory Treenode
  imports H2K_Prelude "HOL-Library.Tree"
begin

text \<open>
  The intrusive binary search tree of \<^verbatim>\<open>kernel/util/tree/tree.ref.c\<close> and \<^verbatim>\<open>tree.h\<close>, used by
  the timer for pending timeouts. The C functions take pointers to link fields
  (\<open>H2K_treenode_t **\<close>); a \<open>tslot\<close> is such a pointer: a root variable, or the left or the
  right link of a node. The state is the root variables and the node memory. Recursion
  over memory need not end on a cyclic structure, so the operations are partial functions
  whose value is \<open>None\<close> when they do not return.

  \<open>trep\<close> relates a root pointer to the tree of node addresses it represents. Each operation
  refines a function on such trees, and these are characterised by their in-order lists.
\<close>

section \<open>State\<close>

record treenode =
  left :: ptr
  right :: ptr
  key :: u64

datatype tslot = Var nat | LeftOf ptr | RightOf ptr

record tstate =
  vars :: "nat \<Rightarrow> ptr"
  nodes :: "ptr \<Rightarrow> treenode"

fun getslot :: "tstate \<Rightarrow> tslot \<Rightarrow> ptr" where
  "getslot st (Var v) = vars st v"
| "getslot st (LeftOf p) = left (nodes st p)"
| "getslot st (RightOf p) = right (nodes st p)"

fun putslot :: "tstate \<Rightarrow> tslot \<Rightarrow> ptr \<Rightarrow> tstate" where
  "putslot st (Var v) x = st\<lparr>vars := (vars st)(v := x)\<rparr>"
| "putslot st (LeftOf p) x = st\<lparr>nodes := (nodes st)(p := (nodes st p)\<lparr>left := x\<rparr>)\<rparr>"
| "putslot st (RightOf p) x = st\<lparr>nodes := (nodes st)(p := (nodes st p)\<lparr>right := x\<rparr>)\<rparr>"

section \<open>Operations\<close>

partial_function (option) H2K_tree_add_key ::
  "tstate \<Rightarrow> tslot \<Rightarrow> ptr \<Rightarrow> u64 \<Rightarrow> tstate option" where
  "H2K_tree_add_key st root node k =
     (if getslot st root = NULL then Some (putslot st root node)
      else if k \<le> key (nodes st (getslot st root))
      then H2K_tree_add_key st (LeftOf (getslot st root)) node k
      else H2K_tree_add_key st (RightOf (getslot st root)) node k)"

definition H2K_tree_add :: "tstate \<Rightarrow> tslot \<Rightarrow> ptr \<Rightarrow> tstate option" where
  "H2K_tree_add st root node = H2K_tree_add_key st root node (key (nodes st node))"

partial_function (option) H2K_tree_remove_key ::
  "tstate \<Rightarrow> tslot \<Rightarrow> ptr \<Rightarrow> u64 \<Rightarrow> tstate option" where
  "H2K_tree_remove_key st root node k =
     (if getslot st root = NULL then Some st
      else if getslot st root = node then
        (let st1 = putslot st root (left (nodes st node))
         in if right (nodes st1 node) = NULL then Some st1
            else H2K_tree_add st1 root (right (nodes st1 node)))
      else if k \<le> key (nodes st (getslot st root))
      then H2K_tree_remove_key st (LeftOf (getslot st root)) node k
      else H2K_tree_remove_key st (RightOf (getslot st root)) node k)"

definition H2K_tree_remove :: "tstate \<Rightarrow> tslot \<Rightarrow> ptr \<Rightarrow> tstate option" where
  "H2K_tree_remove st root node = H2K_tree_remove_key st root node (key (nodes st node))"

partial_function (option) H2K_tree_bisect ::
  "tstate \<Rightarrow> tslot \<Rightarrow> tslot \<Rightarrow> ptr \<Rightarrow> u64 \<Rightarrow> tstate option" where
  "H2K_tree_bisect st le_tree_p gt_tree_p root k =
     (if root = NULL then Some st
      else if key (nodes st root) \<le> k then
        (let st1 = putslot st le_tree_p root;
             tmp = right (nodes st1 root);
             st2 = putslot st1 gt_tree_p tmp;
             st3 = putslot st2 (RightOf root) NULL
         in H2K_tree_bisect st3 (RightOf root) gt_tree_p tmp k)
      else
        (let st1 = putslot st gt_tree_p root;
             tmp = left (nodes st1 root);
             st2 = putslot st1 le_tree_p tmp;
             st3 = putslot st2 (LeftOf root) NULL
         in H2K_tree_bisect st3 le_tree_p (LeftOf root) tmp k))"

partial_function (option) H2K_tree_find :: "(ptr \<Rightarrow> treenode) \<Rightarrow> ptr \<Rightarrow> u64 \<Rightarrow> ptr option" where
  "H2K_tree_find m root k =
     (if root = NULL then Some NULL
      else if key (m root) = k then Some root
      else if key (m root) > k then H2K_tree_find m (left (m root)) k
      else H2K_tree_find m (right (m root)) k)"

partial_function (option) H2K_tree_min :: "(ptr \<Rightarrow> treenode) \<Rightarrow> ptr \<Rightarrow> ptr option" where
  "H2K_tree_min m root =
     (if root = NULL \<or> left (m root) = NULL then Some root else H2K_tree_min m (left (m root)))"

partial_function (option) H2K_tree_max :: "(ptr \<Rightarrow> treenode) \<Rightarrow> ptr \<Rightarrow> ptr option" where
  "H2K_tree_max m root =
     (if root = NULL \<or> right (m root) = NULL then Some root else H2K_tree_max m (left (m root)))"

text \<open>
  The iterator works on a state that contains the node memory: \<open>mem_of\<close> reads it and
  \<open>set_mem\<close> replaces it; \<open>func\<close> is the callback, which may change any of the state.
\<close>

partial_function (option) H2K_tree_destructive_iterate ::
  "('s \<Rightarrow> ptr \<Rightarrow> treenode) \<Rightarrow> ((ptr \<Rightarrow> treenode) \<Rightarrow> 's \<Rightarrow> 's) \<Rightarrow> (ptr \<Rightarrow> 's \<Rightarrow> 's) \<Rightarrow> ptr \<Rightarrow> 's \<Rightarrow> 's option" where
  "H2K_tree_destructive_iterate mem_of set_mem func root s =
     (if root = NULL then Some s
      else if left (mem_of s root) = NULL then
        (let tmp = right (mem_of s root)
         in H2K_tree_destructive_iterate mem_of set_mem func tmp (func root s))
      else
        (let tmp = left (mem_of s root);
             m1 = (mem_of s)(root := (mem_of s root)\<lparr>left := right (mem_of s tmp)\<rparr>);
             m2 = m1(tmp := (m1 tmp)\<lparr>right := root\<rparr>)
         in H2K_tree_destructive_iterate mem_of set_mem func tmp (set_mem m2 s)))"

section \<open>Representation\<close>

fun trep :: "(ptr \<Rightarrow> treenode) \<Rightarrow> ptr \<Rightarrow> ptr tree \<Rightarrow> bool" where
  "trep m p Leaf = (p = NULL)"
| "trep m p (Node l a r) = (p = a \<and> a \<noteq> NULL \<and> trep m (left (m a)) l \<and> trep m (right (m a)) r)"

text \<open>
  The search-tree order: keys to the left are at most the key of the node, keys to the
  right are greater.
\<close>

fun kbst :: "(ptr \<Rightarrow> u64) \<Rightarrow> ptr tree \<Rightarrow> bool" where
  "kbst K Leaf = True"
| "kbst K (Node l a r) =
     (kbst K l \<and> kbst K r \<and> (\<forall>x\<in>set_tree l. K x \<le> K a) \<and> (\<forall>x\<in>set_tree r. K a < K x))"

definition trep_ok :: "tstate \<Rightarrow> tslot \<Rightarrow> ptr tree \<Rightarrow> bool" where
  "trep_ok st sl t \<longleftrightarrow> trep (nodes st) (getslot st sl) t \<and> distinct (inorder t)"

fun owner :: "tslot \<Rightarrow> ptr set" where
  "owner (Var v) = {}"
| "owner (LeftOf p) = {p}"
| "owner (RightOf p) = {p}"

lemma getslot_putslot [simp]: "getslot (putslot st sl x) sl = x"
  by (cases sl) auto

lemma getslot_putslot_other [simp]: "sl \<noteq> sl' \<Longrightarrow> getslot (putslot st sl' x) sl = getslot st sl"
  by (cases sl; cases sl') auto

lemma nodes_putslot_other [simp]: "p \<notin> owner sl \<Longrightarrow> nodes (putslot st sl x) p = nodes st p"
  by (cases sl) auto

lemma key_putslot [simp]: "key (nodes (putslot st sl x) p) = key (nodes st p)"
  by (cases sl) auto

lemma left_putslot: "left (nodes (putslot st sl x) p) = (if sl = LeftOf p then x else left (nodes st p))"
  by (cases sl) auto

lemma right_putslot: "right (nodes (putslot st sl x) p) = (if sl = RightOf p then x else right (nodes st p))"
  by (cases sl) auto

lemma trep_cong: "(\<And>p. p \<in> set_tree t \<Longrightarrow> left (m p) = left (m' p) \<and> right (m p) = right (m' p)) \<Longrightarrow>
    trep m p t = trep m' p t"
  by (induction t arbitrary: p) auto

lemma trep_frame: "owner sl \<inter> set_tree t = {} \<Longrightarrow> trep (nodes (putslot st sl x)) p t = trep (nodes st) p t"
  by (rule trep_cong) (auto simp: left_putslot right_putslot)

lemma trep_null [simp]: "trep m NULL t \<longleftrightarrow> t = Leaf"
  by (cases t) auto

lemma trep_unique: "trep m p t \<Longrightarrow> trep m p t' \<Longrightarrow> t = t'"
proof (induction t arbitrary: p t')
  case (Node l a r)
  then show ?case by (cases t') auto
qed auto

lemma trep_not_null: "trep m p t \<Longrightarrow> NULL \<notin> set_tree t"
  by (induction t arbitrary: p) auto

section \<open>Insertion\<close>

fun ins_t :: "(ptr \<Rightarrow> u64) \<Rightarrow> ptr tree \<Rightarrow> u64 \<Rightarrow> ptr tree \<Rightarrow> ptr tree" where
  "ins_t K s k Leaf = s"
| "ins_t K s k (Node l a r) =
     (if k \<le> K a then Node (ins_t K s k l) a r else Node l a (ins_t K s k r))"

fun add_slot :: "(ptr \<Rightarrow> u64) \<Rightarrow> u64 \<Rightarrow> tslot \<Rightarrow> ptr tree \<Rightarrow> tslot" where
  "add_slot K k sl Leaf = sl"
| "add_slot K k sl (Node l a r) =
     (if k \<le> K a then add_slot K k (LeftOf a) l else add_slot K k (RightOf a) r)"

lemma add_slot_owner: "owner (add_slot K k sl t) \<subseteq> (if t = Leaf then owner sl else set_tree t)"
proof (induction t arbitrary: sl)
  case (Node l a r)
  from Node.IH(1) [of "LeftOf a"] Node.IH(2) [of "RightOf a"] show ?case
    by (auto split: if_splits)
qed simp

lemma add_slot_side:
  "a \<notin> set_tree t \<Longrightarrow> add_slot K k (LeftOf a) t \<noteq> RightOf a"
  "a \<notin> set_tree t \<Longrightarrow> add_slot K k (RightOf a) t \<noteq> LeftOf a"
  using add_slot_owner [of K k "LeftOf a" t] add_slot_owner [of K k "RightOf a" t]
  by (auto split: if_splits)

lemma add_slot_owned: "owner sl \<noteq> {} \<Longrightarrow> owner (add_slot K k sl t) \<noteq> {}"
  by (induction t arbitrary: sl) simp_all

lemma add_key_slot:
  "trep (nodes st) (getslot st sl) t \<Longrightarrow>
   H2K_tree_add_key st sl node k = Some (putslot st (add_slot (\<lambda>p. key (nodes st p)) k sl t) node)"
proof (induction t arbitrary: sl)
  case Leaf
  then show ?case by (subst H2K_tree_add_key.simps) simp
next
  case (Node l a r)
  then have a: "getslot st sl = a" "a \<noteq> NULL" by auto
  show ?case
  proof (cases "k \<le> key (nodes st a)")
    case True
    with a Node show ?thesis by (subst H2K_tree_add_key.simps) simp
  next
    case False
    with a Node show ?thesis by (subst H2K_tree_add_key.simps) simp
  qed
qed

lemma add_slot_rep:
  assumes "trep (nodes st) (getslot st sl) t" "trep (nodes st) node s" "distinct (inorder t)"
    and "owner sl \<inter> (set_tree t \<union> set_tree s) = {}" "set_tree t \<inter> set_tree s = {}"
  shows "trep (nodes (putslot st (add_slot K k sl t) node))
           (getslot (putslot st (add_slot K k sl t) node) sl) (ins_t K s k t)"
  using assms
proof (induction t arbitrary: sl)
  case Leaf
  then show ?case by (simp add: trep_frame)
next
  case (Node l a r)
  note IHl = Node.IH(1) [of "LeftOf a"] and IHr = Node.IH(2) [of "RightOf a"]
  let ?sl = "add_slot K k sl (Node l a r)"
  have own: "owner ?sl \<subseteq> set_tree (Node l a r)"
    using add_slot_owner [of K k sl "Node l a r"] by auto
  then have ne: "sl \<noteq> ?sl"
    using Node.prems(4) add_slot_owned [of "LeftOf a" K k l] add_slot_owned [of "RightOf a" K k r]
    by (force split: if_splits)
  show ?case
  proof (cases "k \<le> K a")
    case True
    let ?st = "putslot st (add_slot K k (LeftOf a) l) node"
    have ow: "owner (add_slot K k (LeftOf a) l) \<subseteq> insert a (set_tree l)"
      using add_slot_owner [of K k "LeftOf a" l] by (auto split: if_splits)
    then have "trep (nodes ?st) p r = trep (nodes st) p r" for p
      using Node.prems(3) by (intro trep_frame) auto
    moreover have "right (nodes ?st a) = right (nodes st a)"
      using Node.prems(3) by (simp add: right_putslot add_slot_side)
    moreover have "trep (nodes ?st) (left (nodes ?st a)) (ins_t K s k l)"
      using IHl Node.prems by fastforce
    ultimately show ?thesis using True ne Node.prems(1) by simp
  next
    case False
    let ?st = "putslot st (add_slot K k (RightOf a) r) node"
    have ow: "owner (add_slot K k (RightOf a) r) \<subseteq> insert a (set_tree r)"
      using add_slot_owner [of K k "RightOf a" r] by (auto split: if_splits)
    then have "trep (nodes ?st) p l = trep (nodes st) p l" for p
      using Node.prems(3) by (intro trep_frame) auto
    moreover have "left (nodes ?st a) = left (nodes st a)"
      using Node.prems(3) by (simp add: left_putslot add_slot_side)
    moreover have "trep (nodes ?st) (right (nodes ?st a)) (ins_t K s k r)"
      using IHr Node.prems by fastforce
    ultimately show ?thesis using False ne Node.prems(1) by simp
  qed
qed

section \<open>Frames\<close>

text \<open>\<open>writes S st st'\<close>: only the link fields in \<open>S\<close> differ, and no key changes.\<close>

definition slots_of :: "ptr tree \<Rightarrow> tslot set" where
  "slots_of t = LeftOf ` set_tree t \<union> RightOf ` set_tree t"

definition writes :: "tslot set \<Rightarrow> tstate \<Rightarrow> tstate \<Rightarrow> bool" where
  "writes S st st' \<longleftrightarrow> (\<forall>sl. sl \<notin> S \<longrightarrow> getslot st' sl = getslot st sl) \<and>
     (\<forall>p. key (nodes st' p) = key (nodes st p))"

lemma slots_of_simps [simp]:
  "slots_of Leaf = {}"
  "slots_of (Node l a r) = {LeftOf a, RightOf a} \<union> slots_of l \<union> slots_of r"
  by (auto simp: slots_of_def)

lemma in_slots_of [simp]:
  "LeftOf p \<in> slots_of t \<longleftrightarrow> p \<in> set_tree t" "RightOf p \<in> slots_of t \<longleftrightarrow> p \<in> set_tree t"
  by (auto simp: slots_of_def)

lemma slots_of_disjoint: "set_tree t \<inter> set_tree s = {} \<Longrightarrow> slots_of t \<inter> slots_of s = {}"
  by (auto simp: slots_of_def)

lemma owner_not_slot: "owner sl \<inter> set_tree t = {} \<Longrightarrow> sl \<notin> slots_of t"
  by (cases sl) (auto simp: slots_of_def)

lemma add_slot_in: "t \<noteq> Leaf \<Longrightarrow> add_slot K k sl t \<in> slots_of t"
proof (induction t arbitrary: sl)
  case (Node l a r)
  then show ?case by (cases "l = Leaf"; cases "r = Leaf") auto
qed simp

lemma writes_refl [simp]: "writes S st st"
  by (simp add: writes_def)

lemma writes_putslot: "sl \<in> S \<Longrightarrow> writes S st (putslot st sl x)"
  by (auto simp: writes_def intro: getslot_putslot_other)

lemma writes_trans: "writes S st st1 \<Longrightarrow> writes T st1 st2 \<Longrightarrow> S \<subseteq> U \<Longrightarrow> T \<subseteq> U \<Longrightarrow> writes U st st2"
  by (auto simp: writes_def) (metis subsetD)

lemma writes_mono: "writes S st st1 \<Longrightarrow> S \<subseteq> U \<Longrightarrow> writes U st st1"
  by (auto simp: writes_def)

lemma writes_step: "writes S st st1 \<Longrightarrow> sl \<in> S \<Longrightarrow> writes S st (putslot st1 sl x)"
  by (rule writes_trans [OF _ writes_putslot [of sl S]]) auto

lemma writes_get: "writes S st st' \<Longrightarrow> sl \<notin> S \<Longrightarrow> getslot st' sl = getslot st sl"
  by (simp add: writes_def)

lemma writes_left: "writes S st st' \<Longrightarrow> LeftOf p \<notin> S \<Longrightarrow> left (nodes st' p) = left (nodes st p)"
  using writes_get [of S st st' "LeftOf p"] by simp

lemma writes_right: "writes S st st' \<Longrightarrow> RightOf p \<notin> S \<Longrightarrow> right (nodes st' p) = right (nodes st p)"
  using writes_get [of S st st' "RightOf p"] by simp

lemma writes_key: "writes S st st' \<Longrightarrow> key (nodes st' p) = key (nodes st p)"
  by (simp add: writes_def)

lemma writes_trep: "writes S st st' \<Longrightarrow> S \<inter> slots_of t = {} \<Longrightarrow> trep (nodes st') p t = trep (nodes st) p t"
  by (rule trep_cong) (simp add: slots_of_def disjoint_iff, metis imageI UnI1 UnI2 writes_left writes_right)

text \<open>The key function of a state.\<close>

definition K_of :: "tstate \<Rightarrow> ptr \<Rightarrow> u64" where
  "K_of st p = key (nodes st p)"

lemma K_of_writes: "writes S st st' \<Longrightarrow> K_of st' = K_of st"
  by (auto simp: K_of_def writes_def)

lemma add_key_refines:
  assumes "trep (nodes st) (getslot st sl) t" "trep (nodes st) node s" "distinct (inorder t)"
    and "owner sl \<inter> (set_tree t \<union> set_tree s) = {}" "set_tree t \<inter> set_tree s = {}"
  obtains st' where "H2K_tree_add_key st sl node k = Some st'"
    "writes (insert sl (slots_of t)) st st'"
    "trep (nodes st') (getslot st' sl) (ins_t (K_of st) s k t)"
proof (rule that)
  let ?st' = "putslot st (add_slot (K_of st) k sl t) node"
  show "H2K_tree_add_key st sl node k = Some ?st'"
    using add_key_slot [OF assms(1), of node k] by (simp add: K_of_def [abs_def])
  show "writes (insert sl (slots_of t)) st ?st'"
    using add_slot_in [of t "K_of st" k sl] by (cases "t = Leaf") (auto intro: writes_putslot)
  show "trep (nodes ?st') (getslot ?st' sl) (ins_t (K_of st) s k t)"
    using add_slot_rep [OF assms] .
qed

section \<open>Removal\<close>

fun del_t :: "(ptr \<Rightarrow> u64) \<Rightarrow> ptr \<Rightarrow> ptr tree \<Rightarrow> ptr tree" where
  "del_t K n Leaf = Leaf"
| "del_t K n (Node l a r) =
     (if a = n then (case r of Leaf \<Rightarrow> l | Node _ b _ \<Rightarrow> ins_t K r (K b) l)
      else if K n \<le> K a then Node (del_t K n l) a r else Node l a (del_t K n r))"

lemma remove_root:
  assumes "trep (nodes st) (getslot st sl) (Node l n r)" "distinct (inorder (Node l n r))"
    and "owner sl \<inter> set_tree (Node l n r) = {}"
  shows "\<exists>st'. H2K_tree_remove_key st sl n k = Some st' \<and>
           writes (insert sl (slots_of (Node l n r))) st st' \<and>
           trep (nodes st') (getslot st' sl) (del_t (K_of st) n (Node l n r))"
proof -
  let ?st1 = "putslot st sl (left (nodes st n))"
  have n: "getslot st sl = n" "n \<noteq> NULL" using assms(1) by auto
  have w: "writes {sl} st ?st1" by (simp add: writes_putslot)
  have sl: "sl \<notin> slots_of (Node l n r)" using assms(3) by (rule owner_not_slot)
  then have r1: "right (nodes ?st1 n) = right (nodes st n)" by (simp add: right_putslot)
  have t1: "trep (nodes ?st1) p l = trep (nodes st) p l" "trep (nodes ?st1) p r = trep (nodes st) p r" for p
    using sl by (auto intro!: writes_trep [OF w])
  show ?thesis
  proof (cases r)
    case Leaf
    then show ?thesis
      using assms(1) n r1 t1 by (subst H2K_tree_remove_key.simps) (auto intro!: writes_putslot simp: Let_def)
  next
    case (Node rl b rr)
    then have b: "right (nodes st n) = b" "b \<noteq> NULL" using assms(1) by auto
    obtain st' where st': "H2K_tree_add_key ?st1 sl b (key (nodes st b)) = Some st'"
      "writes (insert sl (slots_of l)) ?st1 st'"
      "trep (nodes st') (getslot st' sl) (ins_t (K_of ?st1) r (key (nodes st b)) l)"
      using assms b t1 Node add_key_refines [of ?st1 sl l b r "key (nodes st b)"] by auto
    have "H2K_tree_remove_key st sl n k = Some st'"
      using n b r1 st'(1) by (subst H2K_tree_remove_key.simps) (simp add: Let_def H2K_tree_add_def)
    moreover have "writes (insert sl (slots_of (Node l n r))) st st'"
      using w st'(2) by (rule writes_trans) auto
    moreover have "K_of ?st1 = K_of st" using w by (rule K_of_writes)
    ultimately show ?thesis using st'(3) Node by (auto simp: K_of_def)
  qed
qed

lemma remove_key_refines:
  assumes "trep (nodes st) (getslot st sl) t" "distinct (inorder t)" "owner sl \<inter> set_tree t = {}"
  shows "\<exists>st'. H2K_tree_remove_key st sl n (K_of st n) = Some st' \<and>
           writes (insert sl (slots_of t)) st st' \<and>
           trep (nodes st') (getslot st' sl) (del_t (K_of st) n t)"
  using assms
proof (induction t arbitrary: sl)
  case Leaf
  then show ?case by (subst H2K_tree_remove_key.simps) simp
next
  case (Node l a r)
  have a: "getslot st sl = a" "a \<noteq> NULL" using Node.prems(1) by auto
  have sl: "sl \<notin> slots_of (Node l a r)" using Node.prems(3) by (rule owner_not_slot)
  consider "a = n" | "a \<noteq> n" "K_of st n \<le> K_of st a" | "a \<noteq> n" "\<not> K_of st n \<le> K_of st a" by blast
  then show ?case
  proof cases
    case 1
    with Node.prems remove_root [of st sl l n r] show ?thesis by blast
  next
    case 2
    obtain st' where st': "H2K_tree_remove_key st (LeftOf a) n (K_of st n) = Some st'"
      "writes (insert (LeftOf a) (slots_of l)) st st'"
      "trep (nodes st') (left (nodes st' a)) (del_t (K_of st) n l)"
      using Node.IH(1) [of "LeftOf a"] Node.prems by auto
    have "H2K_tree_remove_key st sl n (K_of st n) = Some st'"
      using a 2 st'(1) by (subst H2K_tree_remove_key.simps) (simp add: K_of_def)
    moreover have "getslot st' sl = a" using a sl by (subst writes_get [OF st'(2)]) auto
    moreover have "right (nodes st' a) = right (nodes st a)"
      using Node.prems(2) by (intro writes_right [OF st'(2)]) auto
    moreover have "trep (nodes st') p r = trep (nodes st) p r" for p
      using Node.prems(2) by (intro writes_trep [OF st'(2)]) (auto simp: slots_of_def)
    ultimately show ?thesis
      using 2 a st' Node.prems(1) by (auto intro: writes_mono)
  next
    case 3
    obtain st' where st': "H2K_tree_remove_key st (RightOf a) n (K_of st n) = Some st'"
      "writes (insert (RightOf a) (slots_of r)) st st'"
      "trep (nodes st') (right (nodes st' a)) (del_t (K_of st) n r)"
      using Node.IH(2) [of "RightOf a"] Node.prems by auto
    have "H2K_tree_remove_key st sl n (K_of st n) = Some st'"
      using a 3 st'(1) by (subst H2K_tree_remove_key.simps) (simp add: K_of_def)
    moreover have "getslot st' sl = a" using a sl by (subst writes_get [OF st'(2)]) auto
    moreover have "left (nodes st' a) = left (nodes st a)"
      using Node.prems(2) by (intro writes_left [OF st'(2)]) auto
    moreover have "trep (nodes st') p l = trep (nodes st) p l" for p
      using Node.prems(2) by (intro writes_trep [OF st'(2)]) (auto simp: slots_of_def)
    ultimately show ?thesis
      using 3 a st' Node.prems(1) by (auto intro: writes_mono)
  qed
qed

section \<open>Bisection\<close>

fun bis_t :: "(ptr \<Rightarrow> u64) \<Rightarrow> u64 \<Rightarrow> ptr tree \<Rightarrow> ptr tree \<times> ptr tree" where
  "bis_t K k Leaf = (Leaf, Leaf)"
| "bis_t K k (Node l a r) =
     (if K a \<le> k then (Node l a (fst (bis_t K k r)), snd (bis_t K k r))
      else (fst (bis_t K k l), Node (snd (bis_t K k l)) a r))"

lemma bisect_refines:
  assumes "trep (nodes st) root t" "distinct (inorder t)" "le \<noteq> gt"
    and "owner le \<inter> set_tree t = {}" "owner gt \<inter> set_tree t = {}"
    and "root = NULL \<Longrightarrow> getslot st le = NULL \<and> getslot st gt = NULL"
  shows "\<exists>st'. H2K_tree_bisect st le gt root k = Some st' \<and>
           writes ({le, gt} \<union> slots_of t) st st' \<and>
           trep (nodes st') (getslot st' le) (fst (bis_t (K_of st) k t)) \<and>
           trep (nodes st') (getslot st' gt) (snd (bis_t (K_of st) k t))"
  using assms
proof (induction t arbitrary: st le gt root)
  case Leaf
  then show ?case by (subst H2K_tree_bisect.simps) simp
next
  case (Node l a r)
  have a: "root = a" "a \<noteq> NULL" using Node.prems(1) by auto
  have le: "le \<notin> slots_of (Node l a r)" and gt: "gt \<notin> slots_of (Node l a r)"
    using owner_not_slot [OF Node.prems(4)] owner_not_slot [OF Node.prems(5)] .
  have dj: "slots_of l \<inter> slots_of r = {}" "a \<notin> set_tree l" "a \<notin> set_tree r"
    using Node.prems(2) by (auto simp: slots_of_def)
  show ?case
  proof (cases "K_of st a \<le> k")
    case True
    define st3 where
      "st3 = putslot (putslot (putslot st le a) gt (right (nodes st a))) (RightOf a) NULL"
    have w3: "writes {le, gt, RightOf a} st st3" unfolding st3_def
      by (intro writes_step) simp_all
    have K3: "K_of st3 = K_of st" using w3 by (rule K_of_writes)
    have g3: "getslot st3 (RightOf a) = NULL" "getslot st3 gt = right (nodes st a)" "getslot st3 le = a"
      using gt le Node.prems(3) by (auto simp: st3_def simp del: putslot.simps getslot.simps)
    have "trep (nodes st3) (right (nodes st a)) r"
      using Node.prems(1) le gt dj by (subst writes_trep [OF w3]) auto
    moreover have "owner (RightOf a) \<inter> set_tree r = {}" "owner gt \<inter> set_tree r = {}" "RightOf a \<noteq> gt"
      using dj gt Node.prems(5) by auto
    ultimately obtain st' where st': "H2K_tree_bisect st3 (RightOf a) gt (right (nodes st a)) k = Some st'"
      "writes ({RightOf a, gt} \<union> slots_of r) st3 st'"
      "trep (nodes st') (right (nodes st' a)) (fst (bis_t (K_of st) k r))"
      "trep (nodes st') (getslot st' gt) (snd (bis_t (K_of st) k r))"
      using Node.IH(2) [of st3 "right (nodes st a)" "RightOf a" gt] Node.prems(2) g3 K3 by auto
    have w: "writes ({le, gt, RightOf a} \<union> slots_of r) st st'"
      using w3 st'(2) by (rule writes_trans) auto
    have "H2K_tree_bisect st le gt root k = Some st'"
      using a True st'(1) le gt
      by (subst H2K_tree_bisect.simps) (simp add: Let_def K_of_def st3_def right_putslot)
    moreover have "getslot st' le = a" using le Node.prems(3) g3 by (subst writes_get [OF st'(2)]) auto
    moreover have "trep (nodes st') (left (nodes st' a)) l"
      using Node.prems(1) le gt dj by (subst writes_trep [OF w], force, subst writes_left [OF w]) auto
    moreover have "writes ({le, gt} \<union> slots_of (Node l a r)) st st'"
      using w by (rule writes_mono) auto
    ultimately show ?thesis using True st'(3,4) a by auto
  next
    case False
    define st3 where
      "st3 = putslot (putslot (putslot st gt a) le (left (nodes st a))) (LeftOf a) NULL"
    have w3: "writes {le, gt, LeftOf a} st st3" unfolding st3_def
      by (intro writes_step) simp_all
    have K3: "K_of st3 = K_of st" using w3 by (rule K_of_writes)
    have g3: "getslot st3 (LeftOf a) = NULL" "getslot st3 le = left (nodes st a)" "getslot st3 gt = a"
      using gt le Node.prems(3) by (auto simp: st3_def simp del: putslot.simps getslot.simps)
    have "trep (nodes st3) (left (nodes st a)) l"
      using Node.prems(1) le gt dj by (subst writes_trep [OF w3]) auto
    moreover have "owner (LeftOf a) \<inter> set_tree l = {}" "owner le \<inter> set_tree l = {}" "le \<noteq> LeftOf a"
      using dj le Node.prems(4) by auto
    ultimately obtain st' where st': "H2K_tree_bisect st3 le (LeftOf a) (left (nodes st a)) k = Some st'"
      "writes ({le, LeftOf a} \<union> slots_of l) st3 st'"
      "trep (nodes st') (getslot st' le) (fst (bis_t (K_of st) k l))"
      "trep (nodes st') (left (nodes st' a)) (snd (bis_t (K_of st) k l))"
      using Node.IH(1) [of st3 "left (nodes st a)" le "LeftOf a"] Node.prems(2) g3 K3 by auto
    have w: "writes ({le, gt, LeftOf a} \<union> slots_of l) st st'"
      using w3 st'(2) by (rule writes_trans) auto
    have "H2K_tree_bisect st le gt root k = Some st'"
      using a False st'(1) le gt
      by (subst H2K_tree_bisect.simps) (simp add: Let_def K_of_def st3_def left_putslot)
    moreover have "getslot st' gt = a" using gt Node.prems(3) g3 by (subst writes_get [OF st'(2)]) auto
    moreover have "trep (nodes st') (right (nodes st' a)) r"
      using Node.prems(1) le gt dj by (subst writes_trep [OF w], force, subst writes_right [OF w]) auto
    moreover have "writes ({le, gt} \<union> slots_of (Node l a r)) st st'"
      using w by (rule writes_mono) auto
    ultimately show ?thesis using False st'(3,4) a by auto
  qed
qed

section \<open>In-order characterisations\<close>

lemma kbst_sorted: "kbst K t \<Longrightarrow> sorted (map K (inorder t))"
  by (induction t) (auto simp: sorted_append less_imp_le intro: order_trans)

lemma filter_all: "\<forall>x\<in>set xs. P x \<Longrightarrow> filter P xs = xs"
  by simp

lemma filter_none: "\<forall>x\<in>set xs. \<not> P x \<Longrightarrow> filter P xs = []"
  by (simp add: filter_empty_conv)

lemma inorder_ins_t:
  "kbst K t \<Longrightarrow> inorder (ins_t K s k t) =
     filter (\<lambda>x. K x < k) (inorder t) @ inorder s @ filter (\<lambda>x. k \<le> K x) (inorder t)"
proof (induction t)
  case (Node l a r)
  show ?case
  proof (cases "k \<le> K a")
    case True
    with Node.prems have "\<forall>x\<in>set (inorder r). k \<le> K x" "\<forall>x\<in>set (inorder r). \<not> K x < k" by fastforce+
    with True Node show ?thesis by (simp add: filter_all filter_none)
  next
    case False
    with Node.prems have "\<forall>x\<in>set (inorder l). K x < k" "\<forall>x\<in>set (inorder l). \<not> k \<le> K x" by fastforce+
    with False Node show ?thesis by (simp add: filter_all filter_none)
  qed
qed simp

lemma set_ins_t [simp]: "set_tree (ins_t K s k t) = set_tree t \<union> set_tree s"
  by (induction t) auto

lemma kbst_ins_t:
  "kbst K t \<Longrightarrow> kbst K s \<Longrightarrow> (\<forall>x\<in>set_tree t. \<forall>y\<in>set_tree s. if k \<le> K x then K y \<le> K x else K x < K y)
   \<Longrightarrow> kbst K (ins_t K s k t)"
  by (induction t) auto

lemma inorder_ins_above:
  "kbst K t \<Longrightarrow> \<forall>x\<in>set_tree t. K x < k \<Longrightarrow> inorder (ins_t K s k t) = inorder t @ inorder s"
  by (subst inorder_ins_t) (auto simp: filter_all filter_none not_le)

lemma inorder_del_t:
  "kbst K t \<Longrightarrow> distinct (inorder t) \<Longrightarrow> inorder (del_t K n t) = remove1 n (inorder t)"
proof (induction t)
  case (Node l a r)
  note prems = Node.prems
  consider "a = n" | "a \<noteq> n" "K n \<le> K a" | "a \<noteq> n" "\<not> K n \<le> K a" by blast
  then show ?case
  proof cases
    case 1
    then have n: "n \<notin> set (inorder l)" using Node.prems by auto
    show ?thesis
    proof (cases r)
      case (Node rl b rr)
      then have "\<forall>x\<in>set_tree l. K x < K b" using prems(1) by (auto intro: le_less_trans)
      with prems 1 n Node show ?thesis by (simp add: remove1_append inorder_ins_above)
    qed (use 1 n in \<open>simp add: remove1_append\<close>)
  next
    case 2
    then have "n \<notin> set (inorder r)" using Node.prems by auto
    with 2 Node show ?thesis by (simp add: remove1_append remove1_idem)
  next
    case 3
    then have "n \<notin> set (inorder l)" using Node.prems by auto
    with 3 Node show ?thesis by (simp add: remove1_append)
  qed
qed simp

lemma set_del_t: "set_tree (del_t K n t) \<subseteq> set_tree t"
proof (induction t)
  case (Node l a r)
  then show ?case by (cases r) auto
qed simp

lemma kbst_del_t: "kbst K t \<Longrightarrow> kbst K (del_t K n t)"
proof (induction t)
  case (Node l a r)
  show ?case
  proof (cases "a = n")
    case True
    show ?thesis
    proof (cases r)
      case (Node rl b rr)
      have "\<forall>x\<in>set_tree l. \<forall>y\<in>set_tree r. K x < K y"
        using \<open>kbst K (Node l a r)\<close> by (auto intro: le_less_trans)
      then have "kbst K (ins_t K r (K b) l)"
        using \<open>kbst K (Node l a r)\<close> Node by (intro kbst_ins_t) (auto simp: not_le [symmetric])
      with True Node show ?thesis by simp
    qed (use True Node.prems in simp)
  next
    case False
    with Node set_del_t [of K n l] set_del_t [of K n r] show ?thesis by (simp add: subset_iff)
  qed
qed simp

lemma set_bis_t:
  "set_tree (fst (bis_t K k t)) \<subseteq> set_tree t" "set_tree (snd (bis_t K k t)) \<subseteq> set_tree t"
  by (induction t) auto

lemma inorder_bis_t:
  "kbst K t \<Longrightarrow> inorder (fst (bis_t K k t)) = filter (\<lambda>x. K x \<le> k) (inorder t) \<and>
     inorder (snd (bis_t K k t)) = filter (\<lambda>x. k < K x) (inorder t)"
proof (induction t)
  case (Node l a r)
  show ?case
  proof (cases "K a \<le> k")
    case True
    with Node.prems have "\<forall>x\<in>set (inorder l). K x \<le> k" "\<forall>x\<in>set (inorder l). \<not> k < K x"
      by (auto simp: not_less)
    with True Node show ?thesis by (simp add: filter_all filter_none)
  next
    case False
    with Node.prems have "\<forall>x\<in>set (inorder r). \<not> K x \<le> k" "\<forall>x\<in>set (inorder r). k < K x"
      by (auto simp: not_le)
    with False Node show ?thesis by (simp add: filter_all filter_none)
  qed
qed simp

lemma kbst_bis_t: "kbst K t \<Longrightarrow> kbst K (fst (bis_t K k t)) \<and> kbst K (snd (bis_t K k t))"
proof (induction t)
  case (Node l a r)
  with set_bis_t(1) [of K k r] set_bis_t(2) [of K k l] show ?case by (simp add: subset_iff)
qed simp

section \<open>Searching\<close>

lemma tree_find_correct:
  "trep m root t \<Longrightarrow> kbst (\<lambda>p. key (m p)) t \<Longrightarrow>
   \<exists>p. H2K_tree_find m root k = Some p \<and>
       (if \<exists>x\<in>set_tree t. key (m x) = k then p \<in> set_tree t \<and> key (m p) = k else p = NULL)"
proof (induction t arbitrary: root)
  case Leaf
  then show ?case by (subst H2K_tree_find.simps) simp
next
  case (Node l a r)
  consider "key (m a) = k" | "key (m a) > k" | "key (m a) < k" by fastforce
  then show ?case
  proof cases
    case 1
    with Node.prems show ?thesis by (subst H2K_tree_find.simps) auto
  next
    case 2
    then have "\<not> (\<exists>x\<in>set_tree r. key (m x) = k)" "key (m a) \<noteq> k" using Node.prems(2) by auto
    with 2 Node.prems Node.IH(1) [of "left (m a)"] show ?thesis
      by (subst H2K_tree_find.simps) (auto split: if_splits)
  next
    case 3
    then have "\<not> (\<exists>x\<in>set_tree l. key (m x) = k)" "key (m a) \<noteq> k" "\<not> k < key (m a)"
      using Node.prems(2) by auto
    with 3 Node.prems Node.IH(2) [of "right (m a)"] show ?thesis
      by (subst H2K_tree_find.simps) (auto split: if_splits)
  qed
qed

lemma tree_min_hd:
  "trep m root t \<Longrightarrow> H2K_tree_min m root = Some (if t = Leaf then NULL else hd (inorder t))"
proof (induction t arbitrary: root)
  case Leaf
  then show ?case by (subst H2K_tree_min.simps) simp
next
  case (Node l a r)
  show ?case
  proof (cases "l = Leaf")
    case True
    with Node.prems show ?thesis by (subst H2K_tree_min.simps) simp
  next
    case False
    then have "left (m a) \<noteq> NULL" "inorder l \<noteq> []" using Node.prems by (cases l; auto)+
    with False Node show ?thesis by (subst H2K_tree_min.simps) (auto simp: hd_append)
  qed
qed

section \<open>Iteration\<close>

text \<open>
  \<open>iter_t\<close> is the order in which the iterator visits the nodes. A rotation keeps the
  number of nodes and makes the left subtree smaller.
\<close>

function iter_t :: "ptr tree \<Rightarrow> ptr list" where
  "iter_t Leaf = []"
| "iter_t (Node Leaf a r) = a # iter_t r"
| "iter_t (Node (Node ll b lr) a r) = iter_t (Node ll b (Node lr a r))"
  by pat_completeness auto
termination
  by (relation "measures [size, \<lambda>t. size (Tree.left t)]") auto

lemma iter_t_inorder: "iter_t t = inorder t"
  by (induction t rule: iter_t.induct) simp_all

lemma destructive_iterate_order:
  assumes mem: "\<And>m s. mem_of (set_mem m s) = m"
    and links: "\<And>n s p. p \<noteq> n \<Longrightarrow> left (mem_of (func n s) p) = left (mem_of s p) \<and>
                  right (mem_of (func n s) p) = right (mem_of s p)"
    and obs_mem: "\<And>m s. obs (set_mem m s) = obs s"
    and obs_func: "\<And>n s. obs (func n s) = g n (obs s)"
  shows "trep (mem_of s) root t \<Longrightarrow> distinct (inorder t) \<Longrightarrow>
    \<exists>s'. H2K_tree_destructive_iterate mem_of set_mem func root s = Some s' \<and>
         obs s' = fold g (inorder t) (obs s)"
proof (induction t arbitrary: root s rule: iter_t.induct)
  case 1
  then show ?case by (subst H2K_tree_destructive_iterate.simps) simp
next
  case (2 a r)
  have "trep (mem_of (func a s)) p r = trep (mem_of s) p r" for p
  proof (rule trep_cong)
    fix q assume "q \<in> set_tree r"
    with 2(3) have "q \<noteq> a" by auto
    then show "left (mem_of (func a s) q) = left (mem_of s q) \<and>
      right (mem_of (func a s) q) = right (mem_of s q)" by (rule links)
  qed
  with 2(1) [of "func a s" "right (mem_of s a)"] 2(2,3) obs_func [of a s] show ?case
    by (subst H2K_tree_destructive_iterate.simps) (simp add: Let_def)
next
  case (3 ll b lr a r)
  let ?m2 = "(mem_of s)(a := (mem_of s a)\<lparr>left := right (mem_of s b)\<rparr>, b := (mem_of s b)\<lparr>right := a\<rparr>)"
  have ab: "root = a" "a \<noteq> NULL" "left (mem_of s a) = b" "b \<noteq> NULL" "a \<noteq> b"
    "a \<notin> set_tree ll \<union> set_tree lr \<union> set_tree r" "b \<notin> set_tree ll \<union> set_tree lr \<union> set_tree r"
    using 3(2,3) by auto
  have fr: "trep ?m2 p u = trep (mem_of s) p u" if "a \<notin> set_tree u" "b \<notin> set_tree u" for p u
    using that by (intro trep_cong) auto
  have "trep (mem_of (set_mem ?m2 s)) b (Node ll b (Node lr a r))"
    using ab 3(2) by (simp add: mem fr)
  with 3(1) [of "set_mem ?m2 s" b] 3(3) ab obs_mem show ?case
    by (subst H2K_tree_destructive_iterate.simps) (auto simp: Let_def)
qed

section \<open>Trees as ordered lists of nodes\<close>

text \<open>
  \<open>tlist st v xs\<close>: root variable \<open>v\<close> holds a search tree whose nodes, in key order, are
  \<open>xs\<close>. This is the abstraction the users of the tree rely on.
\<close>

definition tlist :: "tstate \<Rightarrow> nat \<Rightarrow> ptr list \<Rightarrow> bool" where
  "tlist st v xs \<longleftrightarrow> (\<exists>t. trep (nodes st) (vars st v) t \<and> kbst (K_of st) t \<and>
     distinct (inorder t) \<and> inorder t = xs)"

lemma tlist_sorted: "tlist st v xs \<Longrightarrow> sorted (map (K_of st) xs) \<and> distinct xs \<and> NULL \<notin> set xs"
  unfolding tlist_def using kbst_sorted trep_not_null by fastforce

lemma tlist_add:
  assumes "tlist st v xs" "n \<noteq> NULL" "n \<notin> set xs" "left (nodes st n) = NULL" "right (nodes st n) = NULL"
  shows "\<exists>st'. H2K_tree_add st (Var v) n = Some st' \<and> K_of st' = K_of st \<and>
    tlist st' v (filter (\<lambda>x. K_of st x < K_of st n) xs @ n # filter (\<lambda>x. K_of st n \<le> K_of st x) xs)"
proof -
  from assms(1) obtain t where t: "trep (nodes st) (vars st v) t" "kbst (K_of st) t"
    "distinct (inorder t)" "inorder t = xs" unfolding tlist_def by auto
  let ?s = "Node Leaf n Leaf"
  from t(4) have st: "set_tree t = set xs" by (metis set_inorder)
  have s: "trep (nodes st) n ?s" using assms(2,4,5) by simp
  obtain st' where st': "H2K_tree_add_key st (Var v) n (K_of st n) = Some st'"
    "writes (insert (Var v) (slots_of t)) st st'"
    "trep (nodes st') (getslot st' (Var v)) (ins_t (K_of st) ?s (K_of st n) t)"
    using add_key_refines [of st "Var v" t n ?s "K_of st n"] t s st assms(3) by auto
  have K: "K_of st' = K_of st" using st'(2) by (rule K_of_writes)
  have "kbst (K_of st) (ins_t (K_of st) ?s (K_of st n) t)"
    using t(2) by (intro kbst_ins_t) auto
  moreover have "distinct (filter (\<lambda>x. K_of st x < K_of st n) xs @ n # filter (\<lambda>x. K_of st n \<le> K_of st x) xs)"
    using t(3,4) assms(3) by auto
  ultimately have "tlist st' v (filter (\<lambda>x. K_of st x < K_of st n) xs @ n # filter (\<lambda>x. K_of st n \<le> K_of st x) xs)"
    unfolding tlist_def using st'(3) t(2,4) by (intro exI [of _ "ins_t (K_of st) ?s (K_of st n) t"])
      (simp add: K inorder_ins_t)
  with st'(1) K show ?thesis by (auto simp: H2K_tree_add_def K_of_def)
qed

lemma tlist_remove:
  assumes "tlist st v xs"
  shows "\<exists>st'. H2K_tree_remove st (Var v) n = Some st' \<and> K_of st' = K_of st \<and> tlist st' v (remove1 n xs)"
proof -
  from assms obtain t where t: "trep (nodes st) (vars st v) t" "kbst (K_of st) t"
    "distinct (inorder t)" "inorder t = xs" unfolding tlist_def by auto
  obtain st' where st': "H2K_tree_remove_key st (Var v) n (K_of st n) = Some st'"
    "writes (insert (Var v) (slots_of t)) st st'"
    "trep (nodes st') (getslot st' (Var v)) (del_t (K_of st) n t)"
    using remove_key_refines [of st "Var v" t n] t by auto
  have K: "K_of st' = K_of st" using st'(2) by (rule K_of_writes)
  have "tlist st' v (remove1 n xs)"
    unfolding tlist_def using st'(3) t kbst_del_t [OF t(2)]
    by (intro exI [of _ "del_t (K_of st) n t"]) (simp add: K inorder_del_t)
  with st'(1) K show ?thesis by (auto simp: H2K_tree_remove_def K_of_def)
qed

lemma tlist_bisect:
  assumes "tlist st v xs" "le \<noteq> gt" "xs = [] \<Longrightarrow> vars st le = NULL \<and> vars st gt = NULL"
  shows "\<exists>st'. H2K_tree_bisect st (Var le) (Var gt) (vars st v) k = Some st' \<and> K_of st' = K_of st \<and>
    tlist st' le (filter (\<lambda>x. K_of st x \<le> k) xs) \<and> tlist st' gt (filter (\<lambda>x. k < K_of st x) xs)"
proof -
  from assms(1) obtain t where t: "trep (nodes st) (vars st v) t" "kbst (K_of st) t"
    "distinct (inorder t)" "inorder t = xs" unfolding tlist_def by auto
  have "vars st v = NULL \<Longrightarrow> xs = []" using t(1,4) by (cases t) auto
  then obtain st' where st': "H2K_tree_bisect st (Var le) (Var gt) (vars st v) k = Some st'"
    "writes ({Var le, Var gt} \<union> slots_of t) st st'"
    "trep (nodes st') (vars st' le) (fst (bis_t (K_of st) k t))"
    "trep (nodes st') (vars st' gt) (snd (bis_t (K_of st) k t))"
    using bisect_refines [OF t(1,3), of "Var le" "Var gt" k] assms(2,3) by auto
  have K: "K_of st' = K_of st" using st'(2) by (rule K_of_writes)
  have "tlist st' le (filter (\<lambda>x. K_of st x \<le> k) xs)" "tlist st' gt (filter (\<lambda>x. k < K_of st x) xs)"
    unfolding tlist_def using st'(3,4) t inorder_bis_t [OF t(2), of k] kbst_bis_t [OF t(2), of k] K
    by (metis distinct_filter)+
  with st'(1) K show ?thesis by blast
qed

section \<open>Properties\<close>

text \<open>A concrete tree: node 1 (key 5) with node 2 (key 3) to its left and node 3 (key 9) to
  its right, held in variable 0; node 4 (key 5) is not in it.\<close>

definition tree_example :: tstate where
  "tree_example = \<lparr>vars = (\<lambda>_. NULL)(0 := 1),
     nodes = (\<lambda>_. \<lparr>left = NULL, right = NULL, key = 5\<rparr>)
       (1 := \<lparr>left = 2, right = 3, key = 5\<rparr>, 2 := \<lparr>left = NULL, right = NULL, key = 3\<rparr>,
        3 := \<lparr>left = NULL, right = NULL, key = 9\<rparr>)\<rparr>"

lemma tree_example_list: "tlist tree_example 0 [2, 1, 3]"
  unfolding tlist_def
  by (rule exI [of _ "Node (Node Leaf 2 Leaf) 1 (Node Leaf 3 Leaf)"])
     (simp add: tree_example_def K_of_def)

text \<open>
  C35: inserting a fresh node returns and puts it before every node whose key is not
  smaller; removing it again returns and restores the ordered list.
\<close>

theorem tree_add_remove:
  assumes "tlist st v xs" "n \<noteq> NULL" "n \<notin> set xs" "left (nodes st n) = NULL" "right (nodes st n) = NULL"
  shows "\<exists>st1 st2. H2K_tree_add st (Var v) n = Some st1 \<and>
    tlist st1 v (filter (\<lambda>x. K_of st x < K_of st n) xs @ n # filter (\<lambda>x. K_of st n \<le> K_of st x) xs) \<and>
    H2K_tree_remove st1 (Var v) n = Some st2 \<and>
    tlist st2 v (filter (\<lambda>x. K_of st x < K_of st n) xs @ filter (\<lambda>x. K_of st n \<le> K_of st x) xs)"
proof -
  obtain st1 where 1: "H2K_tree_add st (Var v) n = Some st1"
    "tlist st1 v (filter (\<lambda>x. K_of st x < K_of st n) xs @ n # filter (\<lambda>x. K_of st n \<le> K_of st x) xs)"
    using tlist_add [OF assms] by blast
  from tlist_remove [OF 1(2), of n] obtain st2 where "H2K_tree_remove st1 (Var v) n = Some st2"
    "tlist st2 v (filter (\<lambda>x. K_of st x < K_of st n) xs @ filter (\<lambda>x. K_of st n \<le> K_of st x) xs)"
    by (auto simp: remove1_append)
  with 1 show ?thesis by blast
qed

theorem tree_add_remove_witness:
  "\<exists>st1 st2. H2K_tree_add tree_example (Var 0) 4 = Some st1 \<and> tlist st1 0 [2, 4, 1, 3] \<and>
     H2K_tree_remove st1 (Var 0) 4 = Some st2 \<and> tlist st2 0 [2, 1, 3]"
  using tree_add_remove [OF tree_example_list, of 4] by (simp add: tree_example_def K_of_def)

text \<open>
  bisecting at \<open>k\<close> returns and leaves exactly the nodes with key at most \<open>k\<close> in the one
  tree and exactly those with a greater key in the other, both in key order.
\<close>

theorem tree_bisect_splits:
  assumes "tlist st v xs" "le \<noteq> gt" "xs = [] \<Longrightarrow> vars st le = NULL \<and> vars st gt = NULL"
  shows "\<exists>st'. H2K_tree_bisect st (Var le) (Var gt) (vars st v) k = Some st' \<and>
    tlist st' le (filter (\<lambda>x. K_of st x \<le> k) xs) \<and> tlist st' gt (filter (\<lambda>x. k < K_of st x) xs)"
  using tlist_bisect [OF assms] by blast

theorem tree_bisect_splits_witness:
  "\<exists>st'. H2K_tree_bisect tree_example (Var 1) (Var 0) (vars tree_example 0) 5 = Some st' \<and>
     tlist st' 1 [2, 1] \<and> tlist st' 0 [3]"
  using tree_bisect_splits [OF tree_example_list, of 1 0 5] by (simp add: tree_example_def K_of_def)

text \<open>
  the iterator returns and calls the callback on every node of the tree exactly
  once, in key order, whatever the callback does to the links of the node it is given.
\<close>

theorem tree_iterate_in_order:
  assumes "\<And>m s. mem_of (set_mem m s) = m"
    and "\<And>n s p. p \<noteq> n \<Longrightarrow> left (mem_of (func n s) p) = left (mem_of s p) \<and>
           right (mem_of (func n s) p) = right (mem_of s p)"
    and "\<And>m s. obs (set_mem m s) = obs s" and "\<And>n s. obs (func n s) = obs s @ [n]"
    and "trep (mem_of s) root t" and "distinct (inorder t)"
  shows "\<exists>s'. H2K_tree_destructive_iterate mem_of set_mem func root s = Some s' \<and>
              obs s' = obs s @ inorder t"
proof -
  have "fold (\<lambda>n ns. ns @ [n]) xs ys = ys @ xs" for xs ys :: "ptr list"
    by (induction xs arbitrary: ys) auto
  moreover have "\<exists>s'. H2K_tree_destructive_iterate mem_of set_mem func root s = Some s' \<and>
      obs s' = fold (\<lambda>n ns. ns @ [n]) (inorder t) (obs s)"
    using assms(5,6)
    by (rule destructive_iterate_order [where g = "\<lambda>n ns. ns @ [n]" and obs = obs, rotated -2])
      (fact assms)+
  ultimately show ?thesis by simp
qed

theorem tree_iterate_in_order_witness:
  "\<exists>s'. H2K_tree_destructive_iterate fst (\<lambda>m s. (m, snd s))
      (\<lambda>n s. ((fst s)(n := \<lparr>left = NULL, right = NULL, key = 0\<rparr>), snd s @ [n]))
      1 (nodes tree_example, []) = Some s' \<and> snd s' = [2, 1, 3]"
proof -
  have t: "trep (fst (nodes tree_example, [])) 1 (Node (Node Leaf 2 Leaf) 1 (Node Leaf 3 Leaf))"
    by (simp add: tree_example_def)
  show ?thesis
    using tree_iterate_in_order [where mem_of = fst and set_mem = "\<lambda>m s. (m, snd s)" and obs = snd
        and func = "\<lambda>n s. ((fst s)(n := \<lparr>left = NULL, right = NULL, key = 0\<rparr>), snd s @ [n])", OF _ _ _ _ t]
    by simp
qed

text \<open>
  \<open>H2K_tree_max\<close> follows the left link where the largest key is to the right: on the
  example it returns node 2, the smallest. No code of the kernel calls it.
\<close>

lemma tree_max_example: "H2K_tree_max (nodes tree_example) 1 = Some 2"
  by (subst H2K_tree_max.simps, subst H2K_tree_max.simps) (simp add: tree_example_def)

end
