(* ===== verification/Kernel_State.thy ===== *)
theory Kernel_State
  imports Ring Treenode
begin

text \<open>
  The shared state of the kernel: thread contexts (\<^verbatim>\<open>kernel/data/context/context.h\<close>),
  virtual machine blocks (\<^verbatim>\<open>kernel/data/vm/vmblock.h\<close>), thread identifiers
  (\<^verbatim>\<open>kernel/data/idtype/idtype.h\<close>, \<^verbatim>\<open>kernel/thread/id/id.h\<close>), the kernel globals
  (\<^verbatim>\<open>kernel/data/globals/globals.h\<close>) that the modelled operations use, and the machine
  registers they read and write (\<^verbatim>\<open>kernel/util/hw/hw.h\<close>).

  The union fields of the C structures are modelled by the members the code uses. The
  atomic status word is split into its bytes: the atomic operations of the modelled code
  only touch bits 0 to 7, the byte \<open>vmstatus\<close>. Arrays of the globals are functions of the
  index; every index the operations use is bounded where it is computed or by an
  invariant. The big kernel lock and the TLB lock are ghost bits, set while some hardware
  thread holds the lock. The hardware TLB is the pair of its probe and read instructions;
  \<open>umem\<close> is the memory of the current address space as the kernel accesses it by virtual
  address.
\<close>

section \<open>Thread identifiers\<close>

record H2K_id_t =
  reserved :: "10 word"
  cpuidx :: "16 word"
  vmidx :: "6 word"

definition id_raw :: "H2K_id_t \<Rightarrow> u32" where
  "id_raw i = ucast (reserved i) OR push_bit 10 (ucast (cpuidx i)) OR push_bit 26 (ucast (vmidx i))"

definition id_of_raw :: "u32 \<Rightarrow> H2K_id_t" where
  "id_of_raw w = \<lparr>reserved = ucast w, cpuidx = ucast (drop_bit 10 w), vmidx = ucast (drop_bit 26 w)\<rparr>"

lemma id_of_raw_raw [simp]: "id_of_raw (id_raw i) = i"
  by (rule H2K_id_t.equality; simp add: id_of_raw_def id_raw_def; rule bit_word_eqI)
     (auto simp: bit_simps dest: bit_imp_le_length)

lemma id_raw_of_raw [simp]: "id_raw (id_of_raw w) = w"
proof (rule bit_word_eqI)
  fix n assume "n < LENGTH(32)"
  then show "bit (id_raw (id_of_raw w)) n = bit w n"
    by (cases "n < 10"; cases "n < 26") (auto simp: id_of_raw_def id_raw_def bit_simps)
qed

section \<open>Thread contexts\<close>

datatype tstatus = H2K_STATUS_DEAD | H2K_STATUS_RUNNING | H2K_STATUS_READY
  | H2K_STATUS_BLOCKED | H2K_STATUS_VMWAIT | H2K_STATUS_INTBLOCKED

record H2K_thread_context = ringnode +
  tid :: u8
  hthread :: u8
  prio :: u8
  status :: tstatus
  vmstatus :: u8
  base_prio :: u8
  tlbidxmask :: u8
  id :: H2K_id_t
  vmblock :: ptr
  trapmask :: u32
  elr :: u32
  tree :: treenode
  cpuint_pending :: u16
  cpuint_enabled :: u16
  gevb :: u32
  totalcycles :: u64
  futex_ptr :: "34 word"
  continuation :: u32
  ssr :: u32
  ccr :: u32
  r00 :: u32
  r01 :: u32
  r02 :: u32
  r03 :: u32
  r28 :: u32
  r29 :: u32
  ugp :: u32
  gelr :: u32
  gssr :: u32
  gosp :: u32
  gbadva :: u32
  usr :: u32
  gp :: u32
  vwctrl :: u32

text \<open>The extension enables of the saved status registers.\<close>

abbreviation ssr_xe :: "H2K_thread_context \<Rightarrow> bool" where "ssr_xe t \<equiv> bit (ssr t) 31"
abbreviation ssr_xe2 :: "H2K_thread_context \<Rightarrow> bool" where "ssr_xe2 t \<equiv> bit (ssr t) 26"
abbreviation ccr_xe3 :: "H2K_thread_context \<Rightarrow> bool" where "ccr_xe3 t \<equiv> bit (ccr t) 28"

text \<open>The low 32 bits of the 34-bit futex pointer.\<close>

definition futex_ptr_lo :: "H2K_thread_context \<Rightarrow> u32" where
  "futex_ptr_lo t = ucast (futex_ptr t)"

section \<open>Address-space entries\<close>

text \<open>An entry of the ASID table (\<^verbatim>\<open>kernel/mem/asid/asid_types.h\<close>).\<close>

record H2K_asid_entry_t =
  ptb :: u32
  count :: "12 word"
  vmid :: "6 word"
  ttype :: "3 word"
  log_maxhops :: "3 word"
  extra :: u8

text \<open>An offset translation (\<^verbatim>\<open>libs/h2/common/h2_common_vmblock.h\<close>) packed in a word.\<close>

record H2K_offset_t =
  os_size :: "4 word"
  os_cccc :: "3 word"
  os_weak_ccc :: bool
  os_xwru :: "4 word"
  os_pages :: "20 word"

definition offset_raw :: "H2K_offset_t \<Rightarrow> u32" where
  "offset_raw o' = ucast (os_size o') OR push_bit 4 (ucast (os_cccc o')) OR push_bit 7 (of_bool (os_weak_ccc o')) OR
     push_bit 8 (ucast (os_xwru o')) OR push_bit 12 (ucast (os_pages o'))"

definition offset_of_raw :: "u32 \<Rightarrow> H2K_offset_t" where
  "offset_of_raw w = \<lparr>os_size = ucast w, os_cccc = ucast (drop_bit 4 w), os_weak_ccc = bit w 7,
     os_xwru = ucast (drop_bit 8 w), os_pages = ucast (drop_bit 12 w)\<rparr>"

section \<open>Virtual machine blocks\<close>

text \<open>
  The chain of interrupt controllers of a VM is an array of pairs of a number of
  interrupts and an operation table.
\<close>

datatype intops = H2K_vm_cpuint_ops | H2K_vm_shint_ops | H2K_vm_badint_ops

text \<open>The contexts of a VM are an array of structures of \<open>CONTEXT_SIZE\<close> bytes.\<close>

definition CONTEXT_SIZE :: nat where "CONTEXT_SIZE = 320"

record H2K_vmblock_t =
  vm_vmidx :: u32
  parent :: H2K_id_t
  vm_status :: u32
  vm_trapmask :: u32
  guestmap :: H2K_asid_entry_t
  vm_tlbidxmask :: u8
  pmap :: u32
  fence_lo :: u32
  fence_hi :: u32
  waiting_cpus :: u64
  num_ints :: u32
  pending :: "nat \<Rightarrow> u32"
  enable :: "nat \<Rightarrow> u32"
  percpu_mask :: "nat \<Rightarrow> nat \<Rightarrow> u32"
  int_v2p :: "(nat \<Rightarrow> u16) option"
  intinfo :: "(u32 \<times> intops) list"
  max_cpus :: u32
  num_cpus :: u32
  bestprio :: u32
  intpool :: ptr
  intpool_anypending :: u32
  intpool_pending :: "nat \<Rightarrow> u32"
  free_threads :: ptr
  contexts :: ptr
  flags :: u32

section \<open>Globals and machine\<close>

datatype inthandler = NoHandler | H2K_resched_h | H2K_resched_cluster_h | H2K_vm_ipi_do_h
  | H2K_timer_int_h | H2K_popup_int_h | H2K_intpool_int_h | H2K_fastint_h | H2K_passthru_h

text \<open>
  Commands to the hardware TLB. What a probe or a read returns is a function of the
  commands given so far.
\<close>

datatype tlb_cmd = TLB_INVASID u32 | TLB_WRITE u32 u64 | TLB_CWRITE u32 u64

text \<open>A tag of the kernel heap (\<^verbatim>\<open>kernel/mem/alloc/alloc.h\<close>).\<close>

record H2K_mem_alloc_tag_t =
  tag_free :: bool
  tag_released :: bool
  tag_size :: "30 word"

text \<open>The software TLB of one address space (\<^verbatim>\<open>kernel/mem/stlb/stlb.h\<close>); \<open>baseaddr\<close> is an index into the bulk array.\<close>

record H2K_mem_stlb_asid_info_t =
  valids :: "nat \<Rightarrow> u64"
  baseaddr :: nat

record H2K_kg_t =
  thr :: "ptr \<Rightarrow> H2K_thread_context"
  vmb :: "ptr \<Rightarrow> H2K_vmblock_t"
  ready_valids :: "nat \<Rightarrow> u64"
  ready :: "nat \<Rightarrow> ptr"
  priomask :: u32
  wait_mask :: u32
  runlist :: "nat \<Rightarrow> ptr"
  runlist_prios :: "nat \<Rightarrow> u16"
  hthreads :: u32
  cluster_clusters :: u32
  cluster_hthreads :: u32
  cluster_mask :: "nat \<Rightarrow> u32"
  cluster_sched :: u32
  coproc_max :: u32
  coproc_count :: "nat \<Rightarrow> u32"
  vmblocks :: "nat \<Rightarrow> ptr"
  int_handler :: "nat \<Rightarrow> inthandler"
  int_param :: "nat \<Rightarrow> ptr"
  futexhash :: "nat \<Rightarrow> ptr"
  htid :: u32
  hw_ssr :: "nat \<Rightarrow> u32"
  hw_ccr :: "nat \<Rightarrow> u32"
  sgp :: "nat \<Rightarrow> ptr"
  imask :: "nat \<Rightarrow> u32"
  ipend :: u32
  iad :: u32
  iassign :: "nat \<Rightarrow> u16"
  bkl :: bool
  tlb_lock :: bool
  tlb_hist :: "tlb_cmd list"
  hw_tlbp :: "tlb_cmd list \<Rightarrow> u32 \<Rightarrow> u32"
  hw_tlbr :: "tlb_cmd list \<Rightarrow> u32 \<Rightarrow> u64"
  umem :: "u32 \<Rightarrow> u32"
  asid_table :: "nat \<Rightarrow> H2K_asid_entry_t"
  stlbptr :: "(nat \<Rightarrow> H2K_mem_stlb_asid_info_t) option"
  stlb_bulk :: "nat \<Rightarrow> u64"
  pcycle_reg :: u64
  timer_reg :: u64
  next_ticks :: u64
  last_ticks :: u64
  last_pcycles :: u64
  timeouts :: ptr
  devptr :: "nat \<Rightarrow> u32"
  timer_intnum :: u32
  mask_for_ipi :: u32
  alloc_base :: ptr
  alloc_heap :: "nat \<Rightarrow> H2K_mem_alloc_tag_t"
  alloc_heap_size :: u32
  oncpu_start :: "nat \<Rightarrow> u64"
  hw_elr :: "nat \<Rightarrow> u32"
  hw_g10 :: "nat \<Rightarrow> u64"
  hw_g32 :: "nat \<Rightarrow> u64"
  hw_gp :: u32
  l2_ack :: "nat \<Rightarrow> u32"
  l2_int :: "nat \<Rightarrow> u32"
  last_tlb_index :: u32
  dma_version :: u32
  tlb_size :: u32
  tlb_index :: u32
  tlb_index_dma :: u32
  last_tlb_index_dma :: u32
  tlb_size_dma :: u32
  dma_tlb_start :: u32
  pinned_tlb_mask :: u64
  kernel_npages :: u32
  hw_tlboc :: "tlb_cmd list \<Rightarrow> u64 \<Rightarrow> u32"
  hw_ctlbw :: "tlb_cmd list \<Rightarrow> u64 \<Rightarrow> u32 \<Rightarrow> u32"
  physmem :: "u64 \<Rightarrow> u32"
  tcm_base :: u32
  tcm_size :: u32
  vtcm_base :: u32
  vtcm_size :: u32
  tmpmap_lock :: bool
  waitcycles :: "nat \<Rightarrow> u64"
  oncpu_wait :: "nat \<Rightarrow> u64"
  hw_modectl :: u32
  hw_tid :: "nat \<Rightarrow> u8"
  hw_pmu :: "nat \<Rightarrow> u32"
  fatal_hook :: u32
  fatal_hook_arg :: u32
  fatal_hook_ssr :: u32
  fatal_hook_gp :: u32
  noc_mbase :: u32
  noc_sbase :: u32
  hthreads_mask :: u32
  coproc_max_save :: u32
  coproc_contexts :: u32
  hmx_units :: u32
  hlx_contexts :: u32
  hvx_vlength :: u32
  core_rev :: u32
  phys_offset :: u32
  multicore_shift :: u32
  tcm_offset :: u32
  core_id :: u32
  core_count :: u32
  build_id :: u32
  l2size :: u32
  l2tags :: u32
  info_boot_flags :: u32
  info_stlb :: u32
  kernel_error :: u32
  syscfg_val :: u32
  ecc_enable :: u32
  gpio_reg :: u64
  hmx_rsc_seq_power_on_start_addr :: u32
  hmx_rsc_seq_power_off_start_addr :: u32
  fastint_ssr :: u32
  fastint_gp :: u32
  fastint_contexts :: "nat \<Rightarrow> ptr"
  hw_hthreads :: u32
  hw_syscfg :: u32
  hw_livelock :: u32
  hw_cfgbase :: u32
  hw_rev :: u32
  hw_vwctrl :: "nat \<Rightarrow> u32"
  hw_dmcfg :: "u32 \<Rightarrow> u32"
  devmem :: "u32 \<Rightarrow> u32"

definition MAX_PRIOS :: nat where "MAX_PRIOS = 256"
definition MAX_HTHREADS :: nat where "MAX_HTHREADS = 16"
definition MAX_INTERRUPTS :: nat where "MAX_INTERRUPTS = 512"

text \<open>A store to fields of one thread context or VM block.\<close>

definition upd_thr :: "ptr \<Rightarrow> (H2K_thread_context \<Rightarrow> H2K_thread_context) \<Rightarrow> H2K_kg_t \<Rightarrow> H2K_kg_t" where
  "upd_thr p f s = s\<lparr>thr := (thr s)(p := f (thr s p))\<rparr>"

definition upd_vmb :: "ptr \<Rightarrow> (H2K_vmblock_t \<Rightarrow> H2K_vmblock_t) \<Rightarrow> H2K_kg_t \<Rightarrow> H2K_kg_t" where
  "upd_vmb p f s = s\<lparr>vmb := (vmb s)(p := f (vmb s p))\<rparr>"

lemma upd_thr_sel [simp]:
  "thr (upd_thr p f s) q = (if q = p then f (thr s p) else thr s q)"
  "thr (upd_vmb v g s) = thr s" "vmb (upd_thr p f s) = vmb s"
  "vmb (upd_vmb v g s) w = (if w = v then g (vmb s v) else vmb s w)"
  by (simp_all add: upd_thr_def upd_vmb_def)

lemma upd_thr_globals [simp]:
  "ready_valids (upd_thr p f s) = ready_valids s" "ready (upd_thr p f s) = ready s"
  "priomask (upd_thr p f s) = priomask s" "wait_mask (upd_thr p f s) = wait_mask s"
  "runlist (upd_thr p f s) = runlist s" "runlist_prios (upd_thr p f s) = runlist_prios s"
  "hthreads (upd_thr p f s) = hthreads s" "futexhash (upd_thr p f s) = futexhash s"
  "vmblocks (upd_thr p f s) = vmblocks s" "bkl (upd_thr p f s) = bkl s"
  "htid (upd_thr p f s) = htid s" "ipend (upd_thr p f s) = ipend s" "imask (upd_thr p f s) = imask s"
  "int_handler (upd_thr p f s) = int_handler s" "int_param (upd_thr p f s) = int_param s"
  "umem (upd_thr p f s) = umem s" "sgp (upd_thr p f s) = sgp s" "cluster_sched (upd_thr p f s) = cluster_sched s"
  "timeouts (upd_thr p f s) = timeouts s" "next_ticks (upd_thr p f s) = next_ticks s"
  by (simp_all add: upd_thr_def)

lemma upd_vmb_globals [simp]:
  "ready_valids (upd_vmb p g s) = ready_valids s" "ready (upd_vmb p g s) = ready s"
  "priomask (upd_vmb p g s) = priomask s" "wait_mask (upd_vmb p g s) = wait_mask s"
  "runlist (upd_vmb p g s) = runlist s" "runlist_prios (upd_vmb p g s) = runlist_prios s"
  "hthreads (upd_vmb p g s) = hthreads s" "futexhash (upd_vmb p g s) = futexhash s"
  "vmblocks (upd_vmb p g s) = vmblocks s" "bkl (upd_vmb p g s) = bkl s"
  "htid (upd_vmb p g s) = htid s" "ipend (upd_vmb p g s) = ipend s" "cluster_sched (upd_vmb p g s) = cluster_sched s"
  "timeouts (upd_vmb p g s) = timeouts s" "next_ticks (upd_vmb p g s) = next_ticks s"
  by (simp_all add: upd_vmb_def)

text \<open>
  How a kernel entry ends: it returns a value to the caller, or it has switched the
  hardware thread from one context to another (\<open>NULL\<close> for a sleeping hardware thread).
\<close>

datatype 'a outcome = Ret 'a | Switch ptr ptr

section \<open>Machine operations\<close>

definition BKL_LOCK :: "H2K_kg_t \<Rightarrow> H2K_kg_t" where
  "BKL_LOCK s = s\<lparr>bkl := True\<rparr>"

definition BKL_UNLOCK :: "H2K_kg_t \<Rightarrow> H2K_kg_t" where
  "BKL_UNLOCK s = s\<lparr>bkl := False\<rparr>"

definition change_imask :: "nat \<Rightarrow> u32 \<Rightarrow> H2K_kg_t \<Rightarrow> H2K_kg_t" where
  "change_imask t m s = s\<lparr>imask := (imask s)(t := m)\<rparr>"

text \<open>The \<open>imask\<close> register written here is that of the executing hardware thread.\<close>

definition highprio_imask :: "u32 \<Rightarrow> H2K_kg_t \<Rightarrow> H2K_kg_t" where
  "highprio_imask t s = s\<lparr>imask := (imask s)(unat (htid s) := -1)\<rparr>"

definition lowprio_imask :: "u32 \<Rightarrow> H2K_kg_t \<Rightarrow> H2K_kg_t" where
  "lowprio_imask t s = s\<lparr>imask := (imask s)(unat (htid s) := 0)\<rparr>"

definition RESCHED_INT_INTMASK :: u32 where "RESCHED_INT_INTMASK = push_bit 1 1"
definition CLUSTER_RESCHED_INT_INTMASK :: u32 where "CLUSTER_RESCHED_INT_INTMASK = push_bit 6 1"

definition swi :: "u32 \<Rightarrow> H2K_kg_t \<Rightarrow> H2K_kg_t" where
  "swi m s = s\<lparr>ipend := ipend s OR m\<rparr>"

definition ciad :: "u32 \<Rightarrow> H2K_kg_t \<Rightarrow> H2K_kg_t" where
  "ciad m s = s\<lparr>iad := iad s AND NOT m\<rparr>"

definition resched_int :: "H2K_kg_t \<Rightarrow> H2K_kg_t" where
  "resched_int = swi RESCHED_INT_INTMASK"

definition cluster_resched_int :: "H2K_kg_t \<Rightarrow> H2K_kg_t" where
  "cluster_resched_int = swi CLUSTER_RESCHED_INT_INTMASK"

definition iassignw :: "nat \<Rightarrow> u32 \<Rightarrow> H2K_kg_t \<Rightarrow> H2K_kg_t" where
  "iassignw intno threadmask s = s\<lparr>iassign := (iassign s)(intno := ucast threadmask)\<rparr>"

definition H2K_get_ssr :: "H2K_kg_t \<Rightarrow> u32" where
  "H2K_get_ssr s = hw_ssr s (unat (htid s))"

definition H2K_set_ssr :: "u32 \<Rightarrow> H2K_kg_t \<Rightarrow> H2K_kg_t" where
  "H2K_set_ssr v s = s\<lparr>hw_ssr := (hw_ssr s)(unat (htid s) := v)\<rparr>"

definition H2K_get_ccr :: "H2K_kg_t \<Rightarrow> u32" where
  "H2K_get_ccr s = hw_ccr s (unat (htid s))"

definition H2K_set_ccr :: "u32 \<Rightarrow> H2K_kg_t \<Rightarrow> H2K_kg_t" where
  "H2K_set_ccr v s = s\<lparr>hw_ccr := (hw_ccr s)(unat (htid s) := v)\<rparr>"

definition siad :: "u32 \<Rightarrow> H2K_kg_t \<Rightarrow> H2K_kg_t" where
  "siad m s = s\<lparr>iad := iad s OR m\<rparr>"

text \<open>
  Interrupts from 32 on belong to the second-level controller; its acknowledge, disable and
  trigger registers are arrays of words.
\<close>

definition H2K_intcontrol_enable :: "u32 \<Rightarrow> H2K_kg_t \<Rightarrow> H2K_kg_t" where
  "H2K_intcontrol_enable intno s =
     (let index = drop_bit 5 (intno - 32); m = push_bit (unat (intno AND 31)) 1
      in if intno < 32 then ciad m s else s\<lparr>l2_ack := (l2_ack s)(unat index := m)\<rparr>)"

definition H2K_intcontrol_disable :: "u32 \<Rightarrow> H2K_kg_t \<Rightarrow> H2K_kg_t" where
  "H2K_intcontrol_disable intno s =
     (let index = drop_bit 5 (intno - 32); m = push_bit (unat (intno AND 31)) 1
      in if intno < 32 then siad m s else s\<lparr>l2_int := (l2_int s)(0x60 + unat index := m)\<rparr>)"

definition H2K_intcontrol_raise :: "u32 \<Rightarrow> H2K_kg_t \<Rightarrow> H2K_kg_t" where
  "H2K_intcontrol_raise intno s =
     (let index = drop_bit 5 (intno - 32); m = push_bit (unat (intno AND 31)) 1
      in if intno < 32 then swi m s else s\<lparr>l2_int := (l2_int s)(0x120 + unat index := m)\<rparr>)"

text \<open>The guest registers of the executing hardware thread, as register pairs.\<close>

definition pair :: "u32 \<Rightarrow> u32 \<Rightarrow> u64" where
  "pair lo hi = ucast lo OR push_bit 32 (ucast hi)"

definition pair_lo :: "u64 \<Rightarrow> u32" where "pair_lo w = ucast w"
definition pair_hi :: "u64 \<Rightarrow> u32" where "pair_hi w = ucast (drop_bit 32 w)"

lemma pair_sel [simp]: "pair_lo (pair a b) = a" "pair_hi (pair a b) = b"
  by (rule bit_word_eqI; auto simp: pair_def pair_lo_def pair_hi_def bit_simps dest: bit_imp_le_length)+

definition H2K_gregs_save :: "ptr \<Rightarrow> H2K_kg_t \<Rightarrow> H2K_kg_t" where
  "H2K_gregs_save me s =
     (let g32 = hw_g32 s (unat (htid s)); g10 = hw_g10 s (unat (htid s))
      in upd_thr me (\<lambda>t. t\<lparr>gosp := pair_lo g32, gbadva := pair_hi g32, gelr := pair_lo g10, gssr := pair_hi g10\<rparr>) s)"

definition H2K_gregs_restore :: "ptr \<Rightarrow> H2K_kg_t \<Rightarrow> H2K_kg_t" where
  "H2K_gregs_restore me s =
     s\<lparr>hw_g32 := (hw_g32 s)(unat (htid s) := pair (gosp (thr s me)) (gbadva (thr s me))),
       hw_g10 := (hw_g10 s)(unat (htid s) := pair (gelr (thr s me)) (gssr (thr s me)))\<rparr>"

definition H2K_get_elr :: "H2K_kg_t \<Rightarrow> u32" where
  "H2K_get_elr s = hw_elr s (unat (htid s))"

definition H2K_set_elr :: "u32 \<Rightarrow> H2K_kg_t \<Rightarrow> H2K_kg_t" where
  "H2K_set_elr v s = s\<lparr>hw_elr := (hw_elr s)(unat (htid s) := v)\<rparr>"

section \<open>From identifiers to contexts\<close>

text \<open>
  The comparison is unsigned: \<open>max_cpus - 1\<close> wraps to the largest word when a VM block
  has no CPUs, as in the C code.
\<close>

definition H2K_id_cpuidx_to_context :: "H2K_kg_t \<Rightarrow> ptr \<Rightarrow> u32 \<Rightarrow> ptr" where
  "H2K_id_cpuidx_to_context s vb i =
     (if i > max_cpus (vmb s vb) - 1 then NULL else contexts (vmb s vb) + unat i * CONTEXT_SIZE)"

definition H2K_id_to_context :: "H2K_kg_t \<Rightarrow> H2K_id_t \<Rightarrow> ptr" where
  "H2K_id_to_context s i =
     (if vmblocks s (unat (vmidx i)) = NULL then NULL
      else H2K_id_cpuidx_to_context s (vmblocks s (unat (vmidx i))) (ucast (cpuidx i)))"

definition H2K_id_from_context :: "H2K_kg_t \<Rightarrow> ptr \<Rightarrow> H2K_id_t" where
  "H2K_id_from_context s t = id (thr s t)"

section \<open>Zero-initialised state\<close>

text \<open>The kernel's data section before initialisation; a base for concrete states.\<close>

definition thread0 :: H2K_thread_context where
  "thread0 = \<lparr>next = NULL, prev = NULL, tid = 0, hthread = 0, prio = 0, status = H2K_STATUS_DEAD,
     vmstatus = 0, base_prio = 0, tlbidxmask = 0, id = id_of_raw 0, vmblock = NULL, trapmask = 0,
     elr = 0, tree = \<lparr>left = NULL, right = NULL, key = 0\<rparr>, cpuint_pending = 0, cpuint_enabled = 0,
     gevb = 0, totalcycles = 0, futex_ptr = 0, continuation = 0, ssr = 0, ccr = 0, r00 = 0, r01 = 0,
     r02 = 0, r03 = 0, r28 = 0, r29 = 0, ugp = 0, gelr = 0, gssr = 0, gosp = 0, gbadva = 0, usr = 0, gp = 0, vwctrl = 0\<rparr>"

definition asid_entry0 :: H2K_asid_entry_t where
  "asid_entry0 = \<lparr>ptb = 0, count = 0, vmid = 0, ttype = 0, log_maxhops = 0, extra = 0\<rparr>"

definition vmblock0 :: H2K_vmblock_t where
  "vmblock0 = \<lparr>vm_vmidx = 0, parent = id_of_raw 0, vm_status = 0, vm_trapmask = 0,
     guestmap = asid_entry0, vm_tlbidxmask = 0, pmap = 0,
     fence_lo = 0, fence_hi = 0, waiting_cpus = 0, num_ints = 0, pending = (\<lambda>_. 0), enable = (\<lambda>_. 0),
     percpu_mask = (\<lambda>_ _. 0), int_v2p = None, intinfo = [], max_cpus = 0, num_cpus = 0, bestprio = 0,
     intpool = NULL, intpool_anypending = 0, intpool_pending = (\<lambda>_. 0), free_threads = NULL,
     contexts = NULL, flags = 0\<rparr>"

definition kg0 :: H2K_kg_t where
  "kg0 = \<lparr>thr = (\<lambda>_. thread0), vmb = (\<lambda>_. vmblock0), ready_valids = (\<lambda>_. 0), ready = (\<lambda>_. NULL),
     priomask = 0, wait_mask = 0, runlist = (\<lambda>_. NULL), runlist_prios = (\<lambda>_. 0), hthreads = 0,
     cluster_clusters = 0, cluster_hthreads = 0, cluster_mask = (\<lambda>_. 0), cluster_sched = 0,
     coproc_max = 0, coproc_count = (\<lambda>_. 0), vmblocks = (\<lambda>_. NULL), int_handler = (\<lambda>_. NoHandler),
     int_param = (\<lambda>_. NULL), futexhash = (\<lambda>_. NULL), htid = 0, hw_ssr = (\<lambda>_. 0), hw_ccr = (\<lambda>_. 0),
     sgp = (\<lambda>_. NULL), imask = (\<lambda>_. 0), ipend = 0, iad = 0, iassign = (\<lambda>_. 0),
     bkl = False, tlb_lock = False,
     tlb_hist = [], hw_tlbp = (\<lambda>_ _. push_bit 31 1), hw_tlbr = (\<lambda>_ _. 0), umem = (\<lambda>_. 0),
     asid_table = (\<lambda>_. asid_entry0), stlbptr = None, stlb_bulk = (\<lambda>_. 0), pcycle_reg = 0, timer_reg = 0,
     next_ticks = 0, last_ticks = 0, last_pcycles = 0, timeouts = NULL, devptr = (\<lambda>_. 0), timer_intnum = 0,
     mask_for_ipi = 0, alloc_base = 0, alloc_heap = (\<lambda>_. \<lparr>tag_free = False, tag_released = False, tag_size = 0\<rparr>),
     alloc_heap_size = 0, oncpu_start = (\<lambda>_. 0), hw_elr = (\<lambda>_. 0), hw_g10 = (\<lambda>_. 0), hw_g32 = (\<lambda>_. 0),
     hw_gp = 0, l2_ack = (\<lambda>_. 0), l2_int = (\<lambda>_. 0), last_tlb_index = 0, dma_version = 0,
     tlb_size = 0, tlb_index = 0, tlb_index_dma = 0, last_tlb_index_dma = 0, tlb_size_dma = 0, dma_tlb_start = 0, pinned_tlb_mask = 0,
     kernel_npages = 0, hw_tlboc = (\<lambda>_ _. push_bit 31 1), hw_ctlbw = (\<lambda>_ _ _. push_bit 31 1), physmem = (\<lambda>_. 0),
     tcm_base = 0, tcm_size = 0, vtcm_base = 0, vtcm_size = 0, tmpmap_lock = False, waitcycles = (\<lambda>_. 0),
     oncpu_wait = (\<lambda>_. 0), hw_modectl = 0, hw_tid = (\<lambda>_. 0), hw_pmu = (\<lambda>_. 0), fatal_hook = 0,
     fatal_hook_arg = 0, fatal_hook_ssr = 0, fatal_hook_gp = 0, noc_mbase = 0, noc_sbase = 0,
     hthreads_mask = 0, coproc_max_save = 0, coproc_contexts = 0, hmx_units = 0, hlx_contexts = 0, hvx_vlength = 0, core_rev = 0,
     phys_offset = 0, multicore_shift = 0, tcm_offset = 0, core_id = 0, core_count = 0, build_id = 0, l2size = 0, l2tags = 0,
     info_boot_flags = 0, info_stlb = 0, kernel_error = 0, syscfg_val = 0, ecc_enable = 0, gpio_reg = 0,
     hmx_rsc_seq_power_on_start_addr = 0, hmx_rsc_seq_power_off_start_addr = 0, fastint_ssr = 0, fastint_gp = 0,
     fastint_contexts = (\<lambda>_. NULL), hw_hthreads = 1, hw_syscfg = 0, hw_livelock = 0, hw_cfgbase = 0, hw_rev = 0,
     hw_vwctrl = (\<lambda>_. 0), hw_dmcfg = (\<lambda>_. 0), devmem = (\<lambda>_. 0)\<rparr>"

lemma kg0_simps [simp]:
  "thr kg0 p = thread0" "vmb kg0 p = vmblock0" "ready_valids kg0 i = 0" "ready kg0 i = NULL"
  "priomask kg0 = 0" "wait_mask kg0 = 0" "runlist kg0 i = NULL" "runlist_prios kg0 i = 0"
  "hthreads kg0 = 0" "cluster_sched kg0 = 0" "futexhash kg0 i = NULL" "htid kg0 = 0"
  "ipend kg0 = 0" "bkl kg0 = False" "vmblocks kg0 i = NULL" "umem kg0 w = 0"
  by (simp_all add: kg0_def)

lemma thread0_simps [simp]:
  "prio thread0 = 0" "status thread0 = H2K_STATUS_DEAD" "hthread thread0 = 0" "vmstatus thread0 = 0"
  "next thread0 = NULL" "prev thread0 = NULL" "futex_ptr thread0 = 0" "base_prio thread0 = 0"
  by (simp_all add: thread0_def)

end
