(* ===== verification/Readylist.thy ===== *)
theory Readylist
  imports Kernel_State
begin

text \<open>
  The ready list, \<^verbatim>\<open>kernel/data/readylist/readylist.h\<close>: one ring of ready threads per
  priority and a 256-bit map of the priorities whose ring is not empty. Smaller numbers are
  better priorities. The cluster-aware choice of the head (\<open>H2K_ready_head\<close>) and the
  coprocessor accounting \<open>xex\<close> of \<^verbatim>\<open>globals.h\<close> are included.

  \<open>ready_rep s rq\<close> says that the ready list of \<open>s\<close> holds, for each priority \<open>p\<close>, the
  threads \<open>rq p\<close> in the order in which they are to run.

  The loops over a ring do not end if the ring is corrupt, and the C code reads an
  uninitialised variable when no cluster has a waiting hardware thread although the wait
  mask is not zero; both are \<open>None\<close>.
\<close>

section \<open>The priority bitmap\<close>

fun best_prio_loop :: "(nat \<Rightarrow> u64) \<Rightarrow> nat list \<Rightarrow> nat \<Rightarrow> nat" where
  "best_prio_loop rv [] p = p"
| "best_prio_loop rv (i # is) p =
     (let c = ct0 (ucast (rv i) :: u32); p1 = p + c
      in if c < 32 then p1
         else let c' = ct0 (ucast (drop_bit 32 (rv i)) :: u32); p2 = p1 + c'
              in if c' < 32 then p2 else best_prio_loop rv is p2)"

definition H2K_ready_best_prio :: "H2K_kg_t \<Rightarrow> nat" where
  "H2K_ready_best_prio s = best_prio_loop (ready_valids s) [0..<MAX_PRIOS div 64] 0"

definition H2K_ready_any_valid :: "H2K_kg_t \<Rightarrow> bool" where
  "H2K_ready_any_valid s \<longleftrightarrow> H2K_ready_best_prio s < MAX_PRIOS"

definition H2K_ready_prio_valid :: "H2K_kg_t \<Rightarrow> nat \<Rightarrow> bool" where
  "H2K_ready_prio_valid s p \<longleftrightarrow>
     (if p > MAX_PRIOS - 1 then False
      else ready_valids s (p div 64) AND push_bit (p mod 64) 1 \<noteq> 0)"

definition H2K_ready_set_prio :: "nat \<Rightarrow> H2K_kg_t \<Rightarrow> H2K_kg_t" where
  "H2K_ready_set_prio p s = s\<lparr>ready_valids := (ready_valids s)
     (p div 64 := ready_valids s (p div 64) OR push_bit (p mod 64) 1)\<rparr>"

definition H2K_ready_clear_prio :: "nat \<Rightarrow> H2K_kg_t \<Rightarrow> H2K_kg_t" where
  "H2K_ready_clear_prio p s = s\<lparr>ready_valids := (ready_valids s)
     (p div 64 := ready_valids s (p div 64) AND NOT (push_bit (p mod 64) 1))\<rparr>"

section \<open>Queue operations\<close>

definition H2K_ready_append :: "ptr \<Rightarrow> H2K_kg_t \<Rightarrow> H2K_kg_t" where
  "H2K_ready_append t s =
     (let p = unat (prio (thr s t));
          s1 = upd_thr t (status_update (\<lambda>_. H2K_STATUS_READY)) s;
          (h, r) = H2K_ring_append_real (thr s1) (ready s1 p) t
      in H2K_ready_set_prio p (s1\<lparr>thr := h, ready := (ready s1)(p := r)\<rparr>))"

definition H2K_ready_insert :: "ptr \<Rightarrow> H2K_kg_t \<Rightarrow> H2K_kg_t" where
  "H2K_ready_insert t s =
     (let p = unat (prio (thr s t));
          s1 = upd_thr t (status_update (\<lambda>_. H2K_STATUS_READY)) s;
          (h, r) = H2K_ring_insert_real (thr s1) (ready s1 p) t
      in H2K_ready_set_prio p (s1\<lparr>thr := h, ready := (ready s1)(p := r)\<rparr>))"

definition H2K_ready_remove :: "ptr \<Rightarrow> H2K_kg_t \<Rightarrow> H2K_kg_t" where
  "H2K_ready_remove t s =
     (let p = unat (prio (thr s t));
          (h, r) = H2K_ring_remove_real (thr s) (ready s p) t;
          s1 = s\<lparr>thr := h, ready := (ready s)(p := r)\<rparr>
      in if ready s1 p = NULL then H2K_ready_clear_prio p s1 else s1)"

section \<open>Coprocessor accounting and the choice of the head\<close>

definition H2K_hthread_cluster :: "H2K_kg_t \<Rightarrow> u32 \<Rightarrow> nat" where
  "H2K_hthread_cluster s ht = unat (ht div cluster_hthreads s)"

definition xex :: "u32 \<Rightarrow> bool \<Rightarrow> bool \<Rightarrow> bool \<Rightarrow> bool \<Rightarrow> bool \<Rightarrow> bool \<Rightarrow> H2K_kg_t \<Rightarrow> H2K_kg_t" where
  "xex ht new_xe new_xe2 new_xe3 cur_xe cur_xe2 cur_xe3 s =
     (let cluster = H2K_hthread_cluster s ht;
          count = (of_bool (new_xe \<or> new_xe3) - of_bool (cur_xe \<or> cur_xe3) :: u32) +
                  (of_bool new_xe2 - of_bool cur_xe2)
      in s\<lparr>coproc_count := (coproc_count s)(cluster := coproc_count s cluster + count)\<rparr>)"

definition H2K_update_coprocs :: "u32 \<Rightarrow> bool \<Rightarrow> bool \<Rightarrow> bool \<Rightarrow> bool \<Rightarrow> bool \<Rightarrow> bool \<Rightarrow> H2K_kg_t \<Rightarrow> H2K_kg_t" where
  "H2K_update_coprocs ht hthread_xe hthread_xe2 hthread_xe3 head_xe head_xe2 head_xe3 =
     xex ht head_xe head_xe2 head_xe3 hthread_xe hthread_xe2 hthread_xe3"

text \<open>The number of coprocessors a set of enables occupies: \<open>xe\<close> and \<open>xe3\<close> share one.\<close>

definition coprocs :: "bool \<Rightarrow> bool \<Rightarrow> bool \<Rightarrow> u32" where
  "coprocs xe xe2 xe3 = of_bool (xe \<or> xe3) + of_bool xe2"

definition thread_coprocs :: "H2K_thread_context \<Rightarrow> u32" where
  "thread_coprocs t = coprocs (ssr_xe t) (ssr_xe2 t) (ccr_xe3 t)"

text \<open>The loop that finds the least-loaded cluster with a waiting hardware thread.\<close>

fun min_cluster_loop :: "H2K_kg_t \<Rightarrow> nat list \<Rightarrow> u32 \<Rightarrow> u32 option \<Rightarrow> u32 \<times> u32 option" where
  "min_cluster_loop s [] min_coprocs victim = (min_coprocs, victim)"
| "min_cluster_loop s (i # is) min_coprocs victim =
     (if wait_mask s AND cluster_mask s i \<noteq> 0 \<and> coproc_count s i < min_coprocs
      then min_cluster_loop s is (coproc_count s i) (Some (wait_mask s AND cluster_mask s i))
      else min_cluster_loop s is min_coprocs victim)"

text \<open>
  The walk along the ready ring. The value compared with the limit already contains
  \<open>min_coprocs\<close>, and the outer loop adds \<open>min_coprocs\<close> to it once more.
\<close>

partial_function (option) ready_walk :: "H2K_kg_t \<Rightarrow> ptr \<Rightarrow> u32 \<Rightarrow> ptr \<Rightarrow> (ptr \<times> u32) option" where
  "ready_walk s head min_coprocs ret =
     (let ret1 = H2K_ring_next_real (thr s) head ret
      in if ret1 = NULL then Some (NULL, 0)
         else let need_tmp = thread_coprocs (thr s ret1) + min_coprocs
              in if need_tmp > coproc_max s then ready_walk s head min_coprocs ret1
                 else Some (ret1, need_tmp))"

partial_function (option) ready_handoff :: "H2K_kg_t \<Rightarrow> ptr \<Rightarrow> u32 \<Rightarrow> ptr \<Rightarrow> u32 \<Rightarrow> bool option" where
  "ready_handoff s head min_coprocs ret need_tmp =
     (if min_coprocs + need_tmp \<le> coproc_max s then Some True
      else case ready_walk s head min_coprocs ret of
             None \<Rightarrow> None
           | Some (ret1, need1) \<Rightarrow>
               if ret1 = NULL then Some False
               else ready_handoff s head min_coprocs ret1 need1)"

text \<open>A hardware thread that goes to sleep gives its coprocessors back.\<close>

definition drop_coprocs :: "u32 \<Rightarrow> H2K_kg_t \<Rightarrow> H2K_kg_t" where
  "drop_coprocs ht s =
     (let ssr = H2K_get_ssr s; ccr = H2K_get_ccr s;
          s1 = H2K_set_ssr (unset_bit 31 (unset_bit 26 ssr)) s;
          s2 = H2K_set_ccr (unset_bit 28 ccr) s1
      in xex ht False False False (bit ssr 31) (bit ssr 26) (bit ccr 28) s2)"

definition CLUSTER_RESCHED_INT :: nat where "CLUSTER_RESCHED_INT = 6"

definition H2K_ready_head :: "nat \<Rightarrow> u32 \<Rightarrow> H2K_kg_t \<Rightarrow> (H2K_kg_t \<times> ptr) option" where
  "H2K_ready_head p ht s =
     (let head = ready s p
      in if cluster_sched s = 0 \<or> coproc_max s = -1 then Some (s, head)
         else
           let ssr = H2K_get_ssr s; ccr = H2K_get_ccr s;
               xe = bit ssr 31; xe2 = bit ssr 26; xe3 = bit ccr 28;
               have' = coprocs xe xe2 xe3;
               h = thr s head;
               need = thread_coprocs h;
               cluster = H2K_hthread_cluster s ht;
               pick = H2K_update_coprocs ht xe xe2 xe3 (ssr_xe h) (ssr_xe2 h) (ccr_xe3 h) s
           in if coproc_count s cluster + (need - have') \<le> coproc_max s then Some (pick, head)
              else if wait_mask s = 0 then Some (pick, head)
              else
                let (min_coprocs, victim) = min_cluster_loop s [0..<unat (cluster_clusters s)] (-1) None
                in case ready_handoff s head min_coprocs head need of
                     None \<Rightarrow> None
                   | Some False \<Rightarrow> Some (pick, head)
                   | Some True \<Rightarrow>
                       (case victim of
                          None \<Rightarrow> None
                        | Some v \<Rightarrow>
                            let s1 = iassignw CLUSTER_RESCHED_INT (NOT (push_bit (ct0 v) 1)) s;
                                s2 = cluster_resched_int s1
                            in Some (drop_coprocs ht s2, NULL)))"

definition H2K_ready_getbest :: "u32 \<Rightarrow> H2K_kg_t \<Rightarrow> (H2K_kg_t \<times> ptr) option" where
  "H2K_ready_getbest ht s =
     (let p = H2K_ready_best_prio s
      in if p \<ge> MAX_PRIOS
         then Some (if cluster_sched s = 0 then s else drop_coprocs ht s, NULL)
         else case H2K_ready_head p ht s of
                None \<Rightarrow> None
              | Some (s1, ret) \<Rightarrow> Some (if ret \<noteq> NULL then H2K_ready_remove ret s1 else s1, ret))"

section \<open>The best priority\<close>

lemma ct0_halves:
  fixes w :: u64
  shows "ct0 w = (if ct0 (ucast w :: u32) < 32 then ct0 (ucast w :: u32)
                  else 32 + ct0 (ucast (drop_bit 32 w) :: u32))"
proof -
  let ?lo = "ucast w :: u32" and ?hi = "ucast (drop_bit 32 w) :: u32"
  show ?thesis
  proof (cases "?lo = 0")
    case False
    then have lt: "ct0 ?lo < 32" using ct0_lt_iff [of ?lo] by simp
    have "ct0 w = ct0 ?lo"
    proof (rule ct0_eqI)
      show "bit w (ct0 ?lo)" using ct0_bit [OF False] by (simp add: bit_simps)
    next
      fix i assume "i < ct0 ?lo"
      with lt ct0_below [of i ?lo] show "\<not> bit w i" by (simp add: bit_simps)
    qed
    with lt show ?thesis by simp
  next
    case True
    have z: "\<not> bit w i" if "i < 32" for i
    proof -
      have "bit ?lo i = bit w i" using that by (simp add: bit_simps)
      with True show ?thesis by simp
    qed
    show ?thesis
    proof (cases "?hi = 0")
      case hi: True
      have "\<not> bit w n" if "n < 64" for n
      proof (cases "n < 32")
        case False
        with that have "bit ?hi (n - 32) = bit w n" by (auto simp: bit_simps)
        with hi show ?thesis by simp
      qed (rule z)
      then have "w = 0" using word_bits_zero [of w] by simp
      then show ?thesis by simp
    next
      case hi: False
      have "ct0 w = 32 + ct0 ?hi"
      proof (rule ct0_eqI)
        show "bit w (32 + ct0 ?hi)" using ct0_bit [OF hi] by (simp add: bit_simps)
      next
        fix i assume i: "i < 32 + ct0 ?hi"
        show "\<not> bit w i"
        proof (cases "i < 32")
          case False
          with i have "i - 32 < ct0 ?hi" "ct0 ?hi < 32" using ct0_lt_iff [of ?hi] hi by auto
          with False ct0_below [of "i - 32" ?hi] show ?thesis by (simp add: bit_simps)
        qed (simp add: z)
      qed
      with True show ?thesis by simp
    qed
  qed
qed

lemma best_prio_loop_Cons:
  "best_prio_loop rv (i # is) p = (if ct0 (rv i) < 64 then p + ct0 (rv i) else best_prio_loop rv is (p + 64))"
proof -
  have "ct0 (ucast (rv i) :: u32) \<le> 32" "ct0 (ucast (drop_bit 32 (rv i)) :: u32) \<le> 32"
    using ct0_le [of "ucast (rv i) :: u32"] ct0_le [of "ucast (drop_bit 32 (rv i)) :: u32"] by simp_all
  then show ?thesis by (auto simp: Let_def ct0_halves add.commute)
qed

definition prio_bit :: "(nat \<Rightarrow> u64) \<Rightarrow> nat \<Rightarrow> bool" where
  "prio_bit rv p = bit (rv (p div 64)) (p mod 64)"

lemma best_prio_loop_spec:
  assumes "i \<le> 4" "best_prio_loop rv [i..<4] (64 * i) = b"
  shows "64 * i \<le> b \<and> b \<le> 256 \<and> (b < 256 \<longrightarrow> prio_bit rv b) \<and> (\<forall>p. 64 * i \<le> p \<and> p < b \<longrightarrow> \<not> prio_bit rv p)"
  using assms
proof (induction "4 - i" arbitrary: i)
  case 0
  then show ?case by auto
next
  case (Suc n)
  then have i: "i < 4" by simp
  have low: "\<not> prio_bit rv p" if "64 * i \<le> p" "p < 64 * i + ct0 (rv i)" "ct0 (rv i) \<le> 64" for p
  proof -
    define j where "j = p - 64 * i"
    with that have "p = 64 * i + j" "j < ct0 (rv i)" "j < 64" by simp_all
    then show ?thesis using ct0_below [of j "rv i"] by (simp add: prio_bit_def)
  qed
  have le: "ct0 (rv i) \<le> 64" using ct0_le [of "rv i"] by simp
  show ?case
  proof (cases "ct0 (rv i) < 64")
    case True
    then have b: "b = 64 * i + ct0 (rv i)"
      using Suc.prems(2) i by (simp add: upt_conv_Cons best_prio_loop_Cons del: best_prio_loop.simps)
    have "prio_bit rv b"
      using True ct0_bit [of "rv i"] ct0_lt_iff [of "rv i"] by (simp add: b prio_bit_def)
    with b True i low le show ?thesis by simp
  next
    case False
    then have "best_prio_loop rv [Suc i..<4] (64 * Suc i) = b"
      using Suc.prems(2) i by (simp add: upt_conv_Cons best_prio_loop_Cons add.commute del: best_prio_loop.simps)
    with Suc.hyps(1) [of "Suc i"] Suc.hyps(2) i have
      IH: "64 * Suc i \<le> b \<and> b \<le> 256 \<and> (b < 256 \<longrightarrow> prio_bit rv b) \<and> (\<forall>p. 64 * Suc i \<le> p \<and> p < b \<longrightarrow> \<not> prio_bit rv p)"
      by simp
    have "\<not> prio_bit rv p" if "64 * i \<le> p" "p < b" for p
      using IH low [of p] le False that by (cases "64 * Suc i \<le> p") auto
    with IH show ?thesis by simp
  qed
qed

lemma best_prio_spec:
  "H2K_ready_best_prio s \<le> 256"
  "H2K_ready_best_prio s < 256 \<Longrightarrow> prio_bit (ready_valids s) (H2K_ready_best_prio s)"
  "p < H2K_ready_best_prio s \<Longrightarrow> \<not> prio_bit (ready_valids s) p"
  using best_prio_loop_spec [of 0 "ready_valids s" "H2K_ready_best_prio s"]
  by (simp_all add: H2K_ready_best_prio_def MAX_PRIOS_def)

lemma ready_prio_valid_bit: "p < 256 \<Longrightarrow> H2K_ready_prio_valid s p = prio_bit (ready_valids s) p"
  by (simp add: H2K_ready_prio_valid_def prio_bit_def MAX_PRIOS_def bit_iff_and_push_bit_not_eq_0)

lemma prio_bit_set: "prio_bit (ready_valids (H2K_ready_set_prio p s)) q \<longleftrightarrow> q = p \<or> prio_bit (ready_valids s) q"
proof (cases "q div 64 = p div 64")
  case True
  then have "q mod 64 = p mod 64 \<longleftrightarrow> q = p" by (metis div_mod_decomp)
  with True show ?thesis
    by (auto simp: H2K_ready_set_prio_def prio_bit_def bit_simps)
qed (auto simp: H2K_ready_set_prio_def prio_bit_def)

lemma prio_bit_clear: "prio_bit (ready_valids (H2K_ready_clear_prio p s)) q \<longleftrightarrow> q \<noteq> p \<and> prio_bit (ready_valids s) q"
proof (cases "q div 64 = p div 64")
  case True
  then have "q mod 64 = p mod 64 \<longleftrightarrow> q = p" by (metis div_mod_decomp)
  with True show ?thesis
    by (auto simp: H2K_ready_clear_prio_def prio_bit_def bit_simps)
qed (auto simp: H2K_ready_clear_prio_def prio_bit_def)

section \<open>Representation\<close>

definition ready_rep :: "H2K_kg_t \<Rightarrow> (nat \<Rightarrow> ptr list) \<Rightarrow> bool" where
  "ready_rep s rq \<longleftrightarrow>
     (\<forall>p<256. is_ring (thr s) (ready s p) (rq p)) \<and>
     (\<forall>p<256. \<forall>q<256. p \<noteq> q \<longrightarrow> set (rq p) \<inter> set (rq q) = {}) \<and>
     (\<forall>p<256. \<forall>t\<in>set (rq p). unat (prio (thr s t)) = p \<and> status (thr s t) = H2K_STATUS_READY) \<and>
     (\<forall>p<256. prio_bit (ready_valids s) p \<longleftrightarrow> rq p \<noteq> [])"

definition rq_threads :: "(nat \<Rightarrow> ptr list) \<Rightarrow> ptr set" where
  "rq_threads rq = (\<Union>p<256. set (rq p))"

lemma not_rq_thread: "t \<notin> rq_threads rq \<Longrightarrow> p < 256 \<Longrightarrow> t \<notin> set (rq p)"
  by (auto simp: rq_threads_def)

lemma more_eqD:
  assumes "ringnode.more (a :: H2K_thread_context) = ringnode.more b"
  shows "prio a = prio b" "status a = status b" "hthread a = hthread b" "id a = id b"
    "vmblock a = vmblock b" "vmstatus a = vmstatus b" "base_prio a = base_prio b"
    "futex_ptr a = futex_ptr b" "r00 a = r00 b" "r01 a = r01 b" "ssr a = ssr b" "ccr a = ccr b"
    "cpuint_pending a = cpuint_pending b" "cpuint_enabled a = cpuint_enabled b"
    "tree a = tree b"
  by (insert assms; cases a; cases b; simp)+

lemma prio_lt [simp]: "unat (prio t) < 256"
  using unsigned_less [of "prio t"] by simp

lemma is_ring_status [simp]:
  "is_ring ((thr s)(t := (thr s t)\<lparr>status := st\<rparr>)) r xs = is_ring (thr s) r xs"
  by (rule iffI; erule is_ring_frame; simp)

text \<open>What a queue operation does to the thread memory outside the links and the status.\<close>

lemma ready_append_more:
  "ringnode.more (thr (H2K_ready_append t s) q) =
     ringnode.more (if q = t then (thr s t)\<lparr>status := H2K_STATUS_READY\<rparr> else thr s q)"
  by (simp add: H2K_ready_append_def H2K_ready_set_prio_def Let_def split_beta kring.app_payload upd_thr_def)

lemma ready_insert_more:
  "ringnode.more (thr (H2K_ready_insert t s) q) =
     ringnode.more (if q = t then (thr s t)\<lparr>status := H2K_STATUS_READY\<rparr> else thr s q)"
  by (simp add: H2K_ready_insert_def H2K_ready_set_prio_def Let_def split_beta kring.ins_payload upd_thr_def)

lemma ready_remove_more: "ringnode.more (thr (H2K_ready_remove t s) q) = ringnode.more (thr s q)"
  by (simp add: H2K_ready_remove_def H2K_ready_clear_prio_def Let_def split_beta kring.rem_payload)

lemma ready_repD:
  assumes "ready_rep s rq" "p < 256"
  shows "is_ring (thr s) (ready s p) (rq p)"
    and "q < 256 \<Longrightarrow> p \<noteq> q \<Longrightarrow> set (rq p) \<inter> set (rq q) = {}"
    and "t \<in> set (rq p) \<Longrightarrow> unat (prio (thr s t)) = p"
    and "t \<in> set (rq p) \<Longrightarrow> status (thr s t) = H2K_STATUS_READY"
    and "prio_bit (ready_valids s) p \<longleftrightarrow> rq p \<noteq> []"
  using assms unfolding ready_rep_def by blast+

text \<open>
  The common part of the queue operations: the ring of one priority \<open>p\<close> changes to \<open>xs\<close>,
  which holds no threads but its old ones and \<open>t\<close>.
\<close>

lemma ready_rep_update:
  assumes rep: "ready_rep s rq" and p: "p < 256"
    and sub: "set xs \<subseteq> insert t (set (rq p))" and t: "\<And>q. q < 256 \<Longrightarrow> q \<noteq> p \<Longrightarrow> t \<notin> set (rq q)"
    and ring: "is_ring (thr s') (ready s' p) xs"
    and others: "\<And>q. q < 256 \<Longrightarrow> q \<noteq> p \<Longrightarrow> is_ring (thr s') (ready s' q) (rq q)"
    and more: "\<And>u. u \<noteq> t \<Longrightarrow> ringnode.more (thr s' u) = ringnode.more (thr s u)"
    and new: "t \<in> set xs \<Longrightarrow> unat (prio (thr s' t)) = p \<and> status (thr s' t) = H2K_STATUS_READY"
    and bits: "\<And>q. q < 256 \<Longrightarrow> prio_bit (ready_valids s') q \<longleftrightarrow>
                 (if q = p then xs \<noteq> [] else prio_bit (ready_valids s) q)"
  shows "ready_rep s' (rq(p := xs))"
  unfolding ready_rep_def
proof (intro conjI allI impI ballI)
  fix q :: nat assume "q < 256"
  then show "is_ring (thr s') (ready s' q) ((rq(p := xs)) q)" using ring others by simp
next
  fix q r :: nat assume qr: "q < 256" "r < 256" "q \<noteq> r"
  from ready_repD(2) [OF rep qr(1,2,3)] ready_repD(2) [OF rep p, of q] ready_repD(2) [OF rep p, of r]
    t [of q] t [of r] sub qr
  show "set ((rq(p := xs)) q) \<inter> set ((rq(p := xs)) r) = {}"
    by (cases "q = p"; cases "r = p"; simp; blast)
next
  fix q :: nat and u assume q: "q < 256" and u: "u \<in> set ((rq(p := xs)) q)"
  have *: "unat (prio (thr s' u)) = q \<and> status (thr s' u) = H2K_STATUS_READY"
  proof (cases "u = t")
    case True
    with u t [OF q] have "q = p" by (cases "q = p") auto
    with u True new show ?thesis by simp
  next
    case False
    with u sub have "u \<in> set (rq q)" by (cases "q = p") auto
    with ready_repD(3,4) [OF rep q] more_eqD(1,2) [OF more [OF False]] show ?thesis by simp
  qed
  then show "unat (prio (thr s' u)) = q" "status (thr s' u) = H2K_STATUS_READY" by simp_all
next
  fix q :: nat assume "q < 256"
  then show "prio_bit (ready_valids s') q = ((rq(p := xs)) q \<noteq> [])"
    using bits ready_repD(5) [OF rep] by simp
qed

lemma ready_append_fields:
  fixes t s
  defines "h \<equiv> (thr s)(t := (thr s t)\<lparr>status := H2K_STATUS_READY\<rparr>)" and "p \<equiv> unat (prio (thr s t))"
  shows "thr (H2K_ready_append t s) = fst (H2K_ring_append_real h (ready s p) t)"
    "ready (H2K_ready_append t s) = (ready s)(p := snd (H2K_ring_append_real h (ready s p) t))"
    "prio_bit (ready_valids (H2K_ready_append t s)) q \<longleftrightarrow> q = p \<or> prio_bit (ready_valids s) q"
  using prio_bit_set [of p "upd_thr t (status_update (\<lambda>_. H2K_STATUS_READY)) s
    \<lparr>thr := fst (H2K_ring_append_real h (ready s p) t),
     ready := (ready s)(p := snd (H2K_ring_append_real h (ready s p) t))\<rparr>" q]
  by (simp_all add: H2K_ready_append_def H2K_ready_set_prio_def Let_def split_beta upd_thr_def h_def p_def)

lemma ready_insert_fields:
  fixes t s
  defines "h \<equiv> (thr s)(t := (thr s t)\<lparr>status := H2K_STATUS_READY\<rparr>)" and "p \<equiv> unat (prio (thr s t))"
  shows "thr (H2K_ready_insert t s) = fst (H2K_ring_insert_real h (ready s p) t)"
    "ready (H2K_ready_insert t s) = (ready s)(p := snd (H2K_ring_insert_real h (ready s p) t))"
    "prio_bit (ready_valids (H2K_ready_insert t s)) q \<longleftrightarrow> q = p \<or> prio_bit (ready_valids s) q"
  using prio_bit_set [of p "upd_thr t (status_update (\<lambda>_. H2K_STATUS_READY)) s
    \<lparr>thr := fst (H2K_ring_insert_real h (ready s p) t),
     ready := (ready s)(p := snd (H2K_ring_insert_real h (ready s p) t))\<rparr>" q]
  by (simp_all add: H2K_ready_insert_def H2K_ready_set_prio_def Let_def split_beta upd_thr_def h_def p_def)

lemma ready_append_rep:
  assumes "ready_rep s rq" "t \<notin> rq_threads rq" "t \<noteq> NULL"
  defines "p \<equiv> unat (prio (thr s t))"
  shows "ready_rep (H2K_ready_append t s) (rq(p := rq p @ [t]))"
proof (rule ready_rep_update [OF assms(1), where t = t])
  show p: "p < 256" by (simp add: p_def)
  have r: "is_ring ((thr s)(t := (thr s t)\<lparr>status := H2K_STATUS_READY\<rparr>)) (ready s q) (rq q)" if "q < 256" for q
    using ready_repD(1) [OF assms(1) that] by simp
  show "is_ring (thr (H2K_ready_append t s)) (ready (H2K_ready_append t s) p) (rq p @ [t])"
    using kring.rep_app [OF r [OF p] not_rq_thread [OF assms(2) p] assms(3)]
    by (simp add: ready_append_fields p_def)
  fix q :: nat assume q: "q < 256"
  show "prio_bit (ready_valids (H2K_ready_append t s)) q =
      (if q = p then rq p @ [t] \<noteq> [] else prio_bit (ready_valids s) q)"
    by (auto simp: ready_append_fields p_def)
  assume qp: "q \<noteq> p"
  show "t \<notin> set (rq q)" using assms(2) q by (rule not_rq_thread)
  show "is_ring (thr (H2K_ready_append t s)) (ready (H2K_ready_append t s) q) (rq q)"
    using kring.other_ring_app [OF r [OF p] r [OF q] ready_repD(2) [OF assms(1) p q] not_rq_thread [OF assms(2) q]] qp
    by (simp add: ready_append_fields p_def)
qed (use more_eqD(1,2) [OF ready_append_more [of t s t]] ready_append_more [of t s] in \<open>auto simp: p_def\<close>)

lemma ready_insert_rep:
  assumes "ready_rep s rq" "t \<notin> rq_threads rq" "t \<noteq> NULL"
  defines "p \<equiv> unat (prio (thr s t))"
  shows "ready_rep (H2K_ready_insert t s) (rq(p := t # rq p))"
proof (rule ready_rep_update [OF assms(1), where t = t])
  show p: "p < 256" by (simp add: p_def)
  have r: "is_ring ((thr s)(t := (thr s t)\<lparr>status := H2K_STATUS_READY\<rparr>)) (ready s q) (rq q)" if "q < 256" for q
    using ready_repD(1) [OF assms(1) that] by simp
  show "is_ring (thr (H2K_ready_insert t s)) (ready (H2K_ready_insert t s) p) (t # rq p)"
    using kring.rep_ins [OF r [OF p] not_rq_thread [OF assms(2) p] assms(3)]
    by (simp add: ready_insert_fields p_def)
  fix q :: nat assume q: "q < 256"
  show "prio_bit (ready_valids (H2K_ready_insert t s)) q =
      (if q = p then t # rq p \<noteq> [] else prio_bit (ready_valids s) q)"
    by (auto simp: ready_insert_fields p_def)
  assume qp: "q \<noteq> p"
  show "t \<notin> set (rq q)" using assms(2) q by (rule not_rq_thread)
  show "is_ring (thr (H2K_ready_insert t s)) (ready (H2K_ready_insert t s) q) (rq q)"
    using kring.other_ring_ins [OF r [OF p] r [OF q] ready_repD(2) [OF assms(1) p q] not_rq_thread [OF assms(2) q]] qp
    by (simp add: ready_insert_fields p_def)
qed (use more_eqD(1,2) [OF ready_insert_more [of t s t]] ready_insert_more [of t s] in \<open>auto simp: p_def\<close>)

lemma ready_remove_fields:
  fixes t s
  defines "p \<equiv> unat (prio (thr s t))"
  shows "thr (H2K_ready_remove t s) = fst (H2K_ring_remove_real (thr s) (ready s p) t)"
    "ready (H2K_ready_remove t s) = (ready s)(p := snd (H2K_ring_remove_real (thr s) (ready s p) t))"
    "prio_bit (ready_valids (H2K_ready_remove t s)) q \<longleftrightarrow>
       (snd (H2K_ring_remove_real (thr s) (ready s p) t) = NULL \<longrightarrow> q \<noteq> p) \<and> prio_bit (ready_valids s) q"
  using prio_bit_clear [of p "s\<lparr>thr := fst (H2K_ring_remove_real (thr s) (ready s p) t),
     ready := (ready s)(p := snd (H2K_ring_remove_real (thr s) (ready s p) t))\<rparr>" q]
  by (simp_all add: H2K_ready_remove_def H2K_ready_clear_prio_def Let_def split_beta p_def)

lemma ready_remove_rep:
  assumes "ready_rep s rq" "p < 256" "t \<in> set (rq p)"
  shows "ready_rep (H2K_ready_remove t s) (rq(p := remove1 t (rq p)))"
proof (rule ready_rep_update [OF assms(1,2), where t = t])
  have p: "unat (prio (thr s t)) = p" using ready_repD(3) [OF assms] .
  have r: "is_ring (thr s) (ready s q) (rq q)" if "q < 256" for q
    using ready_repD(1) [OF assms(1) that] .
  show ring: "is_ring (thr (H2K_ready_remove t s)) (ready (H2K_ready_remove t s) p) (remove1 t (rq p))"
    using kring.rep_rem [OF r [OF assms(2)] assms(3)] by (simp add: ready_remove_fields p)
  fix q :: nat assume q: "q < 256"
  show "prio_bit (ready_valids (H2K_ready_remove t s)) q =
      (if q = p then remove1 t (rq p) \<noteq> [] else prio_bit (ready_valids s) q)"
    using is_ring_null_iff [OF ring] ready_repD(5) [OF assms(1,2)] assms(3)
    by (auto simp: ready_remove_fields p)
  assume qp: "q \<noteq> p"
  show "t \<notin> set (rq q)" using ready_repD(2) [OF assms(1,2) q] qp assms(3) by blast
  show "is_ring (thr (H2K_ready_remove t s)) (ready (H2K_ready_remove t s) q) (rq q)"
    using kring.other_ring_rem [OF r [OF assms(2)] r [OF q] ready_repD(2) [OF assms(1,2) q] assms(3)] qp
    by (simp add: ready_remove_fields p)
qed (use ready_repD(1) [OF assms(1,2)] set_remove1_subset [of t "rq p"] in
      \<open>auto simp: ready_remove_more is_ring_def\<close>)

section \<open>Choosing a thread\<close>

lemma ready_walk_returns:
  "is_ring (thr s) head (as @ ret # bs) \<Longrightarrow>
   \<exists>r n. ready_walk s head m ret = Some (r, n) \<and>
     (r = NULL \<or> (\<exists>cs ds. bs = cs @ r # ds))"
proof (induction bs arbitrary: as ret)
  case Nil
  then show ?case by (subst ready_walk.simps) (simp add: next_real_ring Let_def)
next
  case (Cons b bs)
  have nx: "H2K_ring_next_real (thr s) head ret = b"
    using next_real_ring [OF Cons.prems] by simp
  have b: "b \<noteq> NULL" using Cons.prems by (auto simp: is_ring_def)
  obtain r n where IH: "ready_walk s head m b = Some (r, n)" "r = NULL \<or> (\<exists>cs ds. bs = cs @ r # ds)"
    using Cons.IH [of "as @ [ret]" b] Cons.prems by auto
  show ?case
  proof (cases "thread_coprocs (thr s b) + m > coproc_max s")
    case True
    then have "ready_walk s head m ret = Some (r, n)"
      using nx b IH(1) by (subst ready_walk.simps) (simp add: Let_def)
    then show ?thesis using IH(2) by (metis append_Cons)
  next
    case False
    then have "ready_walk s head m ret = Some (b, thread_coprocs (thr s b) + m)"
      using nx b by (subst ready_walk.simps) (simp add: Let_def)
    then show ?thesis by (metis append_Nil)
  qed
qed

lemma ready_handoff_returns:
  "is_ring (thr s) head (as @ ret # bs) \<Longrightarrow> \<exists>b. ready_handoff s head m ret n = Some b"
proof (induction "length bs" arbitrary: as ret bs n rule: less_induct)
  case less
  obtain r k where w: "ready_walk s head m ret = Some (r, k)" "r = NULL \<or> (\<exists>cs ds. bs = cs @ r # ds)"
    using ready_walk_returns [OF less.prems] by blast
  show ?case
  proof (cases "r = NULL \<or> m + n \<le> coproc_max s")
    case True
    then show ?thesis by (subst ready_handoff.simps) (auto simp: w)
  next
    case False
    with w(2) obtain cs ds where "bs = cs @ r # ds" by auto
    with less.hyps [of ds "as @ ret # cs" r k] less.prems
    obtain b where "ready_handoff s head m r k = Some b" by auto
    with False w(1) show ?thesis by (subst ready_handoff.simps) simp
  qed
qed

text \<open>
  With cluster scheduling on, some cluster with a waiting hardware thread has a coprocessor count below the initial
  value of the search, so that the search finds a victim.
\<close>

definition clusters_cover :: "H2K_kg_t \<Rightarrow> bool" where
  "clusters_cover s \<longleftrightarrow> cluster_sched s = 0 \<or> wait_mask s = 0 \<or>
     (\<exists>i<unat (cluster_clusters s). wait_mask s AND cluster_mask s i \<noteq> 0 \<and> coproc_count s i < -1)"

lemma min_cluster_loop_some:
  "(\<exists>v. victim = Some v) \<or> (\<exists>i\<in>set is. wait_mask s AND cluster_mask s i \<noteq> 0 \<and> coproc_count s i < m) \<Longrightarrow>
   \<exists>v. snd (min_cluster_loop s is m victim) = Some v"
proof (induction "is" arbitrary: m victim)
  case (Cons a "is")
  show ?case
  proof (cases "wait_mask s AND cluster_mask s a \<noteq> 0 \<and> coproc_count s a < m")
    case True
    then show ?thesis using Cons.IH [of "Some (wait_mask s AND cluster_mask s a)"] by simp
  next
    case False
    then have "(\<exists>v. victim = Some v) \<or>
        (\<exists>i\<in>set is. wait_mask s AND cluster_mask s i \<noteq> 0 \<and> coproc_count s i < m)"
      using Cons.prems by auto
    from Cons.IH [OF this] False show ?thesis by auto
  qed
qed auto

text \<open>The state the coprocessor accounting and the interrupt steering do not touch.\<close>

definition sched_view where
  "sched_view s = (thr s, vmb s, ready s, ready_valids s, runlist s, runlist_prios s, priomask s,
     wait_mask s, futexhash s, hthreads s, vmblocks s, imask s, bkl s, htid s, cluster_sched s, timeouts s, next_ticks s)"

lemma sched_view_eqD:
  assumes "sched_view s = sched_view s'"
  shows "thr s = thr s'" "vmb s = vmb s'" "ready s = ready s'" "ready_valids s = ready_valids s'"
    "runlist s = runlist s'" "runlist_prios s = runlist_prios s'" "priomask s = priomask s'"
    "wait_mask s = wait_mask s'" "futexhash s = futexhash s'" "hthreads s = hthreads s'"
    "vmblocks s = vmblocks s'" "imask s = imask s'" "bkl s = bkl s'" "htid s = htid s'"
    "cluster_sched s = cluster_sched s'" "timeouts s = timeouts s'" "next_ticks s = next_ticks s'"
  using assms by (simp_all add: sched_view_def)

lemma sched_view_simps [simp]:
  "sched_view (xex ht a b c d e f s) = sched_view s"
  "sched_view (drop_coprocs ht s) = sched_view s"
  "sched_view (iassignw n m s) = sched_view s" "sched_view (cluster_resched_int s) = sched_view s"
  by (simp_all add: sched_view_def xex_def drop_coprocs_def H2K_set_ssr_def H2K_set_ccr_def Let_def
      iassignw_def cluster_resched_int_def swi_def)

lemma ready_head_returns:
  assumes "ready_rep s rq" "p < 256" "rq p \<noteq> []" "clusters_cover s"
  obtains s' r where "H2K_ready_head p ht s = Some (s', r)" "sched_view s' = sched_view s"
    "r = hd (rq p) \<or> r = NULL \<and> cluster_sched s \<noteq> 0 \<and> wait_mask s \<noteq> 0"
proof -
  have ring: "is_ring (thr s) (ready s p) (rq p)" using ready_repD(1) [OF assms(1,2)] .
  then have hd: "ready s p = hd (rq p)" using is_ring_head assms(3) by blast
  then have "is_ring (thr s) (ready s p) ([] @ ready s p # tl (rq p))" using ring assms(3) by simp
  then have ho: "\<exists>b. ready_handoff s (ready s p) m (ready s p) n = Some b" for m n
    by (rule ready_handoff_returns)
  obtain m v where mv: "min_cluster_loop s [0..<unat (cluster_clusters s)] (-1) None = (m, v)" by fastforce
  obtain b where b: "ready_handoff s (ready s p) m (ready s p) (thread_coprocs (thr s (ready s p))) = Some b"
    using ho by blast
  have v: "\<exists>w. v = Some w" if "wait_mask s \<noteq> 0" "cluster_sched s \<noteq> 0"
    using min_cluster_loop_some [of None "[0..<unat (cluster_clusters s)]" s "-1"] assms(4) that mv
    by (simp add: clusters_cover_def) (meson atLeastLessThan_iff le0)
  have "\<exists>s' r. H2K_ready_head p ht s = Some (s', r) \<and> sched_view s' = sched_view s \<and>
    (r = hd (rq p) \<or> r = NULL \<and> cluster_sched s \<noteq> 0 \<and> wait_mask s \<noteq> 0)"
    using b mv v hd
    by (cases b) (auto simp: H2K_ready_head_def Let_def H2K_update_coprocs_def split: option.splits)
  with that show ?thesis by blast
qed

lemma ready_rep_links:
  assumes "ready_rep s rq" "ready s' = ready s" "ready_valids s' = ready_valids s"
    and "\<And>p. next (thr s' p) = next (thr s p) \<and> prev (thr s' p) = prev (thr s p) \<and>
      prio (thr s' p) = prio (thr s p) \<and> status (thr s' p) = status (thr s p)"
  shows "ready_rep s' rq"
  using assms is_ring_frame [of "thr s" _ _ "thr s'"] unfolding ready_rep_def by simp

lemma ready_rep_cong: "sched_view s = sched_view s' \<Longrightarrow> ready_rep s rq = ready_rep s' rq"
  by (simp add: ready_rep_def sched_view_def)

lemma best_prio_rep:
  assumes "ready_rep s rq"
  shows "H2K_ready_best_prio s < 256 \<Longrightarrow> rq (H2K_ready_best_prio s) \<noteq> []"
    "p < 256 \<Longrightarrow> p < H2K_ready_best_prio s \<Longrightarrow> rq p = []"
    "p < 256 \<Longrightarrow> rq p \<noteq> [] \<Longrightarrow> H2K_ready_best_prio s \<le> p"
  using best_prio_spec [where s = s] ready_repD(5) [OF assms] not_le by blast+

text \<open>The state outside the ready list that a choice of a thread leaves alone.\<close>

definition sched_rest where
  "sched_rest s = (vmb s, runlist s, runlist_prios s, priomask s, wait_mask s, futexhash s,
     hthreads s, vmblocks s, imask s, bkl s, htid s, cluster_sched s, timeouts s, next_ticks s)"

lemma sched_rest_eqD:
  assumes "sched_rest s = sched_rest s'"
  shows "vmb s = vmb s'" "runlist s = runlist s'" "runlist_prios s = runlist_prios s'"
    "priomask s = priomask s'" "wait_mask s = wait_mask s'" "futexhash s = futexhash s'"
    "hthreads s = hthreads s'" "vmblocks s = vmblocks s'" "imask s = imask s'" "bkl s = bkl s'"
    "htid s = htid s'" "cluster_sched s = cluster_sched s'" "timeouts s = timeouts s'" "next_ticks s = next_ticks s'"
  using assms by (simp_all add: sched_rest_def)

lemma sched_rest_view: "sched_view s = sched_view s' \<Longrightarrow> sched_rest s = sched_rest s'"
  by (simp add: sched_view_def sched_rest_def)

lemma sched_rest_queue [simp]:
  "sched_rest (H2K_ready_remove t s) = sched_rest s"
  "sched_rest (H2K_ready_append t s) = sched_rest s"
  "sched_rest (H2K_ready_insert t s) = sched_rest s"
  by (simp_all add: sched_rest_def H2K_ready_remove_def H2K_ready_append_def H2K_ready_insert_def
      H2K_ready_set_prio_def H2K_ready_clear_prio_def upd_thr_def Let_def split_beta)

lemma ready_remove_outside:
  assumes "ready_rep s rq" "p < 256" "t \<in> set (rq p)" "u \<notin> rq_threads rq"
  shows "thr (H2K_ready_remove t s) u = thr s u"
  using kring.rem_frame [OF ready_repD(1) [OF assms(1,2)] assms(3) not_rq_thread [OF assms(4,2)]]
    ready_repD(3) [OF assms(1-3)] by (simp add: ready_remove_fields)

lemma ready_append_outside:
  assumes "ready_rep s rq" "u \<notin> rq_threads rq" "u \<noteq> t"
  shows "thr (H2K_ready_append t s) u = thr s u"
proof -
  let ?h = "(thr s)(t := (thr s t)\<lparr>status := H2K_STATUS_READY\<rparr>)" and ?p = "unat (prio (thr s t))"
  have "is_ring ?h (ready s ?p) (rq ?p)" using ready_repD(1) [OF assms(1)] by simp
  from kring.app_frame [OF this not_rq_thread [OF assms(2)] assms(3)] assms(3) show ?thesis
    by (simp add: ready_append_fields)
qed

lemma ready_getbest_rep:
  assumes "ready_rep s rq" "clusters_cover s"
  defines "b \<equiv> H2K_ready_best_prio s"
  shows "\<exists>s' r. H2K_ready_getbest ht s = Some (s', r) \<and> sched_rest s' = sched_rest s \<and>
    (\<forall>u. ringnode.more (thr s' u) = ringnode.more (thr s u)) \<and>
    (\<forall>u. u \<notin> rq_threads rq \<longrightarrow> thr s' u = thr s u) \<and>
    (if r = NULL
     then ready_rep s' rq \<and> ((\<forall>p<256. rq p = []) \<or> cluster_sched s \<noteq> 0 \<and> wait_mask s \<noteq> 0)
     else b < 256 \<and> rq b \<noteq> [] \<and> r = hd (rq b) \<and> ready_rep s' (rq(b := tl (rq b))))"
proof (cases "b < 256")
  case False
  then have "\<forall>p<256. rq p = []" using best_prio_rep(2) [OF assms(1)] by (auto simp: b_def)
  moreover define s' where "s' = (if cluster_sched s = 0 then s else drop_coprocs ht s)"
  then have v: "sched_view s' = sched_view s" by simp
  ultimately show ?thesis
    using False assms(1) ready_rep_cong [OF v] sched_rest_view [OF v] sched_view_eqD(1) [OF v]
    by (intro exI [of _ s'] exI [of _ NULL]) (simp add: H2K_ready_getbest_def s'_def Let_def MAX_PRIOS_def b_def)
next
  case True
  then have ne: "rq b \<noteq> []" using best_prio_rep(1) [OF assms(1)] by (simp add: b_def)
  obtain s1 r where h: "H2K_ready_head b ht s = Some (s1, r)" "sched_view s1 = sched_view s"
    "r = hd (rq b) \<or> r = NULL \<and> cluster_sched s \<noteq> 0 \<and> wait_mask s \<noteq> 0"
    using ready_head_returns [OF assms(1) True ne assms(2)] .
  have rep1: "ready_rep s1 rq" using assms(1) ready_rep_cong [OF h(2)] by simp
  have hd: "hd (rq b) \<noteq> NULL" "hd (rq b) \<in> set (rq b)"
    using is_ring_head [OF ready_repD(1) [OF assms(1) True] ne] ne by (metis, simp)
  define s' where "s' = (if r \<noteq> NULL then H2K_ready_remove r s1 else s1)"
  have "H2K_ready_getbest ht s = Some (s', r)"
    using True h(1) by (simp add: H2K_ready_getbest_def MAX_PRIOS_def b_def s'_def)
  moreover have "sched_rest s' = sched_rest s" using sched_rest_view [OF h(2)] by (simp add: s'_def)
  moreover have "ringnode.more (thr s' u) = ringnode.more (thr s u)" for u
    using sched_view_eqD(1) [OF h(2)] by (simp add: s'_def ready_remove_more)
  moreover have "thr s' u = thr s u" if "u \<notin> rq_threads rq" for u
    using sched_view_eqD(1) [OF h(2)] ready_remove_outside [OF rep1 True hd(2) that] h(3)
    by (auto simp: s'_def)
  moreover have "ready_rep (H2K_ready_remove (hd (rq b)) s1) (rq(b := tl (rq b)))"
    using ready_remove_rep [OF rep1 True hd(2)] ne by (cases "rq b") auto
  ultimately show ?thesis using h(3) ne True hd rep1 by (intro exI [of _ s'] exI [of _ r]) (auto simp: s'_def)
qed

section \<open>The ready-queue interface\<close>

text \<open>
  What the scheduler relies on: a queue per priority, the three queue operations, and the
  best non-empty priority. Inside, the effects the scheduler composes are derived once.
\<close>

locale ready_queue =
  fixes rep :: "'s \<Rightarrow> (nat \<Rightarrow> ptr list) \<Rightarrow> bool"
    and prio_of :: "'s \<Rightarrow> ptr \<Rightarrow> nat"
    and append_op :: "ptr \<Rightarrow> 's \<Rightarrow> 's"
    and insert_op :: "ptr \<Rightarrow> 's \<Rightarrow> 's"
    and remove_op :: "ptr \<Rightarrow> 's \<Rightarrow> 's"
    and best :: "'s \<Rightarrow> nat"
  assumes prio_bound: "prio_of s t < 256"
    and rep_prio: "rep s rq \<Longrightarrow> p < 256 \<Longrightarrow> t \<in> set (rq p) \<Longrightarrow> prio_of s t = p"
    and rep_distinct: "rep s rq \<Longrightarrow> p < 256 \<Longrightarrow> distinct (rq p) \<and> NULL \<notin> set (rq p)"
    and rep_append: "rep s rq \<Longrightarrow> t \<notin> rq_threads rq \<Longrightarrow> t \<noteq> NULL \<Longrightarrow>
      rep (append_op t s) (rq(prio_of s t := rq (prio_of s t) @ [t]))"
    and rep_insert: "rep s rq \<Longrightarrow> t \<notin> rq_threads rq \<Longrightarrow> t \<noteq> NULL \<Longrightarrow>
      rep (insert_op t s) (rq(prio_of s t := t # rq (prio_of s t)))"
    and rep_remove: "rep s rq \<Longrightarrow> p < 256 \<Longrightarrow> t \<in> set (rq p) \<Longrightarrow>
      rep (remove_op t s) (rq(p := remove1 t (rq p)))"
    and prio_remove: "prio_of (remove_op t s) u = prio_of s u"
    and best_nonempty: "rep s rq \<Longrightarrow> best s < 256 \<Longrightarrow> rq (best s) \<noteq> []"
    and best_least: "rep s rq \<Longrightarrow> p < 256 \<Longrightarrow> rq p \<noteq> [] \<Longrightarrow> best s \<le> p"
    and best_bound: "best s \<le> 256"
begin

lemma best_unique:
  assumes "rep s rq" "b < 256" "rq b \<noteq> []" "\<And>p. p < b \<Longrightarrow> rq p = []"
  shows "best s = b"
proof -
  have "best s \<le> b" using best_least [OF assms(1-3)] .
  moreover have "rq (best s) \<noteq> []" using best_nonempty [OF assms(1)] calculation assms(2) by simp
  then have "\<not> best s < b" using assms(4) by blast
  ultimately show ?thesis by simp
qed

lemma best_after_append:
  assumes "rep s rq" "t \<notin> rq_threads rq" "t \<noteq> NULL"
  shows "best (append_op t s) = min (best s) (prio_of s t)"
proof (rule best_unique [OF rep_append [OF assms]])
  show "min (best s) (prio_of s t) < 256" using prio_bound [of s t] by simp
  show "(rq(prio_of s t := rq (prio_of s t) @ [t])) (min (best s) (prio_of s t)) \<noteq> []"
    using best_nonempty [OF assms(1)] prio_bound [of s t] by (auto simp: min_def)
next
  fix p assume "p < min (best s) (prio_of s t)"
  then have "p < best s" "p < prio_of s t" by simp_all
  then show "(rq(prio_of s t := rq (prio_of s t) @ [t])) p = []"
    using best_least [OF assms(1), of p] prio_bound [of s t] by (auto simp: not_le [symmetric])
qed

lemma rotate:
  assumes "rep s rq" "p < 256" "t \<in> set (rq p)"
  shows "rep (append_op t (remove_op t s)) (rq(p := remove1 t (rq p) @ [t]))"
proof -
  let ?rq = "rq(p := remove1 t (rq p))"
  have t: "t \<noteq> NULL" "distinct (rq p)" using rep_distinct [OF assms(1,2)] assms(3) by metis+
  have pr: "prio_of s t = p" using rep_prio [OF assms] .
  have "t \<notin> rq_threads ?rq"
  proof
    assume "t \<in> rq_threads ?rq"
    then obtain q where q: "q < 256" "t \<in> set (?rq q)" by (auto simp: rq_threads_def)
    with t(2) have "q \<noteq> p" by auto
    with q rep_prio [OF assms(1), of q t] pr show False by simp
  qed
  from rep_append [OF rep_remove [OF assms] this t(1)] show ?thesis
    by (simp add: prio_remove pr)
qed

end

interpretation rdy: ready_queue ready_rep "\<lambda>s t. unat (prio (thr s t))"
  H2K_ready_append H2K_ready_insert H2K_ready_remove H2K_ready_best_prio
proof (unfold_locales, goal_cases)
  case (1 s t)
  then show ?case by simp
next
  case (2 s rq p t)
  then show ?case by (rule ready_repD(3))
next
  case (3 s rq p)
  then show ?case using ready_repD(1) by (auto simp: is_ring_def)
next
  case (4 s rq t)
  then show ?case by (rule ready_append_rep)
next
  case (5 s rq t)
  then show ?case by (rule ready_insert_rep)
next
  case (6 s rq p t)
  then show ?case by (rule ready_remove_rep)
next
  case (7 t s u)
  then show ?case using more_eqD(1) [OF ready_remove_more] by simp
next
  case (8 s rq)
  then show ?case by (rule best_prio_rep(1))
next
  case (9 s rq p)
  then show ?case by (rule best_prio_rep(3))
next
  case (10 s)
  then show ?case by (rule best_prio_spec(1))
qed

section \<open>Coprocessor accounting\<close>

lemma xex_count:
  "coproc_count (xex ht a b c d e f s) i =
     (if i = H2K_hthread_cluster s ht then coproc_count s i + (coprocs a b c - coprocs d e f) else coproc_count s i)"
  by (simp add: xex_def Let_def coprocs_def)

lemma cluster_drop [simp]:
  "H2K_hthread_cluster (H2K_set_ssr v s) ht = H2K_hthread_cluster s ht"
  "H2K_hthread_cluster (H2K_set_ccr v s) ht = H2K_hthread_cluster s ht"
  "H2K_hthread_cluster (iassignw n m s) ht = H2K_hthread_cluster s ht"
  "H2K_hthread_cluster (cluster_resched_int s) ht = H2K_hthread_cluster s ht"
  by (simp_all add: H2K_hthread_cluster_def H2K_set_ssr_def H2K_set_ccr_def iassignw_def
      cluster_resched_int_def swi_def)

lemma count_drop [simp]:
  "coproc_count (H2K_set_ssr v s) = coproc_count s" "coproc_count (H2K_set_ccr v s) = coproc_count s"
  "coproc_count (iassignw n m s) = coproc_count s" "coproc_count (cluster_resched_int s) = coproc_count s"
  "coproc_count (H2K_ready_remove t s) = coproc_count s"
  "H2K_get_ssr (iassignw n m s) = H2K_get_ssr s" "H2K_get_ssr (cluster_resched_int s) = H2K_get_ssr s"
  "H2K_get_ccr (iassignw n m s) = H2K_get_ccr s" "H2K_get_ccr (cluster_resched_int s) = H2K_get_ccr s"
  by (simp_all add: H2K_set_ssr_def H2K_set_ccr_def iassignw_def cluster_resched_int_def swi_def
      H2K_get_ssr_def H2K_get_ccr_def H2K_ready_remove_def H2K_ready_clear_prio_def Let_def split_beta)

definition hw_coprocs :: "H2K_kg_t \<Rightarrow> u32" where
  "hw_coprocs s = coprocs (bit (H2K_get_ssr s) 31) (bit (H2K_get_ssr s) 26) (bit (H2K_get_ccr s) 28)"

lemma drop_coprocs_count:
  "coproc_count (drop_coprocs ht s) i =
     (if i = H2K_hthread_cluster s ht then coproc_count s i - hw_coprocs s else coproc_count s i)"
  by (simp add: drop_coprocs_def Let_def xex_count hw_coprocs_def) (simp add: coprocs_def)

lemma ready_rep_kg0: "ready_rep kg0 (\<lambda>_. [])"
  by (simp add: ready_rep_def prio_bit_def)

section \<open>Properties\<close>

text \<open>A ready list with threads 10 and 11 (in this order) at priority 3.\<close>

definition ready_example :: H2K_kg_t where
  "ready_example = H2K_ready_append 11 (H2K_ready_append 10
     (upd_thr 11 (prio_update (\<lambda>_. 3)) (upd_thr 10 (prio_update (\<lambda>_. 3)) kg0)))"

lemma ready_example_rep: "ready_rep ready_example ((\<lambda>_. [])(3 := [10, 11]))"
proof -
  let ?s0 = "upd_thr 11 (prio_update (\<lambda>_. 3)) (upd_thr 10 (prio_update (\<lambda>_. 3)) kg0)"
  have r0: "ready_rep ?s0 (\<lambda>_. [])" by (simp add: ready_rep_def prio_bit_def)
  have r1: "ready_rep (H2K_ready_append 10 ?s0) ((\<lambda>_. [])(3 := [10]))"
    using ready_append_rep [OF r0, of 10] by (simp add: rq_threads_def)
  have "unat (prio (thr (H2K_ready_append 10 ?s0) 11)) = 3"
    using more_eqD(1) [OF ready_append_more [of 10 ?s0 11]] by simp
  then show ?thesis
    using ready_append_rep [OF r1, of 11] unfolding ready_example_def by (simp add: rq_threads_def)
qed

lemma ready_example_globals [simp]:
  "cluster_sched ready_example = 0" "wait_mask ready_example = 0"
  by (simp_all add: ready_example_def H2K_ready_append_def H2K_ready_set_prio_def Let_def split_beta upd_thr_def)

lemma clusters_cover_example: "clusters_cover ready_example"
  by (simp add: clusters_cover_def)

text \<open>
  C3: \<open>H2K_ready_getbest\<close> returns. It takes the first thread of the best non-empty
  priority out of the ready list and keeps the order of all others, or it returns no
  thread and leaves the ready list as it is; the latter only if no thread is ready, or if
  cluster scheduling hands the work to a waiting hardware thread.
\<close>

theorem ready_getbest_correct:
  assumes "ready_rep s rq" "clusters_cover s"
  shows "\<exists>s' r. H2K_ready_getbest ht s = Some (s', r) \<and>
    (if r = NULL then ready_rep s' rq \<and> ((\<forall>p<256. rq p = []) \<or> cluster_sched s \<noteq> 0 \<and> wait_mask s \<noteq> 0)
     else \<exists>p<256. rq p \<noteq> [] \<and> (\<forall>q<p. rq q = []) \<and> r = hd (rq p) \<and> ready_rep s' (rq(p := tl (rq p))))"
proof -
  let ?b = "H2K_ready_best_prio s"
  obtain s' r where g: "H2K_ready_getbest ht s = Some (s', r)"
    "if r = NULL then ready_rep s' rq \<and> ((\<forall>p<256. rq p = []) \<or> cluster_sched s \<noteq> 0 \<and> wait_mask s \<noteq> 0)
     else ?b < 256 \<and> rq ?b \<noteq> [] \<and> r = hd (rq ?b) \<and> ready_rep s' (rq(?b := tl (rq ?b)))"
    using ready_getbest_rep [OF assms, where ht = ht] by (elim exE conjE)
  have "\<forall>q<?b. rq q = []" if "?b < 256" using best_prio_rep(2) [OF assms(1)] that by auto
  with g show ?thesis by (intro exI [of _ s'] exI [of _ r]) auto
qed

theorem ready_getbest_correct_witness:
  "\<exists>s'. H2K_ready_getbest 0 ready_example = Some (s', 10) \<and> ready_rep s' ((\<lambda>_. [])(3 := [11]))"
proof -
  let ?rq = "(\<lambda>_. [])(3 :: nat := [10, 11 :: nat])"
  obtain s' r where g: "H2K_ready_getbest 0 ready_example = Some (s', r)"
    "if r = NULL then ready_rep s' ?rq \<and> (\<forall>p<256. ?rq p = [])
     else \<exists>p<256. ?rq p \<noteq> [] \<and> (\<forall>q<p. ?rq q = []) \<and> r = hd (?rq p) \<and> ready_rep s' (?rq(p := tl (?rq p)))"
    using ready_getbest_correct [OF ready_example_rep clusters_cover_example, of 0]
    unfolding ready_example_globals by (elim exE conjE) (rule that, assumption, simp only: simp_thms)
  have "\<not> (\<forall>p<256. ?rq p = [])" by (auto intro!: exI [of _ 3])
  with g(2) obtain p where "?rq p \<noteq> []" "r = hd (?rq p)" "ready_rep s' (?rq(p := tl (?rq p)))"
    by (metis (lifting))
  moreover from this have "p = 3" by (simp split: if_splits)
  ultimately show ?thesis using g(1) by simp
qed

text \<open>
  coprocessor accounting. When cluster scheduling is on with a finite limit, choosing
  a thread charges the cluster of the hardware thread with exactly the coprocessors the
  chosen thread uses instead of those enabled in the hardware thread's registers (none when
  it goes to sleep), and no other cluster is charged.
\<close>

theorem ready_getbest_accounting:
  assumes "ready_rep s rq" "cluster_sched s \<noteq> 0" "coproc_max s \<noteq> -1" "H2K_ready_getbest ht s = Some (s', r)"
  shows "coproc_count s' i =
    (if i = H2K_hthread_cluster s ht
     then coproc_count s i - hw_coprocs s + (if r = NULL then 0 else thread_coprocs (thr s r))
     else coproc_count s i)"
proof (cases "H2K_ready_best_prio s < 256")
  case True
  have "ready s (H2K_ready_best_prio s) \<noteq> NULL"
    using is_ring_head [OF ready_repD(1) [OF assms(1) True]] best_prio_rep(1) [OF assms(1) True] by metis
  with assms(2-4) True show ?thesis
    by (auto simp: H2K_ready_getbest_def H2K_ready_head_def Let_def drop_coprocs_count xex_count MAX_PRIOS_def
      H2K_update_coprocs_def hw_coprocs_def thread_coprocs_def
      split: if_splits option.splits prod.splits bool.splits)
next
  case False
  with assms(2-4) show ?thesis
    by (auto simp: H2K_ready_getbest_def Let_def drop_coprocs_count MAX_PRIOS_def)
qed

definition ready_example2 :: H2K_kg_t where
  "ready_example2 = upd_thr 10 (ssr_update (\<lambda>_. push_bit 31 1))
     (ready_example\<lparr>cluster_sched := 1, coproc_max := 2, cluster_hthreads := 4\<rparr>)"

theorem ready_getbest_accounting_witness:
  "\<exists>s'. H2K_ready_getbest 0 ready_example2 = Some (s', 10) \<and> coproc_count s' 0 = 1"
proof -
  let ?rq = "(\<lambda>_. [])(3 :: nat := [10, 11 :: nat])"
  have f: "thr ready_example2 = (thr ready_example)(10 := (thr ready_example 10)\<lparr>ssr := push_bit 31 1\<rparr>)"
    "ready ready_example2 = ready ready_example" "ready_valids ready_example2 = ready_valids ready_example"
    "wait_mask ready_example2 = 0" "cluster_sched ready_example2 = 1" "coproc_max ready_example2 = 2"
    by (simp_all add: ready_example2_def upd_thr_def)
  have rep: "ready_rep ready_example2 ?rq"
  proof (rule ready_rep_links [OF ready_example_rep])
    show "next (thr ready_example2 p) = next (thr ready_example p) \<and>
       prev (thr ready_example2 p) = prev (thr ready_example p) \<and>
       prio (thr ready_example2 p) = prio (thr ready_example p) \<and>
       status (thr ready_example2 p) = status (thr ready_example p)" for p by (simp add: f)
  qed (simp_all add: f)
  have cov: "clusters_cover ready_example2" by (simp add: clusters_cover_def f)
  obtain s' r where g: "H2K_ready_getbest 0 ready_example2 = Some (s', r)"
    "if r = NULL then ready_rep s' ?rq \<and> ((\<forall>p<256. ?rq p = []) \<or> cluster_sched ready_example2 \<noteq> 0 \<and> wait_mask ready_example2 \<noteq> 0)
     else H2K_ready_best_prio ready_example2 < 256 \<and> ?rq (H2K_ready_best_prio ready_example2) \<noteq> [] \<and>
       r = hd (?rq (H2K_ready_best_prio ready_example2)) \<and>
       ready_rep s' (?rq(H2K_ready_best_prio ready_example2 := tl (?rq (H2K_ready_best_prio ready_example2))))"
    using ready_getbest_rep [OF rep cov, where ht = 0] by (elim exE conjE)
  have "\<not> (\<forall>p<256. ?rq p = [])" by (auto intro!: exI [of _ 3])
  with g(2) f(4) have r: "r = 10" by (auto split: if_splits)
  have z: "H2K_hthread_cluster ready_example2 0 = 0" "hw_coprocs ready_example2 = 0" "coproc_count ready_example2 0 = 0"
    by (simp_all add: H2K_hthread_cluster_def hw_coprocs_def coprocs_def ready_example2_def upd_thr_def
      H2K_get_ssr_def H2K_get_ccr_def ready_example_def H2K_ready_append_def H2K_ready_set_prio_def Let_def split_beta kg0_def)
  have c: "ccr (thr ready_example 10) = 0"
    using more_eqD(12) [OF ready_append_more] unfolding ready_example_def by (simp add: thread0_def)
  have "thread_coprocs (thr ready_example2 10) = 1"
    using c by (simp add: f thread_coprocs_def coprocs_def bit_simps)
  with ready_getbest_accounting [OF rep _ _ g(1), of 0] g(1) z r f show ?thesis by simp
qed

end
