(* ===== verification/Runlist.thy ===== *)
theory Runlist
  imports Readylist
begin

text \<open>
  The run list, \<^verbatim>\<open>kernel/data/runlist/runlist.h\<close>: for each hardware thread the context it
  runs and that context's priority (-1 when it runs none); and the marking of the
  lowest-priority hardware thread, \<^verbatim>\<open>kernel/sched/lowprio/lowprio.h\<close>. Interrupts are
  steered to the hardware threads of \<open>priomask\<close> by their interrupt masks.

  \<open>runlist_ok\<close> is the consistency of the run list with the contexts, \<open>lowprio_ok\<close> and
  \<open>steer_ok\<close> that of the low-priority marking with the waiting hardware threads and the
  interrupt masks.
\<close>

section \<open>Operations\<close>

definition H2K_runlist_push :: "ptr \<Rightarrow> H2K_kg_t \<Rightarrow> H2K_kg_t" where
  "H2K_runlist_push t s =
     (let ht = unat (hthread (thr s t)); p = prio (thr s t);
          s1 = upd_thr t (status_update (\<lambda>_. H2K_STATUS_RUNNING)) s
      in s1\<lparr>runlist := (runlist s1)(ht := t), runlist_prios := (runlist_prios s1)(ht := ucast p)\<rparr>)"

definition H2K_runlist_remove :: "ptr \<Rightarrow> H2K_kg_t \<Rightarrow> H2K_kg_t" where
  "H2K_runlist_remove t s =
     (let ht = unat (hthread (thr s t))
      in s\<lparr>runlist := (runlist s)(ht := NULL), runlist_prios := (runlist_prios s)(ht := -1)\<rparr>)"

definition H2K_runlist_set_thread_prio :: "ptr \<Rightarrow> u32 \<Rightarrow> H2K_kg_t \<Rightarrow> H2K_kg_t" where
  "H2K_runlist_set_thread_prio t new_prio s =
     (let s1 = upd_thr t (prio_update (\<lambda>_. ucast new_prio)) s
      in s1\<lparr>runlist_prios := (runlist_prios s1)(unat (hthread (thr s1 t)) := ucast new_prio)\<rparr>)"

definition H2K_runlist_init :: "H2K_kg_t \<Rightarrow> H2K_kg_t" where
  "H2K_runlist_init s = s\<lparr>runlist_prios := (\<lambda>i. if i < (MAX_HTHREADS + 7) div 8 * 8 then -1 else runlist_prios s i)\<rparr>"

text \<open>The scan for the worst (largest) running priority; entries are signed 16-bit.\<close>

fun worst_loop :: "(nat \<Rightarrow> u16) \<Rightarrow> nat list \<Rightarrow> int \<Rightarrow> int \<Rightarrow> int \<times> int" where
  "worst_loop rp [] w h = (w, h)"
| "worst_loop rp (i # is) w h =
     (if sint (rp i) > w then worst_loop rp is (sint (rp i)) (int i) else worst_loop rp is w h)"

definition H2K_runlist_worst_prio :: "H2K_kg_t \<Rightarrow> nat" where
  "H2K_runlist_worst_prio s =
     (case worst_loop (runlist_prios s) [0..<unat (hthreads s)] (-1) (-1) of
        (w, h) \<Rightarrow> if h = -1 then MAX_PRIOS else nat w)"

definition H2K_runlist_worst_prio_hthread :: "H2K_kg_t \<Rightarrow> u32" where
  "H2K_runlist_worst_prio_hthread s =
     word_of_int (snd (worst_loop (runlist_prios s) [0..<unat (hthreads s)] (-1) (-1)))"

definition H2K_lowprio_notify :: "H2K_kg_t \<Rightarrow> H2K_kg_t" where
  "H2K_lowprio_notify s =
     (let ht = H2K_runlist_worst_prio_hthread s
      in change_imask (unat ht) 0 (s\<lparr>priomask := priomask s OR push_bit (unat ht) 1\<rparr>))"

definition H2K_raise_lowprio :: "H2K_kg_t \<Rightarrow> H2K_kg_t" where
  "H2K_raise_lowprio s =
     (let mask = priomask s
      in if wait_mask s \<noteq> 0 then s
         else change_imask (ct0 mask) (-1) (s\<lparr>priomask := 0\<rparr>))"

section \<open>Worst running priority\<close>

lemma worst_loop_spec:
  assumes "worst_loop rp is w h = (w', h')"
  shows "(w', h') = (w, h) \<and> (\<forall>i\<in>set is. sint (rp i) \<le> w) \<or>
    (\<exists>i\<in>set is. h' = int i \<and> w' = sint (rp i) \<and> w < w' \<and> (\<forall>j\<in>set is. sint (rp j) \<le> w'))"
  using assms
proof (induction "is" arbitrary: w h)
  case (Cons i "is")
  show ?case
  proof (cases "sint (rp i) > w")
    case True
    with Cons.prems have "worst_loop rp is (sint (rp i)) (int i) = (w', h')" by simp
    from Cons.IH [OF this] True show ?thesis by auto
  next
    case False
    with Cons.prems have "worst_loop rp is w h = (w', h')" by simp
    from Cons.IH [OF this] False show ?thesis by auto
  qed
qed simp

lemma worst_prio_cases:
  fixes s
  defines "n \<equiv> unat (hthreads s)" and "rp \<equiv> \<lambda>i. sint (runlist_prios s i)"
  shows "(\<forall>i<n. rp i \<le> -1) \<and> H2K_runlist_worst_prio s = 256 \<and> H2K_runlist_worst_prio_hthread s = -1 \<or>
    (\<exists>i<n. rp i \<ge> 0 \<and> H2K_runlist_worst_prio s = nat (rp i) \<and>
       H2K_runlist_worst_prio_hthread s = word_of_nat i \<and> (\<forall>j<n. rp j \<le> rp i))"
proof -
  obtain w h where wl: "worst_loop (runlist_prios s) [0..<n] (-1) (-1) = (w, h)" by fastforce
  from worst_loop_spec [OF wl] show ?thesis
    unfolding H2K_runlist_worst_prio_def H2K_runlist_worst_prio_hthread_def n_def [symmetric] wl
    by (auto simp: MAX_PRIOS_def rp_def)
qed

section \<open>Consistency\<close>

definition slot_ok :: "H2K_kg_t \<Rightarrow> nat \<Rightarrow> bool" where
  "slot_ok s h \<longleftrightarrow>
     (if runlist s h = NULL then runlist_prios s h = -1
      else status (thr s (runlist s h)) = H2K_STATUS_RUNNING \<and>
        unat (hthread (thr s (runlist s h))) = h \<and> \<not> bit (wait_mask s) h \<and>
        runlist_prios s h = ucast (prio (thr s (runlist s h))))"

definition runlist_ok :: "H2K_kg_t \<Rightarrow> bool" where
  "runlist_ok s \<longleftrightarrow> unat (hthreads s) \<le> MAX_HTHREADS \<and>
     (\<forall>h<unat (hthreads s). slot_ok s h) \<and>
     (\<forall>t. status (thr s t) = H2K_STATUS_RUNNING \<longrightarrow>
        t \<noteq> NULL \<and> unat (hthread (thr s t)) < unat (hthreads s) \<and> runlist s (unat (hthread (thr s t))) = t)"

lemma runlist_okD:
  assumes "runlist_ok s"
  shows "h < unat (hthreads s) \<Longrightarrow> slot_ok s h"
    and "status (thr s t) = H2K_STATUS_RUNNING \<Longrightarrow> t \<noteq> NULL"
    and "status (thr s t) = H2K_STATUS_RUNNING \<Longrightarrow> unat (hthread (thr s t)) < unat (hthreads s)"
    and "status (thr s t) = H2K_STATUS_RUNNING \<Longrightarrow> runlist s (unat (hthread (thr s t))) = t"
    and "unat (hthreads s) \<le> MAX_HTHREADS"
  using assms unfolding runlist_ok_def by blast+

lemma slot_okD:
  assumes "slot_ok s h" "runlist s h \<noteq> NULL"
  shows "status (thr s (runlist s h)) = H2K_STATUS_RUNNING" "unat (hthread (thr s (runlist s h))) = h"
    "\<not> bit (wait_mask s) h" "runlist_prios s h = ucast (prio (thr s (runlist s h)))"
  using assms by (simp_all add: slot_ok_def)

text \<open>
  While some hardware thread waits, the low-priority mask is the wait mask; otherwise it
  marks at most one hardware thread. A hardware thread accepts interrupts exactly if it is
  marked.
\<close>

definition at_most_one :: "u32 \<Rightarrow> bool" where
  "at_most_one w \<longleftrightarrow> (\<forall>i j. bit w i \<longrightarrow> bit w j \<longrightarrow> i = j)"

definition lowprio_ok :: "H2K_kg_t \<Rightarrow> bool" where
  "lowprio_ok s \<longleftrightarrow> (if wait_mask s \<noteq> 0 then priomask s = wait_mask s else at_most_one (priomask s)) \<and>
     (\<forall>i. bit (priomask s) i \<longrightarrow> i < unat (hthreads s))"

definition steer_ok :: "H2K_kg_t \<Rightarrow> bool" where
  "steer_ok s \<longleftrightarrow> (\<forall>h<unat (hthreads s). imask s h = (if bit (priomask s) h then 0 else -1))"

lemma u8_sint16: "sint (ucast (p :: u8) :: u16) = int (unat p)"
proof -
  have lt: "uint p < 2 ^ 8" using uint_lt2p [of p] by simp
  then have u: "uint (ucast p :: u16) = uint p"
    by (simp add: unsigned_ucast_eq take_bit_int_eq_self)
  have "signed_take_bit 15 (uint p) = uint p"
    by (rule signed_take_bit_int_eq_self) (use lt order_trans [OF _ uint_ge_0 [of p], of "- 32768"] in simp_all)
  with u show ?thesis by (simp add: sint_uint)
qed

lemma runlist_prio_sint:
  assumes "runlist_ok s" "h < unat (hthreads s)"
  shows "sint (runlist_prios s h) = (if runlist s h = NULL then -1 else int (unat (prio (thr s (runlist s h)))))"
  using runlist_okD(1) [OF assms] by (simp add: slot_ok_def u8_sint16 split: if_splits)

text \<open>The worst running priority is the largest priority on the run list.\<close>

lemma worst_prio_running:
  assumes "runlist_ok s" "h < unat (hthreads s)" "runlist s h \<noteq> NULL"
  shows "\<exists>i<unat (hthreads s). runlist s i \<noteq> NULL \<and> H2K_runlist_worst_prio_hthread s = word_of_nat i \<and>
      H2K_runlist_worst_prio s = unat (prio (thr s (runlist s i)))"
    and "unat (prio (thr s (runlist s h))) \<le> H2K_runlist_worst_prio s"
proof -
  have h: "sint (runlist_prios s h) = int (unat (prio (thr s (runlist s h))))"
    using runlist_prio_sint [OF assms(1,2)] assms(3) by simp
  from worst_prio_cases [of s] obtain i where i: "i < unat (hthreads s)" "0 \<le> sint (runlist_prios s i)"
    "H2K_runlist_worst_prio s = nat (sint (runlist_prios s i))" "H2K_runlist_worst_prio_hthread s = word_of_nat i"
    "\<forall>j<unat (hthreads s). sint (runlist_prios s j) \<le> sint (runlist_prios s i)"
  proof
    assume "(\<forall>i<unat (hthreads s). sint (runlist_prios s i) \<le> - 1) \<and>
      H2K_runlist_worst_prio s = 256 \<and> H2K_runlist_worst_prio_hthread s = - 1"
    with assms(2) have "sint (runlist_prios s h) \<le> -1" by blast
    with h show thesis by linarith
  qed blast
  have "runlist s i \<noteq> NULL" using runlist_prio_sint [OF assms(1) i(1)] i(2) by (cases "runlist s i = NULL") auto
  with runlist_prio_sint [OF assms(1) i(1)] i
  show "\<exists>i<unat (hthreads s). runlist s i \<noteq> NULL \<and> H2K_runlist_worst_prio_hthread s = word_of_nat i \<and>
      H2K_runlist_worst_prio s = unat (prio (thr s (runlist s i)))" by auto
  show "unat (prio (thr s (runlist s h))) \<le> H2K_runlist_worst_prio s"
    using i(3,5) h assms(2) by (metis nat_int nat_mono)
qed

lemma worst_prio_none:
  assumes "runlist_ok s" "\<And>h. h < unat (hthreads s) \<Longrightarrow> runlist s h = NULL"
  shows "H2K_runlist_worst_prio s = 256"
proof -
  have "\<forall>h<unat (hthreads s). sint (runlist_prios s h) = -1"
    using runlist_prio_sint [OF assms(1)] assms(2) by simp
  with worst_prio_cases [of s] show ?thesis by force
qed

section \<open>Effects on the consistency\<close>

lemma runlist_ok_cong:
  assumes "runlist_ok s" "runlist s' = runlist s" "runlist_prios s' = runlist_prios s"
    "hthreads s' = hthreads s" "wait_mask s' = wait_mask s"
    and st: "\<And>t. status (thr s' t) = H2K_STATUS_RUNNING \<longleftrightarrow> status (thr s t) = H2K_STATUS_RUNNING"
    and ht: "\<And>t. status (thr s t) = H2K_STATUS_RUNNING \<Longrightarrow>
      hthread (thr s' t) = hthread (thr s t) \<and> prio (thr s' t) = prio (thr s t)"
  shows "runlist_ok s'"
  unfolding runlist_ok_def
proof (intro conjI allI impI)
  fix h assume "h < unat (hthreads s')"
  with runlist_okD(1) [OF assms(1)] have "slot_ok s h" by (simp add: assms(4))
  then show "slot_ok s' h" using st ht by (simp add: slot_ok_def assms(2,3,5) split: if_splits)
qed (use st ht runlist_okD [OF assms(1)] assms(2,4) in \<open>simp_all\<close>)

text \<open>A running thread is taken off the run list and leaves the running state.\<close>

lemma runlist_deschedule:
  assumes "runlist_ok s" "status (thr s t) = H2K_STATUS_RUNNING"
    and "runlist s' = (runlist s)(unat (hthread (thr s t)) := NULL)"
    and "runlist_prios s' = (runlist_prios s)(unat (hthread (thr s t)) := -1)"
    and "hthreads s' = hthreads s" "wait_mask s' = wait_mask s"
    and "status (thr s' t) \<noteq> H2K_STATUS_RUNNING"
    and oth: "\<And>u. u \<noteq> t \<Longrightarrow> status (thr s' u) = status (thr s u) \<and>
      hthread (thr s' u) = hthread (thr s u) \<and> prio (thr s' u) = prio (thr s u)"
  shows "runlist_ok s'"
  unfolding runlist_ok_def
proof (intro conjI allI impI)
  fix h assume h: "h < unat (hthreads s')"
  show "slot_ok s' h"
  proof (cases "h = unat (hthread (thr s t)) \<or> runlist s h = NULL")
    case True
    then show ?thesis using runlist_okD(1) [OF assms(1), of h] h assms(3-6)
      by (auto simp: slot_ok_def)
  next
    case False
    then have ok: "slot_ok s h" "runlist s h \<noteq> NULL" using runlist_okD(1) [OF assms(1)] h assms(5) by auto
    then have "runlist s h \<noteq> t" using slot_okD(2) [OF ok] False by auto
    from oth [OF this] slot_okD [OF ok] False ok(2) show ?thesis by (simp add: slot_ok_def assms(3-6))
  qed
next
  fix u assume u: "status (thr s' u) = H2K_STATUS_RUNNING"
  then have ut: "u \<noteq> t" using assms(7) by auto
  with u oth have u': "status (thr s u) = H2K_STATUS_RUNNING" "hthread (thr s' u) = hthread (thr s u)" by auto
  note r = runlist_okD(2-4) [OF assms(1) u'(1)]
  with runlist_okD(4) [OF assms(1,2)] ut have "unat (hthread (thr s u)) \<noteq> unat (hthread (thr s t))" by metis
  with r u'(2) show "u \<noteq> NULL" "unat (hthread (thr s' u)) < unat (hthreads s')"
    "runlist s' (unat (hthread (thr s' u))) = u" by (auto simp: assms(3,5))
qed (use runlist_okD(5) [OF assms(1)] assms(5) in simp)

text \<open>A thread that is not running is put on an empty place of the run list.\<close>

lemma runlist_schedule:
  assumes "runlist_ok s" "status (thr s t) \<noteq> H2K_STATUS_RUNNING" "t \<noteq> NULL"
    and "ht < unat (hthreads s)" "runlist s ht = NULL" "\<not> bit (wait_mask s) ht"
    and "runlist s' = (runlist s)(ht := t)"
    and "runlist_prios s' = (runlist_prios s)(ht := ucast (prio (thr s' t)))"
    and "hthreads s' = hthreads s" "wait_mask s' = wait_mask s"
    and "status (thr s' t) = H2K_STATUS_RUNNING" "unat (hthread (thr s' t)) = ht"
    and oth: "\<And>u. u \<noteq> t \<Longrightarrow> status (thr s' u) = status (thr s u) \<and>
      hthread (thr s' u) = hthread (thr s u) \<and> prio (thr s' u) = prio (thr s u)"
  shows "runlist_ok s'"
  unfolding runlist_ok_def
proof (intro conjI allI impI)
  fix h assume h: "h < unat (hthreads s')"
  then have ok: "slot_ok s h" using runlist_okD(1) [OF assms(1)] assms(9) by simp
  consider "h = ht" | "h \<noteq> ht" "runlist s h = NULL" | "h \<noteq> ht" "runlist s h \<noteq> NULL" by blast
  then show "slot_ok s' h"
  proof cases
    case 1
    then show ?thesis using assms(3,6-12) by (simp add: slot_ok_def)
  next
    case 2
    then show ?thesis using ok by (simp add: slot_ok_def assms(7,8))
  next
    case 3
    then have "runlist s h \<noteq> t" using slot_okD(1) [OF ok] assms(2) by auto
    from oth [OF this] slot_okD [OF ok] 3 show ?thesis by (simp add: slot_ok_def assms(7,8,10))
  qed
next
  fix u assume u: "status (thr s' u) = H2K_STATUS_RUNNING"
  have "u \<noteq> NULL \<and> unat (hthread (thr s' u)) < unat (hthreads s') \<and> runlist s' (unat (hthread (thr s' u))) = u"
  proof (cases "u = t")
    case False
    with u oth have u': "status (thr s u) = H2K_STATUS_RUNNING" "hthread (thr s' u) = hthread (thr s u)" by auto
    note r = runlist_okD(2-4) [OF assms(1) u'(1)]
    with assms(5) have "unat (hthread (thr s u)) \<noteq> ht" by auto
    with r u'(2) show ?thesis by (simp add: assms(7,9))
  qed (simp add: assms(3,4,7,9,12))
  then show "u \<noteq> NULL" "unat (hthread (thr s' u)) < unat (hthreads s')"
    "runlist s' (unat (hthread (thr s' u))) = u" by simp_all
qed (use runlist_okD(5) [OF assms(1)] assms(9) in simp)

end
