(* ===== verification/Sched.thy ===== *)
theory Sched
  imports Runlist
begin

text \<open>
  The scheduler: \<^verbatim>\<open>kernel/sched/\<close> (\<open>check_sanity\<close>, \<open>dosched\<close>, \<open>resched\<close>, \<open>yield\<close>) and the
  scheduling part of the assembly routine \<open>H2K_switch\<close>. \<open>H2K_dosched\<close> ends in a call of
  \<open>H2K_switch(me, new)\<close>; its model returns the state at that call and \<open>new\<close>. Saving and
  restoring the general registers is not modelled.

  \<open>sched_inv s rq\<close> is the invariant of the scheduler: the ready list represents \<open>rq\<close>,
  every ready thread is in it, the run list is consistent, and the low-priority marking and
  the interrupt masks agree.
\<close>

section \<open>Operations\<close>

definition H2K_check_sanity :: "u64 \<Rightarrow> H2K_kg_t \<Rightarrow> H2K_kg_t \<times> u64" where
  "H2K_check_sanity retval s =
     (let s1 = (if priomask s = 0 then H2K_lowprio_notify s else s);
          s2 = (if H2K_runlist_worst_prio s1 > H2K_ready_best_prio s1 then resched_int s1
                else if wait_mask s1 \<noteq> 0 \<and> H2K_ready_any_valid s1 then resched_int s1
                else s1)
      in (s2, retval))"

definition H2K_check_sanity_unlock :: "u64 \<Rightarrow> H2K_kg_t \<Rightarrow> H2K_kg_t \<times> u64" where
  "H2K_check_sanity_unlock retval s =
     (let (s1, _) = H2K_check_sanity retval s in (BKL_UNLOCK s1, retval))"

text \<open>
  Switching to \<open>NULL\<close> marks the hardware thread as waiting, releases the kernel lock and
  opens its interrupt mask; switching to a thread loads its status register.
\<close>

definition H2K_switch :: "ptr \<Rightarrow> ptr \<Rightarrow> H2K_kg_t \<Rightarrow> H2K_kg_t" where
  "H2K_switch me new s =
     (let h = unat (htid s)
      in if new = NULL
         then s\<lparr>wait_mask := set_bit h (wait_mask s), priomask := set_bit h (priomask s),
                bkl := False, sgp := (sgp s)(h := NULL), imask := (imask s)(h := imask s h AND 0)\<rparr>
         else s\<lparr>hw_ssr := (hw_ssr s)(h := ssr (thr s new)), sgp := (sgp s)(h := new)\<rparr>)"

definition H2K_dosched :: "ptr \<Rightarrow> u32 \<Rightarrow> H2K_kg_t \<Rightarrow> (H2K_kg_t \<times> ptr) option" where
  "H2K_dosched me ht s =
     (case H2K_ready_getbest ht s of
        None \<Rightarrow> None
      | Some (s1, new) \<Rightarrow>
          if new = NULL then Some (H2K_raise_lowprio s1, NULL)
          else
            let s2 = (if wait_mask s1 = 0 \<and> unat (prio (thr s1 new)) > H2K_runlist_worst_prio s1
                      then if priomask s1 AND push_bit (unat ht) 1 = 0
                           then let s' = H2K_raise_lowprio s1
                                in lowprio_imask ht (s'\<lparr>priomask := priomask s' OR push_bit (unat ht) 1\<rparr>)
                           else s1
                      else if priomask s1 AND push_bit (unat ht) 1 \<noteq> 0
                           then highprio_imask ht (s1\<lparr>priomask := unset_bit (unat ht) (priomask s1)\<rparr>)
                           else s1);
                s3 = upd_thr new (hthread_update (\<lambda>_. ucast ht)) s2
            in Some (H2K_runlist_push new s3, new))"

definition resched :: "ptr \<Rightarrow> u32 \<Rightarrow> H2K_kg_t \<Rightarrow> (H2K_kg_t \<times> ptr) option" where
  "resched me hwtnum s =
     (let s1 = (if me \<noteq> NULL then H2K_ready_append me (H2K_runlist_remove me s)
                else s\<lparr>wait_mask := unset_bit (unat hwtnum) (wait_mask s)\<rparr>)
      in H2K_dosched me hwtnum s1)"

definition H2K_resched :: "ptr \<Rightarrow> u32 \<Rightarrow> H2K_kg_t \<Rightarrow> (H2K_kg_t \<times> ptr) option" where
  "H2K_resched me hwtnum s = resched me hwtnum (BKL_LOCK (ciad RESCHED_INT_INTMASK s))"

definition H2K_resched_cluster :: "ptr \<Rightarrow> u32 \<Rightarrow> H2K_kg_t \<Rightarrow> (H2K_kg_t \<times> ptr) option" where
  "H2K_resched_cluster me hwtnum s =
     resched me hwtnum (iassignw CLUSTER_RESCHED_INT (-1) (BKL_LOCK (ciad CLUSTER_RESCHED_INT_INTMASK s)))"

definition H2K_sched_yield :: "ptr \<Rightarrow> H2K_kg_t \<Rightarrow> (H2K_kg_t \<times> unit outcome) option" where
  "H2K_sched_yield me s =
     (let s1 = BKL_LOCK s
      in if \<not> H2K_ready_prio_valid s1 (unat (prio (thr s1 me)))
         then Some (BKL_UNLOCK s1, Ret ())
         else
           let s2 = H2K_runlist_remove me s1; s3 = H2K_ready_append me s2
           in case H2K_dosched me (ucast (hthread (thr s3 me))) s3 of
                None \<Rightarrow> None
              | Some (s4, new) \<Rightarrow> Some (s4, Switch me new))"

section \<open>The scheduler invariant\<close>

definition sched_inv :: "H2K_kg_t \<Rightarrow> (nat \<Rightarrow> ptr list) \<Rightarrow> bool" where
  "sched_inv s rq \<longleftrightarrow> ready_rep s rq \<and>
     (\<forall>t. status (thr s t) = H2K_STATUS_READY \<longrightarrow> t \<in> rq_threads rq) \<and>
     runlist_ok s \<and> lowprio_ok s \<and> steer_ok s"

text \<open>
  Between the moment a hardware thread gives up its thread or wakes and the choice of the
  next one, its own bit of the low-priority mask is stale.
\<close>

definition lowprio_mid :: "nat \<Rightarrow> H2K_kg_t \<Rightarrow> bool" where
  "lowprio_mid h s \<longleftrightarrow> \<not> bit (wait_mask s) h \<and>
     (if wait_mask s \<noteq> 0 then unset_bit h (priomask s) = wait_mask s else at_most_one (priomask s)) \<and>
     (\<forall>i. bit (priomask s) i \<longrightarrow> i < unat (hthreads s))"

definition sched_mid :: "nat \<Rightarrow> H2K_kg_t \<Rightarrow> (nat \<Rightarrow> ptr list) \<Rightarrow> bool" where
  "sched_mid h s rq \<longleftrightarrow> ready_rep s rq \<and>
     (\<forall>t. status (thr s t) = H2K_STATUS_READY \<longrightarrow> t \<in> rq_threads rq) \<and>
     runlist_ok s \<and> lowprio_mid h s \<and> steer_ok s \<and>
     h < unat (hthreads s) \<and> runlist s h = NULL \<and> unat (htid s) = h"

lemma lowprio_mid_running: "lowprio_ok s \<Longrightarrow> \<not> bit (wait_mask s) h \<Longrightarrow> lowprio_mid h s"
proof -
  assume a: "lowprio_ok s" "\<not> bit (wait_mask s) h"
  have "unset_bit h (wait_mask s) = wait_mask s" using a(2) by (intro bit_word_eqI) auto
  with a show ?thesis by (simp add: lowprio_ok_def lowprio_mid_def split: if_splits)
qed

lemma lowprio_mid_wake:
  assumes "lowprio_ok s" "bit (wait_mask s) h"
  shows "lowprio_mid h (s\<lparr>wait_mask := unset_bit h (wait_mask s)\<rparr>)"
proof -
  from assms(2) have w: "wait_mask s \<noteq> 0" by auto
  moreover from this assms(1) have "priomask s = wait_mask s" by (simp add: lowprio_ok_def)
  ultimately have w: "wait_mask s \<noteq> 0" "priomask s = wait_mask s" .
  have "i = h" if "unset_bit h (wait_mask s) = 0" "bit (wait_mask s) i" for i
    using that bit_unset_bit_word [of h "wait_mask s" i] by auto
  then have "at_most_one (wait_mask s)" if "unset_bit h (wait_mask s) = 0"
    using that by (auto simp: at_most_one_def)
  with w assms(1) show ?thesis by (auto simp: lowprio_mid_def lowprio_ok_def)
qed

lemma push_bit_test: "h < 32 \<Longrightarrow> (w AND push_bit h 1 = (0::u32)) \<longleftrightarrow> \<not> bit w h"
  by (simp add: bit_iff_and_push_bit_not_eq_0)

lemma or_push_bit: "h < 32 \<Longrightarrow> w OR push_bit h 1 = set_bit h (w :: u32)"
  by (simp add: set_bit_eq_or)

lemma ct0_single:
  assumes "at_most_one w" "bit (w :: u32) i"
  shows "ct0 w = i"
  using assms ct0_bit [of w] by (metis at_most_one_def bit_0_eq bot_apply bot_bool_def)

section \<open>The low-priority marking\<close>

text \<open>
  The marking part of \<open>H2K_dosched\<close> for a chosen thread, as one state transformer:
  afterwards the marking and the interrupt masks agree.
\<close>

definition mark_self :: "u32 \<Rightarrow> H2K_kg_t \<Rightarrow> H2K_kg_t" where
  "mark_self ht s = (let s' = H2K_raise_lowprio s
     in lowprio_imask ht (s'\<lparr>priomask := priomask s' OR push_bit (unat ht) 1\<rparr>))"

definition unmark_self :: "u32 \<Rightarrow> H2K_kg_t \<Rightarrow> H2K_kg_t" where
  "unmark_self ht s = highprio_imask ht (s\<lparr>priomask := unset_bit (unat ht) (priomask s)\<rparr>)"

definition mark :: "bool \<Rightarrow> u32 \<Rightarrow> H2K_kg_t \<Rightarrow> H2K_kg_t" where
  "mark worst ht s =
     (if wait_mask s = 0 \<and> worst
      then if priomask s AND push_bit (unat ht) 1 = 0 then mark_self ht s else s
      else if priomask s AND push_bit (unat ht) 1 \<noteq> 0 then unmark_self ht s else s)"

lemma dosched_mark:
  "H2K_dosched me ht s =
     (case H2K_ready_getbest ht s of
        None \<Rightarrow> None
      | Some (s1, new) \<Rightarrow>
          if new = NULL then Some (H2K_raise_lowprio s1, NULL)
          else Some (H2K_runlist_push new (upd_thr new (hthread_update (\<lambda>_. ucast ht))
                 (mark (unat (prio (thr s1 new)) > H2K_runlist_worst_prio s1) ht s1)), new))"
  by (cases "H2K_ready_getbest ht s")
     (auto simp: H2K_dosched_def mark_def mark_self_def unmark_self_def Let_def split: prod.splits)

lemma mark_frame [simp]:
  "thr (mark b ht s) = thr s" "ready (mark b ht s) = ready s" "ready_valids (mark b ht s) = ready_valids s"
  "runlist (mark b ht s) = runlist s" "runlist_prios (mark b ht s) = runlist_prios s"
  "hthreads (mark b ht s) = hthreads s" "wait_mask (mark b ht s) = wait_mask s"
  "htid (mark b ht s) = htid s" "bkl (mark b ht s) = bkl s" "futexhash (mark b ht s) = futexhash s"
  "vmb (mark b ht s) = vmb s" "vmblocks (mark b ht s) = vmblocks s" "cluster_sched (mark b ht s) = cluster_sched s"
  "timeouts (mark b ht s) = timeouts s" "next_ticks (mark b ht s) = next_ticks s"
  by (simp_all add: mark_def mark_self_def unmark_self_def H2K_raise_lowprio_def change_imask_def
      lowprio_imask_def highprio_imask_def Let_def)

lemma raise_frame [simp]:
  "thr (H2K_raise_lowprio s) = thr s" "ready (H2K_raise_lowprio s) = ready s"
  "ready_valids (H2K_raise_lowprio s) = ready_valids s"
  "runlist (H2K_raise_lowprio s) = runlist s" "runlist_prios (H2K_raise_lowprio s) = runlist_prios s"
  "hthreads (H2K_raise_lowprio s) = hthreads s" "wait_mask (H2K_raise_lowprio s) = wait_mask s"
  "htid (H2K_raise_lowprio s) = htid s" "bkl (H2K_raise_lowprio s) = bkl s"
  "futexhash (H2K_raise_lowprio s) = futexhash s" "vmb (H2K_raise_lowprio s) = vmb s"
  "vmblocks (H2K_raise_lowprio s) = vmblocks s" "cluster_sched (H2K_raise_lowprio s) = cluster_sched s"
  "timeouts (H2K_raise_lowprio s) = timeouts s" "next_ticks (H2K_raise_lowprio s) = next_ticks s"
  by (simp_all add: H2K_raise_lowprio_def change_imask_def Let_def)

lemma raise_steer:
  assumes "steer_ok s" "wait_mask s = 0" "at_most_one (priomask s)"
  shows "priomask (H2K_raise_lowprio s) = 0" "h < unat (hthreads s) \<Longrightarrow> imask (H2K_raise_lowprio s) h = -1"
proof -
  show "priomask (H2K_raise_lowprio s) = 0" using assms(2) by (simp add: H2K_raise_lowprio_def change_imask_def Let_def)
  show "imask (H2K_raise_lowprio s) h = -1" if "h < unat (hthreads s)"
    using that assms ct0_single [OF assms(3)]
    by (auto simp: H2K_raise_lowprio_def change_imask_def Let_def steer_ok_def)
qed

lemma mark_ok:
  assumes "lowprio_mid h s" "steer_ok s" "unat ht = h" "unat (htid s) = h" "h < unat (hthreads s)" "h < 32"
  shows "lowprio_ok (mark b ht s)" "steer_ok (mark b ht s)"
proof -
  note t = push_bit_test [OF assms(6)]
  have mid: "\<not> bit (wait_mask s) h" "\<forall>i. bit (priomask s) i \<longrightarrow> i < unat (hthreads s)"
    using assms(1) by (simp_all add: lowprio_mid_def)
  consider (self) "wait_mask s = 0" "b" "\<not> bit (priomask s) h"
    | (keep) "wait_mask s = 0" "b" "bit (priomask s) h"
    | (off) "\<not> (wait_mask s = 0 \<and> b)" "bit (priomask s) h"
    | (none) "\<not> (wait_mask s = 0 \<and> b)" "\<not> bit (priomask s) h" by blast
  then have "lowprio_ok (mark b ht s) \<and> steer_ok (mark b ht s)"
  proof cases
    case self
    then have one: "at_most_one (priomask s)" using assms(1) by (simp add: lowprio_mid_def)
    have "mark b ht s = mark_self ht s" using self t assms(3) by (simp add: mark_def)
    moreover have "priomask (mark_self ht s) = set_bit h 0"
      using raise_steer(1) [OF assms(2) self(1) one] or_push_bit [OF assms(6)] assms(3)
      by (simp add: mark_self_def lowprio_imask_def Let_def)
    moreover have "imask (mark_self ht s) i = (if i = h then 0 else -1)" if "i < unat (hthreads s)" for i
      using raise_steer(2) [OF assms(2) self(1) one that] assms(4) by (simp add: mark_self_def lowprio_imask_def Let_def)
    moreover have "wait_mask (mark_self ht s) = 0" "hthreads (mark_self ht s) = hthreads s"
      using self(1) by (simp_all add: mark_self_def lowprio_imask_def Let_def)
    ultimately show ?thesis using assms(5,6)
      by (auto simp: lowprio_ok_def steer_ok_def at_most_one_def bit_simps)
  next
    case keep
    then have "mark b ht s = s" using t assms(3) by (simp add: mark_def)
    with keep assms(1,2) show ?thesis by (simp add: lowprio_ok_def lowprio_mid_def)
  next
    case off
    then have m: "mark b ht s = unmark_self ht s" using t assms(3) by (auto simp: mark_def)
    have "lowprio_ok (unmark_self ht s)"
      using off assms(1,3) mid by (auto simp: unmark_self_def highprio_imask_def lowprio_ok_def lowprio_mid_def
          at_most_one_def split: if_splits)
    moreover have "steer_ok (unmark_self ht s)"
      using assms(2,3,4) by (auto simp: unmark_self_def highprio_imask_def steer_ok_def)
    ultimately show ?thesis by (simp add: m)
  next
    case none
    then have "mark b ht s = s" using t assms(3) by (auto simp: mark_def)
    moreover have "unset_bit h (priomask s) = priomask s" using none(2) by (intro bit_word_eqI) auto
    ultimately show ?thesis using assms(1,2) by (simp add: lowprio_ok_def lowprio_mid_def split: if_splits)
  qed
  then show "lowprio_ok (mark b ht s)" "steer_ok (mark b ht s)" by simp_all
qed

section \<open>Choosing the next thread\<close>

lemma sched_midD:
  assumes "sched_mid h s rq"
  shows "ready_rep s rq" "status (thr s t) = H2K_STATUS_READY \<Longrightarrow> t \<in> rq_threads rq"
    "runlist_ok s" "lowprio_mid h s" "steer_ok s" "h < unat (hthreads s)" "runlist s h = NULL"
    "unat (htid s) = h" "h < 32"
  using assms runlist_okD(5) [of s] unfolding sched_mid_def by (auto simp: MAX_HTHREADS_def)

lemma sched_invD:
  assumes "sched_inv s rq"
  shows "ready_rep s rq" "status (thr s t) = H2K_STATUS_READY \<Longrightarrow> t \<in> rq_threads rq"
    "runlist_ok s" "lowprio_ok s" "steer_ok s"
  using assms unfolding sched_inv_def by auto

lemma lowprio_steer_cong:
  assumes "sched_rest s' = sched_rest s"
  shows "lowprio_mid h s' = lowprio_mid h s" "lowprio_ok s' = lowprio_ok s" "steer_ok s' = steer_ok s"
  using sched_rest_eqD [OF assms] by (simp_all add: lowprio_mid_def lowprio_ok_def steer_ok_def)

lemma runlist_ok_more:
  assumes "runlist_ok s" "sched_rest s' = sched_rest s" "\<And>u. ringnode.more (thr s' u) = ringnode.more (thr s u)"
  shows "runlist_ok s'"
  using assms(1) by (rule runlist_ok_cong)
    (simp_all add: sched_rest_eqD [OF assms(2)] more_eqD [OF assms(3)])

lemma rq_threads_tl:
  assumes "ready_rep s rq" "b < 256" "rq b \<noteq> []"
  shows "rq_threads (rq(b := tl (rq b))) = rq_threads rq - {hd (rq b)}"
proof -
  have "distinct (rq b)" using ready_repD(1) [OF assms(1,2)] by (simp add: is_ring_def)
  then have tl: "set (tl (rq b)) = set (rq b) - {hd (rq b)}" "hd (rq b) \<in> set (rq b)"
    using assms(3) by (cases "rq b"; auto)+
  have "hd (rq b) \<notin> set (rq q)" if "q < 256" "q \<noteq> b" for q
    using ready_repD(2) [OF assms(1,2) that(1)] that(2) tl(2) by blast
  with tl assms(2) show ?thesis by (auto simp: rq_threads_def split: if_splits)
qed

lemma sleep_inv:
  assumes "ready_rep s rq" "\<And>t. status (thr s t) = H2K_STATUS_READY \<Longrightarrow> t \<in> rq_threads rq"
    "runlist_ok s" "lowprio_mid h s" "steer_ok s"
    and h: "h < unat (hthreads s)" "runlist s h = NULL" "unat (htid s) = h" "h < 32"
  shows "sched_inv (H2K_switch me NULL (H2K_raise_lowprio s)) rq"
proof -
  let ?s1 = "H2K_raise_lowprio s"
  let ?s' = "H2K_switch me NULL ?s1"
  have f: "thr ?s' = thr s" "ready ?s' = ready s" "ready_valids ?s' = ready_valids s" "runlist ?s' = runlist s"
    "runlist_prios ?s' = runlist_prios s" "hthreads ?s' = hthreads s"
    "wait_mask ?s' = set_bit h (wait_mask s)" "priomask ?s' = set_bit h (priomask ?s1)"
    "imask ?s' = (imask ?s1)(h := 0)"
    using h(3) by (simp_all add: H2K_switch_def Let_def)
  have "ready_rep ?s' rq" using assms(1) by (simp add: ready_rep_def f)
  moreover have "runlist_ok ?s'"
    using assms(3) h(2) by (auto simp: runlist_ok_def slot_ok_def f split: if_splits)
  moreover have "lowprio_ok ?s' \<and> steer_ok ?s'"
  proof (cases "wait_mask s = 0")
    case True
    then have one: "at_most_one (priomask s)" using assms(4) by (simp add: lowprio_mid_def)
    note r = raise_steer [OF assms(5) True one]
    show ?thesis using r h True by (auto simp: lowprio_ok_def steer_ok_def f bit_simps)
  next
    case False
    then have s1: "?s1 = s" by (simp add: H2K_raise_lowprio_def)
    have eq: "bit (priomask s) n = bit (wait_mask s) n" if "n \<noteq> h" for n
      using False assms(4) that by (metis bit_unset_bit_word lowprio_mid_def)
    have "set_bit h (priomask s) = set_bit h (wait_mask s)"
      using eq h(4) by (intro bit_word_eqI) auto
    moreover have "\<forall>i. bit (wait_mask s) i \<longrightarrow> i < unat (hthreads s)"
    proof (intro allI impI)
      fix i assume "bit (wait_mask s) i"
      then have "bit (priomask s) i"
        using False assms(4) by (metis bit_unset_bit_word lowprio_mid_def)
      then show "i < unat (hthreads s)" using assms(4) by (simp add: lowprio_mid_def)
    qed
    ultimately show ?thesis
      using h(1,4) assms(5) eq unfolding s1 by (auto simp: lowprio_ok_def steer_ok_def f [unfolded s1])
  qed
  ultimately show ?thesis using assms(2) by (simp add: sched_inv_def f)
qed

lemma run_inv:
  fixes b
  assumes "ready_rep s rq" "runlist_ok s" "lowprio_mid h s" "steer_ok s"
    and new: "new \<noteq> NULL" "new \<notin> rq_threads rq" "status (thr s new) \<noteq> H2K_STATUS_RUNNING"
    and rdy: "\<And>t. status (thr s t) = H2K_STATUS_READY \<Longrightarrow> t \<noteq> new \<Longrightarrow> t \<in> rq_threads rq"
    and h: "h < unat (hthreads s)" "runlist s h = NULL" "unat (htid s) = h" "h < 32" "unat ht = h"
  defines "s' \<equiv> H2K_runlist_push new (upd_thr new (hthread_update (\<lambda>_. ucast ht)) (mark b ht s))"
  shows "sched_inv s' rq" "runlist s' h = new" "status (thr s' new) = H2K_STATUS_RUNNING"
    "prio (thr s' new) = prio (thr s new)"
proof -
  have ht8: "unat (ucast ht :: u8) = h" using h(4,5) by (simp add: unsigned_ucast_eq take_bit_nat_eq_self)
  have f: "thr s' = (thr s)(new := (thr s new)\<lparr>hthread := ucast ht, status := H2K_STATUS_RUNNING\<rparr>)"
    "ready s' = ready s" "ready_valids s' = ready_valids s" "runlist s' = (runlist s)(h := new)"
    "runlist_prios s' = (runlist_prios s)(h := ucast (prio (thr s new)))" "hthreads s' = hthreads s"
    "wait_mask s' = wait_mask s"
    using ht8 by (auto simp: s'_def H2K_runlist_push_def upd_thr_def Let_def)
  have lp: "lowprio_ok s'" "steer_ok s'"
    using mark_ok [OF assms(3,4) h(5) h(3) h(1) h(4), of b]
    by (simp_all add: lowprio_ok_def steer_ok_def s'_def H2K_runlist_push_def upd_thr_def Let_def)
  have "ready_rep s' rq"
  proof -
    have "is_ring (thr s') r xs = is_ring (thr s) r xs" for r xs
      by (rule iffI; erule is_ring_frame; simp add: f)
    moreover have "t \<noteq> new" if "p < 256" "t \<in> set (rq p)" for p t using new(2) that not_rq_thread by metis
    ultimately show ?thesis using assms(1) by (simp add: ready_rep_def f)
  qed
  moreover have "runlist_ok s'"
    using assms(2) new(3,1) h(1,2)
  proof (rule runlist_schedule)
    show "\<not> bit (wait_mask s) h" using assms(3) by (simp add: lowprio_mid_def)
  qed (simp_all add: f ht8)
  moreover have "\<forall>t. status (thr s' t) = H2K_STATUS_READY \<longrightarrow> t \<in> rq_threads rq"
    using rdy by (simp add: f)
  ultimately show "sched_inv s' rq" using lp by (simp add: sched_inv_def)
  show "runlist s' h = new" "status (thr s' new) = H2K_STATUS_RUNNING" "prio (thr s' new) = prio (thr s new)"
    by (simp_all add: f)
qed

text \<open>
  \<open>H2K_dosched\<close> from a consistent intermediate state: it returns, and either picks the
  first thread of the best priority, which now runs on this hardware thread, with the
  invariant re-established; or it picks none, and switching to \<open>NULL\<close> re-establishes the
  invariant.
\<close>

lemma dosched_picks:
  assumes mid: "sched_mid h s rq" and cov: "clusters_cover s" and ht: "unat ht = h"
  defines "b \<equiv> H2K_ready_best_prio s"
  shows "\<exists>s' new. H2K_dosched me ht s = Some (s', new) \<and> bkl s' = bkl s \<and>
    (\<forall>u. u \<notin> rq_threads rq \<longrightarrow> thr s' u = thr s u) \<and>
    (if new = NULL
     then sched_inv (H2K_switch me NULL s') rq \<and> ((\<forall>p<256. rq p = []) \<or> cluster_sched s \<noteq> 0 \<and> wait_mask s \<noteq> 0)
     else b < 256 \<and> rq b \<noteq> [] \<and> new = hd (rq b) \<and> sched_inv s' (rq(b := tl (rq b))) \<and>
       runlist s' h = new \<and> status (thr s' new) = H2K_STATUS_RUNNING \<and> unat (prio (thr s' new)) = b)"
proof -
  note M = sched_midD [OF mid]
  obtain s1 new where g: "H2K_ready_getbest ht s = Some (s1, new)" "sched_rest s1 = sched_rest s"
    "\<forall>u. ringnode.more (thr s1 u) = ringnode.more (thr s u)"
    "\<forall>u. u \<notin> rq_threads rq \<longrightarrow> thr s1 u = thr s u"
    "if new = NULL then ready_rep s1 rq \<and> ((\<forall>p<256. rq p = []) \<or> cluster_sched s \<noteq> 0 \<and> wait_mask s \<noteq> 0)
     else b < 256 \<and> rq b \<noteq> [] \<and> new = hd (rq b) \<and> ready_rep s1 (rq(b := tl (rq b)))"
    using ready_getbest_rep [OF M(1) cov, where ht = ht] unfolding b_def by (elim exE conjE)
  note R = sched_rest_eqD [OF g(2)]
  note mo = more_eqD [OF spec [OF g(3)]]
  have rl1: "runlist_ok s1" using M(3) g(2) spec [OF g(3)] by (rule runlist_ok_more)
  have lp1: "lowprio_mid h s1" "steer_ok s1" using M(4,5) lowprio_steer_cong [OF g(2)] by auto
  show ?thesis
  proof (cases "new = NULL")
    case True
    let ?s' = "H2K_raise_lowprio s1"
    have d: "H2K_dosched me ht s = Some (?s', NULL)" using g(1) True by (simp add: dosched_mark)
    have inv: "sched_inv (H2K_switch me NULL ?s') rq"
      using sleep_inv [OF _ _ rl1 lp1, of rq me] g(5) True M(2,6,7,8,9) R mo by simp
    show ?thesis using d inv g(4,5) True R by auto
  next
    case False
    then have n: "b < 256" "rq b \<noteq> []" "new = hd (rq b)" "ready_rep s1 (rq(b := tl (rq b)))" using g(5) by auto
    let ?s2 = "mark (unat (prio (thr s1 new)) > H2K_runlist_worst_prio s1) ht s1"
    let ?s' = "H2K_runlist_push new (upd_thr new (hthread_update (\<lambda>_. ucast ht)) ?s2)"
    have d: "H2K_dosched me ht s = Some (?s', new)" using g(1) False by (simp add: dosched_mark)
    have "new \<in> set (rq b)" using n by simp
    then have nw: "status (thr s new) = H2K_STATUS_READY" "unat (prio (thr s new)) = b" "new \<in> rq_threads rq"
      using ready_repD(3,4) [OF M(1) n(1)] n(1) by (auto simp: rq_threads_def)
    have inv: "sched_inv ?s' (rq(b := tl (rq b)))" "runlist ?s' h = new"
      "status (thr ?s' new) = H2K_STATUS_RUNNING" "prio (thr ?s' new) = prio (thr s new)"
      using run_inv [OF n(4) rl1 lp1, of new ht] False M(2,6,7,8,9) R mo nw ht
        rq_threads_tl [OF M(1) n(1,2)] n(3) by auto
    have "thr ?s' u = thr s u" if "u \<notin> rq_threads rq" for u
      using g(4) that nw(3) by (cases "u = new") (auto simp: H2K_runlist_push_def Let_def)
    with d inv n nw False R show ?thesis
      by (intro exI [of _ ?s'] exI [of _ new]) (simp add: H2K_runlist_push_def Let_def)
  qed
qed

section \<open>Giving up the hardware thread\<close>

lemma clusters_cover_cong:
  "wait_mask s' = wait_mask s \<Longrightarrow> cluster_mask s' = cluster_mask s \<Longrightarrow> coproc_count s' = coproc_count s \<Longrightarrow>
   cluster_clusters s' = cluster_clusters s \<Longrightarrow> cluster_sched s' = cluster_sched s \<Longrightarrow> clusters_cover s' = clusters_cover s"
  by (simp add: clusters_cover_def)

text \<open>The running thread goes to the end of its ready queue.\<close>

definition requeue :: "ptr \<Rightarrow> H2K_kg_t \<Rightarrow> H2K_kg_t" where
  "requeue me s = H2K_ready_append me (H2K_runlist_remove me s)"

lemma requeue_cover: "clusters_cover (requeue me s) = clusters_cover s"
  by (rule clusters_cover_cong)
     (simp_all add: requeue_def H2K_ready_append_def H2K_ready_set_prio_def H2K_runlist_remove_def upd_thr_def Let_def split_beta)

lemma requeue_fields:
  fixes me s
  defines "h \<equiv> unat (hthread (thr s me))"
  shows "runlist (requeue me s) = (runlist s)(h := NULL)" "runlist_prios (requeue me s) = (runlist_prios s)(h := -1)"
    "hthreads (requeue me s) = hthreads s" "wait_mask (requeue me s) = wait_mask s" "priomask (requeue me s) = priomask s"
    "imask (requeue me s) = imask s" "htid (requeue me s) = htid s" "bkl (requeue me s) = bkl s"
    "cluster_sched (requeue me s) = cluster_sched s" "futexhash (requeue me s) = futexhash s"
    "vmb (requeue me s) = vmb s" "vmblocks (requeue me s) = vmblocks s"
  using sched_rest_eqD [OF sched_rest_queue(2) [of me "H2K_runlist_remove me s"]]
  by (simp_all add: requeue_def H2K_runlist_remove_def Let_def h_def)

lemma requeue_more:
  "ringnode.more (thr (requeue me s) u) =
     ringnode.more (if u = me then (thr s me)\<lparr>status := H2K_STATUS_READY\<rparr> else thr s u)"
  unfolding requeue_def ready_append_more by (simp add: H2K_runlist_remove_def Let_def)

lemma rq_threads_append: "p < 256 \<Longrightarrow> rq_threads (rq(p := rq p @ [t])) = insert t (rq_threads rq)"
  by (auto simp: rq_threads_def split: if_splits)

lemma requeue_mid:
  assumes inv: "sched_inv s rq" and me: "status (thr s me) = H2K_STATUS_RUNNING"
  defines "p \<equiv> unat (prio (thr s me))" and "h \<equiv> unat (hthread (thr s me))"
  assumes htid: "unat (htid s) = h"
  shows "sched_mid h (requeue me s) (rq(p := rq p @ [me]))"
proof -
  note I = sched_invD [OF inv]
  note F = requeue_fields [of me s, folded h_def]
  note mo = more_eqD [OF requeue_more [of me s]]
  have run: "runlist s h = me" "h < unat (hthreads s)" "me \<noteq> NULL"
    using runlist_okD(2-4) [OF I(3) me] by (simp_all add: h_def)
  have notin: "me \<notin> rq_threads rq"
    using ready_repD(4) [OF I(1)] me by (fastforce simp: rq_threads_def)
  let ?s0 = "H2K_runlist_remove me s"
  have s0: "thr ?s0 = thr s" "ready ?s0 = ready s" "ready_valids ?s0 = ready_valids s"
    by (simp_all add: H2K_runlist_remove_def Let_def)
  have "ready_rep ?s0 rq" using I(1) by (simp add: ready_rep_def s0)
  from ready_append_rep [OF this notin run(3)]
  have "ready_rep (requeue me s) (rq(p := rq p @ [me]))" by (simp add: requeue_def s0 p_def)
  moreover have "\<forall>t. status (thr (requeue me s) t) = H2K_STATUS_READY \<longrightarrow> t \<in> rq_threads (rq(p := rq p @ [me]))"
    using I(2) mo(2) by (simp add: rq_threads_append p_def)
  moreover have "runlist_ok (requeue me s)"
    using I(3) me by (rule runlist_deschedule) (simp_all add: F h_def mo)
  moreover have "\<not> bit (wait_mask s) h"
    using slot_okD(3) [OF runlist_okD(1) [OF I(3) run(2)]] run by simp
  then have "lowprio_mid h (requeue me s)"
    using lowprio_mid_running [OF I(4)] by (simp add: lowprio_mid_def F)
  moreover have "steer_ok (requeue me s)" using I(5) by (simp add: steer_ok_def F)
  ultimately show ?thesis using run(2) htid by (simp add: sched_mid_def F)
qed

lemma wake_mid:
  assumes inv: "sched_inv s rq" and "bit (wait_mask s) h" "unat (htid s) = h"
  shows "sched_mid h (s\<lparr>wait_mask := unset_bit h (wait_mask s)\<rparr>) rq"
proof -
  note I = sched_invD [OF inv]
  have p: "bit (priomask s) h" using I(4) assms(2) by (auto simp: lowprio_ok_def split: if_splits)
  then have h: "h < unat (hthreads s)" using I(4) by (simp add: lowprio_ok_def)
  then have "runlist s h = NULL" using slot_okD(3) [OF runlist_okD(1) [OF I(3)]] assms(2) by metis
  moreover have "runlist_ok (s\<lparr>wait_mask := unset_bit h (wait_mask s)\<rparr>)"
    using I(3) by (simp add: runlist_ok_def slot_ok_def split: if_splits)
  moreover have "ready_rep (s\<lparr>wait_mask := unset_bit h (wait_mask s)\<rparr>) rq" using I(1) by (simp add: ready_rep_def)
  ultimately show ?thesis
    using lowprio_mid_wake [OF I(4) assms(2)] I(2,5) h assms(3) by (simp add: sched_mid_def steer_ok_def)
qed

section \<open>Rescheduling and yielding\<close>

lemma best_requeue:
  assumes "sched_inv s rq" "status (thr s me) = H2K_STATUS_RUNNING"
  shows "H2K_ready_best_prio (requeue me s) \<le> unat (prio (thr s me))"
proof -
  note I = sched_invD [OF assms(1)]
  have me: "me \<noteq> NULL" using runlist_okD(2) [OF I(3) assms(2)] .
  have "me \<notin> rq_threads rq"
    using ready_repD(4) [OF I(1)] assms(2) by (fastforce simp: rq_threads_def)
  moreover have "ready_rep (H2K_runlist_remove me s) rq"
    using I(1) by (simp add: ready_rep_def H2K_runlist_remove_def Let_def)
  moreover have "thr (H2K_runlist_remove me s) = thr s" by (simp add: H2K_runlist_remove_def Let_def)
  ultimately show ?thesis
    using rdy.best_after_append [of "H2K_runlist_remove me s" rq me] me by (simp add: requeue_def)
qed

lemma sched_inv_lock [simp]:
  "sched_inv (BKL_LOCK s) rq = sched_inv s rq" "sched_inv (BKL_UNLOCK s) rq = sched_inv s rq"
  "sched_inv (ciad m s) rq = sched_inv s rq" "sched_inv (iassignw n m s) rq = sched_inv s rq"
  by (simp_all add: sched_inv_def BKL_LOCK_def BKL_UNLOCK_def ciad_def iassignw_def ready_rep_def runlist_ok_def slot_ok_def
      lowprio_ok_def steer_ok_def)

lemma lock_fields [simp]:
  "thr (BKL_LOCK s) = thr s" "thr (BKL_UNLOCK s) = thr s" "thr (ciad m s) = thr s"
  "htid (BKL_LOCK s) = htid s" "htid (ciad m s) = htid s" "wait_mask (BKL_LOCK s) = wait_mask s"
  "wait_mask (ciad m s) = wait_mask s" "cluster_sched (BKL_LOCK s) = cluster_sched s"
  "cluster_sched (ciad m s) = cluster_sched s" "clusters_cover (BKL_LOCK s) = clusters_cover s"
  "clusters_cover (ciad m s) = clusters_cover s" "ready_valids (BKL_LOCK s) = ready_valids s"
  "bkl (BKL_LOCK s)" "\<not> bkl (BKL_UNLOCK s)" "futexhash (BKL_LOCK s) = futexhash s"
  "vmb (BKL_LOCK s) = vmb s" "vmblocks (BKL_LOCK s) = vmblocks s" "umem (BKL_LOCK s) = umem s"
  "runlist (BKL_LOCK s) = runlist s" "hthreads (BKL_LOCK s) = hthreads s"
  by (simp_all add: BKL_LOCK_def BKL_UNLOCK_def ciad_def clusters_cover_def)

text \<open>
  What every entry does that gives up the running thread \<open>me\<close> and puts it back on the
  ready list: the next thread is never worse than \<open>me\<close>.
\<close>

lemma requeue_dosched:
  assumes inv: "sched_inv s rq" and me: "status (thr s me) = H2K_STATUS_RUNNING" and cov: "clusters_cover s"
    and ht: "htid s = ucast (hthread (thr s me))"
  defines "p \<equiv> unat (prio (thr s me))" and "h \<equiv> unat (hthread (thr s me))"
  defines "rq1 \<equiv> rq(p := rq p @ [me])"
  shows "\<exists>s' new. H2K_dosched me (htid s) (requeue me s) = Some (s', new) \<and> bkl s' = bkl s \<and>
    (if new = NULL then cluster_sched s \<noteq> 0 \<and> wait_mask s \<noteq> 0 \<and> sched_inv (H2K_switch me NULL s') rq1
     else \<exists>b\<le>p. rq1 b \<noteq> [] \<and> (\<forall>q<b. rq1 q = []) \<and> new = hd (rq1 b) \<and> sched_inv s' (rq1(b := tl (rq1 b))) \<and>
       runlist s' h = new)"
proof -
  let ?s = "requeue me s" and ?b = "H2K_ready_best_prio (requeue me s)"
  have htid: "unat (htid s) = h" by (simp add: ht h_def unsigned_ucast_eq take_bit_nat_eq_self
      order_less_trans [OF unsigned_less])
  have mid: "sched_mid h ?s rq1"
    unfolding rq1_def p_def using requeue_mid [OF inv me] htid by (simp add: h_def)
  have cov1: "clusters_cover ?s" using cov by (simp add: requeue_cover)
  have ne: "p < 256" "rq1 p \<noteq> []" by (simp_all add: p_def rq1_def)
  obtain s' new where d: "H2K_dosched me (htid s) ?s = Some (s', new)" "bkl s' = bkl ?s"
    "if new = NULL
     then sched_inv (H2K_switch me NULL s') rq1 \<and> ((\<forall>p<256. rq1 p = []) \<or> cluster_sched ?s \<noteq> 0 \<and> wait_mask ?s \<noteq> 0)
     else ?b < 256 \<and> rq1 ?b \<noteq> [] \<and> new = hd (rq1 ?b) \<and> sched_inv s' (rq1(?b := tl (rq1 ?b))) \<and>
       runlist s' h = new \<and> status (thr s' new) = H2K_STATUS_RUNNING \<and> unat (prio (thr s' new)) = ?b"
    using dosched_picks [OF mid cov1 htid, of me] by (elim exE conjE)
  have b: "?b \<le> p" unfolding p_def by (rule best_requeue [OF inv me])
  have low: "\<forall>q<?b. rq1 q = []"
    using best_prio_rep(2) [OF sched_midD(1) [OF mid]] b ne(1) by auto
  show ?thesis
    using d b low ne by (intro exI [of _ s'] exI [of _ new]) (auto simp: requeue_fields)
qed

section \<open>Waking a thread\<close>

lemma lowprio_steer_ready [simp]:
  "lowprio_ok (H2K_ready_append t s) = lowprio_ok s" "steer_ok (H2K_ready_append t s) = steer_ok s"
  using lowprio_steer_cong [OF sched_rest_queue(2)] by blast+

lemma ready_append_inv:
  assumes "sched_inv s rq" "status (thr s t) \<noteq> H2K_STATUS_RUNNING" "t \<noteq> NULL" "t \<notin> rq_threads rq"
  defines "p \<equiv> unat (prio (thr s t))"
  shows "sched_inv (H2K_ready_append t s) (rq(p := rq p @ [t]))"
proof -
  note I = sched_invD [OF assms(1)]
  note mo = more_eqD [OF ready_append_more [of t s]]
  note R = sched_rest_eqD [OF sched_rest_queue(2) [of t s]]
  have "runlist_ok (H2K_ready_append t s)"
    using I(3) by (rule runlist_ok_cong) (use assms(2) in \<open>auto simp: R mo\<close>)
  moreover have "\<forall>u. status (thr (H2K_ready_append t s) u) = H2K_STATUS_READY \<longrightarrow>
      u \<in> rq_threads (rq(p := rq p @ [t]))"
    using I(2) mo(2) by (simp add: rq_threads_append p_def)
  ultimately show ?thesis
    using ready_append_rep [OF I(1) assms(4,3)] I(4,5) by (simp add: sched_inv_def p_def)
qed

section \<open>Sanity check\<close>

lemma notify_fields [simp]:
  "thr (H2K_lowprio_notify s) = thr s" "ready (H2K_lowprio_notify s) = ready s"
  "ready_valids (H2K_lowprio_notify s) = ready_valids s" "runlist (H2K_lowprio_notify s) = runlist s"
  "runlist_prios (H2K_lowprio_notify s) = runlist_prios s" "hthreads (H2K_lowprio_notify s) = hthreads s"
  "wait_mask (H2K_lowprio_notify s) = wait_mask s"
  by (simp_all add: H2K_lowprio_notify_def change_imask_def Let_def)

lemma notify_inv:
  assumes inv: "sched_inv s rq" and run: "h < unat (hthreads s)" "runlist s h \<noteq> NULL" and z: "priomask s = 0"
  shows "sched_inv (H2K_lowprio_notify s) rq" "priomask (H2K_lowprio_notify s) \<noteq> 0"
proof -
  note I = sched_invD [OF inv]
  obtain i where i: "i < unat (hthreads s)" "H2K_runlist_worst_prio_hthread s = word_of_nat i"
    using worst_prio_running(1) [OF I(3) run] by blast
  have "i < 32" using i(1) runlist_okD(5) [OF I(3)] by (simp add: MAX_HTHREADS_def)
  then have u: "unat (word_of_nat i :: u32) = i" by (simp add: unat_of_nat)
  have w: "wait_mask s = 0" using I(4) z by (auto simp: lowprio_ok_def split: if_splits)
  let ?s = "H2K_lowprio_notify s"
  have p: "priomask ?s = push_bit i 1" "imask ?s = (imask s)(i := 0)"
    by (simp_all add: H2K_lowprio_notify_def Let_def change_imask_def i(2) u z)
  have "bit (priomask ?s) j \<longleftrightarrow> j = i" for j using \<open>i < 32\<close> by (auto simp: p(1) bit_simps)
  then show "priomask ?s \<noteq> 0" "sched_inv ?s rq"
    using I w z i(1) by (force, auto simp: sched_inv_def ready_rep_def runlist_ok_def slot_ok_def lowprio_ok_def
        steer_ok_def at_most_one_def p(2))
qed

lemma resched_int_inv [simp]: "sched_inv (resched_int s) rq = sched_inv s rq"
  by (simp add: resched_int_def swi_def sched_inv_def ready_rep_def runlist_ok_def slot_ok_def lowprio_ok_def steer_ok_def)

lemma resched_int_sets: "bit (ipend (resched_int s)) 1"
  by (simp add: resched_int_def swi_def RESCHED_INT_INTMASK_def bit_simps)

lemma check_sanity_inv:
  assumes "sched_inv s rq" "h < unat (hthreads s)" "runlist s h \<noteq> NULL"
  shows "sched_inv (fst (H2K_check_sanity r s)) rq" "priomask (fst (H2K_check_sanity r s)) \<noteq> 0"
proof -
  let ?s1 = "if priomask s = 0 then H2K_lowprio_notify s else s"
  have 1: "sched_inv ?s1 rq" "priomask ?s1 \<noteq> 0" using assms notify_inv [OF assms] by auto
  have 2: "fst (H2K_check_sanity r s) = ?s1 \<or> fst (H2K_check_sanity r s) = resched_int ?s1"
    by (simp add: H2K_check_sanity_def Let_def)
  have "priomask (resched_int ?s1) = priomask ?s1" by (simp add: resched_int_def swi_def)
  with 1 2 show "sched_inv (fst (H2K_check_sanity r s)) rq" "priomask (fst (H2K_check_sanity r s)) \<noteq> 0" by auto
qed

section \<open>Properties\<close>

text \<open>
  Two hardware threads: thread 20 (priority 3) runs on the first, thread 21 (priority 5) on
  the second, which is marked as the lowest; threads 10 and 11 (priority 3) are ready.
\<close>

definition sched_base :: H2K_kg_t where
  "sched_base = kg0\<lparr>thr := (\<lambda>_. thread0)
       (20 := thread0\<lparr>prio := 3, status := H2K_STATUS_RUNNING\<rparr>,
        21 := thread0\<lparr>prio := 5, status := H2K_STATUS_RUNNING, hthread := 1\<rparr>,
        10 := thread0\<lparr>prio := 3\<rparr>, 11 := thread0\<lparr>prio := 3\<rparr>),
     hthreads := 2, runlist := (\<lambda>_. NULL)(0 := 20, 1 := 21), runlist_prios := (\<lambda>_. -1)(0 := 3, 1 := 5),
     priomask := 2, imask := (\<lambda>_. -1)(1 := 0)\<rparr>"

definition sched_example :: H2K_kg_t where
  "sched_example = H2K_ready_append 11 (H2K_ready_append 10 sched_base)"

lemma less_2_cases: "(\<forall>h<2. P (h :: nat)) \<longleftrightarrow> P 0 \<and> P 1"
  by (auto simp: numeral_2_eq_2 less_Suc_eq)

lemma sched_base_inv: "sched_inv sched_base (\<lambda>_. [])"
proof -
  have "ready_rep sched_base (\<lambda>_. [])" by (simp add: ready_rep_def prio_bit_def sched_base_def)
  moreover have "runlist_ok sched_base"
    by (simp add: runlist_ok_def slot_ok_def sched_base_def MAX_HTHREADS_def less_2_cases ucast_eq)
  moreover have "lowprio_ok sched_base" "steer_ok sched_base"
    by (simp_all add: lowprio_ok_def steer_ok_def sched_base_def at_most_one_def less_2_cases bit_2_iff)
  ultimately show ?thesis by (simp add: sched_inv_def sched_base_def)
qed

lemma sched_example_inv: "sched_inv sched_example ((\<lambda>_. [])(3 := [10, 11]))"
proof -
  have 1: "sched_inv (H2K_ready_append 10 sched_base) ((\<lambda>_. [])(3 := [10]))"
    using ready_append_inv [OF sched_base_inv, of 10] by (simp add: rq_threads_def sched_base_def)
  note mo = more_eqD [OF ready_append_more [of 10 sched_base]]
  show ?thesis unfolding sched_example_def
    using ready_append_inv [OF 1, of 11] mo(1,2) by (simp add: rq_threads_def sched_base_def)
qed

lemma sched_example_thr:
  "status (thr sched_example 20) = H2K_STATUS_RUNNING" "prio (thr sched_example 20) = 3"
  "hthread (thr sched_example 20) = 0" "htid sched_example = 0" "wait_mask sched_example = 0"
  using more_eqD(1-3) [OF ready_append_more [of 11 "H2K_ready_append 10 sched_base" 20]]
    more_eqD(1-3) [OF ready_append_more [of 10 sched_base 20]]
    sched_rest_eqD [OF sched_rest_queue(2) [of 11 "H2K_ready_append 10 sched_base"]]
    sched_rest_eqD [OF sched_rest_queue(2) [of 10 sched_base]]
  by (simp_all add: sched_example_def sched_base_def)

lemma sched_example_cover: "clusters_cover sched_example"
  by (simp add: clusters_cover_def sched_example_thr)

text \<open>
  C2: a reschedule interrupt on a hardware thread that runs \<open>me\<close> returns a choice.
  Thread \<open>me\<close> goes to the end of the queue of its priority, and the next thread is the
  first of the best priority, so it is never worse than \<open>me\<close>; the scheduler invariant holds
  again. No thread is chosen only if cluster scheduling hands the work over to a waiting
  hardware thread, and then the invariant holds once the hardware thread sleeps.
\<close>

theorem resched_correct:
  assumes "sched_inv s rq" "status (thr s me) = H2K_STATUS_RUNNING" "clusters_cover s"
    and "hwtnum = htid s" "htid s = ucast (hthread (thr s me))"
  defines "p \<equiv> unat (prio (thr s me))"
  defines "rq1 \<equiv> rq(p := rq p @ [me])"
  shows "\<exists>s' new. H2K_resched me hwtnum s = Some (s', new) \<and>
    (if new = NULL then cluster_sched s \<noteq> 0 \<and> wait_mask s \<noteq> 0 \<and> sched_inv (H2K_switch me NULL s') rq1
     else \<exists>b\<le>p. rq1 b \<noteq> [] \<and> (\<forall>q<b. rq1 q = []) \<and> new = hd (rq1 b) \<and>
       sched_inv s' (rq1(b := tl (rq1 b))) \<and> runlist s' (unat hwtnum) = new)"
proof -
  let ?s = "BKL_LOCK (ciad RESCHED_INT_INTMASK s)"
  have me: "me \<noteq> NULL" using runlist_okD(2) [OF sched_invD(3) [OF assms(1)] assms(2)] .
  have u: "unat (htid s) = unat (hthread (thr s me))"
    by (simp add: assms(5) unsigned_ucast_eq take_bit_nat_eq_self order_less_trans [OF unsigned_less])
  have r: "H2K_resched me hwtnum s = H2K_dosched me (htid ?s) (requeue me ?s)"
    using me assms(4) by (simp add: H2K_resched_def resched_def Let_def requeue_def)
  have s: "sched_inv ?s rq" "status (thr ?s me) = H2K_STATUS_RUNNING" "clusters_cover ?s"
    "htid ?s = ucast (hthread (thr ?s me))" using assms(1-3,5) by simp_all
  have t: "unat (prio (thr ?s me)) = p" "unat (hthread (thr ?s me)) = unat hwtnum"
    "cluster_sched ?s = cluster_sched s" "wait_mask ?s = wait_mask s"
    using u assms(4) by (simp_all add: p_def)
  show ?thesis
    using requeue_dosched [OF s] unfolding r t rq1_def [symmetric]
    by (elim exE conjE) (intro exI conjI; assumption)
qed

theorem resched_correct_witness:
  "\<exists>s'. H2K_resched 20 0 sched_example = Some (s', 10) \<and> sched_inv s' ((\<lambda>_. [])(3 := [11, 20])) \<and> runlist s' 0 = 10"
proof -
  define rq1 :: "nat \<Rightarrow> ptr list" where "rq1 = (\<lambda>_. [])(3 := [10, 11, 20])"
  have q: "((\<lambda>_. [])(3 := [10, 11]))(unat (prio (thr sched_example 20)) :=
      ((\<lambda>_. [])(3 := [10, 11])) (unat (prio (thr sched_example 20))) @ [20]) = rq1"
    by (simp add: sched_example_thr rq1_def)
  have h: "0 = htid sched_example" "htid sched_example = ucast (hthread (thr sched_example 20))"
    by (simp_all add: sched_example_thr)
  obtain s' new where r: "H2K_resched 20 0 sched_example = Some (s', new)"
    "if new = NULL then cluster_sched sched_example \<noteq> 0 \<and> wait_mask sched_example \<noteq> 0 \<and>
        sched_inv (H2K_switch 20 NULL s') rq1
     else \<exists>b\<le>unat (prio (thr sched_example 20)). rq1 b \<noteq> [] \<and> (\<forall>q<b. rq1 q = []) \<and> new = hd (rq1 b) \<and>
       sched_inv s' (rq1(b := tl (rq1 b))) \<and> runlist s' (unat (0 :: u32)) = new"
    using resched_correct [OF sched_example_inv sched_example_thr(1) sched_example_cover h, unfolded q]
    by (elim exE conjE)
  with sched_example_thr(5) obtain b where b: "rq1 b \<noteq> []" "new = hd (rq1 b)"
    "sched_inv s' (rq1(b := tl (rq1 b)))" "runlist s' 0 = new"
    by (auto split: if_splits)
  moreover have "b = 3" using b(1) by (simp add: rq1_def split: if_splits)
  ultimately show ?thesis using r(1) by (simp add: rq1_def)
qed

text \<open>
  a reschedule interrupt that wakes a waiting hardware thread returns a choice: the
  first thread of the best priority, which then runs on it with the invariant
  re-established, or none, if no thread is ready (or cluster scheduling hands the work
  over), and then the hardware thread sleeps again with the invariant intact.
\<close>

theorem resched_from_wait:
  assumes "sched_inv s rq" "bit (wait_mask s) (unat hwtnum)" "htid s = hwtnum"
    and "clusters_cover (s\<lparr>wait_mask := unset_bit (unat hwtnum) (wait_mask s)\<rparr>)"
  shows "\<exists>s' new. H2K_resched NULL hwtnum s = Some (s', new) \<and>
    (if new = NULL
     then sched_inv (H2K_switch NULL NULL s') rq \<and> ((\<forall>p<256. rq p = []) \<or> cluster_sched s \<noteq> 0)
     else \<exists>b<256. rq b \<noteq> [] \<and> (\<forall>q<b. rq q = []) \<and> new = hd (rq b) \<and>
       sched_inv s' (rq(b := tl (rq b))) \<and> runlist s' (unat hwtnum) = new)"
proof -
  let ?s0 = "BKL_LOCK (ciad RESCHED_INT_INTMASK s)"
  let ?s = "?s0\<lparr>wait_mask := unset_bit (unat hwtnum) (wait_mask ?s0)\<rparr>"
  let ?b = "H2K_ready_best_prio ?s"
  have mid: "sched_mid (unat hwtnum) ?s rq"
    by (rule wake_mid) (simp_all add: assms(1-3))
  have cov: "clusters_cover ?s"
    using assms(4) by (simp add: clusters_cover_def BKL_LOCK_def ciad_def)
  have r: "H2K_resched NULL hwtnum s = H2K_dosched NULL hwtnum ?s"
    by (simp add: H2K_resched_def resched_def Let_def)
  obtain s' new where d: "H2K_dosched NULL hwtnum ?s = Some (s', new)"
    "if new = NULL
     then sched_inv (H2K_switch NULL NULL s') rq \<and> ((\<forall>p<256. rq p = []) \<or> cluster_sched ?s \<noteq> 0 \<and> wait_mask ?s \<noteq> 0)
     else ?b < 256 \<and> rq ?b \<noteq> [] \<and> new = hd (rq ?b) \<and> sched_inv s' (rq(?b := tl (rq ?b))) \<and>
       runlist s' (unat hwtnum) = new \<and> status (thr s' new) = H2K_STATUS_RUNNING \<and> unat (prio (thr s' new)) = ?b"
    using dosched_picks [OF mid cov refl, of NULL] by (elim exE conjE)
  have "\<forall>q<?b. rq q = []" if "?b < 256" using best_prio_rep(2) [OF sched_midD(1) [OF mid]] that by auto
  with d r show ?thesis by (intro exI [of _ s'] exI [of _ new]) (auto simp: BKL_LOCK_def ciad_def)
qed

definition wait_example :: H2K_kg_t where
  "wait_example = H2K_ready_append 10 (kg0\<lparr>thr := (\<lambda>_. thread0)(10 := thread0\<lparr>prio := 3\<rparr>), hthreads := 1,
     runlist_prios := (\<lambda>_. -1), wait_mask := 1, priomask := 1\<rparr>)"

lemma wait_example_inv:
  "sched_inv wait_example ((\<lambda>_. [])(3 := [10]))" "wait_mask wait_example = 1" "htid wait_example = 0"
proof -
  let ?s = "kg0\<lparr>thr := (\<lambda>_. thread0)(10 := thread0\<lparr>prio := 3\<rparr>), hthreads := 1,
     runlist_prios := (\<lambda>_. -1), wait_mask := 1, priomask := 1\<rparr>"
  have "sched_inv ?s (\<lambda>_. [])"
    by (simp add: sched_inv_def ready_rep_def prio_bit_def runlist_ok_def slot_ok_def lowprio_ok_def steer_ok_def
        MAX_HTHREADS_def bit_1_iff kg0_def)
  from ready_append_inv [OF this, of 10] show "sched_inv wait_example ((\<lambda>_. [])(3 := [10]))"
    unfolding wait_example_def by (simp add: rq_threads_def)
  show "wait_mask wait_example = 1" "htid wait_example = 0"
    using sched_rest_eqD(5,11) [OF sched_rest_queue(2) [of 10 ?s]] by (simp_all add: wait_example_def)
qed

theorem resched_from_wait_witness:
  "\<exists>s'. H2K_resched NULL 0 wait_example = Some (s', 10) \<and> sched_inv s' ((\<lambda>_. [])(3 := [])) \<and> runlist s' 0 = 10"
proof -
  let ?rq = "(\<lambda>_. [])(3 :: nat := [10 :: nat])"
  have u: "unset_bit 0 (1 :: u32) = 0" by (intro bit_word_eqI) (auto simp: bit_1_iff)
  have h: "bit (wait_mask wait_example) (unat (0 :: u32))" "htid wait_example = 0"
    "clusters_cover (wait_example\<lparr>wait_mask := unset_bit (unat (0 :: u32)) (wait_mask wait_example)\<rparr>)"
    by (simp_all add: wait_example_inv(2,3) clusters_cover_def u)
  obtain s' new where r: "H2K_resched NULL 0 wait_example = Some (s', new)"
    "if new = NULL
     then sched_inv (H2K_switch NULL NULL s') ?rq \<and> ((\<forall>p<256. ?rq p = []) \<or> cluster_sched wait_example \<noteq> 0)
     else \<exists>b<256. ?rq b \<noteq> [] \<and> (\<forall>q<b. ?rq q = []) \<and> new = hd (?rq b) \<and>
       sched_inv s' (?rq(b := tl (?rq b))) \<and> runlist s' (unat (0 :: u32)) = new"
    using resched_from_wait [OF wait_example_inv(1) h] by (elim exE conjE)
  have c: "cluster_sched wait_example = 0"
    using sched_rest_eqD(12) [OF sched_rest_queue(2)] by (simp add: wait_example_def)
  have "\<not> (\<forall>p<256. ?rq p = [])" by (auto intro!: exI [of _ 3])
  with r(2) c obtain b where b: "?rq b \<noteq> []" "new = hd (?rq b)" "sched_inv s' (?rq(b := tl (?rq b)))" "runlist s' 0 = new"
    by (auto split: if_splits)
  moreover have "b = 3" using b(1) by (simp split: if_splits)
  ultimately show ?thesis using r(1) by simp
qed

text \<open>
  yielding. If no thread of the caller's priority is ready, the call returns and
  nothing changes but the lock is taken and released. Otherwise the caller goes to the end
  of its queue and the next thread, never worse than the caller, is another thread.
\<close>

theorem yield_correct:
  assumes "sched_inv s rq" "status (thr s me) = H2K_STATUS_RUNNING" "clusters_cover s"
    and "htid s = ucast (hthread (thr s me))"
  defines "p \<equiv> unat (prio (thr s me))"
  defines "rq1 \<equiv> rq(p := rq p @ [me])"
  shows "if rq p = [] then H2K_sched_yield me s = Some (BKL_UNLOCK (BKL_LOCK s), Ret ())
    else \<exists>s' new. H2K_sched_yield me s = Some (s', Switch me new) \<and> new \<noteq> me \<and>
      (if new = NULL then cluster_sched s \<noteq> 0 \<and> wait_mask s \<noteq> 0 \<and> sched_inv (H2K_switch me NULL s') rq1
       else \<exists>b\<le>p. rq1 b \<noteq> [] \<and> (\<forall>q<b. rq1 q = []) \<and> new = hd (rq1 b) \<and> sched_inv s' (rq1(b := tl (rq1 b))))"
proof -
  let ?s = "BKL_LOCK s"
  note I = sched_invD [OF assms(1)]
  have v: "H2K_ready_prio_valid ?s p \<longleftrightarrow> rq p \<noteq> []"
    using ready_repD(5) [OF I(1)] by (simp add: ready_prio_valid_bit p_def)
  show ?thesis
  proof (cases "rq p = []")
    case True
    with v show ?thesis by (simp add: H2K_sched_yield_def Let_def p_def)
  next
    case False
    have s: "sched_inv ?s rq" "status (thr ?s me) = H2K_STATUS_RUNNING" "clusters_cover ?s"
      "htid ?s = ucast (hthread (thr ?s me))" using assms(1-4) by simp_all
    have t: "unat (prio (thr ?s me)) = p" "cluster_sched ?s = cluster_sched s" "wait_mask ?s = wait_mask s"
      by (simp_all add: p_def)
    obtain s' new where d: "H2K_dosched me (htid ?s) (requeue me ?s) = Some (s', new)"
      "if new = NULL then cluster_sched s \<noteq> 0 \<and> wait_mask s \<noteq> 0 \<and> sched_inv (H2K_switch me NULL s') rq1
       else \<exists>b\<le>p. rq1 b \<noteq> [] \<and> (\<forall>q<b. rq1 q = []) \<and> new = hd (rq1 b) \<and> sched_inv s' (rq1(b := tl (rq1 b))) \<and>
         runlist s' (unat (hthread (thr ?s me))) = new"
      using requeue_dosched [OF s] unfolding t rq1_def [symmetric] by (elim exE conjE)
    have "ucast (hthread (thr (requeue me ?s) me)) = htid ?s"
      using more_eqD(3) [OF requeue_more [of me ?s me]] s(4) by simp
    then have y: "H2K_sched_yield me s = Some (s', Switch me new)"
      using v False d(1) by (simp add: H2K_sched_yield_def Let_def p_def requeue_def)
    have "me \<noteq> NULL" using runlist_okD(2) [OF I(3) assms(2)] .
    moreover have "hd (rq1 b) \<noteq> me" if "rq1 b \<noteq> []" "b \<le> p" for b
    proof -
      have "me \<notin> set (rq b)"
        using ready_repD(4) [OF I(1) le_less_trans [OF that(2)], of me] assms(2) by (auto simp: p_def)
      moreover have "hd (rq1 b) = hd (rq b)" "rq b \<noteq> []" using that False by (auto simp: rq1_def split: if_splits)
      ultimately show ?thesis by (metis hd_in_set)
    qed
    ultimately have "new \<noteq> me" using d(2) by (auto split: if_splits)
    with y d(2) False show ?thesis by (auto split: if_splits)
  qed
qed

theorem yield_correct_witness:
  "\<exists>s'. H2K_sched_yield 20 sched_example = Some (s', Switch 20 10) \<and> sched_inv s' ((\<lambda>_. [])(3 := [11, 20]))"
proof -
  define rq1 :: "nat \<Rightarrow> ptr list" where "rq1 = (\<lambda>_. [])(3 := [10, 11, 20])"
  let ?p = "unat (prio (thr sched_example 20))"
  have q: "((\<lambda>_. [])(3 := [10, 11]))(?p := ((\<lambda>_. [])(3 := [10, 11])) ?p @ [20]) = rq1"
    "((\<lambda>_. [])(3 := [10, 11])) ?p = [10, 11 :: nat]"
    by (simp_all add: sched_example_thr rq1_def)
  have h: "htid sched_example = ucast (hthread (thr sched_example 20))" by (simp add: sched_example_thr)
  obtain s' new where r: "H2K_sched_yield 20 sched_example = Some (s', Switch 20 new)"
    "if new = NULL then cluster_sched sched_example \<noteq> 0 \<and> wait_mask sched_example \<noteq> 0 \<and>
        sched_inv (H2K_switch 20 NULL s') rq1
     else \<exists>b\<le>?p. rq1 b \<noteq> [] \<and> (\<forall>q<b. rq1 q = []) \<and> new = hd (rq1 b) \<and> sched_inv s' (rq1(b := tl (rq1 b)))"
    using yield_correct [OF sched_example_inv sched_example_thr(1) sched_example_cover h,
        unfolded q(1), unfolded q(2)]
    unfolding list.distinct(2) [THEN eq_False [THEN iffD2]] if_False by (elim exE conjE)
  with sched_example_thr(5) obtain b where b: "rq1 b \<noteq> []" "new = hd (rq1 b)" "sched_inv s' (rq1(b := tl (rq1 b)))"
    by (auto split: if_splits)
  moreover have "b = 3" using b(1) by (simp add: rq1_def split: if_splits)
  ultimately show ?thesis using r(1) by (simp add: rq1_def)
qed

text \<open>
  C27: the sanity check misses no reschedule. It keeps the invariant, leaves some hardware
  thread marked as the lowest, and raises the reschedule interrupt whenever a ready thread
  is better than a running one, or a thread is ready while a hardware thread waits.
\<close>

theorem check_sanity_no_missed_resched:
  fixes r :: u64
  assumes "sched_inv s rq" "h < unat (hthreads s)" "runlist s h \<noteq> NULL"
  defines "s' \<equiv> fst (H2K_check_sanity r s)"
  shows "sched_inv s' rq \<and> priomask s' \<noteq> 0 \<and>
    ((\<exists>t u. t \<in> rq_threads rq \<and> status (thr s u) = H2K_STATUS_RUNNING \<and> prio (thr s t) < prio (thr s u)) \<or>
     wait_mask s \<noteq> 0 \<and> rq_threads rq \<noteq> {} \<longrightarrow> bit (ipend s') 1)"
proof -
  note I = sched_invD [OF assms(1)]
  let ?s1 = "if priomask s = 0 then H2K_lowprio_notify s else s"
  have f: "H2K_ready_best_prio ?s1 = H2K_ready_best_prio s" "H2K_runlist_worst_prio ?s1 = H2K_runlist_worst_prio s"
    "wait_mask ?s1 = wait_mask s"
    by (simp_all add: H2K_ready_best_prio_def H2K_runlist_worst_prio_def)
  have best: "H2K_ready_best_prio s \<le> unat (prio (thr s t))" if t: "t \<in> rq_threads rq" for t
    using t ready_repD(3) [OF I(1)] best_prio_rep(3) [OF I(1)] by (force simp: rq_threads_def)
  have "bit (ipend s') 1" if t: "t \<in> rq_threads rq" "status (thr s u) = H2K_STATUS_RUNNING" "prio (thr s t) < prio (thr s u)" for t u
  proof -
    note ru = runlist_okD(2-4) [OF I(3) t(2)]
    have "H2K_ready_best_prio s \<le> unat (prio (thr s t))" using best [OF t(1)] .
    also have "\<dots> < unat (prio (thr s u))" using t(3) by (simp add: word_less_nat_alt)
    also have "\<dots> \<le> H2K_runlist_worst_prio s" using worst_prio_running(2) [OF I(3) ru(2)] ru by simp
    finally show ?thesis using f resched_int_sets [of ?s1] by (simp add: s'_def H2K_check_sanity_def Let_def)
  qed
  moreover have "bit (ipend s') 1" if w: "wait_mask s \<noteq> 0" "rq_threads rq \<noteq> {}"
  proof -
    obtain t where "t \<in> rq_threads rq" using w(2) by blast
    from le_less_trans [OF best [OF this] prio_lt] have "H2K_ready_any_valid ?s1"
      by (simp add: H2K_ready_any_valid_def f MAX_PRIOS_def)
    then show ?thesis using f w(1) resched_int_sets [of ?s1] by (simp add: s'_def H2K_check_sanity_def Let_def)
  qed
  ultimately show ?thesis using check_sanity_inv [OF assms(1-3), of r] by (auto simp: s'_def)
qed

text \<open>A ready thread (10, priority 3) better than the running thread 21 (priority 5).\<close>

theorem check_sanity_witness:
  "bit (ipend (fst (H2K_check_sanity 0 sched_example))) 1"
proof -
  have f: "hthreads sched_example = 2" "runlist sched_example 0 = 20"
    using sched_rest_eqD(2,7) [OF sched_rest_queue(2) [of 11 "H2K_ready_append 10 sched_base"]]
      sched_rest_eqD(2,7) [OF sched_rest_queue(2) [of 10 sched_base]]
    by (simp_all add: sched_example_def sched_base_def)
  have m: "status (thr sched_example 21) = H2K_STATUS_RUNNING" "prio (thr sched_example 21) = 5"
    "prio (thr sched_example 10) = 3"
    using more_eqD(1,2) [OF ready_append_more [of 11 "H2K_ready_append 10 sched_base"]]
      more_eqD(1,2) [OF ready_append_more [of 10 sched_base]]
    by (simp_all add: sched_example_def sched_base_def)
  have "10 \<in> rq_threads ((\<lambda>_. [])(3 := [10, 11]))" by (auto simp: rq_threads_def intro!: bexI [of _ 3])
  with check_sanity_no_missed_resched [OF sched_example_inv, of 0 0] f m show ?thesis by force
qed

end
