(* ===== verification/Futex_Queue.thy ===== *)
theory Futex_Queue
  imports Sched
begin

text \<open>
  The futex wait queues, \<^verbatim>\<open>kernel/futex/futex_common\<close> and \<^verbatim>\<open>kernel/futex/futex_misc\<close>: a
  hash table of rings of blocked threads, each ring ordered by priority and first-come
  first-served within a priority.

  \<open>futex_rep s fq\<close> says that bucket \<open>b\<close> of the table holds the blocked threads \<open>fq b\<close> in
  the order in which they are to be woken. The search loops do not end on a corrupt
  ring, which is \<open>None\<close>.
\<close>

section \<open>Operations\<close>

definition FUTEX_PRIME :: u32 where "FUTEX_PRIME = 2654435761"
definition FUTEX_HASHSIZE :: nat where "FUTEX_HASHSIZE = 64"

definition FUTEX_HASHVAL :: "u64 \<Rightarrow> u32" where
  "FUTEX_HASHVAL x = drop_bit 26 (ucast x * FUTEX_PRIME) XOR ucast (drop_bit 32 x)"

text \<open>The search backwards through the worse priorities.\<close>

partial_function (option) add_search :: "(ptr \<Rightarrow> H2K_thread_context) \<Rightarrow> u8 \<Rightarrow> ptr \<Rightarrow> ptr option" where
  "add_search h p tmp = (if p < prio (h tmp) then add_search h p (prev (h tmp)) else Some tmp)"

definition H2K_futex_hash_add_ring ::
  "(ptr \<Rightarrow> H2K_thread_context) \<Rightarrow> ptr \<Rightarrow> ptr \<Rightarrow> ((ptr \<Rightarrow> H2K_thread_context) \<times> ptr) option" where
  "H2K_futex_hash_add_ring h ring me =
     (if ring = NULL then Some (set_next (set_prev h me me) me me, me)
      else if prio (h me) < prio (h ring) then
        (let h1 = set_next h me ring;
             h2 = set_prev h1 me (prev (h1 (next (h1 me))));
             h3 = set_prev h2 (next (h2 me)) me;
             h4 = set_next h3 (prev (h3 me)) me
         in Some (h4, me))
      else case add_search h (prio (h me)) (prev (h ring)) of
        None \<Rightarrow> None
      | Some tmp \<Rightarrow>
          (let h1 = set_next h me (next (h tmp));
               h2 = set_prev h1 me tmp;
               h3 = set_prev h2 (next (h2 me)) me;
               h4 = set_next h3 (prev (h3 me)) me
           in Some (h4, ring)))"

partial_function (option) find_match :: "(ptr \<Rightarrow> H2K_thread_context) \<Rightarrow> u32 \<Rightarrow> ptr \<Rightarrow> ptr \<Rightarrow> ptr option" where
  "find_match h locklo ring cur =
     (if futex_ptr_lo (h cur) = locklo then Some cur
      else let cur1 = next (h cur)
           in if cur1 = ring then Some NULL else find_match h locklo ring cur1)"

text \<open>
  \<open>b\<close> is the bucket whose ring is given, \<open>pos\<close> the position to search from; the result is
  the new state, the new position and the thread made ready (\<open>NULL\<close> for none).
\<close>

definition H2K_futex_hash_remove_one :: "u32 \<Rightarrow> nat \<Rightarrow> ptr \<Rightarrow> H2K_kg_t \<Rightarrow> (H2K_kg_t \<times> ptr \<times> ptr) option" where
  "H2K_futex_hash_remove_one locklo b pos s =
     (if futexhash s b = NULL then Some (s, pos, NULL)
      else case find_match (thr s) locklo (futexhash s b) pos of
        None \<Rightarrow> None
      | Some cur \<Rightarrow>
          if cur = NULL then Some (s, pos, NULL)
          else
            let tmp = next (thr s cur);
                (h, r) = H2K_ring_remove_real (thr s) (futexhash s b) cur;
                s1 = s\<lparr>thr := h, futexhash := (futexhash s)(b := r)\<rparr>
            in Some (H2K_ready_append cur s1, tmp, cur))"

definition H2K_futex_cancel :: "ptr \<Rightarrow> H2K_kg_t \<Rightarrow> H2K_kg_t" where
  "H2K_futex_cancel dest s =
     (let b = unat (FUTEX_HASHVAL (ucast (futex_ptr (thr s dest))));
          (h, r) = H2K_ring_remove_real (thr s) (futexhash s b) dest
      in upd_thr dest (r00_update (\<lambda>_. -1)) (s\<lparr>thr := h, futexhash := (futexhash s)(b := r)\<rparr>))"

section \<open>Hashing\<close>

lemma hashval_bound:
  assumes "x < 2 ^ 38"
  shows "unat (FUTEX_HASHVAL x) < FUTEX_HASHSIZE"
proof -
  have "\<not> bit (FUTEX_HASHVAL x) n" if "6 \<le> n" for n
    using word_lt_exp_bits [OF assms, of "32 + n"] that
    by (auto simp: FUTEX_HASHVAL_def bit_simps dest: bit_imp_le_length)
  from word_bits_lt_exp [of 6, OF this] show ?thesis by (simp add: FUTEX_HASHSIZE_def)
qed

text \<open>
  The rings are searched by the low 32 bits of the address only: within a bucket these
  determine the address.
\<close>

lemma hashval_separates:
  assumes "FUTEX_HASHVAL x = FUTEX_HASHVAL y" "ucast x = (ucast y :: u32)"
  shows "x = y"
proof (rule bit_word_eqI)
  have hi: "(ucast (drop_bit 32 x) :: u32) = ucast (drop_bit 32 y)"
    using assms(1,2) unfolding FUTEX_HASHVAL_def
    by (metis (no_types, lifting) xor.left_commute xor.right_neutral xor_self_eq)
  fix n assume n: "n < LENGTH(64)"
  show "bit x n = bit y n"
  proof (cases "n < 32")
    case True
    have "bit (ucast x :: u32) n = bit (ucast y :: u32) n" by (simp add: assms(2))
    with True show ?thesis by (simp add: bit_simps)
  next
    case False
    have "bit (ucast (drop_bit 32 x) :: u32) (n - 32) = bit (ucast (drop_bit 32 y) :: u32) (n - 32)" by (simp add: hi)
    with False n show ?thesis by (auto simp: bit_simps)
  qed
qed

section \<open>Adding to a queue\<close>

definition prio_insert :: "(ptr \<Rightarrow> u8) \<Rightarrow> ptr \<Rightarrow> ptr list \<Rightarrow> ptr list" where
  "prio_insert P x xs = filter (\<lambda>t. P t \<le> P x) xs @ x # filter (\<lambda>t. P x < P t) xs"

lemma add_search_spec:
  assumes "is_ring h r (as @ tmp # bs)" "prio (h r) \<le> p"
  shows "\<exists>cs t ds. as @ [tmp] = cs @ t # ds \<and> add_search h p tmp = Some t \<and>
    prio (h t) \<le> p \<and> (\<forall>d\<in>set ds. p < prio (h d))"
  using assms(1)
proof (induction as arbitrary: tmp bs rule: rev_induct)
  case Nil
  then have "tmp = r" using is_ring_head by fastforce
  then have "add_search h p tmp = Some r" using assms(2) by (subst add_search.simps) (auto simp: not_less [symmetric])
  with \<open>tmp = r\<close> assms(2) show ?case by (intro exI [of _ "[]"] exI [of _ r]) simp
next
  case (snoc a as)
  show ?case
  proof (cases "p < prio (h tmp)")
    case True
    have "prev (h tmp) = a" using ring_neighbours(2) [OF snoc.prems] by simp
    moreover obtain cs t ds where IH: "as @ [a] = cs @ t # ds" "add_search h p a = Some t"
      "prio (h t) \<le> p" "\<forall>d\<in>set ds. p < prio (h d)"
      using snoc.IH [of a "tmp # bs"] snoc.prems by auto
    ultimately have "add_search h p tmp = Some t" using True by (subst add_search.simps) simp
    moreover have "(as @ [a]) @ [tmp] = cs @ t # (ds @ [tmp])" using IH(1) by simp
    ultimately show ?thesis using IH(3,4) True by (metis Un_iff empty_iff empty_set insert_iff list.simps(15) set_append)
  next
    case False
    then have "add_search h p tmp = Some tmp" by (subst add_search.simps) simp
    with False show ?thesis by (intro exI [of _ "as @ [a]"] exI [of _ tmp] exI [of _ "[]"]) (simp add: not_less)
  qed
qed

lemma add_ring_front:
  assumes "ring = NULL \<or> prio (h me) < prio (h ring) \<and> me \<noteq> prev (h ring)"
  shows "H2K_futex_hash_add_ring h ring me = Some (H2K_ring_insert_real h ring me)"
  using assms
  by (auto simp: H2K_futex_hash_add_ring_def H2K_ring_insert_real_def link_alone_def link_before_head_def
      Let_def set_next_prev_commute)

lemma add_ring_search:
  assumes "ring \<noteq> NULL" "\<not> prio (h me) < prio (h ring)" "add_search h (prio (h me)) (prev (h ring)) = Some tmp"
  shows "H2K_futex_hash_add_ring h ring me = Some (link_after h tmp me, ring)"
  using assms by (simp add: H2K_futex_hash_add_ring_def link_after_def Let_def)

lemma sorted_insert_split:
  assumes "sorted (map P (cs @ t # ds))" "P t \<le> P x" "\<forall>d\<in>set ds. P x < P d"
  shows "prio_insert P x (cs @ t # ds) = cs @ t # x # ds"
proof -
  have "\<forall>c\<in>set cs. P c \<le> P x" using assms(1,2) by (fastforce simp: sorted_append)
  then have "filter (\<lambda>t. P t \<le> P x) cs = cs" "filter (\<lambda>t. P x < P t) cs = []"
    by (auto simp: filter_empty_conv not_less)
  moreover have "filter (\<lambda>t. P t \<le> P x) ds = []" "filter (\<lambda>t. P x < P t) ds = ds"
    using assms(3) by (auto simp: filter_empty_conv not_le)
  ultimately show ?thesis using assms(2) by (simp add: prio_insert_def not_less [symmetric])
qed

lemma set_prio_insert [simp]: "set (prio_insert P x xs) = insert x (set xs)"
  by (auto simp: prio_insert_def not_le)

lemma sorted_prio_insert: "sorted (map P xs) \<Longrightarrow> sorted (map P (prio_insert P x xs))"
  by (auto simp: prio_insert_def sorted_append sorted_map sorted_wrt_filter)

lemma add_ring_rep:
  assumes ring: "is_ring h r xs" and srt: "sorted (map (\<lambda>t. prio (h t)) xs)" and me: "me \<notin> set xs" "me \<noteq> NULL"
  shows "\<exists>h' r'. H2K_futex_hash_add_ring h r me = Some (h', r') \<and>
    is_ring h' r' (prio_insert (\<lambda>t. prio (h t)) me xs) \<and>
    (\<forall>q. ringnode.more (h' q) = ringnode.more (h q)) \<and> (\<forall>q. q \<notin> set xs \<longrightarrow> q \<noteq> me \<longrightarrow> h' q = h q)"
proof (cases "r = NULL \<or> prio (h me) < prio (h r)")
  case True
  have "prio_insert (\<lambda>t. prio (h t)) me xs = me # xs"
  proof (cases xs)
    case (Cons x ys)
    then have "prio (h me) < prio (h x)" using True ring is_ring_head [of h r xs] by fastforce
    then have "\<forall>t\<in>set xs. prio (h me) < prio (h t)" using srt Cons by (auto intro: less_le_trans)
    then have "filter (\<lambda>t. prio (h t) \<le> prio (h me)) xs = []" "filter (\<lambda>t. prio (h me) < prio (h t)) xs = xs"
      by (auto simp: filter_empty_conv not_le)
    then show ?thesis by (simp add: prio_insert_def)
  qed (simp add: prio_insert_def)
  moreover have "H2K_futex_hash_add_ring h r me = Some (H2K_ring_insert_real h r me)"
  proof (cases "xs = []")
    case False
    then have "r \<in> set xs" using is_ring_head [OF ring] by simp
    then have "prev (h r) \<noteq> me" using ring_next_prev(2) [OF ring] me(1) by metis
    with True show ?thesis by (intro add_ring_front) auto
  qed (use ring in \<open>auto intro: add_ring_front\<close>)
  ultimately show ?thesis using kring.rep_ins [OF ring me]
    by (intro exI [of _ "fst (H2K_ring_insert_real h r me)"] exI [of _ "snd (H2K_ring_insert_real h r me)"])
       (auto simp: kring.ins_payload kring.ins_frame [OF ring])
next
  case False
  then have ne: "xs \<noteq> []" using is_ring_null_iff [OF ring] by simp
  then obtain as l where xs: "xs = as @ [l]" by (cases xs rule: rev_cases) auto
  have "prev (h r) = l"
    using ring ne xs is_ring_head [OF ring ne] by (auto simp: is_ring_def cyc_nonempty)
  moreover obtain cs t ds where sp: "as @ [l] = cs @ t # ds" "add_search h (prio (h me)) l = Some t"
    "prio (h t) \<le> prio (h me)" "\<forall>d\<in>set ds. prio (h me) < prio (h d)"
    using add_search_spec [of h r as l "[]" "prio (h me)"] ring xs False by (auto simp: not_less)
  ultimately have a: "H2K_futex_hash_add_ring h r me = Some (link_after h t me, r)"
    using False by (simp add: add_ring_search)
  have t: "t \<in> set xs" using xs sp(1) by simp
  have "is_ring (link_after h t me) r (cs @ t # me # ds)"
    using link_after_ring [of h r cs t ds me] ring me xs sp(1) by simp
  moreover have "prio_insert (\<lambda>t. prio (h t)) me xs = cs @ t # me # ds"
    using sorted_insert_split [of "\<lambda>t. prio (h t)" cs t ds me] srt xs sp by simp
  ultimately show ?thesis using a link_after_frame(1) [OF ring t] link_after_frame(2) by auto
qed

section \<open>Representation\<close>

definition futex_bucket :: "H2K_thread_context \<Rightarrow> nat" where
  "futex_bucket t = unat (FUTEX_HASHVAL (ucast (futex_ptr t)))"

lemma futex_bucket_lt [simp]: "futex_bucket t < 64"
proof -
  have "unat (ucast (futex_ptr t) :: u64) = unat (futex_ptr t)"
    by (simp add: unsigned_ucast_eq take_bit_nat_eq_self order_less_trans [OF unsigned_less])
  moreover have "unat (futex_ptr t) < 2 ^ 34" using unsigned_less [of "futex_ptr t"] by simp
  ultimately have "(ucast (futex_ptr t) :: u64) < 2 ^ 38" by (simp add: word_less_nat_alt)
  from hashval_bound [OF this] show ?thesis by (simp add: futex_bucket_def FUTEX_HASHSIZE_def)
qed

definition futex_rep :: "H2K_kg_t \<Rightarrow> (nat \<Rightarrow> ptr list) \<Rightarrow> bool" where
  "futex_rep s fq \<longleftrightarrow>
     (\<forall>b<64. is_ring (thr s) (futexhash s b) (fq b) \<and> sorted (map (\<lambda>t. prio (thr s t)) (fq b)) \<and>
        (\<forall>t\<in>set (fq b). status (thr s t) = H2K_STATUS_BLOCKED \<and> futex_bucket (thr s t) = b)) \<and>
     (\<forall>t. status (thr s t) = H2K_STATUS_BLOCKED \<longrightarrow> t \<in> set (fq (futex_bucket (thr s t))))"

lemma futex_repD:
  assumes "futex_rep s fq"
  shows "b < 64 \<Longrightarrow> is_ring (thr s) (futexhash s b) (fq b)"
    and "b < 64 \<Longrightarrow> sorted (map (\<lambda>t. prio (thr s t)) (fq b))"
    and "b < 64 \<Longrightarrow> t \<in> set (fq b) \<Longrightarrow> status (thr s t) = H2K_STATUS_BLOCKED"
    and "b < 64 \<Longrightarrow> t \<in> set (fq b) \<Longrightarrow> futex_bucket (thr s t) = b"
    and "status (thr s t) = H2K_STATUS_BLOCKED \<Longrightarrow> t \<in> set (fq (futex_bucket (thr s t)))"
  using assms unfolding futex_rep_def by blast+

text \<open>The invariant of the scheduler and the futex queues together.\<close>

definition kinv :: "H2K_kg_t \<Rightarrow> (nat \<Rightarrow> ptr list) \<Rightarrow> (nat \<Rightarrow> ptr list) \<Rightarrow> bool" where
  "kinv s rq fq \<longleftrightarrow> sched_inv s rq \<and> futex_rep s fq"

lemma blocked_not_ready:
  assumes "kinv s rq fq" "b < 64" "t \<in> set (fq b)"
  shows "t \<notin> rq_threads rq" "status (thr s t) = H2K_STATUS_BLOCKED" "t \<noteq> NULL"
proof -
  have f: "futex_rep s fq" "ready_rep s rq" using assms(1) by (auto simp: kinv_def sched_inv_def)
  show st: "status (thr s t) = H2K_STATUS_BLOCKED" using futex_repD(3) [OF f(1)] assms(2,3) .
  then show "t \<notin> rq_threads rq" using ready_repD(4) [OF f(2)] by (fastforce simp: rq_threads_def)
  show "t \<noteq> NULL" using futex_repD(1) [OF f(1) assms(2)] assms(3) by (metis is_ring_def)
qed

text \<open>A change of links outside the ready queues does not concern the scheduler.\<close>

lemma sched_inv_frame:
  assumes "sched_inv s rq" "ready s' = ready s" "ready_valids s' = ready_valids s" "runlist s' = runlist s"
    "runlist_prios s' = runlist_prios s" "hthreads s' = hthreads s" "wait_mask s' = wait_mask s"
    "priomask s' = priomask s" "imask s' = imask s"
    and links: "\<And>u. u \<in> rq_threads rq \<Longrightarrow> next (thr s' u) = next (thr s u) \<and> prev (thr s' u) = prev (thr s u)"
    and pay: "\<And>u. status (thr s' u) = status (thr s u) \<and> prio (thr s' u) = prio (thr s u) \<and> hthread (thr s' u) = hthread (thr s u)"
  shows "sched_inv s' rq"
proof -
  note I = sched_invD [OF assms(1)]
  have "is_ring (thr s') (ready s p) (rq p)" if "p < 256" for p
    using ready_repD(1) [OF I(1) that] by (rule is_ring_frame) (use links that in \<open>auto simp: rq_threads_def\<close>)
  then have "ready_rep s' rq" using I(1) pay by (simp add: ready_rep_def assms(2,3))
  moreover have "runlist_ok s'" using I(3) by (rule runlist_ok_cong) (use pay assms in auto)
  ultimately show ?thesis
    using I(2,4,5) pay by (simp add: sched_inv_def lowprio_ok_def steer_ok_def assms(6-9))
qed

section \<open>Removing from a queue\<close>

lemma find_match_spec:
  "is_ring h r (as @ cur # bs) \<Longrightarrow>
   find_match h k r cur = Some (case find (\<lambda>t. futex_ptr_lo (h t) = k) (cur # bs) of None \<Rightarrow> NULL | Some c \<Rightarrow> c)"
proof (induction bs arbitrary: as cur)
  case Nil
  have "next (h cur) = r"
    using ring_neighbours(1) [OF Nil] is_ring_head [OF Nil] Nil
    by (cases as) (auto simp: is_ring_def cyc_def)
  then show ?case by (subst find_match.simps) (simp add: Let_def)
next
  case (Cons b bs)
  have nx: "next (h cur) = b" using ring_neighbours(1) [OF Cons.prems] by simp
  have "b \<noteq> r" using Cons.prems by (cases as) (auto simp: is_ring_def)
  with nx Cons.IH [of "as @ [cur]" b] Cons.prems show ?case by (subst find_match.simps) (simp add: Let_def)
qed

lemma remove_one_none:
  assumes "b < 64" "futex_rep s fq" "fq b = [] \<or> (\<exists>as bs. fq b = as @ pos # bs \<and> (\<forall>t\<in>set (pos # bs). futex_ptr_lo (thr s t) \<noteq> k))"
  shows "H2K_futex_hash_remove_one k b pos s = Some (s, pos, NULL)"
proof -
  have ring: "is_ring (thr s) (futexhash s b) (fq b)" using futex_repD(1) [OF assms(2,1)] .
  show ?thesis
  proof (cases "fq b = []")
    case False
    with assms(3) obtain as bs where f: "fq b = as @ pos # bs" "\<forall>t\<in>set (pos # bs). futex_ptr_lo (thr s t) \<noteq> k" by auto
    then have "find (\<lambda>t. futex_ptr_lo (thr s t) = k) (pos # bs) = None" by (simp only: find_None_iff) auto
    with find_match_spec [of "thr s" "futexhash s b" as pos bs k] ring f(1)
    have "find_match (thr s) k (futexhash s b) pos = Some NULL" by simp
    then show ?thesis by (simp add: H2K_futex_hash_remove_one_def)
  qed (use ring in \<open>simp add: H2K_futex_hash_remove_one_def\<close>)
qed

lemma futex_rep_drop:
  assumes rep: "futex_rep s fq" and b: "b < 64" and t: "t \<in> set (fq b)"
    and ring: "is_ring (thr s') (futexhash s' b) (remove1 t (fq b))"
    and other: "\<And>c. c < 64 \<Longrightarrow> c \<noteq> b \<Longrightarrow> is_ring (thr s') (futexhash s' c) (fq c)"
    and pay: "\<And>u. u \<noteq> t \<Longrightarrow> ringnode.more (thr s' u) = ringnode.more (thr s u)"
    and st: "status (thr s' t) \<noteq> H2K_STATUS_BLOCKED"
  shows "futex_rep s' (fq(b := remove1 t (fq b)))"
proof -
  note mo = more_eqD [OF pay]
  have d: "distinct (fq b)" using futex_repD(1) [OF rep b] by (simp add: is_ring_def)
  then have sub: "set (remove1 t (fq b)) = set (fq b) - {t}" by simp
  have tc: "t \<notin> set (fq c)" if "c < 64" "c \<noteq> b" for c
    using futex_repD(4) [OF rep that(1), of t] futex_repD(4) [OF rep b t] that(2) by auto
  have "is_ring (thr s') (futexhash s' c) ((fq(b := remove1 t (fq b))) c)" if "c < 64" for c
    using ring other that by simp
  moreover have "sorted (map (\<lambda>t. prio (thr s' t)) ((fq(b := remove1 t (fq b))) c))" if c: "c < 64" for c
  proof -
    have eq: "map (\<lambda>t. prio (thr s' t)) ((fq(b := remove1 t (fq b))) c) =
      map (\<lambda>t. prio (thr s t)) ((fq(b := remove1 t (fq b))) c)"
    proof (intro map_cong refl)
      fix x assume "x \<in> set ((fq(b := remove1 t (fq b))) c)"
      then have "x \<noteq> t" using tc [OF c] sub by (cases "c = b") auto
      then show "prio (thr s' x) = prio (thr s x)" by (rule mo(1))
    qed
    have "sorted (map (\<lambda>t. prio (thr s t)) (remove1 t (fq b)))"
      using futex_repD(2) [OF rep b] d by (simp add: distinct_remove1_removeAll removeAll_filter_not_eq sorted_map sorted_wrt_filter)
    then show ?thesis unfolding eq using futex_repD(2) [OF rep c] by simp
  qed
  moreover have "status (thr s' u) = H2K_STATUS_BLOCKED \<and> futex_bucket (thr s' u) = c"
    if c: "c < 64" and u: "u \<in> set ((fq(b := remove1 t (fq b))) c)" for c u
  proof -
    have "u \<noteq> t" "u \<in> set (fq c)" using u c tc sub by (auto split: if_splits)
    then show ?thesis using futex_repD(3,4) [OF rep c] mo(2,8) by (simp add: futex_bucket_def)
  qed
  moreover have "u \<in> set ((fq(b := remove1 t (fq b))) (futex_bucket (thr s' u)))"
    if u: "status (thr s' u) = H2K_STATUS_BLOCKED" for u
  proof -
    have ut: "u \<noteq> t" using u st by auto
    then have "status (thr s u) = H2K_STATUS_BLOCKED" "futex_bucket (thr s' u) = futex_bucket (thr s u)"
      using u mo(2,8) by (auto simp: futex_bucket_def)
    with futex_repD(5) [OF rep, of u] ut sub show ?thesis by auto
  qed
  ultimately show ?thesis unfolding futex_rep_def by blast
qed

lemma remove_one_some:
  assumes inv: "kinv s rq fq" and b: "b < 64" and f: "fq b = as @ cs @ c # ds" "pos = hd (cs @ [c])"
    and m: "futex_ptr_lo (thr s c) = k" "\<forall>t\<in>set cs. futex_ptr_lo (thr s t) \<noteq> k"
  defines "p \<equiv> unat (prio (thr s c))"
  shows "\<exists>s'. H2K_futex_hash_remove_one k b pos s = Some (s', hd (ds @ as @ cs @ [c]), c) \<and>
    kinv s' (rq(p := rq p @ [c])) (fq(b := as @ cs @ ds)) \<and>
    (\<forall>u. ringnode.more (thr s' u) = ringnode.more (if u = c then (thr s c)\<lparr>status := H2K_STATUS_READY\<rparr> else thr s u))"
proof -
  have I: "sched_inv s rq" "futex_rep s fq" using inv by (auto simp: kinv_def)
  have ring: "is_ring (thr s) (futexhash s b) (fq b)" using futex_repD(1) [OF I(2) b] .
  have cin: "c \<in> set (fq b)" by (simp add: f)
  note cb = blocked_not_ready [OF inv b cin]
  let ?R = "H2K_ring_remove_real (thr s) (futexhash s b) c"
  let ?s1 = "s\<lparr>thr := fst ?R, futexhash := (futexhash s)(b := snd ?R)\<rparr>"
  let ?s' = "H2K_ready_append c ?s1"
  have "find (\<lambda>t. futex_ptr_lo (thr s t) = k) (cs @ c # ds) = Some c"
    using m by (induction cs) auto
  moreover obtain bs where bs: "cs @ c # ds = pos # bs" using f(2) by (cases cs) auto
  ultimately have "find_match (thr s) k (futexhash s b) pos = Some c"
    using find_match_spec [of "thr s" "futexhash s b" as pos bs k] ring f(1) by simp
  moreover have "next (thr s c) = hd (ds @ as @ cs @ [c])"
    using ring f(1) ring_neighbours(1) [of "thr s" "futexhash s b" "as @ cs" c ds]
    by (cases "ds @ as @ cs = []") (auto simp: is_ring_def cyc_def hd_append)
  moreover have "futexhash s b \<noteq> NULL" using is_ring_null_iff [OF ring] f(1) by simp
  ultimately have r: "H2K_futex_hash_remove_one k b pos s = Some (?s', hd (ds @ as @ cs @ [c]), c)"
    using cb(3) by (simp add: H2K_futex_hash_remove_one_def Let_def split_beta)
  have m1: "ringnode.more (thr ?s1 u) = ringnode.more (thr s u)" for u by (simp add: kring.rem_payload)
  note mo1 = more_eqD [OF m1]
  have fr: "thr ?s1 u = thr s u" if "u \<notin> set (fq b)" for u
    using kring.rem_frame [OF ring cin that] by simp
  have s1: "sched_inv ?s1 rq"
  proof (rule sched_inv_frame [OF I(1)])
    fix u assume "u \<in> rq_threads rq"
    then have "u \<notin> set (fq b)" using blocked_not_ready(1) [OF inv b] by blast
    then show "next (thr ?s1 u) = next (thr s u) \<and> prev (thr ?s1 u) = prev (thr s u)" using fr by simp
  qed (use mo1(1-3) in simp_all)
  have inv': "sched_inv ?s' (rq(p := rq p @ [c]))"
    using ready_append_inv [OF s1 _ cb(3,1)] mo1(1,2) cb(2) by (simp add: p_def)
  have m': "ringnode.more (thr ?s' u) =
      ringnode.more (if u = c then (thr s c)\<lparr>status := H2K_STATUS_READY\<rparr> else thr s u)" for u
    using ready_append_more [of c ?s1 u] m1 [of u] m1 [of c] by (cases "thr ?s1 c"; cases "thr s c") (auto split: if_splits)
  have out: "thr ?s' u = thr ?s1 u" if "u \<notin> rq_threads rq" "u \<noteq> c" for u
    using ready_append_outside [OF sched_invD(1) [OF s1] that] .
  have fh: "futexhash ?s' = (futexhash s)(b := snd ?R)"
    using sched_rest_eqD(6) [OF sched_rest_queue(2) [of c ?s1]] by simp
  have d: "distinct (fq b)" using ring by (simp add: is_ring_def)
  then have rm: "remove1 c (fq b) = as @ cs @ ds" by (simp add: f(1) remove1_append)
  have "is_ring (thr ?s1) (snd ?R) (remove1 c (fq b))" using kring.rep_rem [OF ring cin] by simp
  then have "is_ring (thr ?s') (snd ?R) (remove1 c (fq b))"
  proof (rule is_ring_frame)
    fix u assume "u \<in> set (remove1 c (fq b))"
    then have "u \<in> set (fq b)" "u \<noteq> c" using d by auto
    then show "next (thr ?s' u) = next (thr ?s1 u) \<and> prev (thr ?s' u) = prev (thr ?s1 u)"
      using out blocked_not_ready(1) [OF inv b] by simp
  qed
  then have ring': "is_ring (thr ?s') (futexhash ?s' b) (remove1 c (fq b))" by (simp add: fh)
  have other: "is_ring (thr ?s') (futexhash ?s' e) (fq e)" if e: "e < 64" "e \<noteq> b" for e
  proof -
    have "thr ?s' u = thr s u" if u: "u \<in> set (fq e)" for u
    proof -
      have "u \<notin> set (fq b)" using futex_repD(4) [OF I(2) e(1) u] futex_repD(4) [OF I(2) b, of u] e(2) by auto
      moreover have "u \<noteq> c" using calculation cin by auto
      ultimately show ?thesis using out [OF blocked_not_ready(1) [OF inv e(1) u]] fr by simp
    qed
    with futex_repD(1) [OF I(2) e(1)] e(2) show ?thesis by (simp add: fh) (erule is_ring_frame, simp)
  qed
  have "futex_rep ?s' (fq(b := remove1 c (fq b)))"
    using I(2) b cin ring' other by (rule futex_rep_drop) (use m' more_eqD(2) [OF m' [of c]] in auto)
  with r inv' m' rm show ?thesis by (auto simp: kinv_def)
qed

section \<open>Giving up the hardware thread to wait\<close>

text \<open>
  What the waiting operations have in common: the running thread leaves the run list with a
  status other than running and ready, and the ready queues stay as they are.
\<close>

lemma giveup_mid:
  assumes inv: "sched_inv s rq" and me: "status (thr s me) = H2K_STATUS_RUNNING"
    and ht: "unat (htid s) = unat (hthread (thr s me))"
    and fields: "ready s' = ready s" "ready_valids s' = ready_valids s" "hthreads s' = hthreads s"
      "wait_mask s' = wait_mask s" "priomask s' = priomask s" "imask s' = imask s" "htid s' = htid s"
      "runlist s' = (runlist s)(unat (hthread (thr s me)) := NULL)"
      "runlist_prios s' = (runlist_prios s)(unat (hthread (thr s me)) := -1)"
    and links: "\<And>u. u \<in> rq_threads rq \<Longrightarrow> next (thr s' u) = next (thr s u) \<and> prev (thr s' u) = prev (thr s u)"
    and pay: "\<And>u. u \<noteq> me \<Longrightarrow> status (thr s' u) = status (thr s u) \<and> prio (thr s' u) = prio (thr s u) \<and> hthread (thr s' u) = hthread (thr s u)"
    and st: "status (thr s' me) \<noteq> H2K_STATUS_RUNNING" "status (thr s' me) \<noteq> H2K_STATUS_READY"
  shows "sched_mid (unat (htid s)) s' rq"
proof -
  note I = sched_invD [OF inv]
  let ?h = "unat (hthread (thr s me))"
  have run: "runlist s ?h = me" "?h < unat (hthreads s)" "me \<noteq> NULL" using runlist_okD(2-4) [OF I(3) me] by simp_all
  have notin: "me \<notin> rq_threads rq" using ready_repD(4) [OF I(1)] me by (fastforce simp: rq_threads_def)
  have "ready_rep s' rq"
  proof -
    have "is_ring (thr s') (ready s p) (rq p)" if "p < 256" for p
      using ready_repD(1) [OF I(1) that] by (rule is_ring_frame) (use links that in \<open>auto simp: rq_threads_def\<close>)
    moreover have "status (thr s' u) = status (thr s u) \<and> prio (thr s' u) = prio (thr s u)" if "p < 256" "u \<in> set (rq p)" for p u
      using pay [of u] notin that by (auto simp: rq_threads_def)
    ultimately show ?thesis using I(1) by (simp add: ready_rep_def fields)
  qed
  moreover have "\<forall>t. status (thr s' t) = H2K_STATUS_READY \<longrightarrow> t \<in> rq_threads rq" using I(2) pay st(2) by metis
  moreover have "runlist_ok s'" using I(3) me by (rule runlist_deschedule) (use fields pay st in auto)
  moreover have "\<not> bit (wait_mask s) ?h" using slot_okD(3) [OF runlist_okD(1) [OF I(3) run(2)]] run by simp
  then have "lowprio_mid ?h s'" using lowprio_mid_running [OF I(4)] by (simp add: lowprio_mid_def fields)
  moreover have "steer_ok s'" using I(5) by (simp add: steer_ok_def fields)
  ultimately show ?thesis using run(2) ht by (simp add: sched_mid_def fields)
qed

lemma futex_rep_frame:
  assumes "futex_rep s fq" "futexhash s' = futexhash s"
    and "\<And>u. status (thr s u) = H2K_STATUS_BLOCKED \<Longrightarrow> thr s' u = thr s u"
    and "\<And>u. status (thr s' u) = H2K_STATUS_BLOCKED \<Longrightarrow> status (thr s u) = H2K_STATUS_BLOCKED"
  shows "futex_rep s' fq"
proof -
  have eq: "thr s' t = thr s t" if "b < 64" "t \<in> set (fq b)" for b t
    using futex_repD(3) [OF assms(1) that] assms(3) by blast
  have "is_ring (thr s') (futexhash s' b) (fq b)" if "b < 64" for b
    unfolding assms(2) using futex_repD(1) [OF assms(1) that] by (rule is_ring_frame) (use eq that in auto)
  moreover have "map (\<lambda>t. prio (thr s' t)) (fq b) = map (\<lambda>t. prio (thr s t)) (fq b)" if "b < 64" for b
    using eq that by (intro map_cong) auto
  ultimately show ?thesis
    using futex_repD(2-5) [OF assms(1)] eq assms(3,4) unfolding futex_rep_def by metis
qed

lemma dosched_futexhash:
  assumes "ready_rep s rq" "clusters_cover s" "H2K_dosched me ht s = Some (s', new)"
  shows "futexhash s' = futexhash s" "vmb s' = vmb s" "vmblocks s' = vmblocks s" "cluster_sched s' = cluster_sched s"
proof -
  obtain s1 r where g: "H2K_ready_getbest ht s = Some (s1, r)" "sched_rest s1 = sched_rest s"
    using ready_getbest_rep [OF assms(1,2), where ht = ht] by (elim exE conjE)
  note R = sched_rest_eqD [OF g(2)]
  from assms(3) g(1) have "s' = H2K_raise_lowprio s1 \<or> s' = H2K_runlist_push r (upd_thr r (hthread_update (\<lambda>_. ucast ht))
      (mark (unat (prio (thr s1 r)) > H2K_runlist_worst_prio s1) ht s1))"
    by (auto simp: dosched_mark split: if_splits)
  then show "futexhash s' = futexhash s" "vmb s' = vmb s" "vmblocks s' = vmblocks s" "cluster_sched s' = cluster_sched s"
    using R by (auto simp: H2K_runlist_push_def Let_def)
qed

text \<open>The choice of the next thread, with the futex queues.\<close>

lemma dosched_kinv:
  assumes mid: "sched_mid h s rq" and fut: "futex_rep s fq" and cov: "clusters_cover s" and ht: "unat ht = h"
  defines "b \<equiv> H2K_ready_best_prio s"
  shows "\<exists>s' new. H2K_dosched me ht s = Some (s', new) \<and> bkl s' = bkl s \<and> vmb s' = vmb s \<and> vmblocks s' = vmblocks s \<and>
    (\<forall>u. u \<notin> rq_threads rq \<longrightarrow> thr s' u = thr s u) \<and>
    (if new = NULL
     then kinv (H2K_switch me NULL s') rq fq \<and> ((\<forall>p<256. rq p = []) \<or> cluster_sched s \<noteq> 0 \<and> wait_mask s \<noteq> 0)
     else b < 256 \<and> rq b \<noteq> [] \<and> new = hd (rq b) \<and> kinv s' (rq(b := tl (rq b))) fq \<and>
       runlist s' h = new \<and> status (thr s' new) = H2K_STATUS_RUNNING)"
proof -
  note M = sched_midD [OF mid]
  obtain s' new where d: "H2K_dosched me ht s = Some (s', new)" "bkl s' = bkl s"
    "\<forall>u. u \<notin> rq_threads rq \<longrightarrow> thr s' u = thr s u"
    "if new = NULL
     then sched_inv (H2K_switch me NULL s') rq \<and> ((\<forall>p<256. rq p = []) \<or> cluster_sched s \<noteq> 0 \<and> wait_mask s \<noteq> 0)
     else b < 256 \<and> rq b \<noteq> [] \<and> new = hd (rq b) \<and> sched_inv s' (rq(b := tl (rq b))) \<and>
       runlist s' h = new \<and> status (thr s' new) = H2K_STATUS_RUNNING \<and> unat (prio (thr s' new)) = b"
    using dosched_picks [OF mid cov ht, of me] unfolding b_def by (elim exE conjE)
  note fh = dosched_futexhash [OF M(1) cov d(1)]
  have sw: "thr (H2K_switch me NULL s') = thr s'" "futexhash (H2K_switch me NULL s') = futexhash s'"
    by (simp_all add: H2K_switch_def Let_def)
  have nb: "status (thr s' u) \<noteq> H2K_STATUS_BLOCKED" if u: "u \<in> rq_threads rq" for u
  proof (cases "new = NULL")
    case True
    then have "ready_rep (H2K_switch me NULL s') rq" using d(4) sched_invD(1) by simp
    then show ?thesis using ready_repD(4) u sw(1) by (fastforce simp: rq_threads_def)
  next
    case False
    then have n: "b < 256" "rq b \<noteq> []" "new = hd (rq b)" "sched_inv s' (rq(b := tl (rq b)))" "status (thr s' new) = H2K_STATUS_RUNNING"
      using d(4) by auto
    show ?thesis
    proof (cases "u = new")
      case False
      then have "u \<in> rq_threads (rq(b := tl (rq b)))" using rq_threads_tl [OF M(1) n(1,2)] n(3) u by simp
      then show ?thesis using ready_repD(4) [OF sched_invD(1) [OF n(4)]] by (fastforce simp: rq_threads_def)
    qed (simp add: n(5))
  qed
  have blk: "status (thr s u) = H2K_STATUS_BLOCKED \<Longrightarrow> u \<notin> rq_threads rq" for u
    using ready_repD(4) [OF M(1)] by (fastforce simp: rq_threads_def)
  have f: "futex_rep s' fq"
    using fut fh(1) by (rule futex_rep_frame) (use d(3) nb blk in metis)+
  have "futex_rep (H2K_switch me NULL s') fq" using f by (simp add: futex_rep_def sw)
  with d f fh show ?thesis by (intro exI [of _ s'] exI [of _ new]) (simp add: kinv_def)
qed

text \<open>
  The state after a hardware thread gave up its thread and the kernel chose \<open>new\<close>: the first
  thread of the best priority runs in its place, or, if none is ready (or cluster scheduling
  hands the work over), the invariant holds once the hardware thread sleeps.
\<close>

definition next_runs :: "ptr \<Rightarrow> ptr \<Rightarrow> H2K_kg_t \<Rightarrow> H2K_kg_t \<Rightarrow> (nat \<Rightarrow> ptr list) \<Rightarrow> (nat \<Rightarrow> ptr list) \<Rightarrow> bool" where
  "next_runs me new s s' rq fq \<longleftrightarrow> cluster_sched s' = cluster_sched s \<and>
     (if new = NULL then kinv (H2K_switch me NULL s') rq fq \<and> ((\<forall>p<256. rq p = []) \<or> cluster_sched s \<noteq> 0 \<and> wait_mask s \<noteq> 0)
      else \<exists>p<256. rq p \<noteq> [] \<and> (\<forall>q<p. rq q = []) \<and> new = hd (rq p) \<and> status (thr s' new) = H2K_STATUS_RUNNING \<and>
        kinv s' (rq(p := tl (rq p))) fq)"

lemma next_runs_cong:
  "cluster_sched t = cluster_sched s \<Longrightarrow> wait_mask t = wait_mask s \<Longrightarrow> next_runs me new t s' rq fq = next_runs me new s s' rq fq"
  by (simp add: next_runs_def)

lemma dosched_runs:
  assumes mid: "sched_mid h s rq" and fut: "futex_rep s fq" and cov: "clusters_cover s" and ht: "unat ht = h"
  shows "\<exists>s' new. H2K_dosched me ht s = Some (s', new) \<and> bkl s' = bkl s \<and> (\<forall>u. u \<notin> rq_threads rq \<longrightarrow> thr s' u = thr s u) \<and>
    next_runs me new s s' rq fq"
proof -
  let ?b = "H2K_ready_best_prio s"
  obtain s' new where d: "H2K_dosched me ht s = Some (s', new)" "bkl s' = bkl s" "\<forall>u. u \<notin> rq_threads rq \<longrightarrow> thr s' u = thr s u"
    "if new = NULL
     then kinv (H2K_switch me NULL s') rq fq \<and> ((\<forall>p<256. rq p = []) \<or> cluster_sched s \<noteq> 0 \<and> wait_mask s \<noteq> 0)
     else ?b < 256 \<and> rq ?b \<noteq> [] \<and> new = hd (rq ?b) \<and> kinv s' (rq(?b := tl (rq ?b))) fq \<and>
       runlist s' h = new \<and> status (thr s' new) = H2K_STATUS_RUNNING"
    using dosched_kinv [OF mid fut cov ht, of me] by (elim exE conjE)
  have best: "\<forall>q<?b. rq q = []" if "?b < 256" using best_prio_rep(2) [OF sched_midD(1) [OF mid]] that by auto
  have c: "cluster_sched s' = cluster_sched s" using dosched_futexhash(4) [OF sched_midD(1) [OF mid] cov d(1)] .
  have "next_runs me new s s' rq fq"
  proof (cases "new = NULL")
    case True
    then show ?thesis using d(4) c by (simp add: next_runs_def)
  next
    case False
    have n: "?b < 256" "rq ?b \<noteq> []" "new = hd (rq ?b)" "kinv s' (rq(?b := tl (rq ?b))) fq" "status (thr s' new) = H2K_STATUS_RUNNING"
      using d(4) unfolding if_not_P [OF False] by blast+
    from n best [OF n(1)] have "\<exists>p<256. rq p \<noteq> [] \<and> (\<forall>q<p. rq q = []) \<and> new = hd (rq p) \<and> status (thr s' new) = H2K_STATUS_RUNNING \<and>
        kinv s' (rq(p := tl (rq p))) fq" by (intro exI [of _ ?b]) simp
    with False c show ?thesis unfolding next_runs_def by simp
  qed
  with d(1-3) show ?thesis by blast
qed

end
