(* ===== verification/Tlbfmt.thy ===== *)
theory Tlbfmt
  imports H2K_Prelude
begin

text \<open>
  Translations (\<^verbatim>\<open>kernel/mem/translate/translate.h\<close>) and the hardware TLB entry format
  (\<^verbatim>\<open>kernel/mem/tlbfmt/tlbfmt.h\<close>) for architecture versions from 73: the fields of a raw
  64-bit entry, the decoding of page size and physical base, and the encoding of a
  translation. The page size is encoded by the position of the lowest set bit of the
  \<open>ppd\<close> field.
\<close>

section \<open>Translations\<close>

record H2K_translation_t =
  pn :: u32
  size :: "4 word"
  xwru :: "4 word"
  cccc :: "3 word"
  weak_ccc :: bool
  hsv39 :: bool
  shared :: bool

definition H2K_translate_default :: "u64 \<Rightarrow> H2K_translation_t" where
  "H2K_translate_default va = \<lparr>pn = ucast (drop_bit 12 va), size = 10, xwru = 15, cccc = 0,
     weak_ccc = True, hsv39 = False, shared = False\<rparr>"

definition H2K_translate_bad :: H2K_translation_t where
  "H2K_translate_bad = \<lparr>pn = 0, size = 0, xwru = 0, cccc = 0, weak_ccc = False, hsv39 = False, shared = False\<rparr>"

section \<open>TLB entries\<close>

type_synonym tlbfmt = u64

definition tlb_ppd :: "tlbfmt \<Rightarrow> u64" where "tlb_ppd e = take_bit 24 e"
definition tlb_xwru :: "tlbfmt \<Rightarrow> u32" where "tlb_xwru e = ucast (take_bit 4 (drop_bit 28 e))"
definition tlb_vpn :: "tlbfmt \<Rightarrow> u32" where "tlb_vpn e = ucast (take_bit 20 (drop_bit 32 e))"
definition tlb_asid :: "tlbfmt \<Rightarrow> u32" where "tlb_asid e = ucast (take_bit 7 (drop_bit 52 e))"
definition tlb_pa3637 :: "tlbfmt \<Rightarrow> u64" where "tlb_pa3637 e = take_bit 2 (drop_bit 59 e)"
definition tlb_pa35 :: "tlbfmt \<Rightarrow> u64" where "tlb_pa35 e = take_bit 1 (drop_bit 61 e)"
definition tlb_valid :: "tlbfmt \<Rightarrow> bool" where "tlb_valid e = bit e 63"

definition H2K_mem_tlbfmt_get_perms :: "tlbfmt \<Rightarrow> u32" where
  "H2K_mem_tlbfmt_get_perms e = tlb_xwru e"

definition H2K_mem_tlbfmt_get_size :: "tlbfmt \<Rightarrow> nat" where
  "H2K_mem_tlbfmt_get_size e = ct0 (ucast e :: u32)"

definition H2K_mem_tlbfmt_get_basepa :: "tlbfmt \<Rightarrow> u64" where
  "H2K_mem_tlbfmt_get_basepa e =
     (let r1 = tlb_ppd e;
          r2 = r1 OR push_bit 24 (tlb_pa35 e);
          r3 = r2 OR push_bit 25 (tlb_pa3637 e);
          r4 = r3 AND (r3 - 1)
      in push_bit 11 r4)"

text \<open>
  The clamp of the page size compares with the \<open>SIZE_MAX\<close> of the C library, so it never
  applies to the four-bit size.
\<close>

definition H2K_mem_tlbfmt_from_trans :: "H2K_translation_t \<Rightarrow> u32 \<Rightarrow> u32 \<Rightarrow> u32 \<Rightarrow> tlbfmt" where
  "H2K_mem_tlbfmt_from_trans tr va asid tlb_size_dma =
     (if xwru tr AND -2 = 0 \<or> hsv39 tr \<and> tlb_size_dma = 0 then 0
      else
        let n = unat (size tr);
            ppd0 = pn tr AND - push_bit n 1;
            ppd = take_bit 24 (push_bit 1 ppd0 OR push_bit n 1)
        in ucast ppd
           OR push_bit 24 (ucast (cccc tr))
           OR push_bit 27 (of_bool (hsv39 tr))
           OR push_bit 28 (ucast (xwru tr))
           OR push_bit 32 (ucast (take_bit 20 (drop_bit 12 va)))
           OR push_bit 52 (ucast (take_bit 7 asid))
           OR push_bit 59 (ucast (take_bit 2 (drop_bit 24 (pn tr))))
           OR push_bit 61 (ucast (take_bit 1 (drop_bit 23 (pn tr))))
           OR push_bit 63 1)"

section \<open>Lowest set bits\<close>

lemma bit_push_bit_iff_word:
  "bit (push_bit m w) i \<longleftrightarrow> m \<le> i \<and> i < LENGTH('a) \<and> bit (w :: 'a::len word) (i - m)"
  by (auto simp: bit_push_bit_iff)

lemma bit_exp_word: "bit (2 ^ n :: 'a::len word) i \<longleftrightarrow> i = n \<and> n < LENGTH('a)"
  by (auto simp: bit_exp_iff)

lemma clear_lowest_bit:
  fixes x :: "'a::len word"
  assumes "x \<noteq> 0"
  shows "x AND (x - 1) = unset_bit (ct0 x) x"
proof -
  define n where "n = ct0 x"
  define a where "a = unset_bit n x"
  have n: "n < LENGTH('a)" unfolding n_def using ct0_lt_iff assms by blast
  have low: "\<not> bit x i" if "i < n" for i using ct0_below that unfolding n_def by blast
  have abit: "\<not> bit a i" if "i \<le> n" for i using low that unfolding a_def by (cases "i = n") auto
  have xn: "bit x n" unfolding n_def by (rule ct0_bit [OF assms])
  have "x = a OR push_bit n 1"
    by (intro bit_word_eqI) (use xn n in \<open>auto simp: bit_exp_word bit_or_iff a_def\<close>)
  also have "\<dots> = a + push_bit n 1"
    by (rule disjunctive_add_eq_or [symmetric], intro bit_word_eqI) (use abit in \<open>auto simp: bit_exp_word bit_and_iff\<close>)
  finally have "x - 1 = a + push_bit n 1 - 1" by (rule arg_cong [where f = "\<lambda>z. z - 1"])
  also have "\<dots> = a + mask n" by (simp add: mask_eq_exp_minus_1 push_bit_of_1)
  also have "\<dots> = a OR mask n"
    by (rule disjunctive_add_eq_or, intro bit_word_eqI) (use abit in \<open>auto simp: bit_mask_iff bit_and_iff\<close>)
  finally have *: "x - 1 = a OR mask n" .
  have "x AND (x - 1) = a" unfolding *
    by (intro bit_word_eqI) (use low in \<open>auto simp: bit_or_iff bit_and_iff bit_mask_iff a_def\<close>)
  then show ?thesis unfolding a_def n_def .
qed

lemma minus_push_bit: "i < LENGTH('a) \<Longrightarrow> bit (- push_bit n 1 :: 'a::len word) i \<longleftrightarrow> n \<le> i"
proof -
  assume i: "i < LENGTH('a)"
  have "- push_bit n 1 = NOT (mask n :: 'a word)" by (simp add: mask_eq_exp_minus_1 minus_eq_not_minus_1)
  with i show ?thesis by (simp add: bit_simps not_less)
qed

section \<open>Round trip\<close>

definition encodable :: "H2K_translation_t \<Rightarrow> u32 \<Rightarrow> bool" where
  "encodable t dma \<longleftrightarrow> xwru t AND -2 \<noteq> 0 \<and> \<not> (hsv39 t \<and> dma = 0) \<and> pn t < 2 ^ 26"

lemma from_trans_bits:
  fixes va asid :: u32
  assumes "encodable t dma" "i < 64"
  defines "e \<equiv> H2K_mem_tlbfmt_from_trans t va asid dma" and "n \<equiv> unat (size t)"
  shows "bit e i \<longleftrightarrow>
    (if i < 24 then i = n \<or> n < i \<and> bit (pn t) (i - 1)
     else if i < 27 then bit (cccc t) (i - 24)
     else if i = 27 then hsv39 t
     else if i < 32 then bit (xwru t) (i - 28)
     else if i < 52 then bit va (i - 20)
     else if i < 59 then bit asid (i - 52)
     else if i < 61 then bit (pn t) (i - 35)
     else if i = 61 then bit (pn t) 23
     else i = 63)"
proof -
  have n: "n < 16" unfolding n_def using unsigned_less [of "size t"] by (simp add: unsigned_less)
  have c: "\<not> bit (cccc t) j" if "3 \<le> j" for j using bit_imp_le_length that by fastforce
  have x: "\<not> bit (xwru t) j" if "4 \<le> j" for j using bit_imp_le_length that by fastforce
  define ppd where "ppd = take_bit 24 (push_bit 1 (pn t AND - push_bit n 1) OR push_bit n 1)"
  have e: "e = (ucast ppd
           OR push_bit 24 (ucast (cccc t))
           OR push_bit 27 (of_bool (hsv39 t))
           OR push_bit 28 (ucast (xwru t))
           OR push_bit 32 (ucast (take_bit 20 (drop_bit 12 va)))
           OR push_bit 52 (ucast (take_bit 7 asid))
           OR push_bit 59 (ucast (take_bit 2 (drop_bit 24 (pn t))))
           OR push_bit 61 (ucast (take_bit 1 (drop_bit 23 (pn t))))
           OR push_bit 63 1)"
    using assms(1) unfolding e_def H2K_mem_tlbfmt_from_trans_def encodable_def n_def ppd_def
    by (simp only: Let_def if_False) auto
  have p: "bit ppd j \<longleftrightarrow> j < 24 \<and> (j = n \<or> n < j \<and> bit (pn t) (j - 1))" for j
    unfolding ppd_def bit_take_bit_iff bit_or_iff bit_push_bit_iff_word bit_and_iff bit_1_iff
    using minus_push_bit [where 'a = 32, of "j - 1" n] n by (cases "j - 1 < 32") auto
  have h: "bit (of_bool b :: u64) j \<longleftrightarrow> b \<and> j = 0" for b j by (cases b) (auto simp: bit_1_iff)
  note bs = bit_push_bit_iff_word bit_unsigned_iff bit_take_bit_iff bit_drop_bit_eq o_def
  have f1: "bit (ucast ppd :: u64) i \<longleftrightarrow> i < 24 \<and> (i = n \<or> n < i \<and> bit (pn t) (i - 1))"
    unfolding bs p using assms(2) by simp
  have f2: "bit (push_bit 24 (ucast (cccc t)) :: u64) i \<longleftrightarrow> 24 \<le> i \<and> bit (cccc t) (i - 24)"
    unfolding bs using assms(2) by auto
  have f3: "bit (push_bit 27 (of_bool (hsv39 t)) :: u64) i \<longleftrightarrow> i = 27 \<and> hsv39 t"
    unfolding bs h using assms(2) by auto
  have f4: "bit (push_bit 28 (ucast (xwru t)) :: u64) i \<longleftrightarrow> 28 \<le> i \<and> bit (xwru t) (i - 28)"
    unfolding bs using assms(2) by auto
  have f5: "bit (push_bit 32 (ucast (take_bit 20 (drop_bit 12 va))) :: u64) i \<longleftrightarrow> 32 \<le> i \<and> i < 52 \<and> bit va (i - 20)"
    unfolding bs using assms(2) by (cases "32 \<le> i") auto
  have f6: "bit (push_bit 52 (ucast (take_bit 7 asid)) :: u64) i \<longleftrightarrow> 52 \<le> i \<and> i < 59 \<and> bit asid (i - 52)"
    unfolding bs using assms(2) by (cases "52 \<le> i") auto
  have f7: "bit (push_bit 59 (ucast (take_bit 2 (drop_bit 24 (pn t)))) :: u64) i \<longleftrightarrow> 59 \<le> i \<and> i < 61 \<and> bit (pn t) (i - 35)"
    unfolding bs using assms(2) by (cases "59 \<le> i") auto
  have f8: "bit (push_bit 61 (ucast (take_bit 1 (drop_bit 23 (pn t)))) :: u64) i \<longleftrightarrow> i = 61 \<and> bit (pn t) 23"
    unfolding bs using assms(2) by (cases "i = 61") auto
  have f9: "bit (push_bit 63 1 :: u64) i \<longleftrightarrow> i = 63"
    unfolding bs bit_1_iff using assms(2) by auto
  note eb = e [THEN arg_cong, of "\<lambda>w. bit w i", unfolded bit_or_iff f1 f2 f3 f4 f5 f6 f7 f8 f9]
  consider "i < 24" | "24 \<le> i" "i < 27" | "i = 27" | "28 \<le> i" "i < 32" | "32 \<le> i" "i < 52" | "52 \<le> i" "i < 59"
    | "59 \<le> i" "i < 61" | "i = 61" | "62 \<le> i" by linarith
  then show ?thesis unfolding eb using assms(2) c [of "i - 24"] x [of "i - 28"] by cases auto
qed

lemma from_trans_low:
  assumes "encodable t dma"
  shows "H2K_mem_tlbfmt_get_size (H2K_mem_tlbfmt_from_trans t va asid dma) = unat (size t)"
proof -
  have n: "unat (size t) < 16" using unsigned_less [of "size t"] by (simp add: unsigned_less)
  note b = from_trans_bits [OF assms, of _ va asid]
  show ?thesis unfolding H2K_mem_tlbfmt_get_size_def
    by (rule ct0_eqI) (use n in \<open>auto simp: bit_unsigned_iff b\<close>)
qed

lemma from_trans_fields:
  fixes va asid :: u32
  assumes "encodable t dma"
  defines "e \<equiv> H2K_mem_tlbfmt_from_trans t va asid dma"
  shows "tlb_valid e" "H2K_mem_tlbfmt_get_perms e = ucast (xwru t)"
    "tlb_vpn e = drop_bit 12 va" "tlb_asid e = take_bit 7 asid"
proof -
  have b: "bit e i = bit (H2K_mem_tlbfmt_from_trans t va asid dma) i" for i by (simp add: e_def)
  note b = b [unfolded from_trans_bits [OF assms(1), of _ va asid]]
  have x: "bit (xwru t) j \<Longrightarrow> j < 4" for j using bit_imp_le_length by fastforce
  show "tlb_valid e" unfolding tlb_valid_def e_def by (simp add: from_trans_bits [OF assms(1)])
  show "H2K_mem_tlbfmt_get_perms e = ucast (xwru t)"
    unfolding H2K_mem_tlbfmt_get_perms_def tlb_xwru_def e_def
    by (intro bit_word_eqI) (auto simp: bit_unsigned_iff bit_take_bit_iff bit_drop_bit_eq from_trans_bits [OF assms(1)] dest: x)
  show "tlb_vpn e = drop_bit 12 va" unfolding tlb_vpn_def e_def
    by (intro bit_word_eqI) (auto simp: bit_unsigned_iff bit_take_bit_iff bit_drop_bit_eq from_trans_bits [OF assms(1)] add.commute dest: bit_imp_le_length)
  show "tlb_asid e = take_bit 7 asid" unfolding tlb_asid_def e_def
    by (intro bit_word_eqI) (auto simp: bit_unsigned_iff bit_take_bit_iff bit_drop_bit_eq from_trans_bits [OF assms(1)])
qed

lemma from_trans_base:
  assumes enc: "encodable t dma"
  shows "H2K_mem_tlbfmt_get_basepa (H2K_mem_tlbfmt_from_trans t va asid dma) =
    push_bit (12 + unat (size t)) (drop_bit (unat (size t)) (ucast (pn t)))"
proof -
  define e where "e = H2K_mem_tlbfmt_from_trans t va asid dma"
  define n where "n = unat (size t)"
  define r where "r = (tlb_ppd e OR push_bit 24 (tlb_pa35 e)) OR push_bit 25 (tlb_pa3637 e)"
  have n: "n < 16" using unsigned_less [of "size t"] by (simp add: unsigned_less n_def)
  note b = from_trans_bits [OF enc, of _ va asid, folded e_def n_def]
  have p: "\<not> bit (pn t) j" if "26 \<le> j" for j
    using word_lt_exp_bits enc that unfolding encodable_def by blast
  have r: "bit r i \<longleftrightarrow> i < 27 \<and> (i = n \<or> n < i \<and> bit (pn t) (i - 1))" for i
    unfolding r_def tlb_ppd_def tlb_pa35_def tlb_pa3637_def bit_or_iff bit_push_bit_iff_word bit_take_bit_iff bit_drop_bit_eq o_def
    using n by (cases "i < 24"; cases "i = 24"; cases "i = 25"; cases "i = 26"; cases "i < 64"; auto simp: b)
  have ct: "ct0 r = n" by (rule ct0_eqI) (use n r in auto)
  have "r \<noteq> 0" using r [of n] n by auto
  then have cl: "r AND (r - 1) = unset_bit n r" using clear_lowest_bit [of r] ct by simp
  have "H2K_mem_tlbfmt_get_basepa e = push_bit 11 (unset_bit n r)"
    unfolding H2K_mem_tlbfmt_get_basepa_def Let_def r_def [symmetric] cl ..
  also have "\<dots> = push_bit (12 + n) (drop_bit n (ucast (pn t)))"
  proof (rule bit_word_eqI)
    fix i assume "i < LENGTH(64)"
    then show "bit (push_bit 11 (unset_bit n r)) i = bit (push_bit (12 + n) (drop_bit n (ucast (pn t) :: u64))) i"
      unfolding bit_push_bit_iff_word bit_unset_bit_word r bit_drop_bit_eq bit_unsigned_iff o_def
      using n p [of "i - 12"] by (cases "12 + n \<le> i"; cases "26 \<le> i - 12") auto
  qed
  finally show ?thesis unfolding e_def n_def .
qed

text \<open>
  C36: Encoding a translation as a TLB entry and decoding it again is the identity on what the
  entry holds: for a translation with some permission, a DMA TLB if one is wanted, and a page
  number of a 38-bit physical address, the entry is valid, its permissions and page size are
  the translation's, its virtual page and address space are those asked for, and its physical
  base is the translation's page number with the low \<open>size\<close> bits cleared.
\<close>

theorem tlbfmt_roundtrip:
  fixes va asid :: u32
  assumes "encodable t dma"
  defines "e \<equiv> H2K_mem_tlbfmt_from_trans t va asid dma"
  shows "tlb_valid e \<and> H2K_mem_tlbfmt_get_perms e = ucast (xwru t) \<and>
    H2K_mem_tlbfmt_get_size e = unat (size t) \<and>
    tlb_vpn e = drop_bit 12 va \<and> tlb_asid e = take_bit 7 asid \<and>
    H2K_mem_tlbfmt_get_basepa e = push_bit (12 + unat (size t)) (drop_bit (unat (size t)) (ucast (pn t)))"
  unfolding e_def using from_trans_fields [OF assms(1)] from_trans_low [OF assms(1)] from_trans_base [OF assms(1)]
  by simp

definition trans_example :: H2K_translation_t where
  "trans_example = \<lparr>pn = 0x2800040, size = 3, xwru = 15, cccc = 7, weak_ccc = False, hsv39 = False, shared = False\<rparr>"

theorem tlbfmt_roundtrip_witness:
  "encodable trans_example 0 \<and>
   H2K_mem_tlbfmt_get_size (H2K_mem_tlbfmt_from_trans trans_example 0x40001000 5 0) = 3 \<and>
   H2K_mem_tlbfmt_get_basepa (H2K_mem_tlbfmt_from_trans trans_example 0x40001000 5 0) = 0x2800040000"
proof -
  have e: "encodable trans_example 0" by code_simp
  have "push_bit (12 + unat (size trans_example)) (drop_bit (unat (size trans_example)) (ucast (pn trans_example))) = (0x2800040000 :: u64)"
    by code_simp
  moreover have "unat (size trans_example) = 3" by (simp add: trans_example_def)
  ultimately show ?thesis using e tlbfmt_roundtrip [OF e, of "0x40001000" 5] by simp
qed

end
