(* ===== verification/Alloc.thy ===== *)
theory Alloc
  imports Kernel_State
begin

text \<open>
  The kernel heap, \<^verbatim>\<open>kernel/mem/alloc\<close>: a boundary-tag allocator. A tag of one word precedes
  each block and holds the block's size in words (the tag included) and whether the
  \<^emph>\<open>previous\<close> block is free; the last word of a free block repeats its size. A tag of size 0
  ends the heap.

  A tag is named by its word index in the heap; the pointer a client holds is the byte
  address after the tag. The abstract heap is the list of blocks with their sizes and
  whether they are free.
\<close>

section \<open>Operations\<close>

definition ALLOC_UNIT :: nat where "ALLOC_UNIT = 8"

definition BYTES :: "u32 \<Rightarrow> u32" where "BYTES x = x * 4"
definition WORDS :: "u32 \<Rightarrow> u32" where "WORDS x = (x + 4) div 4"
definition UNITS :: "u32 \<Rightarrow> u32" where "UNITS x = (x + 8) div 8"

abbreviation tsz :: "(nat \<Rightarrow> H2K_mem_alloc_tag_t) \<Rightarrow> nat \<Rightarrow> nat" where
  "tsz h i \<equiv> unat (tag_size (h i))"

definition ptr_to_tag :: "H2K_kg_t \<Rightarrow> ptr \<Rightarrow> nat" where
  "ptr_to_tag s p = (p - alloc_base s) div 4 - 1"

definition tag_to_ptr :: "H2K_kg_t \<Rightarrow> nat \<Rightarrow> ptr" where
  "tag_to_ptr s i = alloc_base s + 4 * (i + 1)"

definition free_tag :: "nat \<Rightarrow> (nat \<Rightarrow> H2K_mem_alloc_tag_t) \<Rightarrow> (nat \<Rightarrow> H2K_mem_alloc_tag_t) \<times> nat" where
  "free_tag tag0 h0 =
     (let h1 = h0(tag0 := (h0 tag0)\<lparr>tag_released := False\<rparr>);
          prev_size = tsz h1 (tag0 - 1);
          prv = tag0 - prev_size;
          nxt = tag0 + tsz h1 tag0;
          next_next = nxt + tsz h1 nxt;
          h2 = (if tag_size (h1 nxt) \<noteq> 0 \<and> tag_free (h1 next_next)
                then h1(tag0 := (h1 tag0)\<lparr>tag_size := tag_size (h1 tag0) + tag_size (h1 nxt)\<rparr>) else h1);
          (h3, tag) = (if tag_free (h2 tag0)
                then (h2(prv := (h2 prv)\<lparr>tag_size := tag_size (h2 prv) + tag_size (h2 tag0)\<rparr>), prv)
                else (h2, tag0));
          e = tag + tsz h3 tag - 1;
          h4 = h3(e := (h3 e)\<lparr>tag_size := tag_size (h3 tag)\<rparr>);
          n = tag + tsz h4 tag;
          h5 = h4(n := (h4 n)\<lparr>tag_free := True\<rparr>)
      in (h5, tag))"

definition H2K_mem_alloc_free_spinlocked :: "ptr \<Rightarrow> H2K_kg_t \<Rightarrow> H2K_kg_t \<times> nat" where
  "H2K_mem_alloc_free_spinlocked p s =
     (let (h, tag) = free_tag (ptr_to_tag s p) (alloc_heap s) in (s\<lparr>alloc_heap := h\<rparr>, tag))"

text \<open>
  The first-fit search: \<open>None\<close> if it does not end, \<open>Some (s, None)\<close> if no block is large
  enough. A released block met on the way is freed first, under the kernel lock.
\<close>

partial_function (option) alloc_search :: "u32 \<Rightarrow> nat \<Rightarrow> H2K_kg_t \<Rightarrow> (H2K_kg_t \<times> nat option) option" where
  "alloc_search request tag0 s0 =
     (let (s, tag) = (if tag_released (alloc_heap s0 tag0)
            then (let (s', t) = H2K_mem_alloc_free_spinlocked (tag_to_ptr s0 tag0) (BKL_LOCK s0) in (BKL_UNLOCK s', t))
            else (s0, tag0));
          h = alloc_heap s
      in if \<not> tag_free (h (tag + tsz h tag)) \<or> BYTES (ucast (tag_size (h tag)) - 1) < request
         then (let tag' = tag + tsz h tag
               in if tag_size (h tag') = 0 then Some (s, None) else alloc_search request tag' s)
         else Some (s, Some tag))"

text \<open>
  The block is split if the rest has at least one unit. The difference is computed as a
  signed number: rounding may ask for more words than the block has.
\<close>

definition alloc_take :: "u32 \<Rightarrow> nat \<Rightarrow> (nat \<Rightarrow> H2K_mem_alloc_tag_t) \<Rightarrow> (nat \<Rightarrow> H2K_mem_alloc_tag_t)" where
  "alloc_take request tag h =
     (let request_units = UNITS (WORDS request);
          request_words = request_units * of_nat ALLOC_UNIT;
          splinter = tag + unat request_words
      in if sint (ucast (tag_size (h tag)) - request_words) \<ge> int ALLOC_UNIT
         then
           let h1 = h(splinter := \<lparr>tag_free = False, tag_released = False,
                        tag_size = ucast (ucast (tag_size (h tag)) - request_words)\<rparr>);
               e = tag + tsz h1 tag - 1;
               h2 = h1(e := (h1 e)\<lparr>tag_size := tag_size (h1 splinter)\<rparr>)
           in h2(tag := (h2 tag)\<lparr>tag_size := ucast request_words\<rparr>)
         else
           (let n = tag + tsz h tag in h(n := (h n)\<lparr>tag_free := False\<rparr>)))"

definition H2K_mem_alloc_get :: "u32 \<Rightarrow> H2K_kg_t \<Rightarrow> (H2K_kg_t \<times> ptr \<times> u32) option" where
  "H2K_mem_alloc_get request s =
     (case alloc_search request (ALLOC_UNIT - 1) s of
        None \<Rightarrow> None
      | Some (s1, None) \<Rightarrow> Some (s1, NULL, 0)
      | Some (s1, Some tag) \<Rightarrow>
          (let h = alloc_take request tag (alloc_heap s1)
           in Some (s1\<lparr>alloc_heap := h\<rparr>, tag_to_ptr s1 tag, (ucast (tag_size (h tag)) - 1) * 4)))"

definition H2K_mem_alloc :: "u32 \<Rightarrow> H2K_kg_t \<Rightarrow> (H2K_kg_t \<times> ptr) option" where
  "H2K_mem_alloc request s = map_option (\<lambda>(s', p, _). (s', p)) (H2K_mem_alloc_get request s)"

definition H2K_mem_alloc_free :: "ptr \<Rightarrow> H2K_kg_t \<Rightarrow> H2K_kg_t" where
  "H2K_mem_alloc_free p s = fst (H2K_mem_alloc_free_spinlocked p s)"

definition H2K_mem_alloc_init :: "ptr \<Rightarrow> u32 \<Rightarrow> H2K_kg_t \<Rightarrow> H2K_kg_t" where
  "H2K_mem_alloc_init addr sz s =
     (let h = alloc_heap s;
          h1 = h(ALLOC_UNIT - 1 := \<lparr>tag_free = False, tag_released = False, tag_size = ucast (sz - of_nat ALLOC_UNIT)\<rparr>);
          h2 = h1(unat (sz - 1) := \<lparr>tag_free = True, tag_released = False, tag_size = 0\<rparr>)
      in s\<lparr>alloc_base := addr, alloc_heap_size := sz, alloc_heap := h2\<rparr>)"

section \<open>The abstract heap\<close>

type_synonym block = "nat \<times> bool"

text \<open>
  \<open>blocks h i pf bs\<close>: from tag \<open>i\<close> on the heap consists of the blocks \<open>bs\<close>; \<open>pf\<close> says
  whether the block before \<open>i\<close> is free. No two adjacent blocks are free.
\<close>

fun blocks :: "(nat \<Rightarrow> H2K_mem_alloc_tag_t) \<Rightarrow> nat \<Rightarrow> bool \<Rightarrow> block list \<Rightarrow> bool" where
  "blocks h i pf [] \<longleftrightarrow> tag_size (h i) = 0 \<and> tag_free (h i) = pf"
| "blocks h i pf ((n, f) # bs) \<longleftrightarrow>
     2 \<le> n \<and> tsz h i = n \<and> tag_free (h i) = pf \<and> \<not> tag_released (h i) \<and>
     (f \<and> bs \<noteq> [] \<longrightarrow> tsz h (i + n - 1) = n) \<and> \<not> (pf \<and> f) \<and> blocks h (i + n) f bs"

abbreviation total :: "block list \<Rightarrow> nat" where "total bs \<equiv> sum_list (map fst bs)"

definition heap_rep :: "H2K_kg_t \<Rightarrow> block list \<Rightarrow> bool" where
  "heap_rep s bs \<longleftrightarrow> bs \<noteq> [] \<and> blocks (alloc_heap s) (ALLOC_UNIT - 1) False bs \<and> total bs < 2 ^ 29"

text \<open>Freeing the block between \<open>as\<close> and \<open>bs\<close> joins it with free neighbours.\<close>

definition free_spec :: "block list \<Rightarrow> nat \<Rightarrow> block list \<Rightarrow> block list" where
  "free_spec as n bs =
     (let (n1, bs1) = (case bs of (m, True) # cs \<Rightarrow> (n + m, cs) | _ \<Rightarrow> (n, bs))
      in if as \<noteq> [] \<and> snd (last as) then butlast as @ (fst (last as) + n1, True) # bs1
         else as @ (n1, True) # bs1)"

text \<open>The number of words for a request, and the first fit.\<close>

definition need :: "u32 \<Rightarrow> nat" where "need r = 8 * ((unat r div 4 + 1) div 8 + 1)"

definition fits :: "u32 \<Rightarrow> block \<Rightarrow> bool" where
  "fits r b \<longleftrightarrow> snd b \<and> unat r \<le> 4 * (fst b - 1)"

definition take_spec :: "u32 \<Rightarrow> nat \<Rightarrow> block list" where
  "take_spec r n = (if need r + 8 \<le> n then [(need r, False), (n - need r, True)] else [(n, False)])"

section \<open>Segments of the heap\<close>

fun seg :: "(nat \<Rightarrow> H2K_mem_alloc_tag_t) \<Rightarrow> nat \<Rightarrow> bool \<Rightarrow> block list \<Rightarrow> bool \<Rightarrow> bool" where
  "seg h i pf [] m \<longleftrightarrow> True"
| "seg h i pf ((n, f) # bs) m \<longleftrightarrow>
     2 \<le> n \<and> tsz h i = n \<and> tag_free (h i) = pf \<and> \<not> tag_released (h i) \<and>
     (f \<and> (bs \<noteq> [] \<or> m) \<longrightarrow> tsz h (i + n - 1) = n) \<and> \<not> (pf \<and> f) \<and> seg h (i + n) f bs m"

definition lastf :: "bool \<Rightarrow> block list \<Rightarrow> bool" where
  "lastf pf as = (if as = [] then pf else snd (last as))"

lemma lastf_simps [simp]: "lastf pf [] = pf" "lastf pf (a # as) = lastf (snd a) as" "lastf pf (as @ [b]) = snd b"
  by (auto simp: lastf_def)

lemma blocks_append:
  "blocks h i pf (as @ bs) \<longleftrightarrow> seg h i pf as (bs \<noteq> []) \<and> blocks h (i + total as) (lastf pf as) bs"
  by (induction as arbitrary: i pf) (auto simp: add.assoc)

lemma seg_append:
  "seg h i pf (as @ bs) m \<longleftrightarrow> seg h i pf as (bs \<noteq> [] \<or> m) \<and> seg h (i + total as) (lastf pf as) bs m"
  by (induction as arbitrary: i pf) (auto simp: add.assoc)

lemma seg_cong:
  "seg h i pf as m \<Longrightarrow> (\<And>j. i \<le> j \<Longrightarrow> j < i + total as \<Longrightarrow> h' j = h j) \<Longrightarrow> seg h' i pf as m"
proof (induction as arbitrary: i pf)
  case (Cons b as)
  obtain n f where b: "b = (n, f)" by (cases b)
  have "seg h' (i + n) f as m" by (rule Cons.IH) (use Cons.prems b in auto)
  moreover have "h' i = h i" "h' (i + n - 1) = h (i + n - 1)" using Cons.prems b by auto
  ultimately show ?case using Cons.prems(1) b by auto
qed simp

lemma blocks_cong:
  assumes "blocks h i pf bs" "\<And>j. i < j \<Longrightarrow> j \<le> i + total bs \<Longrightarrow> h' j = h j"
    "tag_size (h' i) = tag_size (h i)" "tag_released (h' i) = tag_released (h i)" "tag_free (h' i) = pf'"
    "bs = [] \<or> \<not> (pf' \<and> snd (hd bs))"
  shows "blocks h' i pf' bs"
  using assms
proof (induction bs arbitrary: i pf pf')
  case (Cons b bs)
  obtain n f where b: "b = (n, f)" by (cases b)
  have n: "2 \<le> n" "blocks h (i + n) f bs" using Cons.prems(1) b by auto
  have i: "h' (i + n) = h (i + n)" "h' (i + n - 1) = h (i + n - 1)" using Cons.prems(2) n b by auto
  have tf: "tag_free (h (i + n)) = f" "bs = [] \<or> \<not> (f \<and> snd (hd bs))" using n(2) by (cases bs; auto)+
  have "blocks h' (i + n) f bs"
    by (rule Cons.IH [OF n(2)]) (use Cons.prems(2) b n(1) i tf in auto)
  then show ?case using Cons.prems b i by auto
qed simp

lemma blocks_first: "blocks h i pf bs \<Longrightarrow> tag_free (h i) = pf \<and> (bs = [] \<longrightarrow> tag_size (h i) = 0) \<and> (bs \<noteq> [] \<longrightarrow> tsz h i = fst (hd bs) \<and> 2 \<le> fst (hd bs))"
  by (cases bs) auto

section \<open>Freeing\<close>

lemma place_free:
  assumes "seg h i0 False as True" "\<not> lastf False as" "k = i0 + total as" "2 \<le> N" "tsz h k = N"
    "\<not> tag_free (h k)" "\<not> tag_released (h k)" "blocks h (k + N) p bs" "bs = [] \<or> \<not> snd (hd bs)"
  defines "h4 \<equiv> h(k + N - 1 := (h (k + N - 1))\<lparr>tag_size := tag_size (h k)\<rparr>)"
  shows "blocks (h4(k + N := (h4 (k + N))\<lparr>tag_free := True\<rparr>)) i0 False (as @ (N, True) # bs)"
proof -
  let ?h = "h4(k + N := (h4 (k + N))\<lparr>tag_free := True\<rparr>)"
  have "seg ?h i0 False as True" by (rule seg_cong [OF assms(1)]) (use assms(3,4) in \<open>auto simp: h4_def\<close>)
  moreover have "blocks ?h (k + N) True bs"
    by (rule blocks_cong [OF assms(8)]) (use assms(4,9) in \<open>auto simp: h4_def\<close>)
  moreover have "?h k = h k" using assms(4) by (auto simp: h4_def)
  moreover have "tsz ?h (k + N - 1) = N" using assms(4,5) by (auto simp: h4_def)
  ultimately show ?thesis using assms(2-7) by (simp add: blocks_append)
qed

text \<open>The block and its free successor.\<close>

definition join_next :: "nat \<Rightarrow> block list \<Rightarrow> nat \<times> block list" where
  "join_next n bs = (case bs of (m, True) # cs \<Rightarrow> (n + m, cs) | _ \<Rightarrow> (n, bs))"

lemma free_spec_join:
  "free_spec as n bs = (let (n1, bs1) = join_next n bs
      in if lastf False as then butlast as @ (fst (last as) + n1, True) # bs1 else as @ (n1, True) # bs1)"
  by (simp add: free_spec_def join_next_def lastf_def Let_def)

lemma unat_add_small: "unat a + unat b < 2 ^ LENGTH('a) \<Longrightarrow> unat (a + b) = unat a + unat (b :: 'a::len word)"
  by (simp add: unat_word_ariths)

lemma join_next_tail:
  assumes "blocks h (t + n) False bs" "join_next n bs = (n1, bs1)"
  shows "blocks h (t + n1) (n1 \<noteq> n) bs1" "bs1 = [] \<or> \<not> snd (hd bs1)" "n \<le> n1" "n1 + total bs1 = n + total bs"
    "(if tag_size (h (t + n)) \<noteq> 0 \<and> tag_free (h (t + n + tsz h (t + n))) then n1 = n + tsz h (t + n) else n1 = n)"
proof -
  have "blocks h (t + n1) (n1 \<noteq> n) bs1 \<and> (bs1 = [] \<or> \<not> snd (hd bs1)) \<and> n \<le> n1 \<and> n1 + total bs1 = n + total bs \<and>
    (if tag_size (h (t + n)) \<noteq> 0 \<and> tag_free (h (t + n + tsz h (t + n))) then n1 = n + tsz h (t + n) else n1 = n)"
  proof (cases bs)
    case (Cons b cs)
    obtain m f where b: "b = (m, f)" by (cases b)
    have B: "2 \<le> m" "tsz h (t + n) = m" "blocks h (t + n + m) f cs" "\<not> tag_released (h (t + n))" using assms(1) Cons b by auto
    have tf: "tag_free (h (t + n + m)) = f" using B(3) blocks_first by blast
    have z: "tag_size (h (t + n)) \<noteq> 0" using B(1,2) by auto
    show ?thesis
    proof (cases f)
      case True
      then have j: "n1 = n + m" "bs1 = cs" using assms(2) Cons b by (auto simp: join_next_def)
      have "cs = [] \<or> \<not> snd (hd cs)" using B(3) True by (cases cs) auto
      then show ?thesis using B True j tf z Cons b by (simp add: add.assoc)
    next
      case False
      then have j: "n1 = n" "bs1 = bs" using assms(2) Cons b by (auto simp: join_next_def)
      then show ?thesis using assms(1) False Cons b tf B(2) by simp
    qed
  qed (use assms in \<open>auto simp: join_next_def\<close>)
  then show "blocks h (t + n1) (n1 \<noteq> n) bs1" "bs1 = [] \<or> \<not> snd (hd bs1)" "n \<le> n1" "n1 + total bs1 = n + total bs"
    "(if tag_size (h (t + n)) \<noteq> 0 \<and> tag_free (h (t + n + tsz h (t + n))) then n1 = n + tsz h (t + n) else n1 = n)" by blast+
qed

lemma free_tag_blocks:
  assumes B: "blocks h i0 False (as @ (n, False) # bs)" and i0: "1 \<le> i0" and sz: "total (as @ (n, False) # bs) < 2 ^ 29"
  shows "blocks (fst (free_tag (i0 + total as) h)) i0 False (free_spec as n bs)"
    "tsz (fst (free_tag (i0 + total as) h)) (snd (free_tag (i0 + total as) h)) = (if lastf False as then fst (last as) else 0) + fst (join_next n bs)"
proof -
  define t where "t = i0 + total as"
  obtain n1 bs1 where j: "join_next n bs = (n1, bs1)" by (cases "join_next n bs")
  have sg: "seg h i0 False as True" and b: "2 \<le> n" "tsz h t = n" "tag_free (h t) = lastf False as" "\<not> tag_released (h t)"
    and tail: "blocks h (t + n) False bs"
    using B by (auto simp: blocks_append t_def)
  note J = join_next_tail [OF tail j]
  have w: "tag_size (h t) = of_nat n" using b(2) by auto
  have hr: "h(t := (h t)\<lparr>tag_released := False\<rparr>) = h" using b(4) by (cases "h t") (auto simp: fun_eq_iff)
  define h2 where "h2 = h(t := (h t)\<lparr>tag_size := of_nat n1\<rparr>)"
  have n1: "n1 < 2 ^ 29" using J(4) sz by simp
  then have ts: "tsz h2 t = n1" by (simp add: h2_def unat_of_nat take_bit_nat_eq_self)
  have h2: "(if tag_size (h (t + tsz h t)) \<noteq> 0 \<and> tag_free (h (t + tsz h t + tsz h (t + tsz h t)))
                then h(t := (h t)\<lparr>tag_size := tag_size (h t) + tag_size (h (t + tsz h t))\<rparr>) else h) = h2"
  proof (cases "tag_size (h (t + n)) \<noteq> 0 \<and> tag_free (h (t + n + tsz h (t + n)))")
    case True
    then have "tag_size (h t) + tag_size (h (t + n)) = of_nat n1"
      using J(5) w by simp
    with True show ?thesis by (simp add: h2_def b(2))
  next
    case False
    then have "n1 = n" using J(5) by presburger
    then have "tag_size (h t) = of_nat n1" using w by simp
    then have "h2 = h" unfolding h2_def by (cases "h t") (auto simp: fun_eq_iff)
    with False show ?thesis by (simp only: b(2) if_False)
  qed
  have tail2: "blocks h2 (t + n1) (n1 \<noteq> n) bs1"
    by (rule blocks_cong [OF J(1)]) (use b(1) J(2,3) J(1) blocks_first in \<open>auto simp: h2_def\<close>)
  have "blocks (fst (free_tag t h)) i0 False (free_spec as n bs) \<and>
    tsz (fst (free_tag t h)) (snd (free_tag t h)) = (if lastf False as then fst (last as) else 0) + fst (join_next n bs)"
  proof (cases "lastf False as")
    case False
    have ff: "free_tag t h = (let h4 = h2(t + n1 - 1 := (h2 (t + n1 - 1))\<lparr>tag_size := tag_size (h2 t)\<rparr>)
        in (h4(t + tsz h4 t := (h4 (t + tsz h4 t))\<lparr>tag_free := True\<rparr>), t))"
      unfolding free_tag_def Let_def hr h2 using b(3) False ts by (simp add: h2_def)
    have z: "tsz (h2(t + n1 - 1 := (h2 (t + n1 - 1))\<lparr>tag_size := tag_size (h2 t)\<rparr>)) t = n1" using ts by simp
    have "seg h2 i0 False as True" by (rule seg_cong [OF sg]) (simp add: h2_def t_def)
    from place_free [OF this False t_def _ ts _ _ tail2 J(2)] b(1,3,4) J(3) False
    have "blocks (fst (free_tag t h)) i0 False (as @ (n1, True) # bs1)"
      unfolding ff Let_def z by (simp add: h2_def)
    moreover have "tsz (fst (free_tag t h)) t = n1" unfolding ff Let_def z using z b(1) J(3) by simp
    ultimately show ?thesis using False j ff by (simp add: free_spec_join Let_def)
  next
    case True
    then obtain as' q where as: "as = as' @ [(q, True)]" by (cases as rule: rev_cases) auto
    define k where "k = i0 + total as'"
    have tk: "t = k + q" by (simp add: t_def k_def as)
    have sq: "seg h i0 False as' True" "2 \<le> q" "tsz h k = q" "tsz h (k + q - 1) = q" "\<not> lastf False as'"
      "tag_free (h k) = lastf False as'" "\<not> tag_released (h k)"
      using sg by (auto simp: as seg_append k_def)
    define h3 where "h3 = h2(k := (h2 k)\<lparr>tag_size := tag_size (h2 k) + tag_size (h2 t)\<rparr>)"
    have kt: "k < t" using tk sq(2) by simp
    have s3: "tsz h3 k = q + n1"
    proof -
      have "q + n1 < 2 ^ 30" using sz J(4) by (simp add: as)
      then have "unat (tag_size (h2 k) + tag_size (h2 t)) = q + n1"
        using sq(3) ts kt by (subst unat_add_small) (auto simp: h2_def)
      then show ?thesis by (simp add: h3_def)
    qed
    have tf: "tag_free (h2 t) = True" using b(3) True by (simp add: h2_def)
    have pv: "t - tsz h (t - 1) = k" using sq(4) tk by simp
    have ff: "free_tag t h = (let h4 = h3(k + (q + n1) - 1 := (h3 (k + (q + n1) - 1))\<lparr>tag_size := tag_size (h3 k)\<rparr>)
        in (h4(k + tsz h4 k := (h4 (k + tsz h4 k))\<lparr>tag_free := True\<rparr>), k))"
      unfolding free_tag_def Let_def hr h2 pv by (simp only: tf if_True prod.case h3_def [symmetric] s3)
    have z: "tsz (h3(k + (q + n1) - 1 := (h3 (k + (q + n1) - 1))\<lparr>tag_size := tag_size (h3 k)\<rparr>)) k = q + n1" using s3 by simp
    have seg3: "seg h3 i0 False as' True" by (rule seg_cong [OF sq(1)]) (use kt in \<open>simp add: h2_def h3_def k_def\<close>)
    have kq: "k + (q + n1) = t + n1" using tk by simp
    have tail3: "blocks h3 (k + (q + n1)) (n1 \<noteq> n) bs1"
      unfolding kq using blocks_cong [OF tail2, of h3 "n1 \<noteq> n"] blocks_first [OF tail2] J(2) kt by (auto simp: h3_def)
    have "blocks (fst (free_tag t h)) i0 False (as' @ (q + n1, True) # bs1)"
      unfolding ff Let_def z
      using place_free [OF seg3 sq(5) k_def _ s3 _ _ tail3 J(2)] sq(2,5,6,7) kt by (simp add: h2_def h3_def)
    moreover have "tsz (fst (free_tag t h)) k = q + n1" unfolding ff Let_def z using z sq(2) by simp
    ultimately show ?thesis using True j ff by (simp add: free_spec_join as)
  qed
  then show "blocks (fst (free_tag (i0 + total as) h)) i0 False (free_spec as n bs)"
    "tsz (fst (free_tag (i0 + total as) h)) (snd (free_tag (i0 + total as) h)) = (if lastf False as then fst (last as) else 0) + fst (join_next n bs)"
    unfolding t_def by blast+
qed

section \<open>Allocating\<close>

lemma bytes_val:
  assumes "2 \<le> n" "n < 2 ^ 29" "unat (z :: 30 word) = n"
  shows "unat ((ucast z - 1) * 4 :: u32) = 4 * (n - 1)"
proof -
  have u: "unat (ucast z :: u32) = n" using assms(2,3) by (simp add: unsigned_ucast_eq take_bit_nat_eq_self)
  then have "(1 :: u32) \<le> ucast z" using assms(1) by (simp add: word_le_nat_alt)
  then have v: "unat (ucast z - 1 :: u32) = n - 1" using u by (simp add: unat_sub)
  have m: "unat (y * 4) = take_bit 32 (unat y * 4)" for y :: u32 by (simp add: unat_word_ariths take_bit_eq_mod)
  show ?thesis unfolding m v using assms(1,2) by (simp add: take_bit_nat_eq_self)
qed

lemma bytes_lt:
  assumes "2 \<le> n" "n < 2 ^ 29" "unat (z :: 30 word) = n"
  shows "(BYTES (ucast z - 1) < r) \<longleftrightarrow> 4 * (n - 1) < unat r"
  unfolding BYTES_def word_less_nat_alt bytes_val [OF assms] ..

lemma alloc_search_step:
  assumes "\<not> tag_released (alloc_heap s i)"
  shows "alloc_search r i s =
     (if \<not> tag_free (alloc_heap s (i + tsz (alloc_heap s) i)) \<or> BYTES (ucast (tag_size (alloc_heap s i)) - 1) < r
      then if tag_size (alloc_heap s (i + tsz (alloc_heap s) i)) = 0 then Some (s, None)
           else alloc_search r (i + tsz (alloc_heap s) i) s
      else Some (s, Some i))"
  using assms by (subst alloc_search.simps) (simp only: if_False Let_def prod.case)

lemma alloc_search_spec:
  assumes "blocks (alloc_heap s) i pf bs" "bs \<noteq> []" "total bs < 2 ^ 29"
  shows "alloc_search r i s = Some (s, if \<exists>b\<in>set bs. fits r b
           then Some (i + total (takeWhile (\<lambda>b. \<not> fits r b) bs)) else None)"
  using assms
proof (induction bs arbitrary: i pf)
  case (Cons b bs)
  obtain n f where b: "b = (n, f)" by (cases b)
  let ?h = "alloc_heap s"
  have B: "2 \<le> n" "tsz ?h i = n" "\<not> tag_released (?h i)" "blocks ?h (i + n) f bs" "n < 2 ^ 29"
    using Cons.prems b by auto
  have tf: "tag_free (?h (i + n)) = f" "tag_size (?h (i + n)) = 0 \<longleftrightarrow> bs = []"
    using blocks_first [OF B(4)] by auto
  have c: "(\<not> tag_free (?h (i + tsz ?h i)) \<or> BYTES (ucast (tag_size (?h i)) - 1) < r) \<longleftrightarrow> \<not> fits r b"
    unfolding B(2) tf(1) bytes_lt [OF B(1,5,2)] by (auto simp: fits_def b)
  show ?case
  proof (cases "fits r b")
    case True
    then show ?thesis unfolding alloc_search_step [OF B(3)] c by simp
  next
    case False
    then have st: "alloc_search r i s = (if tag_size (?h (i + n)) = 0 then Some (s, None) else alloc_search r (i + n) s)"
      unfolding alloc_search_step [OF B(3)] c by (simp only: B(2) if_True not_False_eq_True)
    show ?thesis
    proof (cases "bs = []")
      case True
      then show ?thesis using st tf(2) False by simp
    next
      case ne: False
      have "alloc_search r (i + n) s = Some (s, if \<exists>b\<in>set bs. fits r b
           then Some (i + n + total (takeWhile (\<lambda>b. \<not> fits r b) bs)) else None)"
        using Cons.IH [OF B(4) ne] Cons.prems(3) b by simp
      then show ?thesis using st tf(2) False ne b by (simp add: add.assoc)
    qed
  qed
qed simp

lemma request_words:
  assumes "unat r < 2 ^ 31"
  shows "unat (UNITS (WORDS r) * of_nat ALLOC_UNIT) = need r"
proof -
  have w: "unat (WORDS r) = unat r div 4 + 1"
    using assms by (simp add: WORDS_def unat_div unat_add_small)
  have u: "unat (UNITS (WORDS r)) = (unat r div 4 + 1) div 8 + 1"
    using assms w by (simp add: UNITS_def unat_div unat_add_small)
  have "unat (UNITS (WORDS r) * 8) = take_bit 32 (unat (UNITS (WORDS r)) * 8)"
    by (simp add: unat_word_ariths take_bit_eq_mod)
  also have "\<dots> = need r" using assms u by (simp add: need_def take_bit_nat_eq_self)
  finally show ?thesis by (simp add: ALLOC_UNIT_def)
qed

lemma sint_diff:
  assumes "unat a < 2 ^ 30" "unat b < 2 ^ 31"
  shows "sint (a - b :: u32) = int (unat a) - int (unat b)"
proof -
  have "sint (a - b) = signed_take_bit 31 (sint a - sint b)" by (simp add: sint_word_ariths)
  moreover have "sint a = int (unat a)" "sint b = int (unat b)"
    using assms by (simp_all add: sint_small)
  moreover have "uint a < 2 ^ 31" "uint b < 2 ^ 31"
    using uint_lt_nat [of a "2 ^ 31"] uint_lt_nat [of b "2 ^ 31"] assms by simp_all
  moreover have "0 \<le> uint a" "0 \<le> uint b" by simp_all
  ultimately have "signed_take_bit 31 (uint a - uint b) = uint a - uint b" by (intro signed_take_bit_int_eq_self) linarith+
  then show ?thesis using \<open>sint (a - b) = _\<close> \<open>sint a = _\<close> \<open>sint b = _\<close> by simp
qed

lemma alloc_take_blocks:
  assumes B: "blocks h i pf ((n, True) # cs)" and n: "n < 2 ^ 29" and r: "fits r (n, True)"
  shows "blocks (alloc_take r i h) i pf (take_spec r n @ cs)"
    "tsz (alloc_take r i h) i = (if need r + 8 \<le> n then need r else n)"
    "j < i \<Longrightarrow> alloc_take r i h j = h j"
proof -
  define w where "w = UNITS (WORDS r) * of_nat ALLOC_UNIT"
  have ru: "unat r < 2 ^ 31" using r n by (simp add: fits_def)
  then have w: "unat w = need r" unfolding w_def by (rule request_words)
  have nd: "8 \<le> need r" "need r < 2 ^ 31" using ru by (simp_all add: need_def)
  have b: "2 \<le> n" "tsz h i = n" "tag_free (h i) = pf" "\<not> tag_released (h i)" "\<not> pf" "blocks h (i + n) True cs"
    using B by auto
  have z: "unat (ucast (tag_size (h i)) :: u32) = n" using b(2) n by (simp add: unsigned_ucast_eq take_bit_nat_eq_self)
  have sd: "sint (ucast (tag_size (h i)) - w) = int n - int (need r)" using sint_diff [of "ucast (tag_size (h i))" w] z w n nd by simp
  show "j < i \<Longrightarrow> alloc_take r i h j = h j" using b nd w by (auto simp: alloc_take_def Let_def w_def [symmetric])
  show "blocks (alloc_take r i h) i pf (take_spec r n @ cs)"
    "tsz (alloc_take r i h) i = (if need r + 8 \<le> n then need r else n)"
  proof -
    have "blocks (alloc_take r i h) i pf (take_spec r n @ cs) \<and> tsz (alloc_take r i h) i = (if need r + 8 \<le> n then need r else n)"
    proof (cases "need r + 8 \<le> n")
      case True
      have wz: "w \<le> ucast (tag_size (h i))" using True z w by (simp add: word_le_nat_alt)
      have m: "unat (ucast (ucast (tag_size (h i)) - w :: u32) :: 30 word) = n - need r"
        using z w n by (simp add: unsigned_ucast_eq unat_sub [OF wz] take_bit_nat_eq_self)
      have k: "unat (ucast w :: 30 word) = need r" using w True n by (simp add: unsigned_ucast_eq take_bit_nat_eq_self)
      define e :: "30 word" where "e = ucast (ucast (tag_size (h i)) - w :: u32)"
      define h' where "h' = h(i + need r := \<lparr>tag_free = False, tag_released = False, tag_size = e\<rparr>,
          i + n - 1 := (h (i + n - 1))\<lparr>tag_size := e\<rparr>, i := (h i)\<lparr>tag_size := ucast w\<rparr>)"
      have ne: "i + n - 1 \<noteq> i + need r" "i + n - 1 \<noteq> i" "2 \<le> n - need r" using True nd(1) by simp_all
      then have t: "alloc_take r i h = h'"
        unfolding alloc_take_def Let_def w_def [symmetric] sd using True nd(1)
        by (simp add: ALLOC_UNIT_def w b(2) h'_def e_def [symmetric])
      have "blocks h' (i + n) True cs"
        by (rule blocks_cong [OF b(6)]) (use True nd(1) b(6) blocks_first [OF b(6)] in \<open>cases cs; auto simp: h'_def\<close>)+
      then have "blocks h' i pf ((need r, False) # (n - need r, True) # cs)"
        using True nd(1) b(3-5) k m ne by (simp add: h'_def e_def [symmetric])
      moreover have "tsz h' i = need r" using k by (simp add: h'_def)
      ultimately show ?thesis using True t by (simp add: take_spec_def)
    next
      case False
      have t: "alloc_take r i h = h(i + n := (h (i + n))\<lparr>tag_free := False\<rparr>)"
        unfolding alloc_take_def Let_def w_def [symmetric] sd using False b(2) by (simp add: ALLOC_UNIT_def)
      have "blocks (alloc_take r i h) (i + n) False cs" unfolding t by (rule blocks_cong [OF b(6)]) (use b(1) in auto)
      then show ?thesis using False b t by (simp add: take_spec_def)
    qed
    then show "blocks (alloc_take r i h) i pf (take_spec r n @ cs)"
      "tsz (alloc_take r i h) i = (if need r + 8 \<le> n then need r else n)" by blast+
  qed
qed

lemma need_covers: "fits r (n, True) \<Longrightarrow> unat r \<le> 4 * ((if need r + 8 \<le> n then need r else n) - 1)"
proof -
  have "x < 8 * (x div 8 + 1)" for x :: nat by presburger
  then have "unat r div 4 + 1 < need r" unfolding need_def .
  then show "fits r (n, True) \<Longrightarrow> ?thesis" using div_mult_mod_eq [of "unat r" 4] by (auto simp: fits_def)
qed

section \<open>The heap as a list of blocks\<close>

lemma ptr_tag [simp]: "ptr_to_tag s (tag_to_ptr s' i) = (if alloc_base s' = alloc_base s then i else ptr_to_tag s (tag_to_ptr s' i))"
  by (simp add: ptr_to_tag_def tag_to_ptr_def)

lemma total_free_spec: "total (free_spec as n bs) = total (as @ (n, f) # bs)"
proof -
  obtain n1 bs1 where j: "join_next n bs = (n1, bs1)" by (cases "join_next n bs")
  have t: "n1 + total bs1 = n + total bs" using j by (auto simp: join_next_def split: list.splits bool.splits)
  show ?thesis
    by (cases as rule: rev_cases) (use t in \<open>auto simp: free_spec_join j\<close>)
qed

lemma total_take_spec: "total (take_spec r n) = n"
  by (simp add: take_spec_def)

lemma free_spec_nonempty: "free_spec as n bs \<noteq> []"
  by (simp add: free_spec_def Let_def split: prod.split)

lemma first_fit_split:
  assumes "\<exists>b\<in>set bs. fits r b"
  obtains as n cs where "bs = as @ (n, True) # cs" "takeWhile (\<lambda>b. \<not> fits r b) bs = as" "\<forall>b\<in>set as. \<not> fits r b" "fits r (n, True)"
proof -
  let ?P = "\<lambda>b. \<not> fits r b"
  have ne: "dropWhile ?P bs \<noteq> []" using assms by (simp add: dropWhile_eq_Nil_conv)
  then obtain b cs where d: "dropWhile ?P bs = b # cs" by (cases "dropWhile ?P bs") auto
  then have f: "fits r b" using hd_dropWhile [OF ne] by simp
  then obtain n where b: "b = (n, True)" by (cases b) (auto simp: fits_def)
  have "bs = takeWhile ?P bs @ (n, True) # cs" using takeWhile_dropWhile_id [of ?P bs] d b by simp
  moreover have "\<forall>b\<in>set (takeWhile ?P bs). \<not> fits r b" using set_takeWhileD by fast
  ultimately show ?thesis using that f b by blast
qed

lemma get_spec:
  assumes "heap_rep s bs"
  shows "\<exists>s' p sz. H2K_mem_alloc_get r s = Some (s', p, sz) \<and>
    (if \<forall>b\<in>set bs. \<not> fits r b then p = NULL \<and> sz = 0 \<and> s' = s
     else \<exists>as n cs. bs = as @ (n, True) # cs \<and> (\<forall>b\<in>set as. \<not> fits r b) \<and> fits r (n, True) \<and>
       p = tag_to_ptr s (ALLOC_UNIT - 1 + total as) \<and> unat r \<le> unat sz \<and>
       unat sz = 4 * (fst (hd (take_spec r n)) - 1) \<and> alloc_base s' = alloc_base s \<and>
       heap_rep s' (as @ take_spec r n @ cs))"
proof (cases "\<exists>b\<in>set bs. fits r b")
  case False
  then show ?thesis
    using alloc_search_spec [of s "ALLOC_UNIT - 1" False bs r] assms by (auto simp: H2K_mem_alloc_get_def heap_rep_def)
next
  case True
  then obtain as n cs where A: "bs = as @ (n, True) # cs" "takeWhile (\<lambda>b. \<not> fits r b) bs = as" "\<forall>b\<in>set as. \<not> fits r b" "fits r (n, True)"
    by (rule first_fit_split)
  let ?t = "ALLOC_UNIT - 1 + total as"
  have R: "blocks (alloc_heap s) (ALLOC_UNIT - 1) False bs" "total bs < 2 ^ 29" "bs \<noteq> []" using assms by (auto simp: heap_rep_def)
  have n: "n < 2 ^ 29" using R(2) A(1) by simp
  have sg: "seg (alloc_heap s) (ALLOC_UNIT - 1) False as True" "blocks (alloc_heap s) ?t (lastf False as) ((n, True) # cs)"
    using R(1) unfolding A(1) blocks_append by auto
  let ?h = "alloc_take r ?t (alloc_heap s)"
  note T = alloc_take_blocks [OF sg(2) n A(4)]
  have g: "H2K_mem_alloc_get r s = Some (s\<lparr>alloc_heap := ?h\<rparr>, tag_to_ptr s ?t, (ucast (tag_size (?h ?t)) - 1) * 4)"
    using alloc_search_spec [OF R(1,3,2), of r] True A(2) by (simp add: H2K_mem_alloc_get_def Let_def)
  have tn: "take_spec r n @ cs \<noteq> []" by (simp add: take_spec_def)
  have "blocks ?h (ALLOC_UNIT - 1) False (as @ take_spec r n @ cs)"
    unfolding blocks_append [of _ _ _ as] using T(1) seg_cong [OF sg(1), of ?h] T(3) tn by simp
  then have h': "heap_rep (s\<lparr>alloc_heap := ?h\<rparr>) (as @ take_spec r n @ cs)"
    using R(2) A(1) tn total_take_spec [of r n] by (simp add: heap_rep_def)
  define m where "m = fst (hd (take_spec r n))"
  have m: "m = (if need r + 8 \<le> n then need r else n)" "tsz ?h ?t = m" "2 \<le> m" "m \<le> n"
    using T(2) sg(2) by (auto simp: m_def take_spec_def need_def)
  have "unat ((ucast (tag_size (?h ?t)) - 1) * 4 :: u32) = 4 * (m - 1)" using m(3,4,2) n by (intro bytes_val) auto
  moreover have "unat r \<le> 4 * (m - 1)" using need_covers [OF A(4)] m(1) by simp
  ultimately have "\<exists>as n cs. bs = as @ (n, True) # cs \<and> (\<forall>b\<in>set as. \<not> fits r b) \<and> fits r (n, True) \<and>
       tag_to_ptr s ?t = tag_to_ptr s (ALLOC_UNIT - 1 + total as) \<and> unat r \<le> unat ((ucast (tag_size (?h ?t)) - 1) * 4 :: u32) \<and>
       unat ((ucast (tag_size (?h ?t)) - 1) * 4 :: u32) = 4 * (fst (hd (take_spec r n)) - 1) \<and> alloc_base (s\<lparr>alloc_heap := ?h\<rparr>) = alloc_base s \<and>
       heap_rep (s\<lparr>alloc_heap := ?h\<rparr>) (as @ take_spec r n @ cs)"
    using A(1,3,4) h' unfolding m_def by (intro exI [of _ as] exI [of _ n] exI [of _ cs]) simp
  with g True show ?thesis by (intro exI [of _ "s\<lparr>alloc_heap := ?h\<rparr>"] exI [of _ "tag_to_ptr s ?t"] exI conjI) auto
qed

text \<open>
  C8: An allocation always returns. It takes the first free block with enough bytes, or
  returns \<open>NULL\<close> and changes nothing when there is none. The block it hands out holds at
  least the bytes asked for; the rest of a block that is split stays free, all other blocks
  are as before, and the heap is well formed again.
\<close>

theorem alloc_get_correct:
  assumes "heap_rep s bs"
  shows "\<exists>s' p sz. H2K_mem_alloc_get r s = Some (s', p, sz) \<and>
    (if \<forall>b\<in>set bs. \<not> fits r b then p = NULL \<and> sz = 0 \<and> s' = s
     else \<exists>as n cs. bs = as @ (n, True) # cs \<and> (\<forall>b\<in>set as. \<not> fits r b) \<and> fits r (n, True) \<and>
       p = tag_to_ptr s (ALLOC_UNIT - 1 + total as) \<and> unat r \<le> unat sz \<and>
       unat sz = 4 * (fst (hd (take_spec r n)) - 1) \<and> alloc_base s' = alloc_base s \<and>
       heap_rep s' (as @ take_spec r n @ cs))"
  using assms by (rule get_spec)

lemma free_correct:
  assumes "heap_rep s (as @ (n, False) # bs)"
  shows "heap_rep (H2K_mem_alloc_free (tag_to_ptr s (ALLOC_UNIT - 1 + total as)) s) (free_spec as n bs)"
  using assms free_tag_blocks(1) [of "alloc_heap s" "ALLOC_UNIT - 1" as n bs] total_free_spec [of as n bs False] free_spec_nonempty [of as n bs]
  by (simp add: heap_rep_def H2K_mem_alloc_free_def H2K_mem_alloc_free_spinlocked_def ALLOC_UNIT_def split_beta)

lemma free_spec_take:
  assumes "blocks h i False (as @ (n, True) # cs)" "take_spec r n = (m, False) # ds"
  shows "free_spec as m (ds @ cs) = as @ (n, True) # cs"
proof -
  have b: "\<not> lastf False as" "blocks h (i + total as + n) True cs" using assms(1) by (auto simp: blocks_append)
  have "cs = [] \<or> \<not> snd (hd cs)" using b(2) by (cases cs) auto
  then have "join_next n cs = (n, cs)" by (cases cs; cases "hd cs") (auto simp: join_next_def split: bool.splits)
  moreover have "join_next (need r) ((n - need r, True) # cs) = (n, cs)" if "need r \<le> n" using that by (simp add: join_next_def)
  ultimately show ?thesis using assms(2) b(1) by (auto simp: take_spec_def free_spec_join split: if_splits)
qed

text \<open>
  C9: Freeing an allocated block makes it free and joins it with the free blocks on either
  side, so that again no two adjacent blocks are free; all other blocks are as before.
\<close>

theorem alloc_free_correct:
  assumes "heap_rep s (as @ (n, False) # bs)"
  shows "heap_rep (H2K_mem_alloc_free (tag_to_ptr s (ALLOC_UNIT - 1 + total as)) s) (free_spec as n bs)"
  using assms by (rule free_correct)

lemma take_spec_cases: obtains m ds where "take_spec r n = (m, False) # ds"
  by (cases "need r + 8 \<le> n") (auto simp: take_spec_def)

lemma get_free:
  assumes "heap_rep s bs" "H2K_mem_alloc_get r s = Some (s', p, sz)" "p \<noteq> NULL"
  shows "heap_rep (H2K_mem_alloc_free p s') bs"
proof -
  obtain as n cs where A: "bs = as @ (n, True) # cs" "p = tag_to_ptr s (ALLOC_UNIT - 1 + total as)"
    "alloc_base s' = alloc_base s" "heap_rep s' (as @ take_spec r n @ cs)"
    using get_spec [OF assms(1), of r] assms(2,3) by (auto split: if_splits)
  obtain m ds where t: "take_spec r n = (m, False) # ds" by (rule take_spec_cases)
  have "tag_to_ptr s' i = tag_to_ptr s i" for i using A(3) by (simp add: tag_to_ptr_def)
  then have "heap_rep (H2K_mem_alloc_free p s') (free_spec as m (ds @ cs))"
    using free_correct [of s' as m "ds @ cs"] A(2,4) t by simp
  moreover have "free_spec as m (ds @ cs) = bs"
    using free_spec_take [OF _ t, of "alloc_heap s" "ALLOC_UNIT - 1" as cs] assms(1) A(1) by (simp add: heap_rep_def)
  ultimately show ?thesis by simp
qed

text \<open>
  Allocating a block and freeing it again gives back the heap of before, block by block:
  no fragment is left behind.
\<close>

theorem alloc_free_roundtrip:
  assumes "heap_rep s bs" "H2K_mem_alloc_get r s = Some (s', p, sz)" "p \<noteq> NULL"
  shows "heap_rep (H2K_mem_alloc_free p s') bs"
  using assms by (rule get_free)

lemma init_rep:
  assumes "16 \<le> sz" "sz < 2 ^ 29"
  shows "heap_rep (H2K_mem_alloc_init addr sz s) [(unat sz - 8, True)]"
proof -
  have u: "unat sz < 2 ^ 29" "16 \<le> unat sz" using assms by (simp_all add: word_less_nat_alt word_le_nat_alt)
  have m: "unat (sz - 8) = unat sz - 8" "unat (sz - 1) = unat sz - 1"
    using u by (simp_all add: unat_sub word_le_nat_alt)
  then have "unat (ucast (sz - 8) :: 30 word) = unat sz - 8"
    using u by (simp add: unsigned_ucast_eq take_bit_nat_eq_self)
  moreover have "unat sz - Suc 0 \<noteq> 7" "2 \<le> unat sz - 8" "unat sz - 8 < 536870912" using u by auto
  ultimately show ?thesis using u m by (simp add: heap_rep_def H2K_mem_alloc_init_def ALLOC_UNIT_def Let_def)
qed

section \<open>Examples\<close>

definition heap_example :: H2K_kg_t where
  "heap_example = H2K_mem_alloc_init 0x1000 64 kg0"

lemma heap_example_rep: "heap_rep heap_example [(56, True)]"
  unfolding heap_example_def using init_rep [of 64 "0x1000" kg0] by simp

theorem alloc_get_correct_witness:
  "\<exists>s' p sz. H2K_mem_alloc_get 20 heap_example = Some (s', p, sz) \<and> p = tag_to_ptr heap_example 7 \<and> unat sz = 28 \<and>
     heap_rep s' [(8, False), (48, True)]"
proof -
  have f: "\<not> (\<forall>b\<in>set [(56, True)]. \<not> fits 20 b)" by (simp add: fits_def)
  have t: "take_spec 20 56 = [(8, False), (48, True)]" by (simp add: take_spec_def need_def)
  obtain s' p sz where g: "H2K_mem_alloc_get 20 heap_example = Some (s', p, sz)"
    and e: "\<exists>as n cs. [(56, True)] = as @ (n, True) # cs \<and> (\<forall>b\<in>set as. \<not> fits 20 b) \<and> fits 20 (n, True) \<and>
       p = tag_to_ptr heap_example (ALLOC_UNIT - 1 + total as) \<and> unat (20 :: u32) \<le> unat sz \<and>
       unat sz = 4 * (fst (hd (take_spec 20 n)) - 1) \<and> alloc_base s' = alloc_base heap_example \<and>
       heap_rep s' (as @ take_spec 20 n @ cs)"
    using alloc_get_correct [OF heap_example_rep, of 20] f by metis
  from e have "p = tag_to_ptr heap_example 7 \<and> unat sz = 28 \<and> heap_rep s' [(8, False), (48, True)]"
    by (auto simp: Cons_eq_append_conv t ALLOC_UNIT_def)
  with g show ?thesis by blast
qed

lemma heap_used: "\<exists>s' p sz. H2K_mem_alloc_get 20 heap_example = Some (s', p, sz) \<and> p \<noteq> NULL \<and> heap_rep s' [(8, False), (48, True)]"
proof -
  have t: "take_spec 20 56 = [(8, False), (48, True)]" by (simp add: take_spec_def need_def)
  from get_spec [OF heap_example_rep, of 20] show ?thesis
    by (auto simp: fits_def Cons_eq_append_conv t tag_to_ptr_def)
qed

theorem alloc_free_correct_witness:
  "\<exists>s. heap_rep s [(8, False), (48, True)] \<and> heap_rep (H2K_mem_alloc_free (tag_to_ptr s 7) s) [(56, True)]"
proof -
  obtain s where s: "heap_rep s ([] @ (8, False) # [(48, True)])" using heap_used by auto
  from alloc_free_correct [OF s] have "heap_rep (H2K_mem_alloc_free (tag_to_ptr s 7) s) [(56, True)]"
    by (simp add: ALLOC_UNIT_def free_spec_def)
  with s show ?thesis by auto
qed

theorem alloc_free_roundtrip_witness:
  "\<exists>s' p sz. H2K_mem_alloc_get 20 heap_example = Some (s', p, sz) \<and> p \<noteq> NULL \<and> heap_rep (H2K_mem_alloc_free p s') [(56, True)]"
proof -
  obtain s' p sz where g: "H2K_mem_alloc_get 20 heap_example = Some (s', p, sz)" "p \<noteq> NULL" using heap_used by blast
  with alloc_free_roundtrip [OF heap_example_rep g] show ?thesis by blast
qed

end
