(* ===== verification/Asid.thy ===== *)
theory Asid
  imports Kernel_State Tlbfmt
begin

text \<open>
  Address spaces: the software TLB (\<^verbatim>\<open>kernel/mem/stlb\<close>), the invalidation of the hardware TLB
  (\<^verbatim>\<open>kernel/mem/tlbmisc\<close>), and the reference-counted ASID table (\<^verbatim>\<open>kernel/mem/asid\<close>), a hash
  table with open addressing whose index is the ASID.

  The match instruction \<open>tlbmatch\<close> of the processor is a parameter of the operations that use
  it; what the code relies on is that an entry only matches addresses of its own address
  space. The way replaced in the software TLB is the low bits of the cycle counter.
\<close>

section \<open>The software TLB\<close>

definition STLB_MAX_SETS :: nat where "STLB_MAX_SETS = 2048"
definition STLB_MAX_WAYS :: nat where "STLB_MAX_WAYS = 4"
definition MAX_ASIDS :: nat where "MAX_ASIDS = 128"

type_synonym tlbmatch = "u64 \<Rightarrow> u32 \<Rightarrow> bool"

definition H2K_mem_stlb_check :: "tlbmatch \<Rightarrow> u32 \<Rightarrow> u32 \<Rightarrow> tlbfmt \<Rightarrow> bool" where
  "H2K_mem_stlb_check tm va asid tentry = tm tentry (drop_bit 12 va OR push_bit 20 asid)"

definition H2K_mem_stlb_match_asid :: "u32 \<Rightarrow> tlbfmt \<Rightarrow> bool" where
  "H2K_mem_stlb_match_asid asid entry \<longleftrightarrow> asid = tlb_asid entry"

definition H2K_mem_stlb_quick_random_way :: "H2K_kg_t \<Rightarrow> nat" where
  "H2K_mem_stlb_quick_random_way s = unat (ucast (pcycle_reg s) AND (of_nat STLB_MAX_WAYS - 1) :: u32)"

definition set_idx :: "u32 \<Rightarrow> nat" where
  "set_idx va = unat (drop_bit 12 va AND (of_nat STLB_MAX_SETS - 1))"

definition set_valid :: "H2K_mem_stlb_asid_info_t \<Rightarrow> nat \<Rightarrow> bool" where
  "set_valid info idx = bit (valids info (idx div 64)) (idx mod 64)"

fun find_way :: "(nat \<Rightarrow> bool) \<Rightarrow> nat \<Rightarrow> nat \<Rightarrow> nat option" where
  "find_way P i 0 = None"
| "find_way P i (Suc n) = (if P i then Some i else find_way P (Suc i) n)"

definition H2K_mem_stlb_find :: "tlbmatch \<Rightarrow> u32 \<Rightarrow> u32 \<Rightarrow> H2K_mem_stlb_asid_info_t \<Rightarrow> (nat \<Rightarrow> u64) \<Rightarrow> nat option" where
  "H2K_mem_stlb_find tm va asid info bulk =
     (let idx = set_idx va
      in if \<not> set_valid info idx then None
         else map_option (\<lambda>i. idx * STLB_MAX_WAYS + i)
           (find_way (\<lambda>i. H2K_mem_stlb_check tm va asid (bulk (baseaddr info + idx * STLB_MAX_WAYS + i))) 0 STLB_MAX_WAYS))"

definition H2K_mem_stlb_lookup :: "tlbmatch \<Rightarrow> u32 \<Rightarrow> u32 \<Rightarrow> H2K_kg_t \<Rightarrow> tlbfmt" where
  "H2K_mem_stlb_lookup tm va asid s =
     (case stlbptr s of None \<Rightarrow> 0
      | Some infos \<Rightarrow>
          (case H2K_mem_stlb_find tm va asid (infos (unat asid)) (stlb_bulk s) of None \<Rightarrow> 0
           | Some i \<Rightarrow> stlb_bulk s (baseaddr (infos (unat asid)) + i)))"

fun clear_ways :: "u32 \<Rightarrow> nat \<Rightarrow> nat \<Rightarrow> (nat \<Rightarrow> u64) \<Rightarrow> (nat \<Rightarrow> u64)" where
  "clear_ways asid base 0 b = b"
| "clear_ways asid base (Suc n) b =
     (let b' = clear_ways asid base n b
      in if H2K_mem_stlb_match_asid asid (b' (base + n)) then b'(base + n := 0) else b')"

definition H2K_mem_stlb_add :: "u32 \<Rightarrow> u32 \<Rightarrow> tlbfmt \<Rightarrow> H2K_kg_t \<Rightarrow> H2K_kg_t" where
  "H2K_mem_stlb_add va asid entry s =
     (case stlbptr s of None \<Rightarrow> s
      | Some infos \<Rightarrow>
          let info = infos (unat asid); idx = set_idx va;
              base = baseaddr info + idx * STLB_MAX_WAYS;
              s1 = (if \<not> set_valid info idx
                    then s\<lparr>stlb_bulk := clear_ways asid base STLB_MAX_WAYS (stlb_bulk s),
                           stlbptr := Some (infos(unat asid := info\<lparr>valids := (valids info)
                             (idx div 64 := valids info (idx div 64) OR push_bit (idx mod 64) 1)\<rparr>))\<rparr>
                    else s);
              i = H2K_mem_stlb_quick_random_way s1
          in s1\<lparr>stlb_bulk := (stlb_bulk s1)(base + i := entry)\<rparr>)"

text \<open>The loop of the invalidation, over the pages from the first to the last of a range.\<close>

partial_function (option) invalidate_pages ::
  "tlbmatch \<Rightarrow> u32 \<Rightarrow> u32 \<Rightarrow> u32 \<Rightarrow> H2K_mem_stlb_asid_info_t \<Rightarrow> (nat \<Rightarrow> u64) \<Rightarrow> (nat \<Rightarrow> u64) option" where
  "invalidate_pages tm page pend asid info b =
     (if page \<le> pend
      then invalidate_pages tm (page + 1) pend asid info
             (case H2K_mem_stlb_find tm (push_bit 12 page) asid info b of None \<Rightarrow> b
              | Some i \<Rightarrow> b(baseaddr info + i := 0))
      else Some b)"

definition H2K_mem_stlb_invalidate_va :: "tlbmatch \<Rightarrow> u32 \<Rightarrow> u32 \<Rightarrow> u32 \<Rightarrow> H2K_kg_t \<Rightarrow> H2K_kg_t option" where
  "H2K_mem_stlb_invalidate_va tm va cnt asid s =
     (let start = drop_bit 12 va; pend = drop_bit 12 (va + cnt - 1)
      in case stlbptr s of None \<Rightarrow> Some s
         | Some infos \<Rightarrow> map_option (\<lambda>b. s\<lparr>stlb_bulk := b\<rparr>)
             (invalidate_pages tm start pend asid (infos (unat asid)) (stlb_bulk s)))"

definition H2K_mem_stlb_invalidate_asid :: "u32 \<Rightarrow> H2K_kg_t \<Rightarrow> H2K_kg_t" where
  "H2K_mem_stlb_invalidate_asid asid s =
     (case stlbptr s of None \<Rightarrow> s
      | Some infos \<Rightarrow>
          s\<lparr>stlbptr := Some (infos(unat asid := (infos (unat asid))\<lparr>valids :=
             (\<lambda>i. if i < STLB_MAX_SETS div 64 then 0 else valids (infos (unat asid)) i)\<rparr>))\<rparr>)"

definition H2K_mem_stlb_init :: "(nat \<Rightarrow> H2K_mem_stlb_asid_info_t) \<Rightarrow> H2K_kg_t \<Rightarrow> H2K_kg_t" where
  "H2K_mem_stlb_init asid_info s =
     s\<lparr>stlbptr := Some (\<lambda>i. if i < MAX_ASIDS
        then (asid_info i)\<lparr>valids := (\<lambda>j. if j < STLB_MAX_SETS div 64 then 0 else valids (asid_info i) j),
               baseaddr := i * (STLB_MAX_SETS div MAX_ASIDS)\<rparr>
        else asid_info i)\<rparr>"

section \<open>The hardware TLB\<close>

definition H2K_mem_tlb_invalidate_asid :: "u32 \<Rightarrow> H2K_kg_t \<Rightarrow> H2K_kg_t" where
  "H2K_mem_tlb_invalidate_asid asid s = s\<lparr>tlb_hist := tlb_hist s @ [TLB_INVASID (push_bit 20 asid)], tlb_lock := False\<rparr>"

definition H2K_mem_tlb_probe :: "u32 \<Rightarrow> u32 \<Rightarrow> H2K_kg_t \<Rightarrow> u32" where
  "H2K_mem_tlb_probe va asid s = hw_tlbp s (tlb_hist s) (drop_bit 12 va OR push_bit 20 asid)"

definition H2K_mem_tlb_read :: "u32 \<Rightarrow> H2K_kg_t \<Rightarrow> u64" where
  "H2K_mem_tlb_read idx s = hw_tlbr s (tlb_hist s) idx"

definition H2K_mem_tlb_write :: "u32 \<Rightarrow> u64 \<Rightarrow> H2K_kg_t \<Rightarrow> H2K_kg_t" where
  "H2K_mem_tlb_write idx e s = s\<lparr>tlb_hist := tlb_hist s @ [TLB_WRITE idx e]\<rparr>"

definition H2K_mem_tlb_invalidate_va :: "u32 \<Rightarrow> u32 \<Rightarrow> u32 \<Rightarrow> H2K_kg_t \<Rightarrow> H2K_kg_t" where
  "H2K_mem_tlb_invalidate_va va cnt asid s =
     (if cnt > 1 then H2K_mem_tlb_invalidate_asid asid s
      else
        let tmp = H2K_mem_tlb_probe va asid s;
            s1 = (if tmp \<le> last_tlb_index s then H2K_mem_tlb_write tmp 0 s else s)
        in s1\<lparr>tlb_lock := False\<rparr>)"

section \<open>The ASID table\<close>

definition ASID_HASHVAL :: "u32 \<Rightarrow> nat" where
  "ASID_HASHVAL x = unat (drop_bit 25 (x * 2654435761))"

definition NEXTIDX :: "nat \<Rightarrow> nat \<Rightarrow> nat" where
  "NEXTIDX x y = (x + y) mod MAX_ASIDS"

definition log2_greater :: "u32 \<Rightarrow> nat" where
  "log2_greater x = 32 - cl0 x"

definition H2K_asid_match :: "H2K_asid_entry_t \<Rightarrow> u32 \<Rightarrow> u32 \<Rightarrow> u32 \<Rightarrow> bool" where
  "H2K_asid_match a p v t \<longleftrightarrow> ptb a = p \<and> ucast (vmid a) = v \<and> ucast (ttype a) = t"

text \<open>The probe sequence; \<open>n\<close> is the number of entries still to look at.\<close>

fun search_from :: "(nat \<Rightarrow> H2K_asid_entry_t) \<Rightarrow> u32 \<Rightarrow> u32 \<Rightarrow> u32 \<Rightarrow> nat \<Rightarrow> nat \<Rightarrow> nat \<Rightarrow> nat option" where
  "search_from tab p v t stride idx 0 = None"
| "search_from tab p v t stride idx (Suc n) =
     (if H2K_asid_match (tab idx) p v t then Some idx
      else search_from tab p v t stride (NEXTIDX idx stride) n)"

definition H2K_asid_table_search :: "u32 \<Rightarrow> u32 \<Rightarrow> u32 \<Rightarrow> H2K_kg_t \<Rightarrow> nat option" where
  "H2K_asid_table_search p v t s =
     (let idx = ASID_HASHVAL p;
          stride = idx OR 1;
          maxhops = 2 ^ unat (log_maxhops (asid_table s idx))
      in search_from (asid_table s) p v t stride idx (maxhops + 1))"

text \<open>The eviction loop returns the entry found and the number of hops to it.\<close>

fun evict_from :: "(nat \<Rightarrow> H2K_asid_entry_t) \<Rightarrow> nat \<Rightarrow> nat \<Rightarrow> nat \<Rightarrow> nat \<Rightarrow> (nat \<times> nat) option" where
  "evict_from tab stride idx i 0 = None"
| "evict_from tab stride idx i (Suc n) =
     (if count (tab idx) = 0 then Some (idx, i)
      else evict_from tab stride (NEXTIDX idx stride) (Suc i) n)"

definition H2K_asid_table_eviction :: "u32 \<Rightarrow> H2K_kg_t \<Rightarrow> (H2K_kg_t \<times> nat) option" where
  "H2K_asid_table_eviction p s =
     (let start = ASID_HASHVAL p; stride = start OR 1
      in case evict_from (asid_table s) stride start 0 MAX_ASIDS of
           None \<Rightarrow> None
         | Some (idx, i) \<Rightarrow>
             let lm = log2_greater (of_nat i); e = asid_table s start
             in Some (s\<lparr>asid_table := (asid_table s)(start := e\<lparr>log_maxhops := of_nat (max lm (unat (log_maxhops e)))\<rparr>)\<rparr>, idx))"

definition H2K_do_asid_table_inc :: "u32 \<Rightarrow> u32 \<Rightarrow> bool \<Rightarrow> u32 \<Rightarrow> ptr \<Rightarrow> H2K_kg_t \<Rightarrow> H2K_kg_t \<times> int" where
  "H2K_do_asid_table_inc p t flag ext vb s =
     (let v = vm_vmidx (vmb s vb)
      in case H2K_asid_table_search p v t s of
           Some idx \<Rightarrow>
             let s1 = s\<lparr>asid_table := (asid_table s)(idx := (asid_table s idx)\<lparr>count := count (asid_table s idx) + 1\<rparr>)\<rparr>
             in (if flag then H2K_mem_stlb_invalidate_asid (of_nat idx) (H2K_mem_tlb_invalidate_asid (of_nat idx) s1) else s1, int idx)
         | None \<Rightarrow>
             (case H2K_asid_table_eviction p s of
                Some (s1, idx) \<Rightarrow>
                  let s2 = s1\<lparr>asid_table := (asid_table s1)(idx := (asid_table s1 idx)\<lparr>ptb := p, ttype := ucast t,
                        vmid := ucast v, count := 1, extra := ucast ext\<rparr>)\<rparr>
                  in (H2K_mem_stlb_invalidate_asid (of_nat idx) (H2K_mem_tlb_invalidate_asid (of_nat idx) s2), int idx)
              | None \<Rightarrow> (s, -1)))"

definition H2K_asid_table_inc :: "u32 \<Rightarrow> u32 \<Rightarrow> bool \<Rightarrow> u32 \<Rightarrow> ptr \<Rightarrow> H2K_kg_t \<Rightarrow> H2K_kg_t \<times> int" where
  "H2K_asid_table_inc p t flag ext vb s =
     (if t \<ge> 4 then (s, -1) else H2K_do_asid_table_inc p t flag ext vb s)"

text \<open>Adding all ones within the count field subtracts one, modulo the field.\<close>

definition H2K_asid_table_dec :: "u32 \<Rightarrow> H2K_kg_t \<Rightarrow> H2K_kg_t" where
  "H2K_asid_table_dec asid s =
     s\<lparr>asid_table := (asid_table s)(unat asid := (asid_table s (unat asid))\<lparr>count := count (asid_table s (unat asid)) - 1\<rparr>)\<rparr>"

section \<open>Probe sequences\<close>

definition hop :: "nat \<Rightarrow> nat \<Rightarrow> nat \<Rightarrow> nat" where
  "hop idx c k = (idx + k * c) mod 128"

lemma hop_0 [simp]: "idx < 128 \<Longrightarrow> hop idx c 0 = idx" by (simp add: hop_def)

lemma hop_lt [simp]: "hop idx c k < 128" by (simp add: hop_def)

lemma hop_next: "hop (NEXTIDX idx c) c k = hop idx c (Suc k)"
  by (simp add: hop_def NEXTIDX_def MAX_ASIDS_def mod_simps algebra_simps)

lemma NEXTIDX_lt [simp]: "NEXTIDX idx c < 128" by (simp add: NEXTIDX_def MAX_ASIDS_def)

lemma all_less_Suc_shift: "(\<forall>k<Suc n. P k) \<longleftrightarrow> P 0 \<and> (\<forall>k<n. P (Suc k))"
  by (metis less_Suc_eq_0_disj not0_implies_Suc Suc_less_eq zero_less_Suc)

lemma search_from_None:
  "idx < 128 \<Longrightarrow> search_from tab p v t c idx n = None \<longleftrightarrow> (\<forall>k<n. \<not> H2K_asid_match (tab (hop idx c k)) p v t)"
proof (induction n arbitrary: idx)
  case (Suc n)
  then show ?case using Suc.IH [of "NEXTIDX idx c"] by (simp add: all_less_Suc_shift hop_next)
qed simp

lemma search_from_Some:
  "idx < 128 \<Longrightarrow> k < n \<Longrightarrow> H2K_asid_match (tab (hop idx c k)) p v t \<Longrightarrow>
   (\<And>l. l < k \<Longrightarrow> \<not> H2K_asid_match (tab (hop idx c l)) p v t) \<Longrightarrow> search_from tab p v t c idx n = Some (hop idx c k)"
proof (induction n arbitrary: idx k)
  case (Suc n)
  show ?case
  proof (cases k)
    case 0
    then show ?thesis using Suc.prems(1,3) by simp
  next
    case (Suc m)
    have "\<not> H2K_asid_match (tab idx) p v t" using Suc.prems(1) Suc.prems(4) [of 0] Suc by simp
    moreover have "search_from tab p v t c (NEXTIDX idx c) n = Some (hop (NEXTIDX idx c) c m)"
    proof (rule Suc.IH)
      fix l assume "l < m"
      then show "\<not> H2K_asid_match (tab (hop (NEXTIDX idx c) c l)) p v t" using Suc.prems(4) [of "Suc l"] Suc by (simp add: hop_next)
    qed (use Suc.prems(2,3) Suc in \<open>simp_all add: hop_next\<close>)
    ultimately show ?thesis using Suc by (simp add: hop_next)
  qed
qed simp

lemma search_from_SomeD:
  "idx < 128 \<Longrightarrow> search_from tab p v t c idx n = Some j \<Longrightarrow>
   \<exists>k<n. j = hop idx c k \<and> H2K_asid_match (tab j) p v t \<and> (\<forall>l<k. \<not> H2K_asid_match (tab (hop idx c l)) p v t)"
proof (induction n arbitrary: idx)
  case (Suc n)
  show ?case
  proof (cases "H2K_asid_match (tab idx) p v t")
    case True
    then show ?thesis using Suc.prems by (intro exI [of _ 0]) auto
  next
    case False
    then obtain k where "k < n" "j = hop (NEXTIDX idx c) c k" "H2K_asid_match (tab j) p v t"
      "\<forall>l<k. \<not> H2K_asid_match (tab (hop (NEXTIDX idx c) c l)) p v t"
      using Suc.IH [of "NEXTIDX idx c"] Suc.prems by auto
    then show ?thesis using False Suc.prems(1) by (intro exI [of _ "Suc k"]) (simp add: hop_next all_less_Suc_shift)
  qed
qed simp

lemma evict_from_None:
  "idx < 128 \<Longrightarrow> evict_from tab c idx i n = None \<longleftrightarrow> (\<forall>k<n. count (tab (hop idx c k)) \<noteq> 0)"
proof (induction n arbitrary: idx i)
  case (Suc n)
  then show ?case using Suc.IH [of "NEXTIDX idx c"] by (simp add: all_less_Suc_shift hop_next)
qed simp

lemma evict_from_SomeD:
  "idx < 128 \<Longrightarrow> evict_from tab c idx i n = Some (j, m) \<Longrightarrow>
   \<exists>k<n. m = i + k \<and> j = hop idx c k \<and> count (tab j) = 0 \<and> (\<forall>l<k. count (tab (hop idx c l)) \<noteq> 0)"
proof (induction n arbitrary: idx i)
  case (Suc n)
  show ?case
  proof (cases "count (tab idx) = 0")
    case True
    then show ?thesis using Suc.prems by (intro exI [of _ 0]) auto
  next
    case False
    then obtain k where "k < n" "m = Suc i + k" "j = hop (NEXTIDX idx c) c k" "count (tab j) = 0"
      "\<forall>l<k. count (tab (hop (NEXTIDX idx c) c l)) \<noteq> 0"
      using Suc.IH [of "NEXTIDX idx c" "Suc i"] Suc.prems by auto
    then show ?thesis using False Suc.prems(1) by (intro exI [of _ "Suc k"]) (simp add: hop_next all_less_Suc_shift)
  qed
qed simp

text \<open>An odd stride visits every entry.\<close>

lemma hop_inj:
  assumes "odd c"
  shows "inj_on (hop idx c) {..<128}"
proof (rule inj_onI)
  fix a b assume ab: "a \<in> {..<128}" "b \<in> {..<128}" and "hop idx c a = hop idx c b"
  then have "(int idx + int a * int c) mod 128 = (int idx + int b * int c) mod 128"
    unfolding hop_def by (metis of_nat_add of_nat_mult of_nat_mod of_nat_numeral)
  then have "(128 :: int) dvd (int a - int b) * int c"
    by (metis add_diff_cancel_left left_diff_distrib mod_eq_dvd_iff)
  moreover have "coprime (128 :: int) (int c)"
    using assms coprime_power_left_iff [of 2 7 "int c"] by (simp add: coprime_left_2_iff_odd)
  ultimately have "(128 :: int) dvd int a - int b" by (simp add: coprime_dvd_mult_left_iff)
  then have "int a mod 128 = int b mod 128" by (simp add: mod_eq_dvd_iff)
  then show "a = b" using ab by simp
qed

lemma hop_surj:
  assumes "odd c" "j < 128"
  shows "\<exists>k<128. hop idx c k = j"
proof -
  have "hop idx c ` {..<128} \<subseteq> {..<128}" by auto
  moreover have "card (hop idx c ` {..<128}) = 128" using card_image [OF hop_inj [OF assms(1)]] by simp
  ultimately have "hop idx c ` {..<128} = {..<128}" by (simp add: card_subset_eq)
  with assms(2) show ?thesis by (metis imageE lessThan_iff)
qed

lemma hash_lt [simp]: "ASID_HASHVAL p < 128"
proof -
  have "unat (drop_bit 25 x) < 2 ^ 7" for x :: u32
    by (rule word_bits_lt_exp) (auto simp: bit_simps dest: bit_imp_le_length)
  then show ?thesis by (simp add: ASID_HASHVAL_def)
qed

lemma stride_odd: "odd (x OR 1 :: nat)" by (simp add: even_or_iff)

lemma log2_greater_table:
  "list_all (\<lambda>i. i \<le> 2 ^ log2_greater (of_nat i) \<and> log2_greater (of_nat i) \<le> 7) [0..<128]"
  by code_simp

lemma log2_greater_bound: "i < 128 \<Longrightarrow> i \<le> 2 ^ log2_greater (of_nat i) \<and> log2_greater (of_nat i) \<le> 7"
  using log2_greater_table by (simp add: list_all_iff)

section \<open>Every live entry is found\<close>

text \<open>The entry \<open>j\<close> lies on the probe sequence of its own key, within the recorded bound.\<close>

definition reachable :: "(nat \<Rightarrow> H2K_asid_entry_t) \<Rightarrow> nat \<Rightarrow> bool" where
  "reachable tab j \<longleftrightarrow> (let h = ASID_HASHVAL (ptb (tab j))
     in \<exists>k \<le> 2 ^ unat (log_maxhops (tab h)). j = hop h (h OR 1) k)"

definition asid_inv :: "H2K_kg_t \<Rightarrow> bool" where
  "asid_inv s \<longleftrightarrow> (\<forall>j<128. count (asid_table s j) \<noteq> 0 \<longrightarrow> reachable (asid_table s) j)"

lemma reachable_mono:
  assumes "reachable tab j" "ptb (tab' j) = ptb (tab j)" "\<And>i. unat (log_maxhops (tab i)) \<le> unat (log_maxhops (tab' i))"
  shows "reachable tab' j"
proof -
  let ?h = "ASID_HASHVAL (ptb (tab j))"
  obtain k where k: "k \<le> 2 ^ unat (log_maxhops (tab ?h))" "j = hop ?h (?h OR 1) k"
    using assms(1) by (auto simp: reachable_def Let_def)
  have "(2::nat) ^ unat (log_maxhops (tab ?h)) \<le> 2 ^ unat (log_maxhops (tab' ?h))" using assms(3) by simp
  with k show ?thesis unfolding reachable_def Let_def assms(2) by (meson le_trans)
qed

lemma match_self:
  "v < 64 \<Longrightarrow> t < 8 \<Longrightarrow> H2K_asid_match (e\<lparr>ptb := p, ttype := ucast t, vmid := ucast v, count := c, extra := x\<rparr>) p v t"
proof -
  assume a: "v < 64" "t < 8"
  have v: "bit v n \<Longrightarrow> n < 6" for n using word_lt_exp_bits [of v 6 n] a(1) by (cases "6 \<le> n") auto
  have t: "bit t n \<Longrightarrow> n < 3" for n using word_lt_exp_bits [of t 3 n] a(2) by (cases "3 \<le> n") auto
  have "ucast (ucast v :: 6 word) = v" by (intro bit_word_eqI) (auto simp: bit_simps dest: v)
  moreover have "ucast (ucast t :: 3 word) = t" by (intro bit_word_eqI) (auto simp: bit_simps dest: t)
  ultimately show ?thesis by (simp add: H2K_asid_match_def)
qed

lemma match_log_maxhops [simp]: "H2K_asid_match (e\<lparr>log_maxhops := x\<rparr>) = H2K_asid_match e"
  by (simp add: H2K_asid_match_def fun_eq_iff)

lemma invalidate_asid_table [simp]:
  "asid_table (H2K_mem_stlb_invalidate_asid a s) = asid_table s" "asid_table (H2K_mem_tlb_invalidate_asid a s) = asid_table s"
  by (simp_all add: H2K_mem_stlb_invalidate_asid_def H2K_mem_tlb_invalidate_asid_def split: option.split)

lemma asid_inc_search:
  assumes inv: "asid_inv s" and idx: "H2K_asid_table_search p v t s = Some j"
  defines "tab' \<equiv> (asid_table s)(j := (asid_table s j)\<lparr>count := count (asid_table s j) + 1\<rparr>)"
  shows "j < 128" "H2K_asid_match (tab' j) p v t" "\<And>i. i < 128 \<Longrightarrow> count (tab' i) \<noteq> 0 \<Longrightarrow> reachable tab' i"
    "search_from tab' p v t (ASID_HASHVAL p OR 1) (ASID_HASHVAL p) (2 ^ unat (log_maxhops (tab' (ASID_HASHVAL p))) + 1) = Some j"
proof -
  let ?h = "ASID_HASHVAL p" and ?tab = "asid_table s"
  obtain k where k0: "k < 2 ^ unat (log_maxhops (?tab ?h)) + 1" and k: "j = hop ?h (?h OR 1) k" "j = hop ?h (?h OR 1) k" "H2K_asid_match (?tab j) p v t"
    "\<forall>l<k. \<not> H2K_asid_match (?tab (hop ?h (?h OR 1) l)) p v t"
    using search_from_SomeD [OF hash_lt idx [unfolded H2K_asid_table_search_def Let_def]] by blast
  have m: "H2K_asid_match (tab' i) = H2K_asid_match (?tab i)" "log_maxhops (tab' i) = log_maxhops (?tab i)" "ptb (tab' i) = ptb (?tab i)" for i
    by (auto simp: tab'_def H2K_asid_match_def fun_eq_iff)
  show "j < 128" by (simp add: k(2))
  show mj: "H2K_asid_match (tab' j) p v t" using k(3) m(1) by simp
  have "k \<le> 2 ^ unat (log_maxhops (?tab ?h))" using k0 by simp
  moreover have pj: "ptb (?tab j) = p" using k(3) by (simp add: H2K_asid_match_def)
  ultimately have "reachable ?tab j" unfolding reachable_def Let_def pj using k(2) by (intro exI [of _ k] conjI)
  then have rj: "reachable tab' j" by (rule reachable_mono) (simp_all add: m)
  show "reachable tab' i" if "i < 128" "count (tab' i) \<noteq> 0" for i
  proof (cases "i = j")
    case False
    then have "count (?tab i) \<noteq> 0" using that by (simp add: tab'_def)
    then have "reachable ?tab i" using inv that by (simp add: asid_inv_def)
    then show ?thesis by (rule reachable_mono) (simp_all add: m)
  qed (use rj in simp)
  show "search_from tab' p v t (?h OR 1) ?h (2 ^ unat (log_maxhops (tab' ?h)) + 1) = Some j"
    unfolding k(2) by (rule search_from_Some [OF hash_lt]) (use k(4) k0 k(3) [unfolded k(2)] in \<open>simp_all add: m\<close>)
qed

lemma asid_inc_evict:
  fixes x :: u8
  assumes inv: "asid_inv s" and none: "H2K_asid_table_search p v t s = None"
    and ev: "H2K_asid_table_eviction p s = Some (s1, j)" and vt: "v < 64" "t < 8"
  defines "tab' \<equiv> (asid_table s1)(j := (asid_table s1 j)\<lparr>ptb := p, ttype := ucast t, vmid := ucast v, count := 1, extra := x\<rparr>)"
  shows "j < 128" "count (asid_table s j) = 0" "H2K_asid_match (tab' j) p v t" "\<And>i. i < 128 \<Longrightarrow> count (tab' i) \<noteq> 0 \<Longrightarrow> reachable tab' i"
    "search_from tab' p v t (ASID_HASHVAL p OR 1) (ASID_HASHVAL p) (2 ^ unat (log_maxhops (tab' (ASID_HASHVAL p))) + 1) = Some j"
    "\<And>i. i \<noteq> j \<Longrightarrow> tab' i = (asid_table s i)\<lparr>log_maxhops := log_maxhops (tab' i)\<rparr>"
proof -
  let ?h = "ASID_HASHVAL p" and ?tab = "asid_table s"
  obtain i where e: "evict_from ?tab (?h OR 1) ?h 0 MAX_ASIDS = Some (j, i)"
    and s1: "asid_table s1 = ?tab(?h := (?tab ?h)\<lparr>log_maxhops := of_nat (max (log2_greater (of_nat i)) (unat (log_maxhops (?tab ?h))))\<rparr>)"
    using ev by (auto simp: H2K_asid_table_eviction_def Let_def split: option.splits)
  have k: "i < 128" "j = hop ?h (?h OR 1) i" "count (?tab j) = 0" "\<forall>l<i. count (?tab (hop ?h (?h OR 1) l)) \<noteq> 0"
    using evict_from_SomeD [OF hash_lt e] by (auto simp: MAX_ASIDS_def)
  have lm: "unat (log_maxhops (?tab ?h)) < 8" using unsigned_less [of "log_maxhops (?tab ?h)"] by simp
  define l where "l = max (log2_greater (of_nat i)) (unat (log_maxhops (?tab ?h)))"
  have l8: "l < 8" using lm log2_greater_bound [OF k(1)] by (simp add: l_def)
  then have lu: "unat (of_nat l :: 3 word) = l" by (simp add: unat_of_nat take_bit_nat_eq_self)
  have "i \<le> 2 ^ log2_greater (of_nat i)" using log2_greater_bound [OF k(1)] by blast
  also have "(2::nat) ^ log2_greater (of_nat i) \<le> 2 ^ l" by (simp add: l_def)
  finally have il: "i \<le> 2 ^ l" .
  have lh: "unat (log_maxhops (tab' ?h)) = l" by (simp add: tab'_def s1 l_def [symmetric] lu)
  have mono: "unat (log_maxhops (?tab q)) \<le> unat (log_maxhops (tab' q))" for q
    using lh by (cases "q = ?h") (simp_all add: tab'_def s1 l_def)
  show "j < 128" "count (?tab j) = 0" using k by auto
  show mj: "H2K_asid_match (tab' j) p v t" using match_self [OF vt] by (simp add: tab'_def)
  show oth: "tab' q = (?tab q)\<lparr>log_maxhops := log_maxhops (tab' q)\<rparr>" if "q \<noteq> j" for q
    using that by (simp add: tab'_def s1)
  have nm: "\<not> H2K_asid_match (tab' (hop ?h (?h OR 1) q)) p v t" if "q < i" for q
  proof
    let ?j = "hop ?h (?h OR 1) q"
    assume m: "H2K_asid_match (tab' ?j) p v t"
    have c: "count (?tab ?j) \<noteq> 0" using k(4) that by simp
    then have ne: "?j \<noteq> j" using k(3) by auto
    then have mt: "H2K_asid_match (?tab ?j) p v t" using m by (subst (asm) oth [OF ne]) simp
    have rc: "reachable ?tab ?j" using inv c by (simp add: asid_inv_def)
    have pj: "ptb (?tab ?j) = p" using mt by (simp add: H2K_asid_match_def)
    obtain r where r: "r \<le> 2 ^ unat (log_maxhops (?tab ?h))" "?j = hop ?h (?h OR 1) r"
      using rc unfolding reachable_def Let_def pj by (elim exE conjE)
    then have "r < 2 ^ unat (log_maxhops (?tab ?h)) + 1" by simp
    then have "\<not> H2K_asid_match (?tab (hop ?h (?h OR 1) r)) p v t"
      using none search_from_None [OF hash_lt] unfolding H2K_asid_table_search_def Let_def by blast
    then show False using mt r(2) by simp
  qed
  have "i < 2 ^ unat (log_maxhops (tab' ?h)) + 1" using il lh by simp
  then show "search_from tab' p v t (?h OR 1) ?h (2 ^ unat (log_maxhops (tab' ?h)) + 1) = Some j"
    unfolding k(2) by (rule search_from_Some [OF hash_lt]) (use mj nm k(2) in simp_all)
  show "reachable tab' q" if q: "q < 128" "count (tab' q) \<noteq> 0" for q
  proof (cases "q = j")
    case True
    have "ptb (tab' j) = p" by (simp add: tab'_def)
    then show ?thesis unfolding True reachable_def Let_def using il lh k(2) by (intro exI [of _ i]) simp
  next
    case False
    then have "count (?tab q) \<noteq> 0" "ptb (tab' q) = ptb (?tab q)" using q oth [OF False] by (simp_all add: tab'_def s1 split: if_splits)
    then have "reachable ?tab q" using inv q(1) by (simp add: asid_inv_def)
    then show ?thesis using \<open>ptb (tab' q) = _\<close> mono by (rule reachable_mono)
  qed
qed

lemma evict_none:
  assumes "H2K_asid_table_eviction p s = None" "j < 128"
  shows "count (asid_table s j) \<noteq> 0"
proof -
  let ?h = "ASID_HASHVAL p"
  have "evict_from (asid_table s) (?h OR 1) ?h 0 MAX_ASIDS = None"
    using assms(1) by (auto simp: H2K_asid_table_eviction_def Let_def split: option.splits)
  then have "\<forall>k<128. count (asid_table s (hop ?h (?h OR 1) k)) \<noteq> 0"
    using evict_from_None [OF hash_lt] by (simp add: MAX_ASIDS_def)
  then show ?thesis using hop_surj [OF stride_odd assms(2)] by metis
qed



end
