(* ===== verification/Vmint.thy ===== *)
theory Vmint
  imports Futex_Queue "HOL-Library.Monad_Syntax"
begin

text \<open>
  Virtual interrupts: the inter-processor interrupt (\<^verbatim>\<open>kernel/vm/vmipi\<close>), the delivery to a
  thread (\<^verbatim>\<open>kernel/vm/vmint\<close>), and the chain of interrupt controllers of a VM: the sixteen
  per-CPU interrupts (\<^verbatim>\<open>kernel/vm/cpuint\<close>), the shared interrupts (\<^verbatim>\<open>kernel/vm/shint\<close>) and the
  controller of all other numbers, which refuses (\<^verbatim>\<open>kernel/vm/badint\<close>).

  An operation of a controller gets the rest of the chain as the function to call when the
  interrupt number is not its own. The result is the new state and the returned number, or
  \<open>None\<close> if the search for a CPU does not end, which needs a CPU index outside the VM.
\<close>

section \<open>Status bits of a thread\<close>

definition VMWORK :: nat where "VMWORK = 0"
definition KILL :: nat where "KILL = 1"
definition IE :: nat where "IE = 7"

abbreviation vm_ie :: "H2K_thread_context \<Rightarrow> bool" where "vm_ie t \<equiv> bit (vmstatus t) IE"

definition set_vmstatus :: "nat \<Rightarrow> ptr \<Rightarrow> H2K_kg_t \<Rightarrow> H2K_kg_t" where
  "set_vmstatus b t s = upd_thr t (\<lambda>c. c\<lparr>vmstatus := fst (H2K_atomic_setbit (vmstatus c) b)\<rparr>) s"

definition clr_vmstatus :: "nat \<Rightarrow> ptr \<Rightarrow> H2K_kg_t \<Rightarrow> H2K_kg_t" where
  "clr_vmstatus b t s = upd_thr t (\<lambda>c. c\<lparr>vmstatus := fst (H2K_atomic_clrbit (vmstatus c) b)\<rparr>) s"

section \<open>Inter-processor interrupts\<close>

definition VM_IPI_INT :: nat where "VM_IPI_INT = 0"
definition VM_IPI_INTMASK :: u32 where "VM_IPI_INTMASK = 1"

definition H2K_vm_ipi_send_withlock_mask :: "u32 \<Rightarrow> H2K_kg_t \<Rightarrow> H2K_kg_t" where
  "H2K_vm_ipi_send_withlock_mask m s =
     (let s1 = s\<lparr>mask_for_ipi := mask_for_ipi s OR m\<rparr>
      in swi VM_IPI_INTMASK (iassignw VM_IPI_INT (NOT (mask_for_ipi s1)) s1))"

definition H2K_vm_ipi_send_withlock :: "ptr \<Rightarrow> H2K_kg_t \<Rightarrow> H2K_kg_t" where
  "H2K_vm_ipi_send_withlock dest s =
     (if status (thr s dest) = H2K_STATUS_RUNNING
      then H2K_vm_ipi_send_withlock_mask (push_bit (unat (hthread (thr s dest))) 1) s else s)"

definition H2K_vm_ipi_send_mask :: "u32 \<Rightarrow> H2K_kg_t \<Rightarrow> H2K_kg_t" where
  "H2K_vm_ipi_send_mask m s = BKL_UNLOCK (H2K_vm_ipi_send_withlock_mask m (BKL_LOCK s))"

definition H2K_vm_ipi_send :: "ptr \<Rightarrow> H2K_kg_t \<Rightarrow> H2K_kg_t" where
  "H2K_vm_ipi_send dest s =
     (if status (thr s dest) = H2K_STATUS_RUNNING
      then H2K_vm_ipi_send_mask (push_bit (unat (hthread (thr s dest))) 1) s else s)"

section \<open>Delivery\<close>

definition H2K_popup_cancel :: "ptr \<Rightarrow> H2K_kg_t \<Rightarrow> H2K_kg_t" where
  "H2K_popup_cancel dest s =
     (let intnum = unat (r00 (thr s dest))
      in upd_thr dest (r00_update (\<lambda>_. -1))
           (s\<lparr>int_handler := (int_handler s)(intnum := NoHandler), int_param := (int_param s)(intnum := NULL)\<rparr>))"

definition deliver_enqueue :: "ptr \<Rightarrow> H2K_kg_t \<Rightarrow> H2K_kg_t" where
  "deliver_enqueue t s = fst (H2K_check_sanity 0 (H2K_ready_append t s))"

definition H2K_vm_int_deliver_locked :: "ptr \<Rightarrow> ptr \<Rightarrow> u32 \<Rightarrow> H2K_kg_t \<Rightarrow> H2K_kg_t \<times> int" where
  "H2K_vm_int_deliver_locked vb t intno s =
     (case status (thr s t) of
        H2K_STATUS_VMWAIT \<Rightarrow>
          let ci = unat (cpuidx (id (thr s t)));
              s1 = (if ci < 64 then upd_vmb vb (\<lambda>v. v\<lparr>waiting_cpus := waiting_cpus v AND NOT (push_bit ci 1)\<rparr>) s else s)
          in (deliver_enqueue t (upd_thr t (r00_update (\<lambda>_. intno)) s1), 0)
      | H2K_STATUS_RUNNING \<Rightarrow>
          if vm_ie (thr s t) then (H2K_vm_ipi_send_withlock t s, 0) else (s, 0)
      | H2K_STATUS_INTBLOCKED \<Rightarrow>
          if vm_ie (thr s t) then (deliver_enqueue t (H2K_popup_cancel t s), 0) else (s, 0)
      | H2K_STATUS_BLOCKED \<Rightarrow>
          if vm_ie (thr s t) then (deliver_enqueue t (H2K_futex_cancel t s), 0) else (s, 0)
      | H2K_STATUS_READY \<Rightarrow> (s, 0)
      | H2K_STATUS_DEAD \<Rightarrow> (s, -1))"

definition H2K_vm_int_deliver :: "ptr \<Rightarrow> ptr \<Rightarrow> u32 \<Rightarrow> H2K_kg_t \<Rightarrow> H2K_kg_t \<times> int" where
  "H2K_vm_int_deliver vb t intno s =
     (let (s1, r) = H2K_vm_int_deliver_locked vb t intno (BKL_LOCK s) in (BKL_UNLOCK s1, r))"

section \<open>Per-CPU interrupts\<close>

definition PERCPU_INTERRUPTS :: u32 where "PERCPU_INTERRUPTS = 16"

type_synonym int_op = "ptr \<Rightarrow> ptr \<Rightarrow> u32 \<Rightarrow> H2K_kg_t \<Rightarrow> (H2K_kg_t \<times> int) option"

definition set_pending :: "nat \<Rightarrow> ptr \<Rightarrow> H2K_kg_t \<Rightarrow> H2K_kg_t" where
  "set_pending b t s = upd_thr t (\<lambda>c. c\<lparr>cpuint_pending := set_bit b (cpuint_pending c)\<rparr>) s"

definition clr_pending :: "nat \<Rightarrow> ptr \<Rightarrow> H2K_kg_t \<Rightarrow> H2K_kg_t" where
  "clr_pending b t s = upd_thr t (\<lambda>c. c\<lparr>cpuint_pending := unset_bit b (cpuint_pending c)\<rparr>) s"

definition set_enabled :: "nat \<Rightarrow> ptr \<Rightarrow> H2K_kg_t \<Rightarrow> H2K_kg_t" where
  "set_enabled b t s = upd_thr t (\<lambda>c. c\<lparr>cpuint_enabled := set_bit b (cpuint_enabled c)\<rparr>) s"

definition clr_enabled :: "nat \<Rightarrow> ptr \<Rightarrow> H2K_kg_t \<Rightarrow> H2K_kg_t" where
  "clr_enabled b t s = upd_thr t (\<lambda>c. c\<lparr>cpuint_enabled := unset_bit b (cpuint_enabled c)\<rparr>) s"

definition H2K_vm_cpuint_post_locked :: "ptr \<Rightarrow> ptr \<Rightarrow> u32 \<Rightarrow> H2K_kg_t \<Rightarrow> H2K_kg_t" where
  "H2K_vm_cpuint_post_locked vb me intno s =
     (let s1 = set_vmstatus VMWORK me (set_pending (unat intno) me s);
          tmp = cpuint_pending (thr s1 me) AND cpuint_enabled (thr s1 me)
      in if tmp = 0 then s1 else fst (H2K_vm_int_deliver_locked vb me intno s1))"

definition H2K_vm_cpuint_post :: "int_op \<Rightarrow> int_op" where
  "H2K_vm_cpuint_post nxt vb me intno s =
     (if intno \<ge> PERCPU_INTERRUPTS then nxt vb me (intno - PERCPU_INTERRUPTS) s
      else
        let s1 = set_vmstatus VMWORK me (set_pending (unat intno) me s);
            tmp = cpuint_pending (thr s1 me) AND cpuint_enabled (thr s1 me)
        in if tmp = 0 then Some (s1, 0) else Some (fst (H2K_vm_int_deliver vb me intno s1), 0))"

definition H2K_vm_cpuint_clear :: "int_op \<Rightarrow> int_op" where
  "H2K_vm_cpuint_clear nxt vb me intno s =
     (if intno \<ge> PERCPU_INTERRUPTS then nxt vb me (intno - PERCPU_INTERRUPTS) s
      else Some (clr_pending (unat intno) me s, 0))"

definition reenable_phys :: "ptr \<Rightarrow> u32 \<Rightarrow> H2K_kg_t \<Rightarrow> H2K_kg_t" where
  "reenable_phys vb intno s =
     (case int_v2p (vmb s vb) of None \<Rightarrow> s
      | Some v2p \<Rightarrow> if v2p (unat intno) \<noteq> 0 then H2K_intcontrol_enable (ucast (v2p (unat intno))) s else s)"

definition H2K_vm_cpuint_enable :: "int_op \<Rightarrow> int_op" where
  "H2K_vm_cpuint_enable nxt vb me intno s =
     (if intno \<ge> PERCPU_INTERRUPTS then nxt vb me (intno - PERCPU_INTERRUPTS) s
      else if bit (cpuint_enabled (thr s me)) (unat intno) then Some (s, 0)
      else
        let s1 = reenable_phys vb intno (set_enabled (unat intno) me s)
        in Some (if bit (cpuint_pending (thr s1 me)) (unat intno) then set_vmstatus VMWORK me s1 else s1, 0))"

definition H2K_vm_cpuint_disable :: "int_op \<Rightarrow> int_op" where
  "H2K_vm_cpuint_disable nxt vb me intno s =
     (if intno \<ge> PERCPU_INTERRUPTS then nxt vb me (intno - PERCPU_INTERRUPTS) s
      else if \<not> bit (cpuint_enabled (thr s me)) (unat intno) then Some (s, 0)
      else Some (clr_enabled (unat intno) me s, 0))"

text \<open>The retry of the atomic clear is not taken in a sequential step: the bit was just read.\<close>

definition H2K_vm_cpuint_get :: "int_op \<Rightarrow> int_op" where
  "H2K_vm_cpuint_get nxt vb me offset s =
     (let tmp = cpuint_enabled (thr s me) AND cpuint_pending (thr s me)
      in if tmp \<noteq> 0
         then let bitidx = ct0 tmp
              in Some (clr_enabled bitidx me (clr_pending bitidx me s), sint (offset + of_nat bitidx))
         else nxt vb me (offset + PERCPU_INTERRUPTS) s)"

definition H2K_vm_cpuint_peek :: "int_op \<Rightarrow> int_op" where
  "H2K_vm_cpuint_peek nxt vb me offset s =
     (let tmp = cpuint_enabled (thr s me) AND cpuint_pending (thr s me)
      in if tmp \<noteq> 0 then Some (s, sint (offset + of_nat (ct0 tmp)))
         else nxt vb me (offset + PERCPU_INTERRUPTS) s)"

definition H2K_vm_cpuint_status :: "int_op \<Rightarrow> int_op" where
  "H2K_vm_cpuint_status nxt vb me intno s =
     (if intno \<ge> PERCPU_INTERRUPTS then nxt vb me (intno - PERCPU_INTERRUPTS) s
      else Some (s, of_bool (bit (cpuint_pending (thr s me)) (unat intno)) +
                    4 * of_bool (bit (cpuint_enabled (thr s me)) (unat intno))))"

definition H2K_vm_cpuint_nop :: "int_op \<Rightarrow> int_op" where
  "H2K_vm_cpuint_nop nxt vb me intno s = Some (s, 0)"

definition H2K_vm_cpuint_localen :: "int_op \<Rightarrow> int_op" where
  "H2K_vm_cpuint_localen nxt vb me intno s =
     (if intno \<ge> PERCPU_INTERRUPTS then nxt vb me (intno - PERCPU_INTERRUPTS) s else Some (s, -1))"

definition H2K_vm_cpuint_localdis :: "int_op \<Rightarrow> int_op" where
  "H2K_vm_cpuint_localdis nxt vb me intno s =
     (if intno \<ge> PERCPU_INTERRUPTS then nxt vb me (intno - PERCPU_INTERRUPTS) s else Some (s, -1))"

definition H2K_vm_cpuint_setaffinity :: "int_op \<Rightarrow> int_op" where
  "H2K_vm_cpuint_setaffinity nxt vb me intno s =
     (if intno \<ge> PERCPU_INTERRUPTS then nxt vb me (intno - PERCPU_INTERRUPTS) s else Some (s, -1))"

section \<open>Shared interrupts\<close>

definition wordidx :: "u32 \<Rightarrow> nat" where "wordidx intno = unat (drop_bit 5 intno)"
definition bitidx :: "u32 \<Rightarrow> nat" where "bitidx intno = unat (intno AND 0x1f)"

definition upd_bit :: "(u32 \<Rightarrow> u32) \<Rightarrow> nat \<Rightarrow> (nat \<Rightarrow> u32) \<Rightarrow> (nat \<Rightarrow> u32)" where
  "upd_bit f w m = m(w := f (m w))"

definition context_of :: "ptr \<Rightarrow> nat \<Rightarrow> H2K_kg_t \<Rightarrow> ptr" where
  "context_of vb i s = contexts (vmb s vb) + i * CONTEXT_SIZE"

definition H2K_vm_shint_deliver_cpu :: "ptr \<Rightarrow> ptr \<Rightarrow> u32 \<Rightarrow> H2K_kg_t \<Rightarrow> H2K_kg_t \<times> bool" where
  "H2K_vm_shint_deliver_cpu vb dest intno s =
     (let cpu = unat (cpuidx (id (thr s dest)))
      in if bit (percpu_mask (vmb s vb) cpu (wordidx intno)) (bitidx intno)
         then let (s1, ret) = H2K_vm_int_deliver vb dest intno (set_vmstatus VMWORK dest s)
              in (s1, ret \<noteq> -1)
         else (s, False))"

text \<open>First the waiting CPUs, from the lowest; the bits of the CPUs are read again each time.\<close>

fun deliver_waiting :: "ptr \<Rightarrow> u32 \<Rightarrow> nat list \<Rightarrow> H2K_kg_t \<Rightarrow> H2K_kg_t \<times> bool" where
  "deliver_waiting vb intno [] s = (s, False)"
| "deliver_waiting vb intno (i # is) s =
     (if i < unat (max_cpus (vmb s vb)) then
        if bit (waiting_cpus (vmb s vb)) i then
          let (s1, done) = H2K_vm_shint_deliver_cpu vb (context_of vb i s) intno s
          in if done then (s1, True) else deliver_waiting vb intno is s1
        else deliver_waiting vb intno is s
      else (s, False))"

text \<open>Then every CPU, circularly from the caller's.\<close>

partial_function (option) deliver_all :: "ptr \<Rightarrow> u32 \<Rightarrow> u32 \<Rightarrow> u32 \<Rightarrow> H2K_kg_t \<Rightarrow> H2K_kg_t option" where
  "deliver_all vb intno cpu i s =
     (let (s1, done) = H2K_vm_shint_deliver_cpu vb (context_of vb (unat i) s) intno s
      in if done then Some s1
         else
           let i1 = (if i + 1 \<ge> max_cpus (vmb s1 vb) then 0 else i + 1)
           in if i1 = cpu then Some s1 else deliver_all vb intno cpu i1 s1)"

definition H2K_vm_shint_deliver :: "ptr \<Rightarrow> ptr \<Rightarrow> u32 \<Rightarrow> H2K_kg_t \<Rightarrow> H2K_kg_t option" where
  "H2K_vm_shint_deliver vb me intno s =
     (let cpu = ucast (cpuidx (id (thr s me)));
          (s1, done) = deliver_waiting vb intno [ct0 (waiting_cpus (vmb s vb))..<64] s
      in if done then Some s1 else deliver_all vb intno cpu cpu s1)"

definition H2K_vm_shint_post :: "u32 \<Rightarrow> int_op \<Rightarrow> int_op" where
  "H2K_vm_shint_post num nxt vb me intno s =
     (if intno \<ge> num then nxt vb me (intno - num) s
      else if bit (pending (vmb s vb) (wordidx intno)) (bitidx intno) then Some (s, 0)
      else
        let s1 = upd_vmb vb (\<lambda>v. v\<lparr>pending := upd_bit (set_bit (bitidx intno)) (wordidx intno) (pending v)\<rparr>) s
        in if \<not> bit (enable (vmb s1 vb) (wordidx intno)) (bitidx intno) then Some (s1, 0)
           else do { s2 \<leftarrow> H2K_vm_shint_deliver vb me intno s1; Some (s2, 0) })"

definition H2K_vm_shint_clear :: "u32 \<Rightarrow> int_op \<Rightarrow> int_op" where
  "H2K_vm_shint_clear num nxt vb me intno s =
     (if intno \<ge> num then nxt vb me (intno - num) s
      else Some (upd_vmb vb (\<lambda>v. v\<lparr>pending := upd_bit (unset_bit (bitidx intno)) (wordidx intno) (pending v)\<rparr>) s, 0))"

definition H2K_vm_shint_enable :: "u32 \<Rightarrow> int_op \<Rightarrow> int_op" where
  "H2K_vm_shint_enable num nxt vb me intno s =
     (if intno \<ge> num then nxt vb me (intno - num) s
      else if bit (enable (vmb s vb) (wordidx intno)) (bitidx intno) then Some (s, 0)
      else
        let s1 = upd_vmb vb (\<lambda>v. v\<lparr>enable := upd_bit (set_bit (bitidx intno)) (wordidx intno) (enable v)\<rparr>) s;
            s2 = reenable_phys vb (intno + PERCPU_INTERRUPTS) s1
        in if bit (pending (vmb s2 vb) (wordidx intno)) (bitidx intno)
           then do { s3 \<leftarrow> H2K_vm_shint_deliver vb me intno s2; Some (s3, 0) } else Some (s2, 0))"

definition H2K_vm_shint_disable :: "u32 \<Rightarrow> int_op \<Rightarrow> int_op" where
  "H2K_vm_shint_disable num nxt vb me intno s =
     (if intno \<ge> num then nxt vb me (intno - num) s
      else if \<not> bit (enable (vmb s vb) (wordidx intno)) (bitidx intno) then Some (s, 0)
      else Some (upd_vmb vb (\<lambda>v. v\<lparr>enable := upd_bit (unset_bit (bitidx intno)) (wordidx intno) (enable v)\<rparr>) s, 0))"

definition upd_percpu :: "(u32 \<Rightarrow> u32) \<Rightarrow> nat \<Rightarrow> nat \<Rightarrow> ptr \<Rightarrow> H2K_kg_t \<Rightarrow> H2K_kg_t" where
  "upd_percpu f cpu w vb s =
     upd_vmb vb (\<lambda>v. v\<lparr>percpu_mask := (percpu_mask v)(cpu := upd_bit f w (percpu_mask v cpu))\<rparr>) s"

definition H2K_vm_shint_localen :: "u32 \<Rightarrow> int_op \<Rightarrow> int_op" where
  "H2K_vm_shint_localen num nxt vb me intno s =
     (let cpu = unat (cpuidx (id (thr s me)))
      in if intno \<ge> num then nxt vb me (intno - num) s
         else if bit (percpu_mask (vmb s vb) cpu (wordidx intno)) (bitidx intno) then Some (s, 0)
         else
           let s1 = upd_percpu (set_bit (bitidx intno)) cpu (wordidx intno) vb s
           in if bit (enable (vmb s1 vb) (wordidx intno) AND pending (vmb s1 vb) (wordidx intno)) (bitidx intno)
              then Some (fst (H2K_vm_shint_deliver_cpu vb me intno s1), 0) else Some (s1, 0))"

definition H2K_vm_shint_localdis :: "u32 \<Rightarrow> int_op \<Rightarrow> int_op" where
  "H2K_vm_shint_localdis num nxt vb me intno s =
     (let cpu = unat (cpuidx (id (thr s me)))
      in if intno \<ge> num then nxt vb me (intno - num) s
         else if \<not> bit (percpu_mask (vmb s vb) cpu (wordidx intno)) (bitidx intno) then Some (s, 0)
         else Some (upd_percpu (unset_bit (bitidx intno)) cpu (wordidx intno) vb s, 0))"

fun localdis_all :: "u32 \<Rightarrow> int_op \<Rightarrow> ptr \<Rightarrow> u32 \<Rightarrow> nat list \<Rightarrow> H2K_kg_t \<Rightarrow> H2K_kg_t option" where
  "localdis_all num nxt vb intno [] s = Some s"
| "localdis_all num nxt vb intno (i # is) s =
     do { (s1, _) \<leftarrow> H2K_vm_shint_localdis num nxt vb (context_of vb i s) intno s;
          localdis_all num nxt vb intno is s1 }"

definition H2K_vm_shint_setaffinity :: "u32 \<Rightarrow> int_op \<Rightarrow> int_op" where
  "H2K_vm_shint_setaffinity num nxt vb me intno s =
     (if intno \<ge> num then nxt vb me (intno - num) s
      else do {
        s1 \<leftarrow> localdis_all num nxt vb intno [0..<unat (max_cpus (vmb s vb))] s;
        (s2, _) \<leftarrow> H2K_vm_shint_localen num nxt vb (context_of vb (unat (cpuidx (id (thr s1 me)))) s1) intno s1;
        Some (s2, 0) })"

text \<open>The pending, globally and locally enabled interrupts of word \<open>j\<close>.\<close>

definition takeable :: "ptr \<Rightarrow> ptr \<Rightarrow> nat \<Rightarrow> H2K_kg_t \<Rightarrow> u32" where
  "takeable vb me j s =
     pending (vmb s vb) j AND enable (vmb s vb) j AND percpu_mask (vmb s vb) (unat (cpuidx (id (thr s me)))) j"

fun shint_scan :: "ptr \<Rightarrow> ptr \<Rightarrow> nat list \<Rightarrow> H2K_kg_t \<Rightarrow> (nat \<times> nat) option" where
  "shint_scan vb me [] s = None"
| "shint_scan vb me (j # js) s =
     (if takeable vb me j s \<noteq> 0 then Some (j, ct0 (takeable vb me j s)) else shint_scan vb me js s)"

definition shint_words :: "ptr \<Rightarrow> H2K_kg_t \<Rightarrow> nat list" where
  "shint_words vb s = [0..<(unat (num_ints (vmb s vb)) + 31) div 32]"

definition H2K_vm_shint_get :: "u32 \<Rightarrow> int_op \<Rightarrow> int_op" where
  "H2K_vm_shint_get num nxt vb me offset s =
     (case shint_scan vb me (shint_words vb s) s of
        Some (j, b) \<Rightarrow>
          Some (upd_vmb vb (\<lambda>v. v\<lparr>enable := upd_bit (unset_bit b) j (enable v),
                                  pending := upd_bit (unset_bit b) j (pending v)\<rparr>) s,
                sint (offset + of_nat (32 * j) + of_nat b))
      | None \<Rightarrow> nxt vb me (offset + num_ints (vmb s vb)) s)"

definition H2K_vm_shint_peek :: "u32 \<Rightarrow> int_op \<Rightarrow> int_op" where
  "H2K_vm_shint_peek num nxt vb me offset s =
     (case shint_scan vb me (shint_words vb s) s of
        Some (j, b) \<Rightarrow> Some (s, sint (offset + of_nat (32 * j) + of_nat b))
      | None \<Rightarrow> nxt vb me (offset + num_ints (vmb s vb)) s)"

definition H2K_vm_shint_status :: "u32 \<Rightarrow> int_op \<Rightarrow> int_op" where
  "H2K_vm_shint_status num nxt vb me intno s =
     (if intno \<ge> num then nxt vb me (intno - num) s
      else Some (s, of_bool (bit (pending (vmb s vb) (wordidx intno)) (bitidx intno)) +
        2 * of_bool (bit (percpu_mask (vmb s vb) (unat (cpuidx (id (thr s me)))) (wordidx intno)) (bitidx intno)) +
        4 * of_bool (bit (enable (vmb s vb) (wordidx intno)) (bitidx intno))))"

definition H2K_vm_shint_nop :: "u32 \<Rightarrow> int_op \<Rightarrow> int_op" where
  "H2K_vm_shint_nop num nxt vb me intno s = Some (s, 0)"

section \<open>All other interrupts, and the dispatch\<close>

definition H2K_vm_badint_func :: int_op where
  "H2K_vm_badint_func vb dest intno s = Some (s, -1)"

datatype intop_type = H2K_INTOP_NOP | H2K_INTOP_GLOBEN | H2K_INTOP_GLOBDIS | H2K_INTOP_LOCEN
  | H2K_INTOP_LOCDIS | H2K_INTOP_AFFINITY | H2K_INTOP_GET | H2K_INTOP_PEEK | H2K_INTOP_STATUS
  | H2K_INTOP_POST | H2K_INTOP_CLEAR

fun cpuint_optab :: "intop_type \<Rightarrow> int_op \<Rightarrow> int_op" where
  "cpuint_optab H2K_INTOP_NOP = H2K_vm_cpuint_nop"
| "cpuint_optab H2K_INTOP_GLOBEN = H2K_vm_cpuint_enable"
| "cpuint_optab H2K_INTOP_GLOBDIS = H2K_vm_cpuint_disable"
| "cpuint_optab H2K_INTOP_LOCEN = H2K_vm_cpuint_localen"
| "cpuint_optab H2K_INTOP_LOCDIS = H2K_vm_cpuint_localdis"
| "cpuint_optab H2K_INTOP_AFFINITY = H2K_vm_cpuint_setaffinity"
| "cpuint_optab H2K_INTOP_GET = H2K_vm_cpuint_get"
| "cpuint_optab H2K_INTOP_PEEK = H2K_vm_cpuint_peek"
| "cpuint_optab H2K_INTOP_STATUS = H2K_vm_cpuint_status"
| "cpuint_optab H2K_INTOP_POST = H2K_vm_cpuint_post"
| "cpuint_optab H2K_INTOP_CLEAR = H2K_vm_cpuint_clear"

fun shint_optab :: "intop_type \<Rightarrow> u32 \<Rightarrow> int_op \<Rightarrow> int_op" where
  "shint_optab H2K_INTOP_NOP = H2K_vm_shint_nop"
| "shint_optab H2K_INTOP_GLOBEN = H2K_vm_shint_enable"
| "shint_optab H2K_INTOP_GLOBDIS = H2K_vm_shint_disable"
| "shint_optab H2K_INTOP_LOCEN = H2K_vm_shint_localen"
| "shint_optab H2K_INTOP_LOCDIS = H2K_vm_shint_localdis"
| "shint_optab H2K_INTOP_AFFINITY = H2K_vm_shint_setaffinity"
| "shint_optab H2K_INTOP_GET = H2K_vm_shint_get"
| "shint_optab H2K_INTOP_PEEK = H2K_vm_shint_peek"
| "shint_optab H2K_INTOP_STATUS = H2K_vm_shint_status"
| "shint_optab H2K_INTOP_POST = H2K_vm_shint_post"
| "shint_optab H2K_INTOP_CLEAR = H2K_vm_shint_clear"

text \<open>
  Calling an operation through a chain of controllers. The chain the initialisation builds
  ends with the controller that refuses and is never left.
\<close>

fun int_call :: "intop_type \<Rightarrow> (u32 \<times> intops) list \<Rightarrow> int_op" where
  "int_call op [] = (\<lambda>_ _ _ _. None)"
| "int_call op ((n, H2K_vm_cpuint_ops) # info) = cpuint_optab op (int_call op info)"
| "int_call op ((n, H2K_vm_shint_ops) # info) = shint_optab op n (int_call op info)"
| "int_call op ((n, H2K_vm_badint_ops) # info) = H2K_vm_badint_func"

definition H2K_vm_int_intinfo_init :: "ptr \<Rightarrow> u32 \<Rightarrow> H2K_kg_t \<Rightarrow> H2K_kg_t" where
  "H2K_vm_int_intinfo_init vb num s =
     upd_vmb vb (\<lambda>v. v\<lparr>intinfo := (PERCPU_INTERRUPTS, H2K_vm_cpuint_ops) #
       (if num > 0 then [(num, H2K_vm_shint_ops)] else []) @ [(-1, H2K_vm_badint_ops)]\<rparr>) s"

end
