(* ===== verification/Timer.thy ===== *)
theory Timer
  imports Vmint
begin

text \<open>
  Timeouts of threads, \<^verbatim>\<open>kernel/time/timer\<close>, for cores with a timer register (from V61 on) and
  the match registers of the architectures from 5 on. The pending timeouts are a search tree
  of the tree nodes embedded in the thread contexts, keyed by the tick at which they expire;
  a node is named by the context that holds it. A context whose key is 0 has no timeout.

  \<open>timer_reg\<close> and \<open>pcycle_reg\<close> are the values the timer and cycle registers have during the
  operation.
\<close>

section \<open>Operations\<close>

definition TICK_GRANULARITY :: u64 where "TICK_GRANULARITY = 4"
definition TIMERHW_NSEC_PER_TICK :: u64 where "TIMERHW_NSEC_PER_TICK = 52"
definition TIMERHW_TICK_REALFREQ :: u64 where "TIMERHW_TICK_REALFREQ = 19200000"
definition H2K_TIME_FOREVER :: u64 where "H2K_TIME_FOREVER = -1"
definition H2K_TIME_BIGBANG :: u64 where "H2K_TIME_BIGBANG = 0"
definition H2K_TIME_GUESTINT :: u32 where "H2K_TIME_GUESTINT = 12"
definition HW_MATCH_LO :: nat where "HW_MATCH_LO = 0x408"
definition HW_MATCH_HI :: nat where "HW_MATCH_HI = 0x409"
definition HW_ENABLE :: nat where "HW_ENABLE = 0x40B"
definition HW_CNTFRQ :: nat where "HW_CNTFRQ = 0"
definition HW_CNTSR :: nat where "HW_CNTSR = 1"
definition HW_CNTACR :: nat where "HW_CNTACR = 0x10"

text \<open>The tree of timeouts (variable 0) with one further root variable (1).\<close>

definition timer_tree :: "ptr \<Rightarrow> H2K_kg_t \<Rightarrow> tstate" where
  "timer_tree v s = \<lparr>vars = (\<lambda>_. NULL)(0 := timeouts s, 1 := v), nodes = (\<lambda>p. tree (thr s p))\<rparr>"

definition put_tree :: "tstate \<Rightarrow> H2K_kg_t \<Rightarrow> H2K_kg_t" where
  "put_tree st s = s\<lparr>thr := (\<lambda>p. (thr s p)\<lparr>tree := nodes st p\<rparr>), timeouts := vars st 0\<rparr>"

abbreviation timeout :: "H2K_thread_context \<Rightarrow> u64" where "timeout t \<equiv> key (tree t)"

definition set_timeout_field :: "ptr \<Rightarrow> u64 \<Rightarrow> H2K_kg_t \<Rightarrow> H2K_kg_t" where
  "set_timeout_field me v s = upd_thr me (\<lambda>c. c\<lparr>tree := (tree c)\<lparr>key := v\<rparr>\<rparr>) s"

definition H2K_timer_hw_read_count :: "H2K_kg_t \<Rightarrow> u64" where
  "H2K_timer_hw_read_count s = timer_reg s"

definition H2K_timer_hw_set_timeout :: "u64 \<Rightarrow> H2K_kg_t \<Rightarrow> H2K_kg_t" where
  "H2K_timer_hw_set_timeout nextticks s =
     s\<lparr>next_ticks := nextticks,
       devptr := (devptr s)(HW_MATCH_HI := -1, HW_MATCH_LO := ucast nextticks,
                            HW_MATCH_HI := ucast (drop_bit 32 nextticks))\<rparr>"

definition H2K_timer_hw_init :: "H2K_kg_t \<Rightarrow> H2K_kg_t" where
  "H2K_timer_hw_init s =
     (let s1 = H2K_timer_hw_set_timeout H2K_TIME_FOREVER (s\<lparr>last_ticks := H2K_TIME_BIGBANG, last_pcycles := 0\<rparr>);
          s2 = s1\<lparr>devptr := (devptr s1)(HW_CNTSR := -1, HW_CNTACR := -1, HW_CNTFRQ := 19200000, HW_ENABLE := 1)\<rparr>
      in H2K_intcontrol_enable (timer_intnum s2) s2)"

definition H2K_timer_update_time :: "u64 \<Rightarrow> H2K_kg_t \<Rightarrow> H2K_kg_t" where
  "H2K_timer_update_time nowticks s =
     (if nowticks > last_ticks s then s\<lparr>last_ticks := nowticks, last_pcycles := pcycle_reg s\<rparr> else s)"

definition H2K_timer_update_timeout :: "u64 \<Rightarrow> H2K_kg_t \<Rightarrow> H2K_kg_t" where
  "H2K_timer_update_timeout nextticks s =
     (let s1 = BKL_LOCK s;
          s2 = (if next_ticks s1 > nextticks then H2K_timer_hw_set_timeout nextticks s1 else s1)
      in BKL_UNLOCK s2)"

definition H2K_timer_get_ticks :: "H2K_kg_t \<Rightarrow> H2K_kg_t \<times> u64" where
  "H2K_timer_get_ticks s =
     (let nowticks = H2K_timer_hw_read_count s in (H2K_timer_update_time nowticks s, nowticks))"

definition H2K_timer_dotimeout :: "ptr \<Rightarrow> H2K_kg_t \<Rightarrow> H2K_kg_t" where
  "H2K_timer_dotimeout dest s =
     (let s1 = set_timeout_field dest H2K_TIME_BIGBANG s
      in H2K_vm_cpuint_post_locked (vmblock (thr s1 dest)) dest H2K_TIME_GUESTINT s1)"

definition set_nodes :: "(ptr \<Rightarrow> treenode) \<Rightarrow> H2K_kg_t \<Rightarrow> H2K_kg_t" where
  "set_nodes m s = s\<lparr>thr := (\<lambda>p. (thr s p)\<lparr>tree := m p\<rparr>)\<rparr>"

definition H2K_timer_int :: "u32 \<Rightarrow> H2K_kg_t \<Rightarrow> H2K_kg_t option" where
  "H2K_timer_int intnum s =
     (let (s0, t0) = H2K_timer_get_ticks s;
          ticks = t0 + TICK_GRANULARITY;
          s1 = BKL_LOCK s0
      in do {
           st \<leftarrow> H2K_tree_bisect (timer_tree NULL s1) (Var 1) (Var 0) (timeouts s1) ticks;
           let s2 = put_tree st s1;
           let timedout = vars st 1;
           newtimeout \<leftarrow> H2K_tree_min (\<lambda>p. tree (thr s2 p)) (timeouts s2);
           let nextticks = (if newtimeout \<noteq> NULL then timeout (thr s2 newtimeout) else H2K_TIME_FOREVER);
           let s3 = H2K_timer_hw_set_timeout nextticks s2;
           s4 \<leftarrow> H2K_tree_destructive_iterate (\<lambda>s p. tree (thr s p)) set_nodes H2K_timer_dotimeout timedout s3;
           Some (H2K_intcontrol_enable intnum (BKL_UNLOCK s4))
         })"

definition H2K_timer_init :: "H2K_kg_t \<Rightarrow> H2K_kg_t" where
  "H2K_timer_init s = fst (H2K_timer_get_ticks (H2K_timer_hw_init (s\<lparr>timeouts := NULL\<rparr>)))"

definition H2K_timer_cancel_withlock :: "ptr \<Rightarrow> H2K_kg_t \<Rightarrow> H2K_kg_t option" where
  "H2K_timer_cancel_withlock me s =
     (if timeout (thr s me) \<noteq> 0
      then do { st \<leftarrow> H2K_tree_remove (timer_tree NULL s) (Var 0) me; Some (put_tree st s) }
      else Some s)"

definition H2K_timer_cancel :: "ptr \<Rightarrow> H2K_kg_t \<Rightarrow> H2K_kg_t option" where
  "H2K_timer_cancel me s = do { s1 \<leftarrow> H2K_timer_cancel_withlock me (BKL_LOCK s); Some (BKL_UNLOCK s1) }"

section \<open>Traps\<close>

definition H2K_timer_get_freq :: "ptr \<Rightarrow> u64 \<Rightarrow> H2K_kg_t \<Rightarrow> (H2K_kg_t \<times> u64) option" where
  "H2K_timer_get_freq me arg s = Some (s, TIMERHW_TICK_REALFREQ * TIMERHW_NSEC_PER_TICK)"

definition H2K_timer_get_resolution :: "ptr \<Rightarrow> u64 \<Rightarrow> H2K_kg_t \<Rightarrow> (H2K_kg_t \<times> u64) option" where
  "H2K_timer_get_resolution me arg s = Some (s, TIMERHW_NSEC_PER_TICK)"

definition H2K_timer_get_time :: "ptr \<Rightarrow> u64 \<Rightarrow> H2K_kg_t \<Rightarrow> (H2K_kg_t \<times> u64) option" where
  "H2K_timer_get_time me arg s =
     (let (s1, t) = H2K_timer_get_ticks s in Some (s1, t * TIMERHW_NSEC_PER_TICK))"

definition H2K_timer_get_timeout :: "ptr \<Rightarrow> u64 \<Rightarrow> H2K_kg_t \<Rightarrow> (H2K_kg_t \<times> u64) option" where
  "H2K_timer_get_timeout me arg s = Some (s, timeout (thr s me) * TIMERHW_NSEC_PER_TICK)"

definition H2K_timer_set_timeout_tick :: "ptr \<Rightarrow> u64 \<Rightarrow> H2K_kg_t \<Rightarrow> (H2K_kg_t \<times> u64) option" where
  "H2K_timer_set_timeout_tick me tick0 s =
     (let tick = (if tick0 \<le> last_ticks s then H2K_TIME_BIGBANG else tick0);
          s1 = BKL_LOCK s
      in do {
           s2 \<leftarrow> (if timeout (thr s1 me) \<noteq> 0
                  then do { st \<leftarrow> H2K_tree_remove (timer_tree NULL s1) (Var 0) me; Some (put_tree st s1) }
                  else Some s1);
           let s3 = upd_thr me (\<lambda>c. c\<lparr>tree := \<lparr>left = NULL, right = NULL, key = tick\<rparr>\<rparr>) s2;
           s4 \<leftarrow> (if tick \<noteq> H2K_TIME_BIGBANG
                  then do { st \<leftarrow> H2K_tree_add (timer_tree NULL s3) (Var 0) me; Some (put_tree st s3) }
                  else Some s3);
           Some (H2K_timer_update_timeout tick (BKL_UNLOCK s4), tick * TIMERHW_NSEC_PER_TICK)
         })"

definition H2K_timer_set_timeout :: "ptr \<Rightarrow> u64 \<Rightarrow> H2K_kg_t \<Rightarrow> (H2K_kg_t \<times> u64) option" where
  "H2K_timer_set_timeout me t s =
     (let tick = (if t = H2K_TIME_FOREVER then H2K_TIME_BIGBANG else t div TIMERHW_NSEC_PER_TICK)
      in H2K_timer_set_timeout_tick me tick s)"

definition H2K_timer_delta_timeout :: "ptr \<Rightarrow> u64 \<Rightarrow> H2K_kg_t \<Rightarrow> (H2K_kg_t \<times> u64) option" where
  "H2K_timer_delta_timeout me delta s =
     (let delta_ticks = max (delta div TIMERHW_NSEC_PER_TICK) TICK_GRANULARITY;
          (s1, now) = H2K_timer_get_ticks s;
          tick = (if delta = H2K_TIME_FOREVER then H2K_TIME_BIGBANG else now + delta_ticks)
      in H2K_timer_set_timeout_tick me tick s1)"

definition H2K_timer_trap :: "u32 \<Rightarrow> u64 \<Rightarrow> ptr \<Rightarrow> H2K_kg_t \<Rightarrow> (H2K_kg_t \<times> u64) option" where
  "H2K_timer_trap traptype arg me s =
     (if traptype = 0 then H2K_timer_get_freq me arg s
      else if traptype = 1 then H2K_timer_get_resolution me arg s
      else if traptype = 2 then H2K_timer_get_time me arg s
      else if traptype = 3 then H2K_timer_get_timeout me arg s
      else if traptype = 4 then H2K_timer_set_timeout me arg s
      else if traptype = 5 then H2K_timer_delta_timeout me arg s
      else Some (s, -1))"

definition H2K_vmtrap_timer :: "ptr \<Rightarrow> H2K_kg_t \<Rightarrow> H2K_kg_t option" where
  "H2K_vmtrap_timer me s =
     do { (s1, r) \<leftarrow> H2K_timer_trap (r00 (thr s me)) (pair (r02 (thr s me)) (r03 (thr s me))) me s;
          Some (upd_thr me (\<lambda>c. c\<lparr>r00 := pair_lo r, r01 := pair_hi r\<rparr>) s1) }"

end
