(* ===== verification/Thread_Life.thy ===== *)
theory Thread_Life
  imports Timer Asid Alloc
begin

text \<open>
  The life of a thread: creation (\<^verbatim>\<open>kernel/thread/create\<close>), stopping (\<^verbatim>\<open>kernel/thread/stop\<close>,
  \<^verbatim>\<open>kernel/error/fatal\<close>), guest events (\<^verbatim>\<open>kernel/vm/vmevent\<close>), and the work a thread finds when
  it enters the kernel (\<^verbatim>\<open>kernel/vm/vmwork\<close>, \<^verbatim>\<open>kernel/vm/vmint\<close>, \<^verbatim>\<open>kernel/vm/vmipi\<close>).

  An operation that may stop the calling thread ends either with a value or with the switch
  to another thread; \<open>None\<close> means that it does not return.
\<close>

section \<open>Status register bits\<close>

definition SSR_UM_BIT :: nat where "SSR_UM_BIT = 16"
definition SSR_GUEST_BIT :: nat where "SSR_GUEST_BIT = 19"
definition SSR_SS_BIT :: nat where "SSR_SS_BIT = 30"
definition GSSR_UM_BIT :: nat where "GSSR_UM_BIT = 31"
definition GSSR_IE_BIT :: nat where "GSSR_IE_BIT = 30"
definition GSSR_SS_BIT :: nat where "GSSR_SS_BIT = 29"

abbreviation ssr_guest :: "H2K_thread_context \<Rightarrow> bool" where "ssr_guest t \<equiv> bit (ssr t) SSR_GUEST_BIT"
abbreviation ssr_ss :: "H2K_thread_context \<Rightarrow> bool" where "ssr_ss t \<equiv> bit (ssr t) SSR_SS_BIT"

definition ssr_asid :: "H2K_thread_context \<Rightarrow> u32" where
  "ssr_asid t = take_bit 7 (drop_bit 8 (ssr t))"

definition set_ssr_asid :: "u8 \<Rightarrow> u32 \<Rightarrow> u32" where
  "set_ssr_asid a w = (w AND NOT (push_bit 8 (mask 7))) OR push_bit 8 (take_bit 7 (ucast a))"

definition assign_bit :: "nat \<Rightarrow> bool \<Rightarrow> 'a::len word \<Rightarrow> 'a word" where
  "assign_bit n b w = (if b then set_bit n w else unset_bit n w)"

section \<open>Stopping\<close>

definition H2K_thread_context_clear :: "ptr \<Rightarrow> H2K_kg_t \<Rightarrow> H2K_kg_t" where
  "H2K_thread_context_clear t s = upd_thr t (\<lambda>c. thread0\<lparr>id := id c, vmblock := vmblock c\<rparr>) s"

definition H2K_VM_CHILDINT :: u32 where "H2K_VM_CHILDINT = 14"
definition H2_THREAD_FATAL_ERROR :: u32 where "H2_THREAD_FATAL_ERROR = 0xaaafa7a1"

text \<open>The tell-tale to the parent VM when a thread fails or the last thread of a VM stops.\<close>

definition signal_parent :: "u32 \<Rightarrow> ptr \<Rightarrow> H2K_kg_t \<Rightarrow> H2K_kg_t" where
  "signal_parent st vb s =
     (if st \<noteq> 0 \<or> num_cpus (vmb s vb) = 0 then
        let pc = H2K_id_to_context s (parent (vmb s vb))
        in if pc \<noteq> NULL \<and> status (thr s pc) \<noteq> H2K_STATUS_DEAD
           then H2K_vm_cpuint_post_locked (vmblock (thr s pc)) pc H2K_VM_CHILDINT s
           else if num_cpus (vmb s vb) = 0 then H2K_mem_alloc_free vb s
           else s
      else s)"

definition H2K_thread_stop_withlock :: "u32 \<Rightarrow> ptr \<Rightarrow> H2K_kg_t \<Rightarrow> (H2K_kg_t \<times> ptr) option" where
  "H2K_thread_stop_withlock st me s =
     do {
       let vb = vmblock (thr s me);
       s1 \<leftarrow> H2K_timer_cancel_withlock me s;
       let s2 = H2K_runlist_remove me s1;
       let s3 = H2K_asid_table_dec (ssr_asid (thr s2 me)) s2;
       let s4 = H2K_thread_context_clear me s3;
       let s5 = upd_thr me (next_update (\<lambda>_. free_threads (vmb s4 vb))) s4;
       let s6 = upd_vmb vb (\<lambda>v. v\<lparr>free_threads := me, num_cpus := num_cpus v - 1, vm_status := st\<rparr>) s5;
       let s7 = signal_parent st vb s6;
       H2K_dosched NULL (htid s7) s7
     }"

definition H2K_thread_stop :: "u32 \<Rightarrow> ptr \<Rightarrow> H2K_kg_t \<Rightarrow> (H2K_kg_t \<times> ptr) option" where
  "H2K_thread_stop st me s = H2K_thread_stop_withlock st me (BKL_LOCK s)"

definition H2K_fatal_thread :: "ptr \<Rightarrow> H2K_kg_t \<Rightarrow> (H2K_kg_t \<times> ptr) option" where
  "H2K_fatal_thread me s = H2K_thread_stop H2_THREAD_FATAL_ERROR me s"

section \<open>Guest events\<close>

definition H2K_disable_guest_interrupts :: "ptr \<Rightarrow> H2K_kg_t \<Rightarrow> H2K_kg_t \<times> u32" where
  "H2K_disable_guest_interrupts me s =
     (clr_vmstatus IE me s, snd (H2K_atomic_clrbit (vmstatus (thr s me)) IE))"

definition event_regs :: "u32 \<Rightarrow> u32 \<Rightarrow> u32 \<Rightarrow> u32 \<Rightarrow> H2K_thread_context \<Rightarrow> H2K_thread_context" where
  "event_regs elr_reg bv cause off c =
     (let c1 = c\<lparr>gelr := elr_reg, elr := gevb c + off, gbadva := bv\<rparr>;
          c2 = (if \<not> ssr_guest c1
                then c1\<lparr>ssr := set_bit SSR_GUEST_BIT (ssr c1), r29 := gosp c1, gosp := r29 c1,
                        gssr := set_bit GSSR_UM_BIT cause\<rparr>
                else c1\<lparr>gssr := cause\<rparr>);
          c3 = c2\<lparr>gssr := assign_bit GSSR_IE_BIT (vm_ie c2) (gssr c2)\<rparr>
      in c3\<lparr>gssr := assign_bit GSSR_SS_BIT (ssr_ss c3) (gssr c3), ssr := unset_bit SSR_SS_BIT (ssr c3)\<rparr>)"

definition H2K_vm_event :: "u32 \<Rightarrow> u32 \<Rightarrow> u32 \<Rightarrow> ptr \<Rightarrow> H2K_kg_t \<Rightarrow> (H2K_kg_t \<times> unit outcome) option" where
  "H2K_vm_event bv cause off me s =
     (let s1 = H2K_gregs_save me s
      in if gevb (thr s1 me) = 0
         then do { (s2, new) \<leftarrow> H2K_fatal_thread me s1; Some (s2, Switch NULL new) }
         else
           let s2 = upd_thr me (event_regs (H2K_get_elr s1) bv cause off) s1;
               s3 = H2K_gregs_restore me (H2K_set_elr (elr (thr s2 me)) s2)
           in Some (fst (H2K_disable_guest_interrupts me s3), Ret ()))"

section \<open>Pending work\<close>

definition INTERRUPT_GEVB_OFFSET :: u32 where "INTERRUPT_GEVB_OFFSET = 28"

definition H2K_vm_interrupt_get :: "ptr \<Rightarrow> H2K_kg_t \<Rightarrow> (H2K_kg_t \<times> int) option" where
  "H2K_vm_interrupt_get me s =
     int_call H2K_INTOP_GET (intinfo (vmb s (vmblock (thr s me)))) (vmblock (thr s me)) me 0 s"

definition H2K_vm_interrupt_peek :: "ptr \<Rightarrow> H2K_kg_t \<Rightarrow> (H2K_kg_t \<times> int) option" where
  "H2K_vm_interrupt_peek me s =
     int_call H2K_INTOP_PEEK (intinfo (vmb s (vmblock (thr s me)))) (vmblock (thr s me)) me 0 s"

definition H2K_vm_check_interrupts :: "ptr \<Rightarrow> H2K_kg_t \<Rightarrow> (H2K_kg_t \<times> int outcome) option" where
  "H2K_vm_check_interrupts me s =
     (if vm_ie (thr s me) then
        do {
          (s1, intno) \<leftarrow> H2K_vm_interrupt_get me s;
          if intno \<noteq> -1 then
            do {
              (s2, r) \<leftarrow> H2K_vm_event 0 (word_of_int intno) INTERRUPT_GEVB_OFFSET me s1;
              Some (s2, case r of Ret _ \<Rightarrow> Ret intno | Switch a b \<Rightarrow> Switch a b)
            }
          else Some (s1, Ret intno)
        }
      else do { (s1, intno) \<leftarrow> H2K_vm_interrupt_peek me s; Some (s1, Ret intno) })"

definition H2K_vm_do_work_withlock :: "ptr \<Rightarrow> H2K_kg_t \<Rightarrow> (H2K_kg_t \<times> int outcome) option" where
  "H2K_vm_do_work_withlock me s =
     (if bit (vmstatus (thr s me)) KILL
      then do { (s1, new) \<leftarrow> H2K_thread_stop_withlock (vm_status (vmb s (vmblock (thr s me)))) me s; Some (s1, Switch NULL new) }
      else if \<not> bit (vmstatus (thr s me)) VMWORK then Some (s, Ret (-1))
      else H2K_vm_check_interrupts me (clr_vmstatus VMWORK me s))"

definition H2K_enable_guest_interrupts :: "ptr \<Rightarrow> H2K_kg_t \<Rightarrow> (H2K_kg_t \<times> u32 outcome) option" where
  "H2K_enable_guest_interrupts me s =
     (let prv = (if snd (H2K_atomic_setbit (vmstatus (thr s me)) IE) = 0 then 1 else 0);
          s1 = set_vmstatus IE me s
      in if prv = 0
         then do { (s2, r) \<leftarrow> H2K_vm_check_interrupts me s1;
                   Some (s2, case r of Ret _ \<Rightarrow> Ret prv | Switch a b \<Rightarrow> Switch a b) }
         else Some (s1, Ret prv))"

definition H2K_vm_ipi_do :: "ptr \<Rightarrow> u32 \<Rightarrow> H2K_kg_t \<Rightarrow> (H2K_kg_t \<times> unit outcome) option" where
  "H2K_vm_ipi_do me ht s =
     (let s1 = ciad VM_IPI_INTMASK s;
          s2 = s1\<lparr>mask_for_ipi := fst (H2K_atomic_clrbit (mask_for_ipi s1) (unat ht))\<rparr>;
          s3 = iassignw VM_IPI_INT (NOT (mask_for_ipi s2)) s2;
          s4 = (if mask_for_ipi s3 \<noteq> 0 then swi VM_IPI_INTMASK s3 else s3)
      in if me \<noteq> NULL
         then do { (s5, r) \<leftarrow> H2K_vm_do_work_withlock me (BKL_LOCK s4);
                   Some (case r of Ret _ \<Rightarrow> (BKL_UNLOCK s5, Ret ()) | Switch a b \<Rightarrow> (s5, Switch a b)) }
         else Some (s4, Ret ()))"

section \<open>Creating\<close>

definition identity_offset :: H2K_offset_t where
  "identity_offset = \<lparr>os_size = 6, os_cccc = 7, os_weak_ccc = False, os_xwru = 15, os_pages = 0\<rparr>"

definition MAX_PRIO :: u32 where "MAX_PRIO = 255"

definition H2K_interrupt_restore :: u32 where "H2K_interrupt_restore = 1"

text \<open>
  The inherited or initial address space of the new thread: page table base, type, extra
  field and event vector base.
\<close>

definition inherit_space :: "ptr \<Rightarrow> ptr \<Rightarrow> H2K_kg_t \<Rightarrow> u32 \<times> u32 \<times> u32 \<times> u32" where
  "inherit_space vb me s =
     (if num_cpus (vmb s vb) = 0 then (offset_raw identity_offset, 2, 0, 0)
      else let e = asid_table s (unat (ssr_asid (thr s me)))
           in (ptb e, ucast (ttype e), ucast (extra e), gevb (thr s me)))"

definition init_context :: "u32 \<Rightarrow> u32 \<Rightarrow> u32 \<Rightarrow> u32 \<Rightarrow> u32 \<Rightarrow> ptr \<Rightarrow> ptr \<Rightarrow> H2K_kg_t \<Rightarrow> H2K_thread_context \<Rightarrow> H2K_thread_context" where
  "init_context pc sp arg1 p guest_evb vb me s c =
     c\<lparr>base_prio := ucast p, prio := ucast p, gp := hw_gp s, usr := usr (thr s me), ssr := ssr (thr s me),
       vwctrl := vwctrl (thr s me), elr := pc, r29 := sp, r00 := arg1, r01 := 0, ccr := H2K_get_ccr s,
       trapmask := vm_trapmask (vmb s vb), tlbidxmask := vm_tlbidxmask (vmb s vb),
       continuation := H2K_interrupt_restore, vmstatus := 0, gevb := guest_evb\<rparr>"

definition start_ssr :: "u8 \<Rightarrow> H2K_thread_context \<Rightarrow> H2K_thread_context" where
  "start_ssr asid c =
     c\<lparr>ssr := unset_bit 26 (unset_bit 31 (unset_bit 29 (unset_bit 28 (unset_bit 27
         (set_ssr_asid asid (set_bit SSR_UM_BIT (set_bit SSR_GUEST_BIT (ssr c)))))))),
       ccr := unset_bit 28 (ccr c)\<rparr>"

definition H2K_thread_create_no_squash ::
  "u32 \<Rightarrow> u32 \<Rightarrow> u32 \<Rightarrow> u32 \<Rightarrow> ptr \<Rightarrow> ptr \<Rightarrow> H2K_kg_t \<Rightarrow> H2K_kg_t \<times> u32" where
  "H2K_thread_create_no_squash pc sp arg1 p vb me s =
     (let (pt, ty, ext, guest_evb) = inherit_space vb me s
      in if p > MAX_PRIO then (s, -1)
         else if p < bestprio (vmb s vb) then (s, -1)
         else if sp AND 7 \<noteq> 0 then (s, -1)
         else if pc AND 3 \<noteq> 0 then (s, -1)
         else
           let s1 = BKL_LOCK s
           in if free_threads (vmb s1 vb) = NULL then (BKL_UNLOCK s1, -1)
              else
                let tmp = free_threads (vmb s1 vb);
                    s2 = upd_vmb vb (free_threads_update (\<lambda>_. next (thr s1 tmp))) s1;
                    s3 = upd_thr tmp (init_context pc sp arg1 p guest_evb vb me s2) s2;
                    (s4, asid) = H2K_asid_table_inc pt ty False ext vb s3
                in if asid = -1
                   then (BKL_UNLOCK (upd_vmb vb (free_threads_update (\<lambda>_. tmp)) s4), -1)
                   else
                     let s5 = upd_thr tmp (start_ssr (word_of_int asid)) s4;
                         s6 = upd_vmb vb (\<lambda>v. v\<lparr>num_cpus := num_cpus v + 1\<rparr>) s5;
                         s7 = upd_thr tmp (vmblock_update (\<lambda>_. vb)) s6;
                         s8 = H2K_ready_append tmp s7;
                         (s9, r) = H2K_check_sanity_unlock (ucast (id_raw (H2K_id_from_context s8 tmp))) s8
                     in (s9, ucast r))"

definition H2K_thread_create :: "u32 \<Rightarrow> u32 \<Rightarrow> u32 \<Rightarrow> u32 \<Rightarrow> ptr \<Rightarrow> H2K_kg_t \<Rightarrow> H2K_kg_t \<times> u32" where
  "H2K_thread_create pc sp arg1 p me s =
     H2K_thread_create_no_squash pc sp arg1 p (vmblock (thr s me)) me s"

end
