(* ===== verification/Futex.thy ===== *)
theory Futex
  imports Thread_Life
begin

text \<open>
  Futexes: checking a user address (\<^verbatim>\<open>kernel/mem/safemem\<close>), waiting and waking
  (\<^verbatim>\<open>kernel/futex/futex_classic\<close>), and priority inheritance (\<^verbatim>\<open>kernel/futex/futex_pi\<close>).
\<close>

section \<open>User addresses\<close>

definition SAFEMEM_R :: u32 where "SAFEMEM_R = 1"
definition SAFEMEM_RW :: u32 where "SAFEMEM_RW = 3"

text \<open>
  On success the TLB lock stays held and the physical address is returned. The code keeps
  the low word of the TLB entry only.
\<close>

definition H2K_safemem_check_and_lock :: "u32 \<Rightarrow> u32 \<Rightarrow> ptr \<Rightarrow> H2K_kg_t \<Rightarrow> H2K_kg_t \<times> u64 option" where
  "H2K_safemem_check_and_lock user_va perms me s =
     (if user_va AND 3 \<noteq> 0 then (s, None)
      else
        let s1 = s\<lparr>tlb_lock := True\<rparr>;
            fail = s1\<lparr>tlb_lock := False\<rparr>;
            idx = H2K_mem_tlb_probe user_va (ssr_asid (thr s1 me)) s1
        in if bit idx 31 then (fail, None)
           else
             let entry = ucast (ucast (H2K_mem_tlb_read idx s1) :: u32);
                 eperms = H2K_mem_tlbfmt_get_perms entry
             in if \<not> (ssr_guest (thr s1 me) \<or> bit eperms 0) then (fail, None)
                else if perms AND drop_bit 1 eperms \<noteq> perms then (fail, None)
                else
                  let sz = H2K_mem_tlbfmt_get_size entry;
                      base = H2K_mem_tlbfmt_get_basepa entry AND push_bit (sz * 2) (-1);
                      tmp = user_va AND (push_bit (12 + sz * 2) 1 - 1)
                  in (s1, Some (base OR ucast tmp)))"

definition H2K_safemem_unlock :: "H2K_kg_t \<Rightarrow> H2K_kg_t" where
  "H2K_safemem_unlock s = s\<lparr>tlb_lock := False\<rparr>"

section \<open>Waiting and waking\<close>

definition set_user :: "u32 \<Rightarrow> u32 \<Rightarrow> H2K_kg_t \<Rightarrow> H2K_kg_t" where
  "set_user a v s = s\<lparr>umem := (umem s)(a := v)\<rparr>"

text \<open>
  Blocking the running thread on the futex with word address \<open>pa\<close>: the common end of the
  waiting operations.
\<close>

definition futex_block :: "u64 \<Rightarrow> ptr \<Rightarrow> H2K_kg_t \<Rightarrow> (H2K_kg_t \<times> int outcome) option" where
  "futex_block pa me s =
     (let s1 = upd_thr me (futex_ptr_update (\<lambda>_. ucast pa)) s;
          s2 = H2K_runlist_remove me s1;
          s3 = upd_thr me (\<lambda>c. c\<lparr>r00 := 0, r01 := 0, status := H2K_STATUS_BLOCKED\<rparr>) s2;
          b = unat (FUTEX_HASHVAL pa)
      in do {
           (h, r) \<leftarrow> H2K_futex_hash_add_ring (thr s3) (futexhash s3 b) me;
           let s4 = s3\<lparr>thr := h, futexhash := (futexhash s3)(b := r)\<rparr>;
           (s5, new) \<leftarrow> H2K_dosched me (ucast (hthread (thr s4 me))) s4;
           Some (s5, Switch me new)
         })"

text \<open>A thread with pending work does the work instead and reports failure.\<close>

definition work_first :: "ptr \<Rightarrow> H2K_kg_t \<Rightarrow> (H2K_kg_t \<times> int outcome) option" where
  "work_first me s =
     do { (s1, r) \<leftarrow> H2K_vm_do_work_withlock me s;
          Some (case r of Ret _ \<Rightarrow> (BKL_UNLOCK s1, Ret (-1)) | Switch a b \<Rightarrow> (s1, Switch a b)) }"

definition H2K_futex_wait :: "u32 \<Rightarrow> u32 \<Rightarrow> ptr \<Rightarrow> H2K_kg_t \<Rightarrow> (H2K_kg_t \<times> int outcome) option" where
  "H2K_futex_wait lock val me s =
     (let s1 = BKL_LOCK s
      in if bit (vmstatus (thr s1 me)) VMWORK then work_first me s1
         else case H2K_safemem_check_and_lock lock SAFEMEM_R me s1 of
           (s2, None) \<Rightarrow> Some (BKL_UNLOCK s2, Ret (-1))
         | (s2, Some pa0) \<Rightarrow>
             let pa = drop_bit 2 pa0; readval = umem s2 lock; s3 = H2K_safemem_unlock s2
             in if readval \<noteq> val then Some (BKL_UNLOCK s3, Ret (-1))
                else futex_block pa me s3)"

text \<open>The waking loop: the new state and the number of threads woken.\<close>

partial_function (option) resume_loop :: "u32 \<Rightarrow> nat \<Rightarrow> u32 \<Rightarrow> u32 \<Rightarrow> ptr \<Rightarrow> H2K_kg_t \<Rightarrow> (H2K_kg_t \<times> u32) option" where
  "resume_loop palo b n_to_wake n_woken pos s =
     (case H2K_futex_hash_remove_one palo b pos s of
        None \<Rightarrow> None
      | Some (s1, pos1, tmp) \<Rightarrow>
          if tmp = NULL then Some (s1, n_woken)
          else if n_woken + 1 < n_to_wake then resume_loop palo b n_to_wake (n_woken + 1) pos1 s1
          else Some (s1, n_woken + 1))"

definition H2K_futex_resume :: "u32 \<Rightarrow> u32 \<Rightarrow> ptr \<Rightarrow> H2K_kg_t \<Rightarrow> (H2K_kg_t \<times> int) option" where
  "H2K_futex_resume lock n_to_wake me s =
     (if n_to_wake = 0 then Some (s, 0)
      else case H2K_safemem_check_and_lock lock SAFEMEM_R me s of
        (s1, None) \<Rightarrow> Some (s1, -1)
      | (s1, Some pa0) \<Rightarrow>
          let s2 = H2K_safemem_unlock s1; pa = drop_bit 2 pa0;
              b = unat (FUTEX_HASHVAL pa); s3 = BKL_LOCK s2
          in if futexhash s3 b = NULL then Some (BKL_UNLOCK s3, 0)
             else do {
               (s4, n) \<leftarrow> resume_loop (ucast pa) b n_to_wake 0 (futexhash s3 b) s3;
               Some (let (s5, r) = H2K_check_sanity_unlock (ucast n) s4 in (s5, sint (ucast r :: u32)))
             })"

section \<open>Priority inheritance\<close>

definition H2K_futex_pi_raise :: "u32 \<Rightarrow> H2K_id_t \<Rightarrow> H2K_kg_t \<Rightarrow> H2K_kg_t option" where
  "H2K_futex_pi_raise p destid s =
     (let dest = H2K_id_to_context s destid
      in if dest = NULL then Some s
         else if ucast (prio (thr s dest)) \<le> p then Some s
         else case status (thr s dest) of
           H2K_STATUS_BLOCKED \<Rightarrow>
             let s1 = upd_thr dest (prio_update (\<lambda>_. ucast p)) s
             in if next (thr s1 dest) = dest then Some s1
                else
                  let b = unat (FUTEX_HASHVAL (ucast (futex_ptr (thr s1 dest))));
                      (h, r) = H2K_ring_remove_real (thr s1) (futexhash s1 b) dest
                  in do {
                       (h', r') \<leftarrow> H2K_futex_hash_add_ring h r dest;
                       Some (s1\<lparr>thr := h', futexhash := (futexhash s1)(b := r')\<rparr>)
                     }
         | H2K_STATUS_READY \<Rightarrow>
             Some (H2K_ready_insert dest (upd_thr dest (prio_update (\<lambda>_. ucast p)) (H2K_ready_remove dest s)))
         | H2K_STATUS_RUNNING \<Rightarrow>
             let s1 = H2K_runlist_set_thread_prio dest p s
             in Some (if priomask s1 AND push_bit (unat (hthread (thr s1 dest))) 1 \<noteq> 0 then H2K_raise_lowprio s1 else s1)
         | H2K_STATUS_INTBLOCKED \<Rightarrow> Some (upd_thr dest (prio_update (\<lambda>_. ucast p)) s)
         | _ \<Rightarrow> Some s)"

definition H2K_futex_lock_pi :: "u32 \<Rightarrow> ptr \<Rightarrow> H2K_kg_t \<Rightarrow> (H2K_kg_t \<times> int outcome) option" where
  "H2K_futex_lock_pi lock me s =
     (let s1 = BKL_LOCK s
      in if bit (vmstatus (thr s1 me)) VMWORK then work_first me s1
         else case H2K_safemem_check_and_lock lock SAFEMEM_RW me s1 of
           (s2, None) \<Rightarrow> Some (BKL_UNLOCK s2, Ret (-1))
         | (s2, Some pa0) \<Rightarrow>
             let pa = drop_bit 2 pa0;
                 s3 = set_user lock (fst (H2K_atomic_setbit (umem s2 lock) 0)) s2;
                 x = umem s3 lock
             in if x = 1
                then Some (BKL_UNLOCK (H2K_safemem_unlock (set_user lock (id_raw (H2K_id_from_context s3 me)) s3)), Ret 0)
                else do {
                  let s4 = H2K_safemem_unlock s3;
                  s5 \<leftarrow> H2K_futex_pi_raise (ucast (prio (thr s4 me))) (id_of_raw (x AND NOT 31)) s4;
                  futex_block pa me s5
                })"

definition H2K_futex_unlock_pi :: "u32 \<Rightarrow> ptr \<Rightarrow> H2K_kg_t \<Rightarrow> (H2K_kg_t \<times> int) option" where
  "H2K_futex_unlock_pi lock me s =
     (let s1 = BKL_LOCK s
      in case H2K_safemem_check_and_lock lock SAFEMEM_RW me s1 of
           (s2, None) \<Rightarrow> Some (BKL_UNLOCK s2, -1)
         | (s2, Some pa0) \<Rightarrow>
             let pa = drop_bit 2 pa0; b = unat (FUTEX_HASHVAL pa)
             in do {
                  (s3, pos, ret) \<leftarrow> H2K_futex_hash_remove_one (ucast pa) b (futexhash s2 b) s2;
                  let s4 = set_user lock (if ret = NULL then 0 else id_raw (H2K_id_from_context s3 ret) + 1) s3;
                  let s5 = H2K_safemem_unlock s4;
                  let s6 = H2K_runlist_set_thread_prio me (ucast (base_prio (thr s5 me))) s5;
                  Some (let (s7, r) = H2K_check_sanity_unlock 0 s6 in (s7, sint (ucast r :: u32)))
                })"

section \<open>Blocking\<close>

lemma not_queued: "futex_rep s fq \<Longrightarrow> status (thr s t) \<noteq> H2K_STATUS_BLOCKED \<Longrightarrow> c < 64 \<Longrightarrow> t \<notin> set (fq c)"
  using futex_repD(3) by blast

lemma futex_rep_insert:
  assumes rep: "futex_rep s fq" and b: "b < 64" and nb: "status (thr s me) \<noteq> H2K_STATUS_BLOCKED"
    and ring: "is_ring (thr s') (futexhash s' b) (prio_insert (\<lambda>t. prio (thr s' t)) me (fq b))"
    and other: "\<And>c. c < 64 \<Longrightarrow> c \<noteq> b \<Longrightarrow> is_ring (thr s') (futexhash s' c) (fq c)"
    and pay: "\<And>u. u \<noteq> me \<Longrightarrow> status (thr s' u) = status (thr s u) \<and> prio (thr s' u) = prio (thr s u) \<and> futex_ptr (thr s' u) = futex_ptr (thr s u)"
    and st: "status (thr s' me) = H2K_STATUS_BLOCKED" "futex_bucket (thr s' me) = b"
  shows "futex_rep s' (fq(b := prio_insert (\<lambda>t. prio (thr s' t)) me (fq b)))"
proof -
  note nq = not_queued [OF rep nb]
  have bk: "futex_bucket (thr s' u) = futex_bucket (thr s u)" if "u \<noteq> me" for u using pay [OF that] by (simp add: futex_bucket_def)
  have mp: "map (\<lambda>t. prio (thr s' t)) (fq c) = map (\<lambda>t. prio (thr s t)) (fq c)" if "c < 64" for c
    using nq [OF that] pay by (intro map_cong) (auto, metis)
  have srt: "sorted (map (\<lambda>t. prio (thr s' t)) (fq c))" if "c < 64" for c
    unfolding mp [OF that] using futex_repD(2) [OF rep that] .
  have "sorted (map (\<lambda>t. prio (thr s' t)) (prio_insert (\<lambda>t. prio (thr s' t)) me (fq b)))" using srt [OF b] by (rule sorted_prio_insert)
  moreover have "status (thr s' t) = H2K_STATUS_BLOCKED \<and> futex_bucket (thr s' t) = c" if c: "c < 64" "t \<in> set (fq c)" for c t
    using futex_repD(3,4) [OF rep c] pay [of t] bk [of t] st nq c by (cases "t = me") auto
  moreover have "t = me \<or> t \<in> set (fq (futex_bucket (thr s' t)))" if "status (thr s' t) = H2K_STATUS_BLOCKED" for t
    using futex_repD(5) [OF rep, of t] pay [of t] bk [of t] that by (cases "t = me") auto
  ultimately show ?thesis using ring other srt st b unfolding futex_rep_def
    by (auto simp: fun_upd_apply) metis
qed

text \<open>The state after the running thread is queued, before the next thread is chosen.\<close>

definition block_state :: "u64 \<Rightarrow> ptr \<Rightarrow> H2K_kg_t \<Rightarrow> H2K_kg_t" where
  "block_state pa me s = upd_thr me (\<lambda>c. c\<lparr>r00 := 0, r01 := 0, status := H2K_STATUS_BLOCKED\<rparr>)
     (H2K_runlist_remove me (upd_thr me (futex_ptr_update (\<lambda>_. ucast pa)) s))"

lemma futex_block_state:
  "futex_block pa me s =
     (let s3 = block_state pa me s; b = unat (FUTEX_HASHVAL pa)
      in do {
           (h, r) \<leftarrow> H2K_futex_hash_add_ring (thr s3) (futexhash s3 b) me;
           (s5, new) \<leftarrow> H2K_dosched me (ucast (hthread (h me))) (s3\<lparr>thr := h, futexhash := (futexhash s3)(b := r)\<rparr>);
           Some (s5, Switch me new)
         })"
  unfolding futex_block_def Let_def block_state_def [symmetric] by simp

lemma block_state_thr:
  "thr (block_state pa me s) u = (if u = me then (thr s me)\<lparr>futex_ptr := ucast pa, r00 := 0, r01 := 0, status := H2K_STATUS_BLOCKED\<rparr> else thr s u)"
  by (simp add: block_state_def H2K_runlist_remove_def Let_def)

lemma block_state_fields:
  "ready (block_state pa me s) = ready s" "ready_valids (block_state pa me s) = ready_valids s"
  "hthreads (block_state pa me s) = hthreads s" "wait_mask (block_state pa me s) = wait_mask s"
  "priomask (block_state pa me s) = priomask s" "imask (block_state pa me s) = imask s"
  "htid (block_state pa me s) = htid s" "futexhash (block_state pa me s) = futexhash s"
  "runlist (block_state pa me s) = (runlist s)(unat (hthread (thr s me)) := NULL)"
  "runlist_prios (block_state pa me s) = (runlist_prios s)(unat (hthread (thr s me)) := -1)"
  "bkl (block_state pa me s) = bkl s" "clusters_cover (block_state pa me s) = clusters_cover s"
  by (simp_all add: block_state_def H2K_runlist_remove_def upd_thr_def Let_def clusters_cover_def)

lemma bucket_of_pa:
  assumes "pa < 2 ^ 34"
  shows "futex_bucket (c\<lparr>futex_ptr := ucast (pa :: u64)\<rparr>) = unat (FUTEX_HASHVAL pa)" "unat (FUTEX_HASHVAL pa) < 64"
proof -
  have "bit pa n \<Longrightarrow> n < 34" for n using word_lt_exp_bits [OF assms, of n] by (cases "34 \<le> n") auto
  then have "ucast (ucast pa :: 34 word) = pa" by (intro bit_word_eqI) (auto simp: bit_simps)
  then show "futex_bucket (c\<lparr>futex_ptr := ucast pa\<rparr>) = unat (FUTEX_HASHVAL pa)" by (simp add: futex_bucket_def)
  then show "unat (FUTEX_HASHVAL pa) < 64" using futex_bucket_lt [of "c\<lparr>futex_ptr := ucast pa\<rparr>"] by simp
qed

lemma futex_block_kinv:
  assumes inv: "kinv s rq fq" and me: "status (thr s me) = H2K_STATUS_RUNNING" and cov: "clusters_cover s"
    and ht: "htid s = ucast (hthread (thr s me))" and pa: "pa < 2 ^ 34"
  defines "b \<equiv> unat (FUTEX_HASHVAL pa)"
  defines "fq' \<equiv> fq(b := prio_insert (\<lambda>t. prio (thr s t)) me (fq b))"
  shows "\<exists>s' new. futex_block pa me s = Some (s', Switch me new) \<and> bkl s' = bkl s \<and>
    status (thr s' me) = H2K_STATUS_BLOCKED \<and> futex_ptr (thr s' me) = ucast pa \<and>
    next_runs me new s s' rq fq'"
proof -
  have I: "sched_inv s rq" "futex_rep s fq" using inv by (auto simp: kinv_def)
  note S = sched_invD [OF I(1)]
  let ?s3 = "block_state pa me s"
  note F = block_state_fields [of pa me s] and T = block_state_thr [of pa me s]
  have b: "b < 64" using bucket_of_pa(2) [OF pa] by (simp add: b_def)
  have me0: "me \<noteq> NULL" using runlist_okD(2) [OF S(3) me] .
  have notrq: "me \<notin> rq_threads rq" using ready_repD(4) [OF S(1)] me by (fastforce simp: rq_threads_def)
  have nq: "me \<notin> set (fq c)" if "c < 64" for c using not_queued [OF I(2) _ that] me by simp
  have prs: "prio (thr ?s3 u) = prio (thr s u)" "next (thr ?s3 u) = next (thr s u)" "prev (thr ?s3 u) = prev (thr s u)" for u by (simp_all add: T)
  have ring3: "is_ring (thr ?s3) (futexhash ?s3 c) (fq c)" if "c < 64" for c
    unfolding F using futex_repD(1) [OF I(2) that] by (rule is_ring_frame) (simp add: prs)
  have srt3: "sorted (map (\<lambda>t. prio (thr ?s3 t)) (fq b))" unfolding prs using futex_repD(2) [OF I(2) b] .
  obtain h r where A: "H2K_futex_hash_add_ring (thr ?s3) (futexhash ?s3 b) me = Some (h, r)"
    "is_ring h r (prio_insert (\<lambda>t. prio (thr s t)) me (fq b))"
    "\<forall>q. ringnode.more (h q) = ringnode.more (thr ?s3 q)" "\<forall>q. q \<notin> set (fq b) \<longrightarrow> q \<noteq> me \<longrightarrow> h q = thr ?s3 q"
    using add_ring_rep [OF ring3 [OF b] srt3 nq [OF b] me0] unfolding prs by (elim exE conjE)
  define s4 where "s4 = ?s3\<lparr>thr := h, futexhash := (futexhash ?s3)(b := r)\<rparr>"
  note mo = more_eqD [OF spec [OF A(3)]]
  have F4: "thr s4 = h" "futexhash s4 = (futexhash s)(b := r)" by (simp_all add: s4_def F)
  have mid: "sched_mid (unat (htid s)) s4 rq"
  proof (rule giveup_mid [OF I(1) me])
    show "unat (htid s) = unat (hthread (thr s me))"
      by (simp add: ht unsigned_ucast_eq take_bit_nat_eq_self order_less_trans [OF unsigned_less])
    fix u
    show "next (thr s4 u) = next (thr s u) \<and> prev (thr s4 u) = prev (thr s u)" if "u \<in> rq_threads rq"
    proof -
      have "u \<notin> set (fq b)" using blocked_not_ready(1) [OF inv b] that by blast
      moreover have "u \<noteq> me" using notrq that by blast
      ultimately show ?thesis using A(4) by (simp add: F4 T)
    qed
    show "u \<noteq> me \<Longrightarrow> status (thr s4 u) = status (thr s u) \<and> prio (thr s4 u) = prio (thr s u) \<and> hthread (thr s4 u) = hthread (thr s u)"
      by (simp add: F4 mo T)
  qed (simp_all add: s4_def F mo T)
  have fut: "futex_rep s4 fq'"
  proof -
    have p4: "(\<lambda>t. prio (thr s4 t)) = (\<lambda>t. prio (thr s t))" by (simp add: F4 mo T fun_eq_iff)
    have "futex_rep s4 (fq(b := prio_insert (\<lambda>t. prio (thr s4 t)) me (fq b)))"
      using I(2) b
    proof (rule futex_rep_insert)
      show "is_ring (thr s4) (futexhash s4 b) (prio_insert (\<lambda>t. prio (thr s4 t)) me (fq b))" unfolding p4 using A(2) by (simp add: F4)
      show "is_ring (thr s4) (futexhash s4 c) (fq c)" if c: "c < 64" "c \<noteq> b" for c
      proof -
        have "is_ring h (futexhash ?s3 c) (fq c)" using ring3 [OF c(1)]
        proof (rule is_ring_frame)
          fix u assume u: "u \<in> set (fq c)"
          have "u \<notin> set (fq b)" using futex_repD(4) [OF I(2) c(1) u] futex_repD(4) [OF I(2) b, of u] c(2) by auto
          then show "next (h u) = next (thr ?s3 u) \<and> prev (h u) = prev (thr ?s3 u)" using A(4) u nq [OF c(1)] by metis
        qed
        then show ?thesis using c(2) by (simp add: F4 F)
      qed
      show "futex_bucket (thr s4 me) = b" using bucket_of_pa(1) [OF pa] by (simp add: F4 futex_bucket_def mo T b_def)
    qed (use me in \<open>simp_all add: F4 mo T\<close>)
    then show ?thesis unfolding p4 fq'_def .
  qed
  have cov4: "clusters_cover s4" using cov F(12) clusters_cover_cong [of s4 ?s3] by (simp add: s4_def)
  obtain s' new where d: "H2K_dosched me (htid s) s4 = Some (s', new)" "bkl s' = bkl s4"
    "\<forall>u. u \<notin> rq_threads rq \<longrightarrow> thr s' u = thr s4 u"
    "next_runs me new s4 s' rq fq'"
    using dosched_runs [OF mid fut cov4 refl, of me] by (elim exE conjE)
  have ef: "futex_block pa me s = Some (s', Switch me new)"
    using d(1) by (simp add: futex_block_state b_def [symmetric] A(1) s4_def [symmetric] mo(3) ht T)
  have x: "cluster_sched s4 = cluster_sched s" "wait_mask s4 = wait_mask s" "bkl s4 = bkl s"
    by (simp_all add: s4_def block_state_def H2K_runlist_remove_def upd_thr_def Let_def)
  have "thr s' me = thr s4 me" using d(3) notrq by blast
  then have me': "status (thr s' me) = H2K_STATUS_BLOCKED" "futex_ptr (thr s' me) = ucast pa" by (simp_all add: F4 mo T)
  moreover have "next_runs me new s s' rq fq'" using d(4) unfolding next_runs_cong [OF x(1,2)] .
  ultimately show ?thesis using ef d(2) x(3) by (intro exI [of _ s'] exI [of _ new] conjI) simp_all
qed

section \<open>Waking\<close>

text \<open>The ready queues after the threads \<open>ws\<close> have been made ready, in that order.\<close>

definition woken :: "(ptr \<Rightarrow> u8) \<Rightarrow> (nat \<Rightarrow> ptr list) \<Rightarrow> ptr list \<Rightarrow> nat \<Rightarrow> ptr list" where
  "woken P rq ws = (\<lambda>p. rq p @ filter (\<lambda>t. unat (P t) = p) ws)"

lemma woken_Nil [simp]: "woken P rq [] = rq" by (simp add: woken_def)

lemma woken_Cons: "woken P (rq(unat (P c) := rq (unat (P c)) @ [c])) ws = woken P rq (c # ws)"
  by (auto simp: woken_def fun_eq_iff)

lemma split_first: "filter Q xs = c # cs \<Longrightarrow> \<exists>us vs. xs = us @ c # vs \<and> (\<forall>u\<in>set us. \<not> Q u) \<and> Q c \<and> cs = filter Q vs"
  by (auto simp: filter_eq_Cons_iff)

definition readied :: "ptr list \<Rightarrow> H2K_kg_t \<Rightarrow> H2K_kg_t \<Rightarrow> bool" where
  "readied ws s s' \<longleftrightarrow> (\<forall>u. ringnode.more (thr s' u) = ringnode.more (if u \<in> set ws then (thr s u)\<lparr>status := H2K_STATUS_READY\<rparr> else thr s u))"

lemma readiedD:
  assumes "readied ws s s'"
  shows "futex_ptr_lo (thr s' u) = futex_ptr_lo (thr s u)" "prio (thr s' u) = prio (thr s u)"
    "status (thr s' u) = (if u \<in> set ws then H2K_STATUS_READY else status (thr s u))"
  using more_eqD [of "thr s' u" "if u \<in> set ws then (thr s u)\<lparr>status := H2K_STATUS_READY\<rparr> else thr s u"] assms
  by (simp_all add: readied_def futex_ptr_lo_def)

lemma readied_trans: "readied [c] s s1 \<Longrightarrow> readied ws s1 s2 \<Longrightarrow> readied (c # ws) s s2"
  unfolding readied_def
proof
  fix u
  assume a: "\<forall>u. ringnode.more (thr s1 u) = ringnode.more (if u \<in> set [c] then (thr s u)\<lparr>status := H2K_STATUS_READY\<rparr> else thr s u)"
    and b: "\<forall>u. ringnode.more (thr s2 u) = ringnode.more (if u \<in> set ws then (thr s1 u)\<lparr>status := H2K_STATUS_READY\<rparr> else thr s1 u)"
  show "ringnode.more (thr s2 u) = ringnode.more (if u \<in> set (c # ws) then (thr s u)\<lparr>status := H2K_STATUS_READY\<rparr> else thr s u)"
    using spec [OF a, of u] spec [OF b, of u] by (cases "thr s1 u"; cases "thr s u") (auto split: if_splits)
qed

definition waiters :: "u32 \<Rightarrow> H2K_kg_t \<Rightarrow> ptr list \<Rightarrow> ptr list" where
  "waiters k s q = filter (\<lambda>t. futex_ptr_lo (thr s t) = k) q"

lemma filter_first: "distinct (as @ us @ c # vs) \<Longrightarrow> set ws \<subseteq> set vs \<Longrightarrow>
    filter (\<lambda>t. t \<notin> set (c # ws)) (as @ us @ c # vs) = filter (\<lambda>t. t \<notin> set ws) (as @ us @ vs)"
  using filter_cong [of _ _ "\<lambda>t. t \<noteq> c \<and> t \<notin> set ws" "\<lambda>t. t \<notin> set ws"] by (auto intro!: arg_cong2 [of _ _ _ _ append])

lemma resume_loop_spec:
  fixes k :: u32 and w n :: u32
  assumes "kinv s rq fq" "b < 64" "fq b = as @ rest" "\<forall>t\<in>set as. futex_ptr_lo (thr s t) \<noteq> k"
    "rest @ as \<noteq> [] \<longrightarrow> pos = hd (rest @ as)" "w < n"
    "ws = take (unat n - unat w) (waiters k s rest)"
  shows "\<exists>s'. resume_loop k b n w pos s = Some (s', w + of_nat (length ws)) \<and>
    kinv s' (woken (\<lambda>t. prio (thr s t)) rq ws) (fq(b := filter (\<lambda>t. t \<notin> set ws) (fq b))) \<and> readied ws s s'"
  using assms
proof (induction "length rest" arbitrary: rest as pos w s rq fq ws rule: less_induct)
  case less
  let ?Q = "\<lambda>t. futex_ptr_lo (thr s t) = k"
  have fut: "futex_rep s fq" using less.prems(1) by (simp add: kinv_def)
  show ?case
  proof (cases "waiters k s rest")
    case Nil
    then have no: "\<forall>t\<in>set (fq b). \<not> ?Q t" using less.prems(3,4) by (auto simp: waiters_def filter_empty_conv)
    have "fq b = [] \<or> (\<exists>as bs. fq b = as @ pos # bs \<and> (\<forall>t\<in>set (pos # bs). \<not> ?Q t))"
    proof (cases rest)
      case Nil
      with less.prems(3,5) no show ?thesis by (cases as) (auto intro: exI [of _ "[]"])
    next
      case (Cons a l)
      with less.prems(3,5) no show ?thesis by (intro disjI2 exI [of _ as] exI [of _ l]) auto
    qed
    from remove_one_none [OF less.prems(2) fut this] have "resume_loop k b n w pos s = Some (s, w)"
      by (subst resume_loop.simps) simp
    then show ?thesis using less.prems(1,7) Nil by (simp add: readied_def)
  next
    case (Cons c m)
    obtain us vs where sp: "rest = us @ c # vs" "\<forall>u\<in>set us. \<not> ?Q u" "?Q c" "m = filter ?Q vs"
      using split_first [OF Cons [unfolded waiters_def]] by (elim exE conjE)
    have f: "fq b = as @ us @ c # vs" "pos = hd (us @ [c])" using less.prems(3,5) sp(1) by (auto simp: hd_append)
    let ?p = "unat (prio (thr s c))"
    let ?rq = "rq(?p := rq ?p @ [c])" and ?fq = "fq(b := as @ us @ vs)" and ?pos = "hd (vs @ as @ us @ [c])"
    obtain s1 where r: "H2K_futex_hash_remove_one k b pos s = Some (s1, ?pos, c)" "kinv s1 ?rq ?fq"
      "\<forall>u. ringnode.more (thr s1 u) = ringnode.more (if u = c then (thr s c)\<lparr>status := H2K_STATUS_READY\<rparr> else thr s u)"
      using remove_one_some [OF less.prems(1,2) f sp(3,2)] by (elim exE conjE)
    have rd: "readied [c] s s1" using r(3) by (auto simp: readied_def)
    note rdD = readiedD [OF rd]
    have wt: "waiters k s1 vs = m" by (simp add: waiters_def rdD sp(4))
    have c0: "c \<noteq> NULL" using blocked_not_ready(3) [OF less.prems(1,2), of c] f by simp
    have d: "distinct (as @ us @ c # vs)" using futex_repD(1) [OF fut less.prems(2)] f(1) by (simp add: is_ring_def)
    have wn: "unat w < unat n" using less.prems(6) by (simp add: word_less_nat_alt)
    have w1: "unat (w + 1) = unat w + 1"
      using wn by (rule unat_suc)
    define ws1 where "ws1 = take (unat n - unat (w + 1)) m"
    have ws: "ws = c # ws1" using less.prems(7) Cons wn by (simp add: ws1_def w1 take_Cons' Suc_diff_Suc)
    have sub: "set ws1 \<subseteq> set vs" using set_take_subset [of _ m] sp(4) by (auto simp: ws1_def)
    show ?thesis
    proof (cases "w + 1 < n")
      case True
      have ih: "\<exists>s'. resume_loop k b n (w + 1) ?pos s1 = Some (s', w + 1 + of_nat (length ws1)) \<and>
          kinv s' (woken (\<lambda>t. prio (thr s1 t)) ?rq ws1) (?fq(b := filter (\<lambda>t. t \<notin> set ws1) (?fq b))) \<and> readied ws1 s1 s'"
        using _ r(2) less.prems(2)
      proof (rule less.hyps)
        show "length vs < length rest" by (simp add: sp(1))
        show "?fq b = (as @ us) @ vs" by simp
        show "\<forall>t\<in>set (as @ us). futex_ptr_lo (thr s1 t) \<noteq> k" using sp(2) less.prems(4) by (auto simp: rdD)
        show "vs @ as @ us \<noteq> [] \<longrightarrow> ?pos = hd (vs @ as @ us)" by (auto simp: hd_append)
        show "ws1 = take (unat n - unat (w + 1)) (waiters k s1 vs)" by (simp add: ws1_def wt)
      qed (rule True)
      then obtain s' where s': "resume_loop k b n (w + 1) ?pos s1 = Some (s', w + 1 + of_nat (length ws1))"
        "kinv s' (woken (\<lambda>t. prio (thr s1 t)) ?rq ws1) (?fq(b := filter (\<lambda>t. t \<notin> set ws1) (?fq b)))" "readied ws1 s1 s'"
        by (elim exE conjE)
      have k: "kinv s' (woken (\<lambda>t. prio (thr s t)) rq ws) (fq(b := filter (\<lambda>t. t \<notin> set ws) (fq b)))"
        using s'(2) by (simp add: rdD woken_Cons [of "\<lambda>t. prio (thr s t)"] ws f(1) filter_first [OF d sub, simplified])
      have "resume_loop k b n w pos s = Some (s', w + of_nat (length ws))"
        using r(1) c0 True s'(1) by (subst resume_loop.simps) (simp add: ws algebra_simps)
      with k readied_trans [OF rd s'(3)] show ?thesis by (simp add: ws)
    next
      case False
      then have "\<not> unat w + 1 < unat n" using w1 by (simp add: word_less_nat_alt)
      then have "ws1 = []" by (simp add: ws1_def w1)
      then have k: "kinv s1 (woken (\<lambda>t. prio (thr s t)) rq ws) (fq(b := filter (\<lambda>t. t \<notin> set ws) (fq b)))"
        using r(2) filter_first [OF d, of "[]"] by (simp add: ws f(1) woken_Cons [of "\<lambda>t. prio (thr s t)", symmetric])
      have "resume_loop k b n w pos s = Some (s1, w + of_nat (length ws))"
        using r(1) c0 False \<open>ws1 = []\<close> by (subst resume_loop.simps) (simp add: ws)
      with k rd show ?thesis by (simp add: ws \<open>ws1 = []\<close>)
    qed
  qed
qed

section \<open>The checked address\<close>

lemma safemem_bkl [simp]:
  "H2K_safemem_check_and_lock va perms me (BKL_LOCK s) =
     (case H2K_safemem_check_and_lock va perms me s of (s', r) \<Rightarrow> (BKL_LOCK s', r))"
  by (simp add: H2K_safemem_check_and_lock_def H2K_mem_tlb_probe_def H2K_mem_tlb_read_def BKL_LOCK_def Let_def)

lemma low_entry_pa:
  fixes e :: u32 and m :: u64 and t :: u32
  shows "(H2K_mem_tlbfmt_get_basepa (ucast e) AND m) OR ucast t < 2 ^ 36"
proof -
  let ?r = "(tlb_ppd (ucast e) OR push_bit 24 (tlb_pa35 (ucast e))) OR push_bit 25 (tlb_pa3637 (ucast e))"
  have "\<not> bit ?r i" if "24 \<le> i" for i
    unfolding bit_or_iff bit_push_bit_iff_word tlb_ppd_def tlb_pa35_def tlb_pa3637_def bit_take_bit_iff bit_drop_bit_eq o_def bit_unsigned_iff
    using that by (auto dest: bit_imp_le_length)
  then have "\<not> bit (H2K_mem_tlbfmt_get_basepa (ucast e)) i" if "36 \<le> i" for i
    unfolding H2K_mem_tlbfmt_get_basepa_def Let_def bit_push_bit_iff_word bit_and_iff using that by simp
  then have "\<not> bit ((H2K_mem_tlbfmt_get_basepa (ucast e) AND m) OR ucast t) i" if "36 \<le> i" for i
    using that by (auto simp: bit_or_iff bit_and_iff bit_unsigned_iff dest: bit_imp_le_length)
  from word_bits_lt_exp [of 36, OF this] show ?thesis by (simp add: word_less_nat_alt)
qed

lemma safemem_cases:
  obtains (fail) s' where "H2K_safemem_check_and_lock va perms me s = (s', None)" "s' = s \<or> s' = s\<lparr>tlb_lock := False\<rparr>"
  | (ok) pa where "H2K_safemem_check_and_lock va perms me s = (s\<lparr>tlb_lock := True\<rparr>, Some pa)" "pa < 2 ^ 36"
proof (cases "snd (H2K_safemem_check_and_lock va perms me s)")
  case None
  with fail show ?thesis
    by (cases "H2K_safemem_check_and_lock va perms me s") (auto simp: H2K_safemem_check_and_lock_def Let_def split: if_splits)
next
  case (Some pa)
  then have "H2K_safemem_check_and_lock va perms me s = (s\<lparr>tlb_lock := True\<rparr>, Some pa)" "pa < 2 ^ 36"
    using low_entry_pa by (auto simp: H2K_safemem_check_and_lock_def Let_def split: if_splits)
  then show ?thesis by (rule ok)
qed

lemma word_of_pa: "(pa :: u64) < 2 ^ 36 \<Longrightarrow> drop_bit 2 pa < 2 ^ 34"
proof -
  assume a: "pa < 2 ^ 36"
  have "\<not> bit (drop_bit 2 pa) i" if "34 \<le> i" for i
    using word_lt_exp_bits [OF a, of "i + 2"] that by (simp add: bit_drop_bit_eq add.commute)
  from word_bits_lt_exp [of 34, OF this] show ?thesis by (simp add: word_less_nat_alt)
qed

text \<open>The part of the state the invariant is about.\<close>

definition tview :: "H2K_thread_context \<Rightarrow> ptr \<times> ptr \<times> tstatus \<times> u8 \<times> u8 \<times> 34 word" where
  "tview c = (next c, prev c, status c, prio c, hthread c, futex_ptr c)"

definition kview where
  "kview s = (\<lambda>u. tview (thr s u), ready s, ready_valids s, runlist s, runlist_prios s, hthreads s, wait_mask s, priomask s, imask s, futexhash s)"

lemma kinv_view:
  assumes "kinv s rq fq" "kview s' = kview s"
  shows "kinv s' rq fq"
proof -
  have t: "next (thr s' u) = next (thr s u)" "prev (thr s' u) = prev (thr s u)" "status (thr s' u) = status (thr s u)"
    "prio (thr s' u) = prio (thr s u)" "hthread (thr s' u) = hthread (thr s u)" "futex_ptr (thr s' u) = futex_ptr (thr s u)" for u
    using fun_cong [of "\<lambda>u. tview (thr s' u)" "\<lambda>u. tview (thr s u)" u] assms(2) by (simp_all add: kview_def tview_def)
  have f: "ready s' = ready s" "ready_valids s' = ready_valids s" "runlist s' = runlist s" "runlist_prios s' = runlist_prios s"
    "hthreads s' = hthreads s" "wait_mask s' = wait_mask s" "priomask s' = priomask s" "imask s' = imask s" "futexhash s' = futexhash s"
    using assms(2) by (simp_all add: kview_def)
  have I: "sched_inv s rq" "futex_rep s fq" using assms(1) by (auto simp: kinv_def)
  have "is_ring (thr s') (futexhash s b) (fq b)" if "b < 64" for b
    using futex_repD(1) [OF I(2) that] by (rule is_ring_frame) (simp add: t)
  then have "futex_rep s' fq" using I(2) by (simp add: futex_rep_def f t futex_bucket_def)
  moreover have "sched_inv s' rq" using I(1) by (rule sched_inv_frame) (simp_all add: t f)
  ultimately show ?thesis by (simp add: kinv_def)
qed

lemma kview_fields [simp]:
  "kview (BKL_LOCK s) = kview s" "kview (BKL_UNLOCK s) = kview s" "kview (s\<lparr>tlb_lock := x\<rparr>) = kview s"
  "kview (upd_vmb v f s) = kview s"
  by (simp_all add: kview_def BKL_LOCK_def BKL_UNLOCK_def upd_vmb_def)

lemma kview_thr: "tview (f (thr s t)) = tview (thr s t) \<Longrightarrow> kview (upd_thr t f s) = kview s"
  by (auto simp: kview_def upd_thr_def fun_eq_iff)

lemma kinv_locks:
  assumes "kinv s rq fq"
  shows "kinv (BKL_LOCK s) rq fq" "kinv (BKL_UNLOCK s) rq fq" "kinv (s\<lparr>tlb_lock := x\<rparr>) rq fq"
  by (rule kinv_view [OF assms], simp)+

text \<open>
  Within a bucket, the threads whose low address bits match are exactly those that wait on
  the whole address.
\<close>

lemma waiters_whole:
  assumes "futex_rep s fq" and pa: "pa < 2 ^ 34"
  shows "waiters (ucast pa) s (fq (unat (FUTEX_HASHVAL pa))) =
    filter (\<lambda>t. ucast (futex_ptr (thr s t)) = pa) (fq (unat (FUTEX_HASHVAL pa)))"
  unfolding waiters_def
proof (rule filter_cong [OF refl])
  fix t assume "t \<in> set (fq (unat (FUTEX_HASHVAL pa)))"
  then have "futex_bucket (thr s t) = unat (FUTEX_HASHVAL pa)" using futex_repD(4) [OF assms(1) bucket_of_pa(2) [OF pa]] by blast
  then have h: "FUTEX_HASHVAL (ucast (futex_ptr (thr s t))) = FUTEX_HASHVAL pa" by (simp add: futex_bucket_def word_unat_eq_iff)
  have lo: "futex_ptr_lo (thr s t) = ucast (ucast (futex_ptr (thr s t)) :: u64)"
    unfolding futex_ptr_lo_def by (rule bit_word_eqI) (simp add: bit_simps)
  show "(futex_ptr_lo (thr s t) = ucast pa) = (ucast (futex_ptr (thr s t)) = pa)"
    using hashval_separates [OF h] lo by auto
qed

lemma kinv_sanity:
  assumes inv: "kinv s rq fq" and me: "status (thr s me) = H2K_STATUS_RUNNING"
  shows "kinv (fst (H2K_check_sanity r s)) rq fq" "thr (fst (H2K_check_sanity r s)) = thr s"
    "vmb (fst (H2K_check_sanity r s)) = vmb s" "bkl (fst (H2K_check_sanity r s)) = bkl s"
proof -
  have I: "sched_inv s rq" "futex_rep s fq" using inv by (auto simp: kinv_def)
  note run = runlist_okD(2-4) [OF sched_invD(3) [OF I(1)] me]
  let ?s1 = "fst (H2K_check_sanity r s)"
  show f: "thr ?s1 = thr s" "vmb ?s1 = vmb s" "bkl ?s1 = bkl s"
    by (simp_all add: H2K_check_sanity_def Let_def resched_int_def swi_def H2K_lowprio_notify_def change_imask_def)
  have h: "futexhash ?s1 = futexhash s"
    by (simp add: H2K_check_sanity_def Let_def resched_int_def swi_def H2K_lowprio_notify_def change_imask_def)
  have "sched_inv ?s1 rq" using check_sanity_inv(1) [OF I(1) run(2)] run by simp
  moreover have "futex_rep ?s1 fq" using I(2) by (simp add: futex_rep_def f h)
  ultimately show "kinv ?s1 rq fq" by (simp add: kinv_def)
qed

lemma kinv_sanity_unlock:
  assumes inv: "kinv s rq fq" and me: "status (thr s me) = H2K_STATUS_RUNNING"
  shows "kinv (fst (H2K_check_sanity_unlock r s)) rq fq" "thr (fst (H2K_check_sanity_unlock r s)) = thr s"
    "\<not> bkl (fst (H2K_check_sanity_unlock r s))" "snd (H2K_check_sanity_unlock r s) = r"
  using kinv_sanity(1,2) [OF assms, of r] kinv_locks(2)
  by (simp_all add: H2K_check_sanity_unlock_def split_beta)

section \<open>Properties\<close>

lemma futex_wait_spec:
  fixes lock val :: u32
  assumes inv: "kinv s rq fq" and me: "status (thr s me) = H2K_STATUS_RUNNING" and cov: "clusters_cover s"
    and ht: "htid s = ucast (hthread (thr s me))" and nw: "\<not> bit (vmstatus (thr s me)) VMWORK" and nl: "\<not> tlb_lock s"
  defines "addr \<equiv> snd (H2K_safemem_check_and_lock lock SAFEMEM_R me s)"
  defines "pa \<equiv> drop_bit 2 (the addr)"
  defines "b \<equiv> unat (FUTEX_HASHVAL pa)"
  defines "fq' \<equiv> fq(b := prio_insert (\<lambda>t. prio (thr s t)) me (fq b))"
  shows "if addr = None \<or> umem s lock \<noteq> val
    then \<exists>s'. H2K_futex_wait lock val me s = Some (s', Ret (-1)) \<and> kinv s' rq fq \<and> thr s' = thr s \<and> \<not> bkl s' \<and> \<not> tlb_lock s'
    else \<exists>s' new. H2K_futex_wait lock val me s = Some (s', Switch me new) \<and> bkl s' \<and>
      status (thr s' me) = H2K_STATUS_BLOCKED \<and> ucast (futex_ptr (thr s' me)) = pa \<and> next_runs me new s s' rq fq'"
proof (cases rule: safemem_cases [of lock SAFEMEM_R me s])
  case (fail s')
  have "H2K_futex_wait lock val me s = Some (BKL_UNLOCK (BKL_LOCK s'), Ret (-1))"
    using nw fail(1) by (simp add: H2K_futex_wait_def Let_def)
  moreover have "kinv (BKL_UNLOCK (BKL_LOCK s')) rq fq" using fail(2) kinv_locks inv by metis
  moreover have "thr s' = thr s" "\<not> tlb_lock s'" using fail(2) nl by auto
  ultimately show ?thesis using fail(1) by (simp add: addr_def BKL_LOCK_def BKL_UNLOCK_def)
next
  case (ok a)
  define s3 where "s3 = H2K_safemem_unlock (BKL_LOCK (s\<lparr>tlb_lock := True\<rparr>))"
  have pa: "pa = drop_bit 2 a" "pa < 2 ^ 34" using ok word_of_pa by (simp_all add: pa_def addr_def)
  have k3: "kinv s3 rq fq" unfolding s3_def H2K_safemem_unlock_def by (intro kinv_locks inv)
  have f3: "thr s3 = thr s" "htid s3 = htid s" "clusters_cover s3 = clusters_cover s" "bkl s3" "\<not> tlb_lock s3"
    "cluster_sched s3 = cluster_sched s" "wait_mask s3 = wait_mask s"
    by (simp_all add: s3_def H2K_safemem_unlock_def BKL_LOCK_def clusters_cover_def)
  have ev: "H2K_futex_wait lock val me s =
      (if umem s lock \<noteq> val then Some (BKL_UNLOCK s3, Ret (-1)) else futex_block pa me s3)"
    using nw ok(1) by (simp add: H2K_futex_wait_def Let_def s3_def pa(1) [symmetric])
  show ?thesis
  proof (cases "umem s lock = val")
    case False
    have "kinv (BKL_UNLOCK s3) rq fq" using k3 by (rule kinv_locks)
    with False ev f3 show ?thesis by (simp add: BKL_UNLOCK_def)
  next
    case True
    have r: "ucast (ucast pa :: 34 word) = pa"
      using word_lt_exp_bits [OF pa(2)] by (intro bit_word_eqI) (auto simp: bit_simps not_le [symmetric])
    have me3: "status (thr s3 me) = H2K_STATUS_RUNNING" "clusters_cover s3" "htid s3 = ucast (hthread (thr s3 me))"
      using me cov ht f3 by simp_all
    obtain s' new where "futex_block pa me s3 = Some (s', Switch me new)" "bkl s' = bkl s3"
      "status (thr s' me) = H2K_STATUS_BLOCKED" "futex_ptr (thr s' me) = ucast pa"
      "next_runs me new s s' rq fq'"
      using futex_block_kinv [OF k3 me3 pa(2)] unfolding next_runs_cong [OF f3(6,7)] f3(1) b_def [symmetric] fq'_def [symmetric] by (elim exE conjE)
    with True ev ok(1) f3 r show ?thesis by (simp add: addr_def)
  qed
qed


lemma futex_resume_spec:
  fixes n :: u32
  assumes inv: "kinv s rq fq" and me: "status (thr s me) = H2K_STATUS_RUNNING" and n: "n \<noteq> 0"
    and addr: "snd (H2K_safemem_check_and_lock lock SAFEMEM_R me s) = Some a"
  defines "pa \<equiv> drop_bit 2 a"
  defines "b \<equiv> unat (FUTEX_HASHVAL pa)"
  defines "ws \<equiv> take (unat n) (filter (\<lambda>t. ucast (futex_ptr (thr s t)) = pa) (fq b))"
  shows "\<exists>s'. H2K_futex_resume lock n me s = Some (s', sint (of_nat (length ws) :: u32)) \<and>
    kinv s' (woken (\<lambda>t. prio (thr s t)) rq ws) (fq(b := filter (\<lambda>t. t \<notin> set ws) (fq b))) \<and> readied ws s s' \<and> \<not> bkl s'"
proof -
  have fut: "futex_rep s fq" using inv by (simp add: kinv_def)
  have ok: "H2K_safemem_check_and_lock lock SAFEMEM_R me s = (s\<lparr>tlb_lock := True\<rparr>, Some a)" "a < 2 ^ 36"
    using addr by (cases rule: safemem_cases [of lock SAFEMEM_R me s]; simp)+
  have pa: "pa < 2 ^ 34" using word_of_pa [OF ok(2)] by (simp add: pa_def)
  have b: "b < 64" using bucket_of_pa(2) [OF pa] by (simp add: b_def)
  define s3 where "s3 = BKL_LOCK (H2K_safemem_unlock (s\<lparr>tlb_lock := True\<rparr>))"
  have k3: "kinv s3 rq fq" unfolding s3_def H2K_safemem_unlock_def by (intro kinv_locks inv)
  have t3: "thr s3 = thr s" by (simp add: s3_def H2K_safemem_unlock_def)
  have ring: "is_ring (thr s3) (futexhash s3 b) (fq b)" using k3 futex_repD(1) [OF _ b] by (simp add: kinv_def)
  have ws: "ws = take (unat n - unat (0 :: u32)) (waiters (ucast pa) s3 (fq b))"
    using waiters_whole [OF fut pa] by (simp add: ws_def b_def waiters_def t3)
  have ev: "H2K_futex_resume lock n me s =
    (if futexhash s3 b = NULL then Some (BKL_UNLOCK s3, 0)
     else do { (s4, m) \<leftarrow> resume_loop (ucast pa) b n 0 (futexhash s3 b) s3;
               Some (let (s5, r) = H2K_check_sanity_unlock (ucast m) s4 in (s5, sint (ucast r :: u32))) })"
    using n ok(1) by (simp add: H2K_futex_resume_def Let_def s3_def pa_def b_def)
  show ?thesis
  proof (cases "fq b = []")
    case True
    then have "ws = []" "futexhash s3 b = NULL" using ring is_ring_null_iff [OF ring] by (simp_all add: ws_def)
    with ev True kinv_locks(2) [OF k3] t3 show ?thesis by (simp add: readied_def fun_upd_idem BKL_UNLOCK_def)
  next
    case False
    have "0 < n" using n by (simp add: word_neq_0_conv)
    moreover have "fq b @ [] \<noteq> [] \<longrightarrow> futexhash s3 b = hd (fq b @ [])" using is_ring_head [OF ring False] by simp
    ultimately obtain s4 where s4: "resume_loop (ucast pa) b n 0 (futexhash s3 b) s3 = Some (s4, 0 + of_nat (length ws))"
      "kinv s4 (woken (\<lambda>t. prio (thr s3 t)) rq ws) (fq(b := filter (\<lambda>t. t \<notin> set ws) (fq b)))" "readied ws s3 s4"
      using resume_loop_spec [OF k3 b _ _ _ _ ws, of "[]"] by auto
    have "me \<notin> set ws" using futex_repD(3) [OF fut b, of me] me set_take_subset unfolding ws_def by fastforce
    then have me4: "status (thr s4 me) = H2K_STATUS_RUNNING" using readiedD(3) [OF s4(3)] me t3 by simp
    have "futexhash s3 b \<noteq> NULL" using False is_ring_null_iff [OF ring] by simp
    moreover have "ucast (ucast (of_nat (length ws) :: u32) :: u64) = (of_nat (length ws) :: u32)"
      by (rule bit_word_eqI) (simp add: bit_simps)
    ultimately show ?thesis
      using ev s4 kinv_sanity_unlock [OF s4(2) me4, of "ucast (of_nat (length ws) :: u32)"]
      by (simp add: split_beta readied_def t3)
  qed
qed

text \<open>
  C5: waking threads that wait on a futex. With a good address, the call makes ready
  exactly the first \<open>n\<close> waiters on that address, in queue order and each at the end of the
  queue of its priority, leaves every other waiter queued, and returns how many it woke.
\<close>

theorem futex_resume_correct:
  fixes n :: u32
  assumes inv: "kinv s rq fq" and me: "status (thr s me) = H2K_STATUS_RUNNING" and n: "n \<noteq> 0"
    and addr: "snd (H2K_safemem_check_and_lock lock SAFEMEM_R me s) = Some a"
  defines "pa \<equiv> drop_bit 2 a"
  defines "b \<equiv> unat (FUTEX_HASHVAL pa)"
  defines "ws \<equiv> take (unat n) (filter (\<lambda>t. ucast (futex_ptr (thr s t)) = pa) (fq b))"
  shows "\<exists>s'. H2K_futex_resume lock n me s = Some (s', sint (of_nat (length ws) :: u32)) \<and>
    kinv s' (woken (\<lambda>t. prio (thr s t)) rq ws) (fq(b := filter (\<lambda>t. t \<notin> set ws) (fq b))) \<and> readied ws s s' \<and> \<not> bkl s'"
  unfolding pa_def b_def ws_def by (rule futex_resume_spec [OF inv me n addr])

text \<open>
  Thread 20 runs; threads 30 and 31 wait on the futex at user address 8, which the TLB maps
  to physical address 8.
\<close>

definition futex_example :: H2K_kg_t where
  "futex_example = sched_base\<lparr>thr := (thr sched_base)
       (30 := thread0\<lparr>next := 31, prev := 31, prio := 4, status := H2K_STATUS_BLOCKED, futex_ptr := 2\<rparr>,
        31 := thread0\<lparr>next := 30, prev := 30, prio := 6, status := H2K_STATUS_BLOCKED, futex_ptr := 2\<rparr>),
     futexhash := (\<lambda>_. NULL)(15 := 30),
     hw_tlbp := (\<lambda>_ _. 0), hw_tlbr := (\<lambda>_ _. 0xF0000001)\<rparr>"

lemma futex_example_hash: "FUTEX_HASHVAL 2 = 15"
  by (simp add: FUTEX_HASHVAL_def FUTEX_PRIME_def)

lemma futex_example_inv: "kinv futex_example (\<lambda>_. []) ((\<lambda>_. [])(15 := [30, 31]))"
proof -
  have "ready_rep futex_example (\<lambda>_. [])" by (simp add: ready_rep_def prio_bit_def sched_base_def futex_example_def)
  moreover have "runlist_ok futex_example"
    by (simp add: runlist_ok_def slot_ok_def sched_base_def futex_example_def MAX_HTHREADS_def less_2_cases ucast_eq)
  moreover have "lowprio_ok futex_example" "steer_ok futex_example"
    by (simp_all add: lowprio_ok_def steer_ok_def futex_example_def sched_base_def at_most_one_def less_2_cases bit_2_iff)
  ultimately have "sched_inv futex_example (\<lambda>_. [])" by (simp add: sched_inv_def futex_example_def sched_base_def)
  moreover have "is_ring (thr futex_example) 30 [30, 31]" by (simp add: is_ring_def cyc_def futex_example_def)
  then have "futex_rep futex_example ((\<lambda>_. [])(15 := [30, 31]))"
    by (auto simp: futex_rep_def futex_bucket_def futex_example_def sched_base_def futex_example_hash)
  ultimately show ?thesis by (simp add: kinv_def)
qed

lemma futex_example_addr: "snd (H2K_safemem_check_and_lock 8 SAFEMEM_R 20 futex_example) = Some 8"
  by (simp add: H2K_safemem_check_and_lock_def H2K_mem_tlb_probe_def H2K_mem_tlb_read_def futex_example_def SAFEMEM_R_def) code_simp

lemma futex_example_thr:
  "status (thr futex_example 20) = H2K_STATUS_RUNNING" "vmstatus (thr futex_example 20) = 0" "hthread (thr futex_example 20) = 0"
  "htid futex_example = 0" "clusters_cover futex_example" "\<not> tlb_lock futex_example" "umem futex_example 8 = 0"
  by (simp_all add: futex_example_def sched_base_def clusters_cover_def, simp_all add: kg0_def)


theorem futex_resume_correct_witness:
  "\<exists>s'. H2K_futex_resume 8 1 20 futex_example = Some (s', 1) \<and>
    kinv s' (woken (\<lambda>t. prio (thr futex_example t)) (\<lambda>_. []) [30]) ((\<lambda>_. [])(15 := [31]))"
proof -
  have "futex_ptr (thr futex_example 30) = 2" by (simp add: futex_example_def)
  with futex_resume_correct [OF futex_example_inv futex_example_thr(1) _ futex_example_addr, of 1] show ?thesis
    by (auto simp: futex_example_hash)
qed

end
