(* ===== verification/Vmint_Correct.thy ===== *)
theory Vmint_Correct
  imports Futex
begin

text \<open>
  What the chain of virtual interrupt controllers promises. A controller owns a range of
  interrupt numbers and knows which of them a thread may take; \<open>get\<close> and \<open>peek\<close> answer with
  the least one or pass the question on. Delivery to a thread keeps the invariant of the
  scheduler and the futex queues.
\<close>

section \<open>Sources of interrupts\<close>

text \<open>
  The interface of a controller: the numbers it offers to a thread, its size, and the laws
  of \<open>get\<close> and \<open>peek\<close>.
\<close>

locale int_source =
  fixes get peek :: "int_op \<Rightarrow> int_op"
    and avail :: "ptr \<Rightarrow> ptr \<Rightarrow> H2K_kg_t \<Rightarrow> nat set"
    and count :: "ptr \<Rightarrow> H2K_kg_t \<Rightarrow> u32"
    and take :: "nat \<Rightarrow> ptr \<Rightarrow> ptr \<Rightarrow> H2K_kg_t \<Rightarrow> H2K_kg_t"
  assumes avail_finite: "finite (avail vb me s)"
    and get_some: "avail vb me s \<noteq> {} \<Longrightarrow>
      get nxt vb me off s = Some (take (Min (avail vb me s)) vb me s, sint (off + of_nat (Min (avail vb me s))))"
    and get_none: "avail vb me s = {} \<Longrightarrow> get nxt vb me off s = nxt vb me (off + count vb s) s"
    and peek_some: "avail vb me s \<noteq> {} \<Longrightarrow> peek nxt vb me off s = Some (s, sint (off + of_nat (Min (avail vb me s))))"
    and peek_none: "avail vb me s = {} \<Longrightarrow> peek nxt vb me off s = nxt vb me (off + count vb s) s"
    and take_avail: "i \<in> avail vb me s \<Longrightarrow> avail vb me (take i vb me s) = avail vb me s - {i}"
begin

lemma get_peek_agree:
  assumes "\<And>off. map_option snd (nxt vb me off s) = map_option snd (nxt' vb me off s)"
  shows "map_option snd (get nxt vb me off s) = map_option snd (peek nxt' vb me off s)"
  using assms by (cases "avail vb me s = {}") (simp_all add: get_some get_none peek_some peek_none)

lemma taken_once:
  assumes "avail vb me s \<noteq> {}"
  shows "Min (avail vb me s) \<in> avail vb me s"
    "Min (avail vb me s) \<notin> avail vb me (take (Min (avail vb me s)) vb me s)"
    "i \<in> avail vb me (take (Min (avail vb me s)) vb me s) \<Longrightarrow> Min (avail vb me s) < i"
proof -
  show m: "Min (avail vb me s) \<in> avail vb me s" using avail_finite assms by (rule Min_in)
  show "Min (avail vb me s) \<notin> avail vb me (take (Min (avail vb me s)) vb me s)" using take_avail [OF m] by simp
  assume "i \<in> avail vb me (take (Min (avail vb me s)) vb me s)"
  then have "i \<in> avail vb me s" "i \<noteq> Min (avail vb me s)" using take_avail [OF m] by auto
  then show "Min (avail vb me s) < i" using Min_le [OF avail_finite] by (metis le_neq_implies_less)
qed

end

section \<open>The two controllers\<close>

definition cpu_ints :: "ptr \<Rightarrow> ptr \<Rightarrow> H2K_kg_t \<Rightarrow> nat set" where
  "cpu_ints vb me s = {i. bit (cpuint_enabled (thr s me) AND cpuint_pending (thr s me)) i}"

definition sh_ints :: "ptr \<Rightarrow> ptr \<Rightarrow> H2K_kg_t \<Rightarrow> nat set" where
  "sh_ints vb me s = {i. i div 32 < (unat (num_ints (vmb s vb)) + 31) div 32 \<and> bit (takeable vb me (i div 32) s) (i mod 32)}"

definition sh_take :: "nat \<Rightarrow> ptr \<Rightarrow> ptr \<Rightarrow> H2K_kg_t \<Rightarrow> H2K_kg_t" where
  "sh_take i vb me s = upd_vmb vb (\<lambda>v. v\<lparr>enable := upd_bit (unset_bit (i mod 32)) (i div 32) (enable v),
     pending := upd_bit (unset_bit (i mod 32)) (i div 32) (pending v)\<rparr>) s"

lemma bits_finite: "finite {i. bit (w :: 'a::len word) i}"
  by (rule finite_subset [of _ "{..<LENGTH('a)}"]) (auto dest: bit_imp_le_length)

lemma bits_empty: "{i. bit (w :: 'a::len word) i} = {} \<longleftrightarrow> w = 0"
  using word_bits_zero [of w] by (auto dest: bit_imp_le_length)

lemma Min_bits: "w \<noteq> 0 \<Longrightarrow> Min {i. bit (w :: 'a::len word) i} = ct0 w"
  using ct0_bit [of w] ct0_below [of _ w] by (intro Min_eqI bits_finite) (auto simp: not_less [symmetric])

interpretation cpu: int_source H2K_vm_cpuint_get H2K_vm_cpuint_peek cpu_ints "\<lambda>_ _. PERCPU_INTERRUPTS"
  "\<lambda>i vb me s. clr_enabled i me (clr_pending i me s)"
proof
  fix vb me :: ptr and s :: H2K_kg_t and nxt :: int_op and off :: u32 and i :: nat
  let ?w = "cpuint_enabled (thr s me) AND cpuint_pending (thr s me)"
  show "finite (cpu_ints vb me s)" by (simp add: cpu_ints_def bits_finite)
  show "cpu_ints vb me s = {} \<Longrightarrow> H2K_vm_cpuint_get nxt vb me off s = nxt vb me (off + PERCPU_INTERRUPTS) s"
    "cpu_ints vb me s = {} \<Longrightarrow> H2K_vm_cpuint_peek nxt vb me off s = nxt vb me (off + PERCPU_INTERRUPTS) s"
    unfolding cpu_ints_def bits_empty by (simp_all add: H2K_vm_cpuint_get_def H2K_vm_cpuint_peek_def)
  show "cpu_ints vb me s \<noteq> {} \<Longrightarrow> H2K_vm_cpuint_get nxt vb me off s =
      Some (clr_enabled (Min (cpu_ints vb me s)) me (clr_pending (Min (cpu_ints vb me s)) me s), sint (off + of_nat (Min (cpu_ints vb me s))))"
    "cpu_ints vb me s \<noteq> {} \<Longrightarrow> H2K_vm_cpuint_peek nxt vb me off s = Some (s, sint (off + of_nat (Min (cpu_ints vb me s))))"
    unfolding cpu_ints_def bits_empty by (simp_all add: Min_bits H2K_vm_cpuint_get_def H2K_vm_cpuint_peek_def Let_def)
  show "i \<in> cpu_ints vb me s \<Longrightarrow> cpu_ints vb me (clr_enabled i me (clr_pending i me s)) = cpu_ints vb me s - {i}"
    by (auto simp: cpu_ints_def clr_enabled_def clr_pending_def bit_and_iff)
qed

lemma scan_none: "shint_scan vb me js s = None \<longleftrightarrow> (\<forall>j\<in>set js. takeable vb me j s = 0)"
  by (induction js) auto

lemma scan_some: "shint_scan vb me js s = Some (j, b) \<Longrightarrow>
    \<exists>as bs. js = as @ j # bs \<and> (\<forall>i\<in>set as. takeable vb me i s = 0) \<and> takeable vb me j s \<noteq> 0 \<and> b = ct0 (takeable vb me j s)"
proof (induction js)
  case (Cons a js)
  show ?case
  proof (cases "takeable vb me a s = 0")
    case True
    with Cons obtain as bs where "js = as @ j # bs" "\<forall>i\<in>set as. takeable vb me i s = 0" "takeable vb me j s \<noteq> 0" "b = ct0 (takeable vb me j s)"
      by auto
    with True show ?thesis by (intro exI [of _ "a # as"] exI [of _ bs]) auto
  next
    case False
    with Cons.prems show ?thesis by (intro exI [of _ "[]"] exI [of _ js]) auto
  qed
qed simp

lemma sh_ints_finite: "finite (sh_ints vb me s)"
proof (rule finite_subset)
  show "sh_ints vb me s \<subseteq> {..<32 * ((unat (num_ints (vmb s vb)) + 31) div 32)}"
    by (auto simp: sh_ints_def div_less_iff_less_mult mult.commute)
qed simp

lemma sh_ints_scan:
  assumes "shint_scan vb me (shint_words vb s) s = Some (j, b)"
  shows "Min (sh_ints vb me s) = 32 * j + b" "sh_ints vb me s \<noteq> {}" "b < 32"
proof -
  obtain as bs where sp: "shint_words vb s = as @ j # bs" "\<forall>i\<in>set as. takeable vb me i s = 0"
    "takeable vb me j s \<noteq> 0" "b = ct0 (takeable vb me j s)" using scan_some [OF assms] by (elim exE conjE)
  have len: "length as < (unat (num_ints (vmb s vb)) + 31) div 32" "as = [0..<length as]" "j = length as"
  proof -
    let ?n = "(unat (num_ints (vmb s vb)) + 31) div 32"
    have "length [0..<?n] = length as + 1 + length bs" using sp(1) by (simp add: shint_words_def)
    then show l: "length as < ?n" by simp
    show "as = [0..<length as]" using arg_cong [OF sp(1), of "take (length as)"] l by (simp add: shint_words_def take_upt)
    show "j = length as" using arg_cong [OF sp(1), of "\<lambda>l. l ! length as"] l by (simp add: shint_words_def)
  qed
  show b: "b < 32" using sp(3,4) ct0_lt_iff [of "takeable vb me j s"] by simp
  have bit: "bit (takeable vb me j s) b" using ct0_bit [OF sp(3)] sp(4) by simp
  have mem: "32 * j + b \<in> sh_ints vb me s" using b bit len by (simp add: sh_ints_def)
  then show "sh_ints vb me s \<noteq> {}" by blast
  show "Min (sh_ints vb me s) = 32 * j + b" using sh_ints_finite
  proof (rule Min_eqI)
    fix y assume y: "y \<in> sh_ints vb me s"
    then have yb: "bit (takeable vb me (y div 32) s) (y mod 32)" by (simp add: sh_ints_def)
    then have "takeable vb me (y div 32) s \<noteq> 0" by auto
    then have "y div 32 \<notin> set as" using sp(2) by blast
    then have "j \<le> y div 32" using len by (metis atLeastLessThan_iff le0 not_le set_upt)
    moreover have "b \<le> y mod 32" if "y div 32 = j" using yb that ct0_below [of "y mod 32" "takeable vb me j s"] sp(4) by (auto simp: not_less [symmetric])
    moreover have "y = 32 * (y div 32) + y mod 32" by simp
    ultimately show "32 * j + b \<le> y" using b by (cases "y div 32 = j") auto
  qed (rule mem)
qed

interpretation sh: int_source "H2K_vm_shint_get num" "H2K_vm_shint_peek num" sh_ints "\<lambda>vb s. num_ints (vmb s vb)" sh_take
  for num :: u32
proof
  fix vb me :: ptr and s :: H2K_kg_t and nxt :: int_op and off :: u32 and i :: nat
  show "finite (sh_ints vb me s)" by (rule sh_ints_finite)
  have none: "shint_scan vb me (shint_words vb s) s = None" if "sh_ints vb me s = {}"
  proof (cases "shint_scan vb me (shint_words vb s) s")
    case (Some a)
    then show ?thesis using sh_ints_scan(2) [of vb me s "fst a" "snd a"] that by simp
  qed
  then show "sh_ints vb me s = {} \<Longrightarrow> H2K_vm_shint_get num nxt vb me off s = nxt vb me (off + num_ints (vmb s vb)) s"
    "sh_ints vb me s = {} \<Longrightarrow> H2K_vm_shint_peek num nxt vb me off s = nxt vb me (off + num_ints (vmb s vb)) s"
    by (simp_all add: H2K_vm_shint_get_def H2K_vm_shint_peek_def)
  have some: "\<exists>j b. shint_scan vb me (shint_words vb s) s = Some (j, b)" if "sh_ints vb me s \<noteq> {}"
  proof (cases "shint_scan vb me (shint_words vb s) s")
    case None
    then have "takeable vb me j s = 0" if "j < (unat (num_ints (vmb s vb)) + 31) div 32" for j
      using that by (simp add: scan_none shint_words_def)
    then have "sh_ints vb me s = {}" by (force simp: sh_ints_def)
    with that show ?thesis by simp
  qed auto
  have "H2K_vm_shint_get num nxt vb me off s =
      Some (sh_take (Min (sh_ints vb me s)) vb me s, sint (off + of_nat (Min (sh_ints vb me s)))) \<and>
    H2K_vm_shint_peek num nxt vb me off s = Some (s, sint (off + of_nat (Min (sh_ints vb me s))))" if ne: "sh_ints vb me s \<noteq> {}"
  proof -
    obtain j b where jb: "shint_scan vb me (shint_words vb s) s = Some (j, b)" using some [OF ne] by (elim exE)
    note m = sh_ints_scan [OF jb]
    show ?thesis unfolding m(1) using m(3) by (simp add: H2K_vm_shint_get_def H2K_vm_shint_peek_def jb sh_take_def add.assoc)
  qed
  then show "sh_ints vb me s \<noteq> {} \<Longrightarrow> H2K_vm_shint_get num nxt vb me off s =
      Some (sh_take (Min (sh_ints vb me s)) vb me s, sint (off + of_nat (Min (sh_ints vb me s))))"
    "sh_ints vb me s \<noteq> {} \<Longrightarrow> H2K_vm_shint_peek num nxt vb me off s = Some (s, sint (off + of_nat (Min (sh_ints vb me s))))"
    by blast+
  show "sh_ints vb me (sh_take i vb me s) = sh_ints vb me s - {i}" if i: "i \<in> sh_ints vb me s"
  proof (rule set_eqI)
    fix k
    have n: "num_ints (vmb (sh_take i vb me s) vb) = num_ints (vmb s vb)" by (simp add: sh_take_def)
    have t: "bit (takeable vb me (k div 32) (sh_take i vb me s)) (k mod 32) \<longleftrightarrow>
        bit (takeable vb me (k div 32) s) (k mod 32) \<and> \<not> (k div 32 = i div 32 \<and> k mod 32 = i mod 32)"
      by (auto simp: takeable_def sh_take_def upd_bit_def bit_and_iff)
    have "k = i \<longleftrightarrow> k div 32 = i div 32 \<and> k mod 32 = i mod 32" by (metis div_mult_mod_eq)
    then show "k \<in> sh_ints vb me (sh_take i vb me s) \<longleftrightarrow> k \<in> sh_ints vb me s - {i}"
      unfolding sh_ints_def n using t by blast
  qed
qed

section \<open>The whole chain\<close>

text \<open>A VM whose chain of controllers is the one the initialisation builds.\<close>

definition intinfo_ok :: "H2K_vmblock_t \<Rightarrow> bool" where
  "intinfo_ok v \<longleftrightarrow> intinfo v = (PERCPU_INTERRUPTS, H2K_vm_cpuint_ops) #
     (if num_ints v > 0 then [(num_ints v, H2K_vm_shint_ops)] else []) @ [(-1, H2K_vm_badint_ops)]"

text \<open>Every interrupt a thread may take: the sixteen of its CPU, then the shared ones.\<close>

definition ints :: "ptr \<Rightarrow> ptr \<Rightarrow> H2K_kg_t \<Rightarrow> nat set" where
  "ints vb me s = cpu_ints vb me s \<union> (\<lambda>i. 16 + i) ` sh_ints vb me s"

lemma cpu_ints_lt: "i \<in> cpu_ints vb me s \<Longrightarrow> i < 16"
  by (auto simp: cpu_ints_def dest: bit_imp_le_length)

lemma sh_ints_none: "num_ints (vmb s vb) = 0 \<Longrightarrow> sh_ints vb me s = {}"
  by (simp add: sh_ints_def)

lemma ints_finite: "finite (ints vb me s)"
  by (simp add: ints_def cpu.avail_finite sh_ints_finite)

lemma Min_ints:
  "cpu_ints vb me s \<noteq> {} \<Longrightarrow> Min (ints vb me s) = Min (cpu_ints vb me s)"
  "cpu_ints vb me s = {} \<Longrightarrow> sh_ints vb me s \<noteq> {} \<Longrightarrow> Min (ints vb me s) = 16 + Min (sh_ints vb me s)"
proof -
  assume ne: "cpu_ints vb me s \<noteq> {}"
  note m = cpu.taken_once(1) [OF ne]
  show "Min (ints vb me s) = Min (cpu_ints vb me s)" using ints_finite
  proof (rule Min_eqI)
    show "Min (cpu_ints vb me s) \<le> y" if "y \<in> ints vb me s" for y
      using that Min_le [OF cpu.avail_finite] cpu_ints_lt [OF m] by (fastforce simp: ints_def)
  qed (use m in \<open>simp add: ints_def\<close>)
next
  assume "cpu_ints vb me s = {}" "sh_ints vb me s \<noteq> {}"
  then show "Min (ints vb me s) = 16 + Min (sh_ints vb me s)"
    using mono_Min_commute [of "\<lambda>i. 16 + i" "sh_ints vb me s"] sh_ints_finite by (simp add: ints_def mono_def)
qed

text \<open>Taking interrupt \<open>i\<close> of the whole chain.\<close>

definition int_take :: "nat \<Rightarrow> ptr \<Rightarrow> ptr \<Rightarrow> H2K_kg_t \<Rightarrow> H2K_kg_t" where
  "int_take i vb me s = (if i < 16 then clr_enabled i me (clr_pending i me s) else sh_take (i - 16) vb me s)"

lemma int_take_ints: "i \<in> ints vb me s \<Longrightarrow> ints vb me (int_take i vb me s) = ints vb me s - {i}"
proof (cases "i < 16")
  case True
  assume "i \<in> ints vb me s"
  then have c: "i \<in> cpu_ints vb me s" using True by (auto simp: ints_def)
  have "sh_ints vb me (clr_enabled i me (clr_pending i me s)) = sh_ints vb me s"
    by (simp add: sh_ints_def takeable_def clr_enabled_def clr_pending_def)
  with True cpu.take_avail [OF c] show ?thesis by (auto simp: int_take_def ints_def)
next
  case False
  assume i: "i \<in> ints vb me s"
  then have c: "i - 16 \<in> sh_ints vb me s" using False by (auto simp: ints_def dest: cpu_ints_lt)
  have "cpu_ints vb me (sh_take (i - 16) vb me s) = cpu_ints vb me s" by (simp add: cpu_ints_def sh_take_def)
  with False sh.take_avail [OF c] show ?thesis by (auto simp: int_take_def ints_def dest: cpu_ints_lt)
qed

lemma get_peek_spec:
  fixes s :: H2K_kg_t
  assumes "intinfo_ok (vmb s vb)"
  shows "int_call H2K_INTOP_GET (intinfo (vmb s vb)) vb me 0 s =
      Some (if ints vb me s = {} then (s, -1) else (int_take (Min (ints vb me s)) vb me s, sint (of_nat (Min (ints vb me s)) :: u32)))"
    "int_call H2K_INTOP_PEEK (intinfo (vmb s vb)) vb me 0 s =
      Some (s, if ints vb me s = {} then -1 else sint (of_nat (Min (ints vb me s)) :: u32))"
proof -
  have i: "intinfo (vmb s vb) = (PERCPU_INTERRUPTS, H2K_vm_cpuint_ops) #
     (if num_ints (vmb s vb) > 0 then [(num_ints (vmb s vb), H2K_vm_shint_ops)] else []) @ [(-1, H2K_vm_badint_ops)]"
    using assms by (simp add: intinfo_ok_def)
  consider (cpu) "cpu_ints vb me s \<noteq> {}" | (sh) "cpu_ints vb me s = {}" "sh_ints vb me s \<noteq> {}"
    | (none) "cpu_ints vb me s = {}" "sh_ints vb me s = {}" by blast
  then have "int_call H2K_INTOP_GET (intinfo (vmb s vb)) vb me 0 s =
      Some (if ints vb me s = {} then (s, -1) else (int_take (Min (ints vb me s)) vb me s, sint (of_nat (Min (ints vb me s)) :: u32))) \<and>
    int_call H2K_INTOP_PEEK (intinfo (vmb s vb)) vb me 0 s =
      Some (s, if ints vb me s = {} then -1 else sint (of_nat (Min (ints vb me s)) :: u32))"
  proof cases
    case cpu
    then have "ints vb me s \<noteq> {}" by (simp add: ints_def)
    then show ?thesis unfolding i Min_ints(1) [OF cpu]
      using cpu_ints_lt [OF cpu.taken_once(1) [OF cpu]] by (simp add: cpu.get_some [OF cpu] cpu.peek_some [OF cpu] int_take_def)
  next
    case sh
    then have "ints vb me s \<noteq> {}" "num_ints (vmb s vb) > 0" using sh_ints_none [of s vb me] by (auto simp: ints_def word_neq_0_conv [symmetric])
    then show ?thesis unfolding i Min_ints(2) [OF sh]
      by (simp add: cpu.get_none [OF sh(1)] cpu.peek_none [OF sh(1)] sh.get_some [OF sh(2)] sh.peek_some [OF sh(2)] int_take_def PERCPU_INTERRUPTS_def)
  next
    case none
    then show ?thesis unfolding i
      by (simp add: cpu.get_none [OF none(1)] cpu.peek_none [OF none(1)] sh.get_none [OF none(2)] sh.peek_none [OF none(2)] ints_def H2K_vm_badint_func_def)
  qed
  then show "int_call H2K_INTOP_GET (intinfo (vmb s vb)) vb me 0 s =
      Some (if ints vb me s = {} then (s, -1) else (int_take (Min (ints vb me s)) vb me s, sint (of_nat (Min (ints vb me s)) :: u32)))"
    "int_call H2K_INTOP_PEEK (intinfo (vmb s vb)) vb me 0 s =
      Some (s, if ints vb me s = {} then -1 else sint (of_nat (Min (ints vb me s)) :: u32))" by blast+
qed

section \<open>Waking a thread\<close>

lemma kinv_ready:
  assumes inv: "kinv s rq fq" and st: "status (thr s t) \<notin> {H2K_STATUS_RUNNING, H2K_STATUS_READY, H2K_STATUS_BLOCKED}" and t: "t \<noteq> NULL"
  defines "p \<equiv> unat (prio (thr s t))"
  shows "kinv (H2K_ready_append t s) (rq(p := rq p @ [t])) fq"
proof -
  have I: "sched_inv s rq" "futex_rep s fq" using inv by (auto simp: kinv_def)
  note R = sched_invD(1) [OF I(1)]
  have nt: "t \<notin> rq_threads rq" using ready_repD(4) [OF R] st by (fastforce simp: rq_threads_def)
  have 1: "sched_inv (H2K_ready_append t s) (rq(p := rq p @ [t]))"
    unfolding p_def using I(1) _ t nt by (rule ready_append_inv) (use st in auto)
  have "futex_rep (H2K_ready_append t s) fq" using I(2)
  proof (rule futex_rep_frame)
    show "futexhash (H2K_ready_append t s) = futexhash s" using sched_rest_eqD(6) [OF sched_rest_queue(2)] .
    fix u
    show "thr (H2K_ready_append t s) u = thr s u" if "status (thr s u) = H2K_STATUS_BLOCKED"
    proof -
      have "u \<notin> rq_threads rq" using ready_repD(4) [OF R] that by (fastforce simp: rq_threads_def)
      moreover have "u \<noteq> t" using st that by auto
      ultimately show ?thesis by (rule ready_append_outside [OF R])
    qed
    show "status (thr s u) = H2K_STATUS_BLOCKED" if "status (thr (H2K_ready_append t s) u) = H2K_STATUS_BLOCKED"
      using more_eqD(2) [OF ready_append_more [of t s u]] that by (auto split: if_splits)
  qed
  with 1 show ?thesis by (simp add: kinv_def)
qed

lemma kinv_cancel_ready:
  assumes inv: "kinv s rq fq" and st: "status (thr s t) = H2K_STATUS_BLOCKED"
  defines "p \<equiv> unat (prio (thr s t))" and "b \<equiv> futex_bucket (thr s t)"
  shows "kinv (H2K_ready_append t (H2K_futex_cancel t s)) (rq(p := rq p @ [t])) (fq(b := remove1 t (fq b)))"
proof -
  have I: "sched_inv s rq" "futex_rep s fq" using inv by (auto simp: kinv_def)
  have b: "b < 64" by (simp add: b_def)
  have tin: "t \<in> set (fq b)" using futex_repD(5) [OF I(2) st] by (simp add: b_def)
  note cb = blocked_not_ready [OF inv b tin]
  have ring: "is_ring (thr s) (futexhash s b) (fq b)" using futex_repD(1) [OF I(2) b] .
  have d: "distinct (fq b)" using ring by (simp add: is_ring_def)
  let ?R = "H2K_ring_remove_real (thr s) (futexhash s b) t"
  define s1 where "s1 = H2K_futex_cancel t s"
  have s1: "s1 = upd_thr t (r00_update (\<lambda>_. -1)) (s\<lparr>thr := fst ?R, futexhash := (futexhash s)(b := snd ?R)\<rparr>)"
    by (simp add: s1_def H2K_futex_cancel_def b_def futex_bucket_def Let_def split_beta)
  have pl: "ringnode.more (fst ?R u) = ringnode.more (thr s u)" for u by (rule kring.rem_payload)
  note mo = more_eqD [OF pl]
  have lk: "next (thr s1 u) = next (fst ?R u)" "prev (thr s1 u) = prev (fst ?R u)" for u by (simp_all add: s1)
  have fr: "fst ?R u = thr s u" if "u \<notin> set (fq b)" for u using kring.rem_frame [OF ring tin that] .
  have m1: "ringnode.more (thr s1 u) = ringnode.more (thr s u)" if "u \<noteq> t" for u using pl [of u] that by (simp add: s1)
  have pay: "status (thr s1 u) = status (thr s u)" "prio (thr s1 u) = prio (thr s u)" "hthread (thr s1 u) = hthread (thr s u)" for u
    by (simp_all add: s1 mo)
  have i1: "sched_inv s1 rq" using I(1)
  proof (rule sched_inv_frame)
    fix u assume "u \<in> rq_threads rq"
    then have "u \<notin> set (fq b)" using blocked_not_ready(1) [OF inv b] by blast
    then show "next (thr s1 u) = next (thr s u) \<and> prev (thr s1 u) = prev (thr s u)" by (simp add: lk fr)
  qed (simp_all add: pay, simp_all add: s1)
  let ?s' = "H2K_ready_append t s1"
  have i2: "sched_inv ?s' (rq(p := rq p @ [t]))" unfolding p_def
    using ready_append_inv [OF i1 _ cb(3,1)] pay cb(2) by simp
  have out: "thr ?s' u = thr s1 u" if "u \<notin> rq_threads rq" "u \<noteq> t" for u
    using ready_append_outside [OF sched_invD(1) [OF i1] that] .
  have fh: "futexhash ?s' = (futexhash s)(b := snd ?R)" using sched_rest_eqD(6) [OF sched_rest_queue(2) [of t s1]] by (simp add: s1)
  have "futex_rep ?s' (fq(b := remove1 t (fq b)))" using I(2) b tin
  proof (rule futex_rep_drop)
    have "is_ring (fst ?R) (snd ?R) (remove1 t (fq b))" using kring.rep_rem [OF ring tin] by simp
    then have "is_ring (thr ?s') (snd ?R) (remove1 t (fq b))"
    proof (rule is_ring_frame)
      fix u assume "u \<in> set (remove1 t (fq b))"
      then have "u \<in> set (fq b)" "u \<noteq> t" using d by auto
      then show "next (thr ?s' u) = next (fst ?R u) \<and> prev (thr ?s' u) = prev (fst ?R u)"
        using out blocked_not_ready(1) [OF inv b] lk by simp
    qed
    then show "is_ring (thr ?s') (futexhash ?s' b) (remove1 t (fq b))" by (simp add: fh)
    fix e assume e: "e < 64" "e \<noteq> b"
    have "next (thr ?s' u) = next (thr s u) \<and> prev (thr ?s' u) = prev (thr s u)" if u: "u \<in> set (fq e)" for u
    proof -
      have ub: "u \<notin> set (fq b)" using futex_repD(4) [OF I(2) e(1) u] futex_repD(4) [OF I(2) b, of u] e(2) by auto
      then have "u \<noteq> t" using tin by auto
      then show ?thesis using out [OF blocked_not_ready(1) [OF inv e(1) u]] lk fr [OF ub] by simp
    qed
    with futex_repD(1) [OF I(2) e(1)] e(2) show "is_ring (thr ?s') (futexhash ?s' e) (fq e)" by (simp add: fh) (erule is_ring_frame, simp)
  next
    show "ringnode.more (thr ?s' u) = ringnode.more (thr s u)" if "u \<noteq> t" for u
      using ready_append_more [of t s1 u] m1 that by simp
    show "status (thr ?s' t) \<noteq> H2K_STATUS_BLOCKED" using more_eqD(2) [OF ready_append_more [of t s1 t]] by simp
  qed
  with i2 show ?thesis by (simp add: kinv_def s1_def)
qed

section \<open>Delivery\<close>

text \<open>The threads an interrupt wakes, and the status word bits a delivery leaves alone.\<close>

definition wakes :: "H2K_thread_context \<Rightarrow> bool" where
  "wakes c \<longleftrightarrow> status c = H2K_STATUS_VMWAIT \<or> status c \<in> {H2K_STATUS_INTBLOCKED, H2K_STATUS_BLOCKED} \<and> vm_ie c"

lemma kview_swi [simp]: "kview (H2K_vm_ipi_send_withlock t s) = kview s"
  by (simp add: H2K_vm_ipi_send_withlock_def H2K_vm_ipi_send_withlock_mask_def Let_def swi_def iassignw_def kview_def)

lemma ipi_frame [simp]:
  "thr (H2K_vm_ipi_send_withlock t s) = thr s" "vmb (H2K_vm_ipi_send_withlock t s) = vmb s" "bkl (H2K_vm_ipi_send_withlock t s) = bkl s"
  by (simp_all add: H2K_vm_ipi_send_withlock_def H2K_vm_ipi_send_withlock_mask_def Let_def swi_def iassignw_def)

lemma enqueue_kinv:
  assumes inv: "kinv (H2K_ready_append t s) rq fq" and run: "status (thr s c) = H2K_STATUS_RUNNING" and ct: "c \<noteq> t"
  shows "kinv (deliver_enqueue t s) rq fq" "vmb (deliver_enqueue t s) = vmb s" "bkl (deliver_enqueue t s) = bkl s"
    "ringnode.more (thr (deliver_enqueue t s) u) = ringnode.more (if u = t then (thr s t)\<lparr>status := H2K_STATUS_READY\<rparr> else thr s u)"
proof -
  have "status (thr (H2K_ready_append t s) c) = H2K_STATUS_RUNNING"
    using more_eqD(2) [OF ready_append_more [of t s c]] run ct by simp
  note k = kinv_sanity [OF inv this, of 0]
  show "kinv (deliver_enqueue t s) rq fq" using k(1) by (simp add: deliver_enqueue_def)
  show "vmb (deliver_enqueue t s) = vmb s" "bkl (deliver_enqueue t s) = bkl s"
    using k(3,4) sched_rest_eqD(1,10) [OF sched_rest_queue(2) [of t s]] by (simp_all add: deliver_enqueue_def)
  show "ringnode.more (thr (deliver_enqueue t s) u) = ringnode.more (if u = t then (thr s t)\<lparr>status := H2K_STATUS_READY\<rparr> else thr s u)"
    using k(2) ready_append_more [of t s u] by (simp add: deliver_enqueue_def)
qed

text \<open>
  What a thread keeps when it is woken: everything but its links, its status and its first
  register.
\<close>

definition woken_as :: "u32 \<Rightarrow> ptr \<Rightarrow> H2K_kg_t \<Rightarrow> H2K_kg_t \<Rightarrow> bool" where
  "woken_as r t s s' \<longleftrightarrow> (\<forall>u. ringnode.more (thr s' u) = ringnode.more (if u = t then (thr s t)\<lparr>r00 := r, status := H2K_STATUS_READY\<rparr> else thr s u))"

lemma deliver_dead: "status (thr s t) = H2K_STATUS_DEAD \<Longrightarrow> H2K_vm_int_deliver_locked vb t intno s = (s, -1)"
  by (simp add: H2K_vm_int_deliver_locked_def)

lemma deliver_asleep:
  assumes "\<not> wakes (thr s t)" "status (thr s t) \<noteq> H2K_STATUS_DEAD"
  shows "snd (H2K_vm_int_deliver_locked vb t intno s) = 0"
    "thr (fst (H2K_vm_int_deliver_locked vb t intno s)) = thr s" "vmb (fst (H2K_vm_int_deliver_locked vb t intno s)) = vmb s"
    "bkl (fst (H2K_vm_int_deliver_locked vb t intno s)) = bkl s" "kview (fst (H2K_vm_int_deliver_locked vb t intno s)) = kview s"
  using assms by (auto simp: H2K_vm_int_deliver_locked_def wakes_def split: tstatus.splits)

lemma deliver_wakes:
  fixes intno :: u32
  assumes inv: "kinv s rq fq" and run: "status (thr s c) = H2K_STATUS_RUNNING" and w: "wakes (thr s t)" and t: "t \<noteq> NULL"
  defines "p \<equiv> unat (prio (thr s t))" and "b \<equiv> futex_bucket (thr s t)"
  defines "r \<equiv> if status (thr s t) = H2K_STATUS_VMWAIT then intno else -1"
  shows "\<exists>s'. H2K_vm_int_deliver_locked vb t intno s = (s', 0) \<and> kinv s' (rq(p := rq p @ [t])) (fq(b := remove1 t (fq b))) \<and>
    woken_as r t s s' \<and> bkl s' = bkl s \<and> (\<forall>v. percpu_mask (vmb s' v) = percpu_mask (vmb s v) \<and> pending (vmb s' v) = pending (vmb s v) \<and>
      enable (vmb s' v) = enable (vmb s v) \<and> num_ints (vmb s' v) = num_ints (vmb s v) \<and> max_cpus (vmb s' v) = max_cpus (vmb s v) \<and>
      contexts (vmb s' v) = contexts (vmb s v) \<and> intinfo (vmb s' v) = intinfo (vmb s v))"
proof -
  have fut: "futex_rep s fq" using inv by (simp add: kinv_def)
  have ct: "c \<noteq> t" using run w by (auto simp: wakes_def)
  have nb: "fq(b := remove1 t (fq b)) = fq" if "status (thr s t) \<noteq> H2K_STATUS_BLOCKED"
    using not_queued [OF fut that, of b] by (simp add: b_def remove1_idem)
  consider (vmwait) "status (thr s t) = H2K_STATUS_VMWAIT" | (int) "status (thr s t) = H2K_STATUS_INTBLOCKED" "vm_ie (thr s t)"
    | (futex) "status (thr s t) = H2K_STATUS_BLOCKED" "vm_ie (thr s t)" using w by (auto simp: wakes_def)
  then show ?thesis
  proof cases
    case vmwait
    define s1 where "s1 = upd_thr t (r00_update (\<lambda>_. intno)) (if unat (cpuidx (id (thr s t))) < 64
      then upd_vmb vb (\<lambda>v. v\<lparr>waiting_cpus := waiting_cpus v AND NOT (push_bit (unat (cpuidx (id (thr s t)))) 1)\<rparr>) s else s)"
    have k: "kinv s1 rq fq" by (rule kinv_view [OF inv]) (simp add: s1_def kview_thr tview_def)
    have f: "status (thr s1 t) = H2K_STATUS_VMWAIT" "prio (thr s1 t) = prio (thr s t)" "status (thr s1 c) = H2K_STATUS_RUNNING" "bkl s1 = bkl s"
      using vmwait run ct by (simp_all add: s1_def upd_vmb_def upd_thr_def)
    have "kinv (H2K_ready_append t s1) (rq(p := rq p @ [t])) fq" using kinv_ready [OF k _ t] f by (simp add: p_def)
    note e = enqueue_kinv [OF this f(3) ct]
    have "H2K_vm_int_deliver_locked vb t intno s = (deliver_enqueue t s1, 0)"
      by (simp add: H2K_vm_int_deliver_locked_def vmwait s1_def Let_def)
    moreover have "thr s1 = (thr s)(t := (thr s t)\<lparr>r00 := intno\<rparr>)" by (simp add: s1_def upd_thr_def upd_vmb_def)
    then have "woken_as r t s (deliver_enqueue t s1)" using e(4) vmwait by (simp add: woken_as_def r_def)
    moreover have "percpu_mask (vmb s1 v) = percpu_mask (vmb s v) \<and> pending (vmb s1 v) = pending (vmb s v) \<and>
      enable (vmb s1 v) = enable (vmb s v) \<and> num_ints (vmb s1 v) = num_ints (vmb s v) \<and> max_cpus (vmb s1 v) = max_cpus (vmb s v) \<and>
      contexts (vmb s1 v) = contexts (vmb s v) \<and> intinfo (vmb s1 v) = intinfo (vmb s v)" for v
      by (simp add: s1_def upd_vmb_def upd_thr_def)
    ultimately show ?thesis using e(1-3) f(4) nb vmwait by simp
  next
    case int
    define s1 where "s1 = H2K_popup_cancel t s"
    have k: "kinv s1 rq fq" by (rule kinv_view [OF inv]) (auto simp: s1_def H2K_popup_cancel_def kview_def tview_def Let_def upd_thr_def fun_eq_iff)
    have f: "status (thr s1 t) = H2K_STATUS_INTBLOCKED" "prio (thr s1 t) = prio (thr s t)" "status (thr s1 c) = H2K_STATUS_RUNNING" "bkl s1 = bkl s"
      "vmb s1 = vmb s"
      using int run ct by (simp_all add: s1_def H2K_popup_cancel_def Let_def upd_thr_def)
    have "kinv (H2K_ready_append t s1) (rq(p := rq p @ [t])) fq" using kinv_ready [OF k _ t] f by (simp add: p_def)
    note e = enqueue_kinv [OF this f(3) ct]
    have "H2K_vm_int_deliver_locked vb t intno s = (deliver_enqueue t s1, 0)"
      by (simp add: H2K_vm_int_deliver_locked_def int s1_def Let_def)
    moreover have "thr s1 = (thr s)(t := (thr s t)\<lparr>r00 := -1\<rparr>)" by (simp add: s1_def H2K_popup_cancel_def Let_def upd_thr_def)
    then have "woken_as r t s (deliver_enqueue t s1)" using e(4) int by (simp add: woken_as_def r_def)
    ultimately show ?thesis using e(1-3) f(4,5) nb int by simp
  next
    case futex
    have ri: "status (thr (H2K_futex_cancel t s) c) = H2K_STATUS_RUNNING" "vmb (H2K_futex_cancel t s) = vmb s" "bkl (H2K_futex_cancel t s) = bkl s"
      using run ct more_eqD(2) [OF kring.rem_payload] by (simp_all add: H2K_futex_cancel_def Let_def split_beta upd_thr_def)
    have k: "kinv (H2K_ready_append t (H2K_futex_cancel t s)) (rq(p := rq p @ [t])) (fq(b := remove1 t (fq b)))"
      unfolding p_def b_def using inv futex(1) by (rule kinv_cancel_ready)
    note e = enqueue_kinv [OF k ri(1) ct]
    have "H2K_vm_int_deliver_locked vb t intno s = (deliver_enqueue t (H2K_futex_cancel t s), 0)"
      by (simp add: H2K_vm_int_deliver_locked_def futex)
    moreover have "woken_as r t s (deliver_enqueue t (H2K_futex_cancel t s))" unfolding woken_as_def
    proof
      fix u
      let ?h = "fst (H2K_ring_remove_real (thr s) (futexhash s (unat (FUTEX_HASHVAL (ucast (futex_ptr (thr s t)))))) t)"
      have "thr (H2K_futex_cancel t s) = ?h(t := (?h t)\<lparr>r00 := -1\<rparr>)"
        by (simp add: H2K_futex_cancel_def Let_def split_beta upd_thr_def)
      moreover have "ringnode.more (?h u) = ringnode.more (thr s u)" for u by (rule kring.rem_payload)
      from this [of t] this [of u] show "ringnode.more (thr (deliver_enqueue t (H2K_futex_cancel t s)) u) =
          ringnode.more (if u = t then (thr s t)\<lparr>r00 := r, status := H2K_STATUS_READY\<rparr> else thr s u)"
        using e(4) [of u] futex(1) calculation by (cases "?h t"; cases "thr s t") (auto simp: r_def)
    qed
    ultimately show ?thesis using e(1-3) ri by simp
  qed
qed

text \<open>What every delivery keeps: the configuration of the interrupts and the identities of the threads.\<close>

definition vkeep :: "H2K_kg_t \<Rightarrow> H2K_kg_t \<Rightarrow> bool" where
  "vkeep s s' \<longleftrightarrow>
     (\<forall>v. percpu_mask (vmb s' v) = percpu_mask (vmb s v) \<and> pending (vmb s' v) = pending (vmb s v) \<and>
       enable (vmb s' v) = enable (vmb s v) \<and> num_ints (vmb s' v) = num_ints (vmb s v) \<and> max_cpus (vmb s' v) = max_cpus (vmb s v) \<and>
       contexts (vmb s' v) = contexts (vmb s v) \<and> intinfo (vmb s' v) = intinfo (vmb s v)) \<and>
     (\<forall>u. id (thr s' u) = id (thr s u) \<and> cpuint_pending (thr s' u) = cpuint_pending (thr s u) \<and>
       cpuint_enabled (thr s' u) = cpuint_enabled (thr s u) \<and> vmblock (thr s' u) = vmblock (thr s u))"

lemma vkeep_refl [simp]: "vkeep s s" by (simp add: vkeep_def)

lemma vkeep_trans: "vkeep s s1 \<Longrightarrow> vkeep s1 s2 \<Longrightarrow> vkeep s s2" unfolding vkeep_def by metis

lemma woken_as_sel:
  assumes "woken_as r t s s'"
  shows "id (thr s' u) = id (thr s u)" "cpuint_pending (thr s' u) = cpuint_pending (thr s u)"
    "cpuint_enabled (thr s' u) = cpuint_enabled (thr s u)" "vmblock (thr s' u) = vmblock (thr s u)"
    "vmstatus (thr s' u) = vmstatus (thr s u)" "status (thr s' u) = (if u = t then H2K_STATUS_READY else status (thr s u))"
    "r00 (thr s' u) = (if u = t then r else r00 (thr s u))"
  using spec [OF assms [unfolded woken_as_def], of u] by (cases "thr s' u"; cases "thr s u"; simp split: if_splits)+

lemma work_bit:
  "status (thr (set_vmstatus VMWORK t s) u) = status (thr s u)" "vm_ie (thr (set_vmstatus VMWORK t s) u) = vm_ie (thr s u)"
  "bit (vmstatus (thr (set_vmstatus VMWORK t s) t)) VMWORK" "vmb (set_vmstatus VMWORK t s) = vmb s"
  "kview (set_vmstatus VMWORK t s) = kview s" "vkeep s (set_vmstatus VMWORK t s)" "bkl (set_vmstatus VMWORK t s) = bkl s"
  by (auto simp: set_vmstatus_def H2K_atomic_setbit_def VMWORK_def IE_def kview_def tview_def vkeep_def upd_thr_def)

lemma locks_thr [simp]: "vkeep s (BKL_LOCK s') = vkeep s s'" "vkeep s (BKL_UNLOCK s') = vkeep s s'"
  "vkeep (BKL_LOCK s) s' = vkeep s s'" "vmb (BKL_UNLOCK s) = vmb s"
  by (simp_all add: vkeep_def BKL_LOCK_def BKL_UNLOCK_def)

lemma deliver_spec:
  assumes inv: "kinv s rq fq" and run: "status (thr s c) = H2K_STATUS_RUNNING" and t: "t \<noteq> NULL" and live: "status (thr s t) \<noteq> H2K_STATUS_DEAD"
  shows "\<exists>s' rq' fq'. H2K_vm_int_deliver vb t intno s = (s', 0) \<and> kinv s' rq' fq' \<and> vkeep s s' \<and> \<not> bkl s' \<and>
    status (thr s' c) = H2K_STATUS_RUNNING \<and> vmstatus (thr s' t) = vmstatus (thr s t) \<and>
    status (thr s' t) = (if wakes (thr s t) then H2K_STATUS_READY else status (thr s t))"
proof (cases "wakes (thr s t)")
  case True
  then have w: "wakes (thr (BKL_LOCK s) t)" "status (thr (BKL_LOCK s) c) = H2K_STATUS_RUNNING" using run by simp_all
  have ct: "c \<noteq> t" using run True by (auto simp: wakes_def)
  obtain s' rq' fq' r where d: "H2K_vm_int_deliver_locked vb t intno (BKL_LOCK s) = (s', 0)" "kinv s' rq' fq'"
    "woken_as r t (BKL_LOCK s) s'" "\<forall>v. percpu_mask (vmb s' v) = percpu_mask (vmb (BKL_LOCK s) v) \<and> pending (vmb s' v) = pending (vmb (BKL_LOCK s) v) \<and>
      enable (vmb s' v) = enable (vmb (BKL_LOCK s) v) \<and> num_ints (vmb s' v) = num_ints (vmb (BKL_LOCK s) v) \<and> max_cpus (vmb s' v) = max_cpus (vmb (BKL_LOCK s) v) \<and>
      contexts (vmb s' v) = contexts (vmb (BKL_LOCK s) v) \<and> intinfo (vmb s' v) = intinfo (vmb (BKL_LOCK s) v)"
    using deliver_wakes [OF kinv_locks(1) [OF inv] w(2,1) t, of vb intno] by (elim exE conjE)
  have "vkeep s s'" using d(4) woken_as_sel(1-4) [OF d(3)] by (simp add: vkeep_def)
  with d True run ct woken_as_sel [OF d(3)] show ?thesis
    by (intro exI [of _ "BKL_UNLOCK s'"] exI [of _ rq'] exI [of _ fq']) (simp add: H2K_vm_int_deliver_def kinv_locks)
next
  case False
  note a = deliver_asleep [of "BKL_LOCK s" t vb intno]
  let ?s = "fst (H2K_vm_int_deliver_locked vb t intno (BKL_LOCK s))"
  have f: "snd (H2K_vm_int_deliver_locked vb t intno (BKL_LOCK s)) = 0" "thr ?s = thr s" "vmb ?s = vmb s" "kview ?s = kview s"
    using a False live by simp_all
  have "kinv (BKL_UNLOCK ?s) rq fq" by (rule kinv_view [OF inv]) (simp add: f)
  then show ?thesis using False run f
    by (intro exI [of _ "BKL_UNLOCK ?s"] exI [of _ rq] exI [of _ fq]) (simp add: H2K_vm_int_deliver_def split_beta vkeep_def)
qed

section \<open>Shared delivery\<close>

text \<open>CPU \<open>i\<close> has been told of a shared interrupt it accepts.\<close>

definition told :: "ptr \<Rightarrow> u32 \<Rightarrow> nat \<Rightarrow> H2K_kg_t \<Rightarrow> bool" where
  "told vb intno i s \<longleftrightarrow> i < unat (max_cpus (vmb s vb)) \<and> bit (percpu_mask (vmb s vb) i (wordidx intno)) (bitidx intno) \<and>
     bit (vmstatus (thr s (context_of vb i s))) VMWORK \<and> status (thr s (context_of vb i s)) \<noteq> H2K_STATUS_DEAD"

text \<open>The contexts of a VM: one per CPU, each with its own CPU index.\<close>

definition cpus_ok :: "ptr \<Rightarrow> H2K_kg_t \<Rightarrow> bool" where
  "cpus_ok vb s \<longleftrightarrow> contexts (vmb s vb) \<noteq> NULL \<and>
     (\<forall>i<unat (max_cpus (vmb s vb)). unat (cpuidx (id (thr s (context_of vb i s)))) = i)"

definition accepts :: "ptr \<Rightarrow> u32 \<Rightarrow> nat \<Rightarrow> H2K_kg_t \<Rightarrow> bool" where
  "accepts vb intno i s \<longleftrightarrow> bit (percpu_mask (vmb s vb) i (wordidx intno)) (bitidx intno) \<and> status (thr s (context_of vb i s)) \<noteq> H2K_STATUS_DEAD"

lemma bitidx_lt: "bitidx n < 32"
proof -
  have "n AND 0x1f = take_bit 5 n" by (simp add: take_bit_eq_mask mask_eq_exp_minus_1)
  then have "bitidx n = take_bit 5 (unat n)" by (simp add: bitidx_def unsigned_take_bit_eq)
  then show ?thesis using take_bit_nat_less_exp [of 5 "unat n"] by simp
qed

definition quiet :: "H2K_kg_t \<Rightarrow> H2K_kg_t \<Rightarrow> bool" where
  "quiet s s' \<longleftrightarrow> kview s' = kview s \<and> vmb s' = vmb s \<and> vkeep s s'"

lemma quiet_status: "quiet s s' \<Longrightarrow> status (thr s' u) = status (thr s u)"
  using fun_cong [of "\<lambda>u. tview (thr s' u)" "\<lambda>u. tview (thr s u)" u] by (simp add: quiet_def kview_def tview_def)

lemma quiet_refl [simp]: "quiet s s" by (simp add: quiet_def)

lemma quiet_trans: "quiet s s1 \<Longrightarrow> quiet s1 s2 \<Longrightarrow> quiet s s2"
  using vkeep_trans [of s s1 s2] by (simp add: quiet_def)

lemma vkeep_context: "vkeep s s' \<Longrightarrow> context_of vb i s' = context_of vb i s" by (simp add: vkeep_def context_of_def)

lemma vkeep_cpus: "vkeep s s' \<Longrightarrow> cpus_ok vb s' = cpus_ok vb s"
  by (simp add: cpus_ok_def vkeep_context) (simp add: vkeep_def)

lemma quiet_accepts: "quiet s s' \<Longrightarrow> accepts vb intno i s' = accepts vb intno i s"
  using quiet_status [of s s'] vkeep_context [of s s' vb i] by (simp add: accepts_def quiet_def)

lemma deliver_cpu_spec:
  assumes inv: "kinv s rq fq" and run: "status (thr s c) = H2K_STATUS_RUNNING" and ok: "cpus_ok vb s" and i: "i < unat (max_cpus (vmb s vb))"
  shows "if accepts vb intno i s
    then \<exists>s' rq' fq'. H2K_vm_shint_deliver_cpu vb (context_of vb i s) intno s = (s', True) \<and> kinv s' rq' fq' \<and> vkeep s s' \<and>
      told vb intno i s' \<and> status (thr s' c) = H2K_STATUS_RUNNING
    else \<exists>s'. H2K_vm_shint_deliver_cpu vb (context_of vb i s) intno s = (s', False) \<and> quiet s s'"
proof -
  let ?t = "context_of vb i s"
  let ?s0 = "set_vmstatus VMWORK ?t s"
  have t: "?t \<noteq> NULL" "unat (cpuidx (id (thr s ?t))) = i" using ok i by (auto simp: cpus_ok_def context_of_def)
  have ev: "H2K_vm_shint_deliver_cpu vb ?t intno s =
    (if bit (percpu_mask (vmb s vb) i (wordidx intno)) (bitidx intno)
     then (fst (H2K_vm_int_deliver vb ?t intno ?s0), snd (H2K_vm_int_deliver vb ?t intno ?s0) \<noteq> -1) else (s, False))"
    by (simp add: H2K_vm_shint_deliver_cpu_def Let_def t split_beta)
  have k0: "kinv ?s0 rq fq" by (rule kinv_view [OF inv]) (simp add: work_bit)
  show ?thesis
  proof (cases "accepts vb intno i s")
    case True
    then have a: "bit (percpu_mask (vmb s vb) i (wordidx intno)) (bitidx intno)" "status (thr ?s0 ?t) \<noteq> H2K_STATUS_DEAD"
      by (simp_all add: accepts_def work_bit)
    have r0: "status (thr ?s0 c) = H2K_STATUS_RUNNING" using run by (simp add: work_bit)
    obtain s' rq' fq' where d: "H2K_vm_int_deliver vb ?t intno ?s0 = (s', 0)" "kinv s' rq' fq'" "vkeep ?s0 s'" "\<not> bkl s'"
      "status (thr s' c) = H2K_STATUS_RUNNING" "vmstatus (thr s' ?t) = vmstatus (thr ?s0 ?t)"
      "status (thr s' ?t) = (if wakes (thr ?s0 ?t) then H2K_STATUS_READY else status (thr ?s0 ?t))"
      using deliver_spec [OF k0 r0 t(1) a(2), of vb intno] by (elim exE conjE)
    have v: "vkeep s s'" using vkeep_trans [OF work_bit(6) d(3)] .
    have "told vb intno i s'" unfolding told_def vkeep_context [OF v] using v d(6,7) a i work_bit(3) [of ?t s] by (simp add: vkeep_def)
    with True ev a d v show ?thesis by auto
  next
    case False
    show ?thesis
    proof (cases "bit (percpu_mask (vmb s vb) i (wordidx intno)) (bitidx intno)")
      case True
      with False have "status (thr ?s0 ?t) = H2K_STATUS_DEAD" by (simp add: accepts_def work_bit)
      then have "H2K_vm_int_deliver vb ?t intno ?s0 = (BKL_UNLOCK (BKL_LOCK ?s0), -1)" by (simp add: H2K_vm_int_deliver_def deliver_dead)
      moreover have "quiet s (BKL_UNLOCK (BKL_LOCK ?s0))" by (simp add: quiet_def work_bit)
      ultimately show ?thesis using False True ev by auto
    qed (use False ev in auto)
  qed
qed

definition got :: "ptr \<Rightarrow> u32 \<Rightarrow> ptr \<Rightarrow> H2K_kg_t \<Rightarrow> H2K_kg_t \<Rightarrow> bool" where
  "got vb intno c s s' \<longleftrightarrow> (\<exists>rq fq. kinv s' rq fq) \<and> vkeep s s' \<and> status (thr s' c) = H2K_STATUS_RUNNING \<and> (\<exists>i. told vb intno i s')"

lemma got_quiet: "quiet s s1 \<Longrightarrow> got vb intno c s1 s2 \<Longrightarrow> got vb intno c s s2"
  using vkeep_trans [of s s1 s2] by (auto simp: got_def quiet_def)

lemma deliver_cpu_got:
  assumes inv: "kinv s rq fq" and run: "status (thr s c) = H2K_STATUS_RUNNING" and ok: "cpus_ok vb s" and i: "i < unat (max_cpus (vmb s vb))"
  obtains (hit) s' where "H2K_vm_shint_deliver_cpu vb (context_of vb i s) intno s = (s', True)" "got vb intno c s s'"
  | (miss) s' where "H2K_vm_shint_deliver_cpu vb (context_of vb i s) intno s = (s', False)" "quiet s s'" "\<not> accepts vb intno i s"
proof (cases "accepts vb intno i s")
  case True
  with deliver_cpu_spec [OF assms, of intno] obtain s' rq' fq' where
    "H2K_vm_shint_deliver_cpu vb (context_of vb i s) intno s = (s', True)" "kinv s' rq' fq'" "vkeep s s'" "told vb intno i s'"
    "status (thr s' c) = H2K_STATUS_RUNNING" by (simp only: if_True) (elim exE conjE)
  with hit show ?thesis by (auto simp: got_def)
next
  case False
  with deliver_cpu_spec [OF assms, of intno] obtain s' where
    "H2K_vm_shint_deliver_cpu vb (context_of vb i s) intno s = (s', False)" "quiet s s'" by (simp only: if_False) (elim exE conjE)
  with miss False show ?thesis by blast
qed

lemma quiet_kept:
  assumes "quiet s s'" "kinv s rq fq" "cpus_ok vb s" "status (thr s c) = H2K_STATUS_RUNNING"
  shows "kinv s' rq fq" "cpus_ok vb s'" "status (thr s' c) = H2K_STATUS_RUNNING" "max_cpus (vmb s' vb) = max_cpus (vmb s vb)"
  using assms kinv_view [OF assms(2), of s'] vkeep_cpus [of s s' vb] quiet_status [OF assms(1)] by (simp_all add: quiet_def)

lemma deliver_waiting_spec:
  assumes "kinv s rq fq" "cpus_ok vb s" "status (thr s c) = H2K_STATUS_RUNNING"
  shows "\<exists>s'. deliver_waiting vb intno is s = (s', True) \<and> got vb intno c s s' \<or> deliver_waiting vb intno is s = (s', False) \<and> quiet s s'"
  using assms
proof (induction "is" arbitrary: s)
  case (Cons i l)
  show ?case
  proof (cases "i < unat (max_cpus (vmb s vb)) \<and> bit (waiting_cpus (vmb s vb)) i")
    case True
    then show ?thesis
    proof (cases rule: deliver_cpu_got [OF Cons.prems(1,3,2) conjunct1 [OF True], of intno, case_names hit miss])
      case (hit s')
      with True show ?thesis by auto
    next
      case (miss s')
      note q = quiet_kept [OF miss(2) Cons.prems]
      from Cons.IH [OF q(1-3)] obtain s'' where
        "deliver_waiting vb intno l s' = (s'', True) \<and> got vb intno c s' s'' \<or> deliver_waiting vb intno l s' = (s'', False) \<and> quiet s' s''" by blast
      then show ?thesis using True miss(1) got_quiet [OF miss(2)] quiet_trans [OF miss(2)] by (intro exI [of _ s'']) auto
    qed
  next
    case False
    then show ?thesis using Cons.IH [OF Cons.prems] by auto
  qed
qed simp

text \<open>The CPUs the circular search has still to try, and how many they are.\<close>

definition untried :: "nat \<Rightarrow> nat \<Rightarrow> nat \<Rightarrow> nat set" where
  "untried m cpu i = {j. j < m \<and> (if cpu \<le> i then i \<le> j \<or> j < cpu else i \<le> j \<and> j < cpu)}"

lemma untried_step:
  assumes "i < m" "cpu < m"
  defines "k \<equiv> if i + 1 \<ge> m then 0 else i + 1"
  shows "k = cpu \<Longrightarrow> untried m cpu i = {i}" "k \<noteq> cpu \<Longrightarrow> untried m cpu i = insert i (untried m cpu k)" "k < m"
    "k \<noteq> cpu \<Longrightarrow> (if cpu \<le> k then m - k + cpu else cpu - k) < (if cpu \<le> i then m - i + cpu else cpu - i)"
  using assms by (auto simp: untried_def split: if_splits)

lemma deliver_all_spec:
  fixes cpu i :: u32
  assumes "kinv s rq fq" "cpus_ok vb s" "status (thr s c) = H2K_STATUS_RUNNING" "i < max_cpus (vmb s vb)" "cpu < max_cpus (vmb s vb)"
  shows "\<exists>s'. deliver_all vb intno cpu i s = Some s' \<and>
    (got vb intno c s s' \<or> quiet s s' \<and> (\<forall>j\<in>untried (unat (max_cpus (vmb s vb))) (unat cpu) (unat i). \<not> accepts vb intno j s))"
  using assms
proof (induction "if unat cpu \<le> unat i then unat (max_cpus (vmb s vb)) - unat i + unat cpu else unat cpu - unat i"
    arbitrary: i s rule: less_induct)
  case less
  let ?m = "max_cpus (vmb s vb)"
  have lt: "unat i < unat ?m" "unat cpu < unat ?m" using less.prems(4,5) by (simp_all add: word_less_nat_alt)
  show ?case
  proof (cases rule: deliver_cpu_got [OF less.prems(1,3,2) lt(1), of intno, case_names hit miss])
    case (hit s')
    then have "deliver_all vb intno cpu i s = Some s'" by (subst deliver_all.simps) simp
    with hit show ?thesis by blast
  next
    case (miss s')
    note q = quiet_kept [OF miss(2) less.prems(1-3)]
    define k where "k = (if i + 1 \<ge> ?m then 0 else i + 1)"
    have k: "unat k = (if unat i + 1 \<ge> unat ?m then 0 else unat i + 1)"
      using unat_suc [OF lt(1)] by (simp add: k_def word_le_nat_alt)
    note u = untried_step [OF lt, folded k]
    show ?thesis
    proof (cases "k = cpu")
      case True
      then have "deliver_all vb intno cpu i s = Some s'" using miss(1) by (subst deliver_all.simps) (simp add: q(4) Let_def k_def)
      with miss True u(1) show ?thesis by simp
    next
      case False
      then have ne: "unat k \<noteq> unat cpu" by (simp add: word_unat_eq_iff)
      have "\<exists>s2. deliver_all vb intno cpu k s' = Some s2 \<and>
          (got vb intno c s' s2 \<or> quiet s' s2 \<and> (\<forall>j\<in>untried (unat (max_cpus (vmb s' vb))) (unat cpu) (unat k). \<not> accepts vb intno j s'))"
        using _ q(1-3)
      proof (rule less.hyps)
        show "(if unat cpu \<le> unat k then unat (max_cpus (vmb s' vb)) - unat k + unat cpu else unat cpu - unat k)
            < (if unat cpu \<le> unat i then unat ?m - unat i + unat cpu else unat cpu - unat i)" unfolding q(4) using u(4) [OF ne] .
      qed (use u(3) less.prems(5) in \<open>simp_all add: q(4) word_less_nat_alt\<close>)
      then obtain s2 where s2: "deliver_all vb intno cpu k s' = Some s2"
        "got vb intno c s' s2 \<or> quiet s' s2 \<and> (\<forall>j\<in>untried (unat ?m) (unat cpu) (unat k). \<not> accepts vb intno j s)"
        by (auto simp: q(4) quiet_accepts [OF miss(2)])
      have "deliver_all vb intno cpu i s = Some s2"
        using miss(1) False s2(1) by (subst deliver_all.simps) (simp add: q(4) Let_def k_def [symmetric])
      with s2(2) got_quiet [OF miss(2)] quiet_trans [OF miss(2)] miss(3) u(2) [OF ne] show ?thesis by (intro exI [of _ s2]) auto
    qed
  qed
qed

lemma shint_deliver_spec:
  assumes "kinv s rq fq" "cpus_ok vb s" "status (thr s c) = H2K_STATUS_RUNNING" "unat (cpuidx (id (thr s me))) < unat (max_cpus (vmb s vb))"
  shows "\<exists>s'. H2K_vm_shint_deliver vb me intno s = Some s' \<and>
    (got vb intno c s s' \<or> quiet s s' \<and> (\<forall>j<unat (max_cpus (vmb s vb)). \<not> accepts vb intno j s))"
proof -
  define cpu :: u32 where "cpu = ucast (cpuidx (id (thr s me)))"
  obtain s1 where w: "deliver_waiting vb intno [ct0 (waiting_cpus (vmb s vb))..<64] s = (s1, True) \<and> got vb intno c s s1 \<or>
      deliver_waiting vb intno [ct0 (waiting_cpus (vmb s vb))..<64] s = (s1, False) \<and> quiet s s1"
    using deliver_waiting_spec [OF assms(1-3)] by blast
  show ?thesis
  proof (cases "snd (deliver_waiting vb intno [ct0 (waiting_cpus (vmb s vb))..<64] s)")
    case True
    with w show ?thesis by (auto simp: H2K_vm_shint_deliver_def Let_def)
  next
    case False
    with w have w': "deliver_waiting vb intno [ct0 (waiting_cpus (vmb s vb))..<64] s = (s1, False)" "quiet s s1" by auto
    note q = quiet_kept [OF w'(2) assms(1-3)]
    have c: "unat cpu = unat (cpuidx (id (thr s me)))"
      by (simp add: cpu_def unsigned_ucast_eq take_bit_nat_eq_self order_less_trans [OF unsigned_less])
    then have lt: "cpu < max_cpus (vmb s1 vb)" using assms(4) by (simp add: q(4) word_less_nat_alt)
    obtain s2 where s2: "deliver_all vb intno cpu cpu s1 = Some s2"
      "got vb intno c s1 s2 \<or> quiet s1 s2 \<and> (\<forall>j\<in>untried (unat (max_cpus (vmb s1 vb))) (unat cpu) (unat cpu). \<not> accepts vb intno j s1)"
      using deliver_all_spec [OF q(1-3) lt lt, of intno] by (elim exE conjE)
    have "untried m x x = {..<m}" for m x by (auto simp: untried_def)
    with s2 w' got_quiet [OF w'(2)] quiet_trans [OF w'(2)] show ?thesis
      by (intro exI [of _ s2]) (auto simp: H2K_vm_shint_deliver_def Let_def cpu_def [symmetric] q(4) quiet_accepts [OF w'(2)])
  qed
qed

section \<open>Properties\<close>

text \<open>
  C25: taking a virtual interrupt. On the chain of controllers of a VM, \<open>get\<close> returns the
  least interrupt number that is pending and enabled for the thread (for shared interrupts:
  also enabled on its CPU), and takes exactly that one; without one it returns \<open>-1\<close> and
  changes nothing. \<open>peek\<close> returns the same number and changes nothing. Neither touches the
  scheduler.
\<close>

theorem int_get_takes_least:
  fixes s :: H2K_kg_t and me :: ptr
  assumes "intinfo_ok (vmb s vb)"
  defines "r \<equiv> if ints vb me s = {} then -1 else sint (of_nat (Min (ints vb me s)) :: u32)"
  shows "\<exists>s'. int_call H2K_INTOP_GET (intinfo (vmb s vb)) vb me 0 s = Some (s', r) \<and>
      ints vb me s' = ints vb me s - (if ints vb me s = {} then {} else {Min (ints vb me s)}) \<and> kview s' = kview s \<and>
      int_call H2K_INTOP_PEEK (intinfo (vmb s vb)) vb me 0 s = Some (s, r)"
proof (cases "ints vb me s = {}")
  case True
  then show ?thesis using get_peek_spec [OF assms(1)] by (simp add: r_def)
next
  case False
  let ?i = "Min (ints vb me s)"
  have "?i \<in> ints vb me s" using ints_finite False by (rule Min_in)
  note t = int_take_ints [OF this]
  have "kview (int_take ?i vb me s) = kview s"
    by (auto simp: int_take_def clr_enabled_def clr_pending_def sh_take_def kview_def tview_def upd_thr_def upd_vmb_def)
  with False t show ?thesis using get_peek_spec [OF assms(1)] by (simp add: r_def)
qed

text \<open>
  C6: delivering an interrupt to a thread. A waiting thread, or one blocked on a futex or a
  physical interrupt with guest interrupts enabled, is taken off its queue and made ready at
  the end of the queue of its priority: it returns the interrupt number if it waited for one
  and \<open>-1\<close> otherwise. Any other live thread stays as it is; for a dead thread the delivery
  fails. The kernel invariant holds again in all cases.
\<close>

theorem vm_int_deliver_correct:
  fixes intno :: u32 and vb :: ptr
  assumes "kinv s rq fq" "status (thr s c) = H2K_STATUS_RUNNING" "t \<noteq> NULL"
  defines "p \<equiv> unat (prio (thr s t))" and "b \<equiv> futex_bucket (thr s t)"
  defines "d \<equiv> H2K_vm_int_deliver_locked vb t intno s"
  shows "if wakes (thr s t)
    then snd d = 0 \<and> kinv (fst d) (rq(p := rq p @ [t])) (fq(b := remove1 t (fq b))) \<and>
      woken_as (if status (thr s t) = H2K_STATUS_VMWAIT then intno else -1) t s (fst d)
    else snd d = (if status (thr s t) = H2K_STATUS_DEAD then -1 else 0) \<and> kinv (fst d) rq fq \<and> thr (fst d) = thr s"
proof (cases "wakes (thr s t)")
  case True
  then show ?thesis using deliver_wakes [OF assms(1,2) True assms(3), of vb intno] by (auto simp: p_def b_def d_def)
next
  case False
  show ?thesis
  proof (cases "status (thr s t) = H2K_STATUS_DEAD")
    case True
    with False assms(1) show ?thesis by (simp add: d_def deliver_dead)
  next
    case live: False
    note a = deliver_asleep [OF False live, of vb intno]
    have "kinv (fst d) rq fq" unfolding d_def by (rule kinv_view [OF assms(1) a(5)])
    with False live a show ?thesis by (simp add: d_def)
  qed
qed


text \<open>
  A VM with two CPUs: thread 20 runs on the first and has CPU interrupts 3 and 5 pending and
  enabled; the second waits in a virtual wait and accepts shared interrupt 2.
\<close>

definition vm_example :: H2K_kg_t where
  "vm_example = futex_example\<lparr>thr := (thr futex_example)
       (20 := (thr futex_example 20)\<lparr>cpuint_pending := 0x28, cpuint_enabled := 0x28\<rparr>,
        340 := thread0\<lparr>prio := 2, status := H2K_STATUS_VMWAIT, id := id_of_raw 0x400\<rparr>),
     vmb := (vmb futex_example)(7 := vmblock0\<lparr>contexts := 20, max_cpus := 2, num_ints := 40, enable := (\<lambda>_. 0)(0 := 4),
       percpu_mask := (\<lambda>_ _. 0)(1 := (\<lambda>_. 0)(0 := 4)), waiting_cpus := 2,
       intinfo := [(16, H2K_vm_cpuint_ops), (40, H2K_vm_shint_ops), (-1, H2K_vm_badint_ops)]\<rparr>)\<rparr>"

lemma vm_example_inv: "kinv vm_example (\<lambda>_. []) ((\<lambda>_. [])(15 := [30, 31]))"
proof -
  note E = vm_example_def futex_example_def sched_base_def
  have "ready_rep vm_example (\<lambda>_. [])" by (simp add: ready_rep_def prio_bit_def E)
  moreover have "runlist_ok vm_example" by (simp add: runlist_ok_def slot_ok_def E MAX_HTHREADS_def less_2_cases ucast_eq)
  moreover have "lowprio_ok vm_example" "steer_ok vm_example" by (simp_all add: lowprio_ok_def steer_ok_def E at_most_one_def less_2_cases bit_2_iff)
  ultimately have "sched_inv vm_example (\<lambda>_. [])" by (simp add: sched_inv_def E)
  moreover have "is_ring (thr vm_example) 30 [30, 31]" by (simp add: is_ring_def cyc_def E)
  then have "futex_rep vm_example ((\<lambda>_. [])(15 := [30, 31]))" by (auto simp: futex_rep_def futex_bucket_def E futex_example_hash)
  ultimately show ?thesis by (simp add: kinv_def)
qed

lemma vm_example_vm:
  "status (thr vm_example 20) = H2K_STATUS_RUNNING" "cpuidx (id (thr vm_example 20)) = 0" "max_cpus (vmb vm_example 7) = 2"
  "status (thr vm_example 340) = H2K_STATUS_VMWAIT" "num_ints (vmb vm_example 7) = 40"
  "enable (vmb vm_example 7) = (\<lambda>_. 0)(0 := 4)" "pending (vmb vm_example 7) = (\<lambda>_. 0)"
  "intinfo_ok (vmb vm_example 7)" "cpus_ok 7 vm_example" "accepts 7 2 1 vm_example"
  by (simp_all add: vm_example_def futex_example_def sched_base_def intinfo_ok_def PERCPU_INTERRUPTS_def vmblock0_def thread0_def
      cpus_ok_def context_of_def CONTEXT_SIZE_def less_2_cases id_of_raw_def accepts_def wordidx_def bitidx_def bit_simps)

theorem int_get_takes_least_witness:
  "\<exists>s'. int_call H2K_INTOP_GET (intinfo (vmb vm_example 7)) 7 20 0 vm_example = Some (s', 3)"
proof -
  have "ints 7 20 vm_example = {3, 5}"
  proof -
    have "bit (0x28 :: u16) i \<longleftrightarrow> i = 3 \<or> i = 5" for i
    proof -
      have "(0x28 :: u16) = 2 ^ 3 OR 2 ^ 5" by simp
      then show ?thesis by (simp only: bit_or_iff bit_exp_iff) auto
    qed
    then have "cpu_ints 7 20 vm_example = {3, 5}" by (auto simp: cpu_ints_def vm_example_def)
    moreover have "sh_ints 7 20 vm_example = {}" by (simp add: sh_ints_def takeable_def vm_example_vm)
    ultimately show ?thesis by (simp add: ints_def)
  qed
  then have "Min (ints 7 20 vm_example) = 3" "ints 7 20 vm_example \<noteq> {}" by simp_all
  with int_get_takes_least [OF vm_example_vm(8), of 20] show ?thesis by auto
qed

theorem vm_int_deliver_correct_witness:
  "kinv (fst (H2K_vm_int_deliver_locked 7 340 18 vm_example)) ((\<lambda>_. [])(2 := [340])) ((\<lambda>_. [])(15 := [30, 31]))"
proof -
  have "wakes (thr vm_example 340)" "prio (thr vm_example 340) = 2" "futex_ptr (thr vm_example 340) = 0"
    by (simp_all add: wakes_def vm_example_vm, simp_all add: vm_example_def thread0_def)
  moreover have "futex_bucket (thr vm_example 340) = 0" using calculation(3) by (simp add: futex_bucket_def FUTEX_HASHVAL_def)
  ultimately show ?thesis using vm_int_deliver_correct [OF vm_example_inv vm_example_vm(1), of 340 7 18] by (simp add: fun_upd_idem)
qed


end
