(* ===== verification/Timer_Correct.thy ===== *)
theory Timer_Correct
  imports Timer Vmint_Correct
begin

text \<open>
  Correctness of the timeouts: the tree holds exactly the threads with a timeout, in the
  order in which they expire, and the timer never waits for longer than the first of them.
\<close>

section \<open>The invariant\<close>

definition timer_inv :: "H2K_kg_t \<Rightarrow> ptr list \<Rightarrow> bool" where
  "timer_inv s xs \<longleftrightarrow> tlist (timer_tree NULL s) 0 xs \<and> (\<forall>t. t \<in> set xs \<longleftrightarrow> timeout (thr s t) \<noteq> 0) \<and>
     (\<forall>t\<in>set xs. next_ticks s \<le> timeout (thr s t))"

lemma kbst_cong: "(\<And>p. p \<in> set_tree t \<Longrightarrow> K p = K' p) \<Longrightarrow> kbst K t = kbst K' t"
  by (induction t) auto

lemma tlist_cong:
  assumes "tlist st v xs" "vars st' v' = vars st v" "\<And>p. p \<in> set xs \<Longrightarrow> nodes st' p = nodes st p"
  shows "tlist st' v' xs"
proof -
  obtain t where t: "trep (nodes st) (vars st v) t" "kbst (K_of st) t" "distinct (inorder t)" "inorder t = xs"
    using assms(1) by (auto simp: tlist_def)
  then have s: "set_tree t = set xs" by (metis set_inorder)
  have "trep (nodes st') (vars st' v') t" unfolding assms(2) using t(1) trep_cong [of t "nodes st'" "nodes st"] assms(3) s by simp
  moreover have "kbst (K_of st') t" using t(2) kbst_cong [of t "K_of st'" "K_of st"] assms(3) s by (simp add: K_of_def)
  ultimately show ?thesis using t by (auto simp: tlist_def)
qed

lemma put_tree_sel [simp]:
  "tree (thr (put_tree st s) p) = nodes st p" "timeouts (put_tree st s) = vars st 0" "next_ticks (put_tree st s) = next_ticks s"
  "nodes (timer_tree v (put_tree st s)) = nodes st" "vars (timer_tree v (put_tree st s)) 0 = vars st 0"
  "bkl (put_tree st s) = bkl s" "last_ticks (put_tree st s) = last_ticks s"
  by (simp_all add: put_tree_def timer_tree_def)

lemma kview_put_tree [simp]: "kview (put_tree st s) = kview s"
  by (auto simp: kview_def put_tree_def tview_def)

lemma timer_tree_sel [simp]: "nodes (timer_tree v s) p = tree (thr s p)" "vars (timer_tree v s) 0 = timeouts s"
  "K_of (timer_tree v s) p = timeout (thr s p)" "vars (timer_tree v s) 1 = v"
  by (simp_all add: timer_tree_def K_of_def)

lemma tlist_put_tree: "tlist st 0 xs \<Longrightarrow> tlist (timer_tree v (put_tree st s)) 0 xs"
  by (erule tlist_cong) simp_all

lemma timer_invD:
  assumes "timer_inv s xs"
  shows "tlist (timer_tree NULL s) 0 xs" "t \<in> set xs \<longleftrightarrow> timeout (thr s t) \<noteq> 0" "t \<in> set xs \<Longrightarrow> next_ticks s \<le> timeout (thr s t)"
    "distinct xs" "NULL \<notin> set xs"
  using assms tlist_sorted [of "timer_tree NULL s" 0 xs] by (auto simp: timer_inv_def)

section \<open>Setting a timeout\<close>

text \<open>Where a thread with timeout \<open>tick\<close> goes among the other pending timeouts.\<close>

definition by_expiry :: "(ptr \<Rightarrow> u64) \<Rightarrow> u64 \<Rightarrow> ptr \<Rightarrow> ptr list \<Rightarrow> ptr list" where
  "by_expiry K tick me xs = (if tick = 0 then xs else filter (\<lambda>x. K x < tick) xs @ me # filter (\<lambda>x. tick \<le> K x) xs)"

lemma set_by_expiry: "set (by_expiry K tick me xs) = (if tick = 0 then set xs else insert me (set xs))"
  by (auto simp: by_expiry_def)

lemma withdraw:
  fixes s :: H2K_kg_t
  assumes inv: "timer_inv s xs"
  shows "\<exists>s2. (if timeout (thr s me) \<noteq> 0
      then do { st \<leftarrow> H2K_tree_remove (timer_tree NULL s) (Var 0) me; Some (put_tree st s) } else Some s) = Some s2 \<and>
    tlist (timer_tree NULL s2) 0 (remove1 me xs) \<and> (\<forall>t. timeout (thr s2 t) = timeout (thr s t)) \<and>
    next_ticks s2 = next_ticks s \<and> kview s2 = kview s \<and> last_ticks s2 = last_ticks s \<and> bkl s2 = bkl s"
proof (cases "timeout (thr s me) = 0")
  case True
  then have "me \<notin> set xs" using timer_invD(2) [OF inv] by simp
  with True timer_invD(1) [OF inv] show ?thesis by (simp add: remove1_idem)
next
  case False
  obtain st where st: "H2K_tree_remove (timer_tree NULL s) (Var 0) me = Some st" "K_of st = K_of (timer_tree NULL s)" "tlist st 0 (remove1 me xs)"
    using tlist_remove [OF timer_invD(1) [OF inv], of me] by (elim exE conjE)
  have "key (nodes st t) = timeout (thr s t)" for t using fun_cong [OF st(2), of t] by (simp add: K_of_def)
  with False st tlist_put_tree [OF st(3)] show ?thesis by simp
qed

lemma set_timeout_tick_spec:
  fixes s :: H2K_kg_t and tick0 :: u64
  assumes inv: "timer_inv s xs" and me: "me \<noteq> NULL"
  defines "tick \<equiv> if tick0 \<le> last_ticks s then 0 else tick0"
  shows "\<exists>s'. H2K_timer_set_timeout_tick me tick0 s = Some (s', tick * 52) \<and>
    timer_inv s' (by_expiry (\<lambda>t. timeout (thr s t)) tick me (remove1 me xs)) \<and>
    (\<forall>t. timeout (thr s' t) = (if t = me then tick else timeout (thr s t))) \<and> kview s' = kview s \<and> \<not> bkl s'"
proof -
  let ?ys = "remove1 me xs"
  have d: "distinct xs" using timer_invD(4) [OF inv] .
  have inv1: "timer_inv (BKL_LOCK s) xs" using inv by (simp add: timer_inv_def timer_tree_def BKL_LOCK_def)
  obtain s2 where s2: "(if timeout (thr (BKL_LOCK s) me) \<noteq> 0
      then do { st \<leftarrow> H2K_tree_remove (timer_tree NULL (BKL_LOCK s)) (Var 0) me; Some (put_tree st (BKL_LOCK s)) } else Some (BKL_LOCK s)) = Some s2"
    "tlist (timer_tree NULL s2) 0 ?ys" "\<forall>t. timeout (thr s2 t) = timeout (thr (BKL_LOCK s) t)"
    "next_ticks s2 = next_ticks (BKL_LOCK s)" "kview s2 = kview (BKL_LOCK s)" "last_ticks s2 = last_ticks (BKL_LOCK s)" "bkl s2 = bkl (BKL_LOCK s)"
    using withdraw [OF inv1, of me] by (elim exE conjE)
  define s3 where "s3 = upd_thr me (\<lambda>c. c\<lparr>tree := \<lparr>left = NULL, right = NULL, key = tick\<rparr>\<rparr>) s2"
  have nme: "me \<notin> set ?ys" using d by simp
  have t3: "timeout (thr s3 t) = (if t = me then tick else timeout (thr s t))" for t using s2(3) by (simp add: s3_def)
  have l3: "tlist (timer_tree NULL s3) 0 ?ys" using s2(2) by (rule tlist_cong) (use nme in \<open>auto simp: s3_def upd_thr_def timer_tree_def\<close>)
  have f3: "kview s3 = kview s" "next_ticks s3 = next_ticks s"
    using s2(4,5) by (simp_all add: s3_def kview_thr tview_def, simp add: upd_thr_def BKL_LOCK_def)
  have "\<exists>s4. (if tick \<noteq> H2K_TIME_BIGBANG
      then do { st \<leftarrow> H2K_tree_add (timer_tree NULL s3) (Var 0) me; Some (put_tree st s3) } else Some s3) = Some s4 \<and>
    tlist (timer_tree NULL s4) 0 (by_expiry (\<lambda>t. timeout (thr s t)) tick me ?ys) \<and> (\<forall>t. timeout (thr s4 t) = timeout (thr s3 t)) \<and>
    kview s4 = kview s \<and> next_ticks s4 = next_ticks s"
  proof (cases "tick = 0")
    case True
    with l3 f3 show ?thesis by (simp add: H2K_TIME_BIGBANG_def by_expiry_def)
  next
    case False
    have z: "left (nodes (timer_tree NULL s3) me) = NULL" "right (nodes (timer_tree NULL s3) me) = NULL" by (simp_all add: s3_def)
    obtain st where st: "H2K_tree_add (timer_tree NULL s3) (Var 0) me = Some st" "K_of st = K_of (timer_tree NULL s3)"
      "tlist st 0 (filter (\<lambda>x. K_of (timer_tree NULL s3) x < K_of (timer_tree NULL s3) me) ?ys @ me #
         filter (\<lambda>x. K_of (timer_tree NULL s3) me \<le> K_of (timer_tree NULL s3) x) ?ys)"
      using tlist_add [OF l3 me nme z] by (elim exE conjE)
    have "filter (\<lambda>x. K_of (timer_tree NULL s3) x < K_of (timer_tree NULL s3) me) ?ys @ me #
        filter (\<lambda>x. K_of (timer_tree NULL s3) me \<le> K_of (timer_tree NULL s3) x) ?ys = by_expiry (\<lambda>t. timeout (thr s t)) tick me ?ys"
    proof -
      have "filter (\<lambda>x. K_of (timer_tree NULL s3) x < K_of (timer_tree NULL s3) me) ?ys = filter (\<lambda>x. timeout (thr s x) < tick) ?ys"
        "filter (\<lambda>x. K_of (timer_tree NULL s3) me \<le> K_of (timer_tree NULL s3) x) ?ys = filter (\<lambda>x. tick \<le> timeout (thr s x)) ?ys"
        using nme by (auto intro!: filter_cong simp: t3)
      then show ?thesis using False by (simp add: by_expiry_def)
    qed
    with st(3) have l4: "tlist st 0 (by_expiry (\<lambda>t. timeout (thr s t)) tick me ?ys)" by simp
    have "key (nodes st t) = timeout (thr s3 t)" for t using fun_cong [OF st(2), of t] by (simp add: K_of_def)
    with False st(1) f3 tlist_put_tree [OF l4] show ?thesis by (simp add: H2K_TIME_BIGBANG_def)
  qed
  then obtain s4 where s4: "(if tick \<noteq> H2K_TIME_BIGBANG
      then do { st \<leftarrow> H2K_tree_add (timer_tree NULL s3) (Var 0) me; Some (put_tree st s3) } else Some s3) = Some s4"
    "tlist (timer_tree NULL s4) 0 (by_expiry (\<lambda>t. timeout (thr s t)) tick me ?ys)" "\<forall>t. timeout (thr s4 t) = timeout (thr s3 t)"
    "kview s4 = kview s" "next_ticks s4 = next_ticks s" by (elim exE conjE)
  define s' where "s' = H2K_timer_update_timeout tick (BKL_UNLOCK s4)"
  have f: "thr s' = thr s4" "timeouts s' = timeouts s4" "next_ticks s' = min (next_ticks s) tick" "kview s' = kview s" "\<not> bkl s'"
    using s4(4,5) by (simp_all add: s'_def H2K_timer_update_timeout_def H2K_timer_hw_set_timeout_def Let_def BKL_LOCK_def BKL_UNLOCK_def kview_def min_def not_less [symmetric] less_not_sym)
  have ev: "H2K_timer_set_timeout_tick me tick0 s = Some (s', tick * 52)"
    unfolding H2K_timer_set_timeout_tick_def Let_def tick_def [folded H2K_TIME_BIGBANG_def, symmetric]
      s2(1) Option.bind_lunit s3_def [symmetric] s4(1) s'_def [symmetric] TIMERHW_NSEC_PER_TICK_def ..
  have tl: "tlist (timer_tree NULL s') 0 (by_expiry (\<lambda>t. timeout (thr s t)) tick me ?ys)"
    using s4(2) by (rule tlist_cong) (simp_all add: f)
  have t4: "timeout (thr s' t) = (if t = me then tick else timeout (thr s t))" for t using s4(3) t3 by (simp add: f)
  have mem: "t \<in> set (by_expiry (\<lambda>t. timeout (thr s t)) tick me ?ys) \<longleftrightarrow> timeout (thr s' t) \<noteq> 0" for t
    using d timer_invD(2) [OF inv, of t] by (auto simp: set_by_expiry t4)
  have "next_ticks s' \<le> timeout (thr s' t)" if "t \<in> set (by_expiry (\<lambda>t. timeout (thr s t)) tick me ?ys)" for t
    using that timer_invD(3) [OF inv, of t] d unfolding f(3) t4 by (auto simp: set_by_expiry min.coboundedI1 split: if_splits)
  with tl mem have "timer_inv s' (by_expiry (\<lambda>t. timeout (thr s t)) tick me ?ys)" by (simp add: timer_inv_def)
  with ev t4 f show ?thesis by blast
qed

section \<open>Expiry\<close>

text \<open>
  The iteration with an invariant that is indexed by the nodes visited so far. The iterator
  rotates links of nodes still to be visited and never touches a key.
\<close>

lemma iterate_invariant:
  assumes mem: "\<And>m s. mem_of (set_mem m s) = m"
    and links: "\<And>n s p. p \<noteq> n \<Longrightarrow> left (mem_of (func n s) p) = left (mem_of s p) \<and> right (mem_of (func n s) p) = right (mem_of s p)"
    and I_mem: "\<And>ds s m. P ds s \<Longrightarrow> (\<And>p. key (m p) = key (mem_of s p)) \<Longrightarrow> (\<And>p. p \<notin> X \<Longrightarrow> m p = mem_of s p) \<Longrightarrow> P ds (set_mem m s)"
    and I_func: "\<And>ds s n. P ds s \<Longrightarrow> n \<in> X \<Longrightarrow> n \<notin> set ds \<Longrightarrow> P (ds @ [n]) (func n s)"
  shows "trep (mem_of s) root t \<Longrightarrow> distinct (ds @ inorder t) \<Longrightarrow> set_tree t \<subseteq> X \<Longrightarrow> P ds s \<Longrightarrow>
    \<exists>s'. H2K_tree_destructive_iterate mem_of set_mem func root s = Some s' \<and> P (ds @ inorder t) s'"
proof (induction t arbitrary: root s ds rule: iter_t.induct)
  case 1
  then show ?case by (subst H2K_tree_destructive_iterate.simps) simp
next
  case (2 a r)
  have "trep (mem_of (func a s)) p r = trep (mem_of s) p r" for p
  proof (rule trep_cong)
    fix q assume "q \<in> set_tree r"
    with 2(3) have "q \<noteq> a" by auto
    then show "left (mem_of (func a s) q) = left (mem_of s q) \<and> right (mem_of (func a s) q) = right (mem_of s q)" by (rule links)
  qed
  with 2(1) [of "func a s" "right (mem_of s a)" "ds @ [a]"] 2(2-5) I_func [of ds s a] show ?case
    by (subst H2K_tree_destructive_iterate.simps) (simp add: Let_def)
next
  case (3 ll b lr a r)
  let ?m2 = "(mem_of s)(a := (mem_of s a)\<lparr>left := right (mem_of s b)\<rparr>, b := (mem_of s b)\<lparr>right := a\<rparr>)"
  have ab: "root = a" "a \<noteq> NULL" "left (mem_of s a) = b" "b \<noteq> NULL" "a \<noteq> b"
    "a \<notin> set_tree ll \<union> set_tree lr \<union> set_tree r" "b \<notin> set_tree ll \<union> set_tree lr \<union> set_tree r"
    using 3(2,3) by auto
  have fr: "trep ?m2 p u = trep (mem_of s) p u" if "a \<notin> set_tree u" "b \<notin> set_tree u" for p u
    using that by (intro trep_cong) auto
  have tr: "trep (mem_of (set_mem ?m2 s)) b (Node ll b (Node lr a r))" using ab 3(2) by (simp add: mem fr)
  have "P ds (set_mem ?m2 s)" using 3(5) by (rule I_mem) (use 3(4) in auto)
  with 3(1) [OF tr, of ds] 3(3,4) ab show ?case
    by (subst H2K_tree_destructive_iterate.simps) (auto simp: Let_def)
qed

text \<open>What the delivery of an interrupt does not touch.\<close>

definition trest where
  "trest s = (next_ticks s, timeouts s, last_ticks s, bkl s, htid s, cluster_sched s)"

lemma trest_eqD: "trest s' = trest s \<Longrightarrow> next_ticks s' = next_ticks s" "trest s' = trest s \<Longrightarrow> timeouts s' = timeouts s"
  "trest s' = trest s \<Longrightarrow> bkl s' = bkl s" "trest s' = trest s \<Longrightarrow> cluster_sched s' = cluster_sched s"
  by (simp_all add: trest_def)

lemma more_tree: "ringnode.more (a :: H2K_thread_context) = ringnode.more b \<Longrightarrow> tree a = tree b"
  by (cases a; cases b; simp)

lemma trest_thr [simp]: "trest (upd_thr t f s) = trest s" "trest (upd_vmb v g s) = trest s"
  by (simp_all add: trest_def upd_thr_def upd_vmb_def)

lemma enqueue_trest [simp]: "trest (deliver_enqueue t s) = trest s" "tree (thr (deliver_enqueue t s) u) = tree (thr s u)"
proof -
  have c: "trest (fst (H2K_check_sanity r s)) = trest s" "thr (fst (H2K_check_sanity r s)) = thr s" for r and s :: H2K_kg_t
    by (simp_all add: trest_def H2K_check_sanity_def Let_def resched_int_def swi_def H2K_lowprio_notify_def change_imask_def)
  have "trest (H2K_ready_append t s) = trest s"
    by (simp add: trest_def H2K_ready_append_def H2K_ready_set_prio_def upd_thr_def Let_def split_beta)
  then show "trest (deliver_enqueue t s) = trest s" by (simp add: deliver_enqueue_def c)
  show "tree (thr (deliver_enqueue t s) u) = tree (thr s u)"
    using more_tree [OF ready_append_more [of t s u]] by (simp add: deliver_enqueue_def c)
qed

lemma cancel_trest [simp]:
  "trest (H2K_futex_cancel t s) = trest s" "tree (thr (H2K_futex_cancel t s) u) = tree (thr s u)"
  "trest (H2K_popup_cancel t s) = trest s" "tree (thr (H2K_popup_cancel t s) u) = tree (thr s u)"
  using more_tree [OF kring.rem_payload]
  by (simp_all add: H2K_futex_cancel_def H2K_popup_cancel_def Let_def split_beta trest_def, simp_all add: upd_thr_def)

lemma ipi_trest [simp]: "trest (H2K_vm_ipi_send_withlock t s) = trest s"
  by (simp add: H2K_vm_ipi_send_withlock_def H2K_vm_ipi_send_withlock_mask_def Let_def swi_def iassignw_def trest_def)

lemma deliver_trest [simp]:
  "trest (fst (H2K_vm_int_deliver_locked vb t intno s)) = trest s"
  "tree (thr (fst (H2K_vm_int_deliver_locked vb t intno s)) u) = tree (thr s u)"
  by (simp_all add: H2K_vm_int_deliver_locked_def Let_def split: tstatus.splits)

lemma post_locked_spec:
  fixes intno :: u32 and vb :: ptr
  assumes inv: "kinv s rq fq" and run: "status (thr s c) = H2K_STATUS_RUNNING" and n: "n \<noteq> NULL"
  defines "s' \<equiv> H2K_vm_cpuint_post_locked vb n intno s" and "w \<equiv> set_bit (unat intno) (cpuint_pending (thr s n))"
  shows "\<exists>rq' fq'. kinv s' rq' fq' \<and> (\<forall>u.
    status (thr s' u) = (if u = n \<and> wakes (thr s n) \<and> w AND cpuint_enabled (thr s n) \<noteq> 0 then H2K_STATUS_READY else status (thr s u)) \<and>
    cpuint_pending (thr s' u) = (if u = n then w else cpuint_pending (thr s u)) \<and> cpuint_enabled (thr s' u) = cpuint_enabled (thr s u) \<and>
    vmstatus (thr s' u) = (if u = n then set_bit VMWORK (vmstatus (thr s n)) else vmstatus (thr s u)))"
proof -
  define s1 where "s1 = set_vmstatus VMWORK n (set_pending (unat intno) n s)"
  have t1: "thr s1 = (thr s)(n := (thr s n)\<lparr>cpuint_pending := w, vmstatus := set_bit VMWORK (vmstatus (thr s n))\<rparr>)"
    by (simp add: s1_def set_vmstatus_def set_pending_def H2K_atomic_setbit_def upd_thr_def w_def)
  have k1: "kinv s1 rq fq" by (rule kinv_view [OF inv]) (auto simp: s1_def kview_def tview_def set_vmstatus_def set_pending_def upd_thr_def fun_eq_iff)
  have wk: "wakes (thr s1 n) = wakes (thr s n)" by (simp add: wakes_def t1 VMWORK_def IE_def)
  have r1: "status (thr s1 c) = H2K_STATUS_RUNNING" using run by (cases "c = n") (simp_all add: t1)
  have ev: "s' = (if w AND cpuint_enabled (thr s n) = 0 then s1 else fst (H2K_vm_int_deliver_locked vb n intno s1))"
    by (simp add: s'_def H2K_vm_cpuint_post_locked_def s1_def [symmetric] Let_def t1)
  consider (off) "w AND cpuint_enabled (thr s n) = 0" | (sleep) "w AND cpuint_enabled (thr s n) \<noteq> 0" "\<not> wakes (thr s n)"
    | (wake) "w AND cpuint_enabled (thr s n) \<noteq> 0" "wakes (thr s n)" by blast
  then show ?thesis
  proof cases
    case off
    then show ?thesis using k1 by (intro exI [of _ rq] exI [of _ fq]) (simp add: ev t1)
  next
    case sleep
    have "thr s' = thr s1" "kview s' = kview s1"
      using sleep wk deliver_asleep(2,5) [of s1 n vb intno] deliver_dead [of s1 n vb intno]
      by (simp_all add: ev, (cases "status (thr s1 n) = H2K_STATUS_DEAD"; simp)+)
    then show ?thesis using sleep kinv_view [OF k1] by (intro exI [of _ rq] exI [of _ fq]) (simp add: t1)
  next
    case wake
    obtain s2 rq' fq' r where d: "H2K_vm_int_deliver_locked vb n intno s1 = (s2, 0)" "kinv s2 rq' fq'" "woken_as r n s1 s2"
      using deliver_wakes [OF k1 r1 _ n, of vb intno] wake wk by auto
    have "s' = s2" using wake d(1) by (simp add: ev)
    then show ?thesis using wake d(2) woken_as_sel [OF d(3)] by (intro exI [of _ rq'] exI [of _ fq']) (simp add: t1)
  qed
qed

lemma post_locked_trest [simp]:
  "trest (H2K_vm_cpuint_post_locked vb n intno s) = trest s" "tree (thr (H2K_vm_cpuint_post_locked vb n intno s) u) = tree (thr s u)"
  by (simp_all add: H2K_vm_cpuint_post_locked_def Let_def set_vmstatus_def set_pending_def)

text \<open>An expired thread: no timeout, the timer interrupt pending, and not left asleep if it may take it.\<close>

definition expired :: "H2K_thread_context \<Rightarrow> bool" where
  "expired c \<longleftrightarrow> timeout c = 0 \<and> bit (cpuint_pending c) (unat H2K_TIME_GUESTINT) \<and> bit (vmstatus c) VMWORK \<and>
     (bit (cpuint_enabled c) (unat H2K_TIME_GUESTINT) \<longrightarrow> \<not> wakes c)"

lemma dotimeout_trest:
  "trest (H2K_timer_dotimeout n s) = trest s"
  "tree (thr (H2K_timer_dotimeout n s) u) = (if u = n then (tree (thr s n))\<lparr>key := 0\<rparr> else tree (thr s u))"
  by (simp_all add: H2K_timer_dotimeout_def Let_def set_timeout_field_def H2K_TIME_BIGBANG_def)

lemma dotimeout_spec:
  assumes "kinv s rq fq" "status (thr s c) = H2K_STATUS_RUNNING" "n \<noteq> NULL"
  shows "\<exists>rq' fq'. kinv (H2K_timer_dotimeout n s) rq' fq'" "expired (thr (H2K_timer_dotimeout n s) n)"
    "status (thr (H2K_timer_dotimeout n s) c) = H2K_STATUS_RUNNING" "u \<noteq> n \<Longrightarrow> expired (thr s u) \<Longrightarrow> expired (thr (H2K_timer_dotimeout n s) u)"
proof -
  let ?s1 = "set_timeout_field n H2K_TIME_BIGBANG s" and ?s' = "H2K_timer_dotimeout n s"
  let ?w = "set_bit (unat H2K_TIME_GUESTINT) (cpuint_pending (thr ?s1 n))"
  have k1: "kinv ?s1 rq fq" by (rule kinv_view [OF assms(1)]) (auto simp: set_timeout_field_def kview_def tview_def upd_thr_def)
  have r1: "status (thr ?s1 c) = H2K_STATUS_RUNNING" using assms(2) by (cases "c = n") (simp_all add: set_timeout_field_def)
  have wk: "wakes (thr ?s1 v) = wakes (thr s v)" for v by (simp add: set_timeout_field_def wakes_def)
  obtain rq' fq' where p: "kinv ?s' rq' fq'"
    "\<forall>u. status (thr ?s' u) = (if u = n \<and> wakes (thr ?s1 n) \<and> ?w AND cpuint_enabled (thr ?s1 n) \<noteq> 0 then H2K_STATUS_READY else status (thr ?s1 u)) \<and>
      cpuint_pending (thr ?s' u) = (if u = n then ?w else cpuint_pending (thr ?s1 u)) \<and> cpuint_enabled (thr ?s' u) = cpuint_enabled (thr ?s1 u) \<and>
      vmstatus (thr ?s' u) = (if u = n then set_bit VMWORK (vmstatus (thr ?s1 n)) else vmstatus (thr ?s1 u))"
    using post_locked_spec [OF k1 r1 assms(3), of "vmblock (thr ?s1 n)" H2K_TIME_GUESTINT]
    unfolding H2K_timer_dotimeout_def Let_def by (elim exE conjE)
  from p(1) show "\<exists>rq' fq'. kinv ?s' rq' fq'" by blast
  have one: "unat H2K_TIME_GUESTINT = 12" by (simp add: H2K_TIME_GUESTINT_def)
  have "\<not> wakes (thr ?s' n)" if "bit (cpuint_enabled (thr ?s' n)) 12"
  proof -
    have "bit (?w AND cpuint_enabled (thr ?s1 n)) 12" using that p(2) by (simp add: one bit_and_iff)
    then have "?w AND cpuint_enabled (thr ?s1 n) \<noteq> 0" by (metis bit_0_eq bot_apply bot_bool_def)
    then show ?thesis using spec [OF p(2), of n] by (auto simp: wakes_def VMWORK_def IE_def)
  qed
  then show "expired (thr ?s' n)" using p(2) dotimeout_trest(2) [of n s n] by (simp add: expired_def one VMWORK_def)
  show "status (thr ?s' c) = H2K_STATUS_RUNNING" using spec [OF p(2), of c] r1 by (auto simp: wakes_def)
  show "expired (thr ?s' u)" if "u \<noteq> n" "expired (thr s u)"
    using that spec [OF p(2), of u] dotimeout_trest(2) [of n s u] by (simp add: expired_def wakes_def set_timeout_field_def)
qed

text \<open>The invariant of the iteration over the expired timeouts \<open>xs\<close>, of which \<open>ds\<close> are done.\<close>

definition expiring :: "ptr list \<Rightarrow> ptr \<Rightarrow> H2K_kg_t \<Rightarrow> ptr list \<Rightarrow> H2K_kg_t \<Rightarrow> bool" where
  "expiring xs c s0 ds s \<longleftrightarrow> (\<exists>rq fq. kinv s rq fq) \<and> status (thr s c) = H2K_STATUS_RUNNING \<and> trest s = trest s0 \<and>
     (\<forall>u. timeout (thr s u) = (if u \<in> set ds then 0 else timeout (thr s0 u))) \<and> (\<forall>u. u \<notin> set xs \<longrightarrow> tree (thr s u) = tree (thr s0 u)) \<and>
     (\<forall>u\<in>set ds. expired (thr s u))"

lemma expiring_mem:
  assumes P: "expiring xs c s0 ds s" and m: "\<And>p. key (m p) = timeout (thr s p)" "\<And>p. p \<notin> set xs \<Longrightarrow> m p = tree (thr s p)"
  shows "expiring xs c s0 ds (set_nodes m s)"
proof -
  have "kview (set_nodes m s) = kview s" by (simp add: kview_def set_nodes_def tview_def)
  then have "\<exists>rq fq. kinv (set_nodes m s) rq fq" using P kinv_view [of s _ _ "set_nodes m s"] by (auto simp: expiring_def)
  moreover have "expired (thr (set_nodes m s) u) = expired (thr s u)" for u by (simp add: expired_def wakes_def set_nodes_def m(1))
  ultimately show ?thesis using P m by (auto simp: expiring_def) (simp_all add: set_nodes_def trest_def)
qed

lemma expiring_func:
  assumes P: "expiring xs c s0 ds s" and n: "n \<in> set xs" "n \<notin> set ds" "NULL \<notin> set xs"
  shows "expiring xs c s0 (ds @ [n]) (H2K_timer_dotimeout n s)"
proof -
  obtain rq fq where k: "kinv s rq fq" using P by (auto simp: expiring_def)
  have r: "status (thr s c) = H2K_STATUS_RUNNING" "n \<noteq> NULL" using P n(1,3) by (simp add: expiring_def, metis)
  note d = dotimeout_spec [OF k r]
  have "\<forall>u\<in>set (ds @ [n]). expired (thr (H2K_timer_dotimeout n s) u)"
    using d(2) d(4) P n(2) by (auto simp: expiring_def) metis
  then show ?thesis using P d(1,3) n by (auto simp: expiring_def dotimeout_trest)
qed

lemma timer_int_spec:
  fixes s :: H2K_kg_t and intnum :: u32
  assumes inv: "kinv s rq fq" and run: "status (thr s c) = H2K_STATUS_RUNNING" and ti: "timer_inv s xs"
  defines "now \<equiv> timer_reg s + 4"
  defines "rest \<equiv> filter (\<lambda>t. now < timeout (thr s t)) xs"
  shows "\<exists>s'. H2K_timer_int intnum s = Some s' \<and> (\<exists>rq' fq'. kinv s' rq' fq') \<and> timer_inv s' rest \<and>
    (\<forall>t\<in>set xs. timeout (thr s t) \<le> now \<longrightarrow> expired (thr s' t)) \<and>
    next_ticks s' = (if rest = [] then H2K_TIME_FOREVER else timeout (thr s (hd rest))) \<and> \<not> bkl s' \<and> cluster_sched s' = cluster_sched s"
proof -
  define s1 where "s1 = BKL_LOCK (H2K_timer_update_time (timer_reg s) s)"
  have f1: "thr s1 = thr s" "kview s1 = kview s" "timeouts s1 = timeouts s"
    by (simp_all add: s1_def H2K_timer_update_time_def, simp_all add: kview_def BKL_LOCK_def)
  have tl: "tlist (timer_tree NULL s1) 0 xs" using timer_invD(1) [OF ti] by (rule tlist_cong) (simp_all add: f1)
  let ?ex = "filter (\<lambda>t. timeout (thr s t) \<le> now) xs"
  have nil: "xs = [] \<Longrightarrow> vars (timer_tree NULL s1) 1 = NULL \<and> vars (timer_tree NULL s1) 0 = NULL"
    using tl by (auto simp: tlist_def timer_tree_def)
  obtain st where st: "H2K_tree_bisect (timer_tree NULL s1) (Var 1) (Var 0) (vars (timer_tree NULL s1) 0) now = Some st"
    "K_of st = K_of (timer_tree NULL s1)" "tlist st 1 (filter (\<lambda>x. K_of (timer_tree NULL s1) x \<le> now) xs)"
    "tlist st 0 (filter (\<lambda>x. now < K_of (timer_tree NULL s1) x) xs)"
    using tlist_bisect [OF tl one_neq_zero, of now] nil by (cases "xs = []") (simp_all, (elim exE conjE, simp)+)
  have L: "tlist st 1 ?ex" "tlist st 0 rest" using st(3,4) by (simp_all add: f1 rest_def)
  have K: "key (nodes st t) = timeout (thr s t)" for t using fun_cong [OF st(2), of t] f1(1) by (simp add: K_of_def)
  obtain t0 where t0: "trep (nodes st) (vars st 0) t0" "inorder t0 = rest" using L(2) by (auto simp: tlist_def)
  obtain t1 where t1: "trep (nodes st) (vars st 1) t1" "inorder t1 = ?ex" "distinct (inorder t1)" using L(1) by (auto simp: tlist_def)
  define m where "m = (if rest = [] then NULL else hd rest)"
  have mn: "H2K_tree_min (nodes st) (vars st 0) = Some m" using tree_min_hd [OF t0(1)] t0(2) by (cases t0) (auto simp: m_def)
  have m0: "m = NULL \<longleftrightarrow> rest = []" using tlist_sorted [OF L(2)] by (cases rest) (auto simp: m_def)
  define nt where "nt = (if rest = [] then H2K_TIME_FOREVER else timeout (thr s (hd rest)))"
  have ntm: "NULL < m \<Longrightarrow> timeout (thr s m) = nt" "m = NULL \<Longrightarrow> H2K_TIME_FOREVER = nt" using m0 by (auto simp: nt_def m_def)
  define s3 where "s3 = H2K_timer_hw_set_timeout nt (put_tree st s1)"
  have f3: "tree (thr s3 u) = nodes st u" "kview s3 = kview s" "timeouts s3 = vars st 0" "next_ticks s3 = nt" for u
    using f1(2) by (simp_all add: s3_def H2K_timer_hw_set_timeout_def, simp add: kview_def put_tree_def tview_def)
  have st3: "status (thr s3 c) = H2K_STATUS_RUNNING" using run by (simp add: s3_def H2K_timer_hw_set_timeout_def put_tree_def f1)
  have k3: "kinv s3 rq fq" by (rule kinv_view [OF inv f3(2)])
  have P0: "expiring ?ex c s3 [] s3" using k3 st3 by (auto simp: expiring_def)
  have nn: "NULL \<notin> set ?ex" using tlist_sorted [OF L(1)] by simp
  have se: "set_tree t1 = set ?ex" using t1(2) by (metis set_inorder)
  have "\<exists>s4. H2K_tree_destructive_iterate (\<lambda>s p. tree (thr s p)) set_nodes H2K_timer_dotimeout (vars st 1) s3 = Some s4 \<and>
      expiring ?ex c s3 ([] @ inorder t1) s4"
  proof (rule iterate_invariant [where X = "set ?ex" and P = "expiring ?ex c s3"])
    show "trep (\<lambda>p. tree (thr s3 p)) (vars st 1) t1" using t1(1) by (simp add: f3)
    show "expiring ?ex c s3 ds (set_nodes m s)" if "expiring ?ex c s3 ds s" "\<And>p. key (m p) = timeout (thr s p)" "\<And>p. p \<notin> set ?ex \<Longrightarrow> m p = tree (thr s p)" for ds s m
      using that by (rule expiring_mem)
    show "expiring ?ex c s3 (ds @ [n]) (H2K_timer_dotimeout n s)" if "expiring ?ex c s3 ds s" "n \<in> set ?ex" "n \<notin> set ds" for ds s n
      using that nn by (rule expiring_func)
  qed (use P0 t1(3) se in \<open>simp_all add: dotimeout_trest set_nodes_def\<close>)
  then obtain s4 where s4: "H2K_tree_destructive_iterate (\<lambda>s p. tree (thr s p)) set_nodes H2K_timer_dotimeout (vars st 1) s3 = Some s4"
    "expiring ?ex c s3 ?ex s4" using t1(2) by auto
  define s' where "s' = H2K_intcontrol_enable intnum (BKL_UNLOCK s4)"
  have ev: "H2K_timer_int intnum s = Some s'"
    using st(1) mn s4(1) by (simp add: H2K_timer_int_def H2K_timer_get_ticks_def H2K_timer_hw_read_count_def Let_def s1_def [symmetric]
      TICK_GRANULARITY_def now_def [symmetric] K ntm s3_def [symmetric] s'_def)
  have f4: "thr s' = thr s4" "kview s' = kview s4" "timeouts s' = timeouts s4" "next_ticks s' = next_ticks s4" "\<not> bkl s'"
    by (simp_all add: s'_def H2K_intcontrol_enable_def Let_def ciad_def BKL_UNLOCK_def kview_def)
  obtain rq' fq' where k4: "kinv s4 rq' fq'" using s4(2) by (auto simp: expiring_def)
  note E = s4(2) [unfolded expiring_def]
  have n4: "next_ticks s' = nt" "timeouts s' = vars st 0" using E f3(3,4) f4(3,4) by (simp_all add: trest_def)
  have tl4: "tlist (timer_tree NULL s') 0 rest" using L(2)
    by (rule tlist_cong) (use E f3 n4 in \<open>auto simp: f4 rest_def\<close>)
  have T: "timeout (thr s' t) = (if t \<in> set ?ex then 0 else timeout (thr s t))" for t using E K f3(1) by (simp add: f4)
  have mem: "t \<in> set rest \<longleftrightarrow> timeout (thr s' t) \<noteq> 0" for t
    using timer_invD(2) [OF ti, of t] by (auto simp: T rest_def not_le [symmetric])
  have "next_ticks s' \<le> timeout (thr s' t)" if t: "t \<in> set rest" for t
  proof -
    have "timeout (thr s (hd rest)) \<le> timeout (thr s t)"
    proof (cases rest)
      case (Cons a l)
      have "sorted (map (K_of st) rest)" using tlist_sorted [OF L(2)] by simp
      moreover have "K_of st = (\<lambda>t. timeout (thr s t))" by (simp add: fun_eq_iff K_of_def K)
      ultimately have "sorted (map (\<lambda>t. timeout (thr s t)) rest)" by simp
      with Cons t show ?thesis by auto
    qed (use t in simp)
    moreover have "timeout (thr s' t) = timeout (thr s t)" using t leD by (auto simp: T rest_def)
    moreover have "rest \<noteq> []" using t by auto
    ultimately show ?thesis by (simp add: n4 nt_def)
  qed
  with tl4 mem have "timer_inv s' rest" by (simp add: timer_inv_def)
  moreover have "kinv s' rq' fq'" by (rule kinv_view [OF k4 f4(2)])
  moreover have "\<forall>t\<in>set xs. timeout (thr s t) \<le> now \<longrightarrow> expired (thr s' t)" using E by (simp add: f4)
  moreover have "cluster_sched s' = cluster_sched s"
  proof -
    have "cluster_sched s' = cluster_sched s4" by (simp add: s'_def H2K_intcontrol_enable_def Let_def ciad_def BKL_UNLOCK_def)
    also have "\<dots> = cluster_sched s3" using E trest_eqD(4) by blast
    finally show ?thesis by (simp add: s3_def s1_def H2K_timer_hw_set_timeout_def put_tree_def BKL_LOCK_def H2K_timer_update_time_def)
  qed
  ultimately show ?thesis using ev n4(1) f4(5) by (auto simp: nt_def)
qed

section \<open>Properties\<close>



text \<open>Thread 20 runs and has a timeout at tick 100; thread 340 waits and has one at tick 50.\<close>

definition timer_example :: H2K_kg_t where
  "timer_example = vm_example\<lparr>thr := (thr vm_example)
       (20 := (thr vm_example 20)\<lparr>tree := \<lparr>left = 340, right = NULL, key = 100\<rparr>\<rparr>,
        340 := (thr vm_example 340)\<lparr>tree := \<lparr>left = NULL, right = NULL, key = 50\<rparr>\<rparr>),
     timeouts := 20, next_ticks := 50, timer_reg := 48\<rparr>"

lemma timer_example_inv: "timer_inv timer_example [340, 20]" "kinv timer_example (\<lambda>_. []) ((\<lambda>_. [])(15 := [30, 31]))"
proof -
  have k: "timeout (thr vm_example t) = 0" for t by (simp add: vm_example_def futex_example_def sched_base_def thread0_def)
  have "tlist (timer_tree NULL timer_example) 0 [340, 20]"
    unfolding tlist_def by (intro exI [of _ "Node (Node Leaf 340 Leaf) 20 Leaf"]) (simp, simp add: timer_example_def)
  then show "timer_inv timer_example [340, 20]" by (simp add: timer_inv_def) (simp add: timer_example_def k)
  show "kinv timer_example (\<lambda>_. []) ((\<lambda>_. [])(15 := [30, 31]))"
    by (rule kinv_view [OF vm_example_inv]) (auto simp: kview_def timer_example_def tview_def)
qed

lemma timer_example_thr: "status (thr timer_example 20) = H2K_STATUS_RUNNING" "timeout (thr timer_example 20) = 100"
  "timeout (thr timer_example 340) = 50" "timer_reg timer_example = 48" "last_ticks timer_example = 0"
  by (simp_all add: timer_example_def vm_example_vm, simp add: vm_example_def futex_example_def sched_base_def kg0_def)



end
