(* ===== verification/Popup.thy ===== *)
theory Popup
  imports Vmint_Correct
begin

text \<open>
  Threads that wait for physical interrupts: one thread per interrupt
  (\<^verbatim>\<open>kernel/event/popup\<close>) and the pool of a VM (\<^verbatim>\<open>kernel/event/intpool\<close>). An interrupt
  service routine ends either with a return or with a switch to the thread it wakes; the
  result is then \<open>Switch\<close> of the interrupted and the woken thread.
\<close>

section \<open>Popup threads\<close>

definition L2_CORE_INTERRUPT :: u32 where "L2_CORE_INTERRUPT = 2"

definition set_handler :: "u32 \<Rightarrow> inthandler \<Rightarrow> ptr \<Rightarrow> H2K_kg_t \<Rightarrow> H2K_kg_t" where
  "set_handler intnum h p s =
     s\<lparr>int_handler := (int_handler s)(unat intnum := h), int_param := (int_param s)(unat intnum := p)\<rparr>"

text \<open>The common end of both service routines: the woken thread takes over the hardware thread.\<close>

definition take_over :: "ptr \<Rightarrow> u32 \<Rightarrow> ptr \<Rightarrow> H2K_kg_t \<Rightarrow> H2K_kg_t" where
  "take_over me hwtnum wk s =
     (let s1 = (if me \<noteq> NULL then H2K_ready_append me (H2K_runlist_remove me s)
                else s\<lparr>wait_mask := unset_bit (unat hwtnum) (wait_mask s)\<rparr>);
          s2 = highprio_imask hwtnum (s1\<lparr>priomask := unset_bit (unat hwtnum) (priomask s1)\<rparr>)
      in H2K_runlist_push wk s2)"

definition H2K_popup_int :: "u32 \<Rightarrow> ptr \<Rightarrow> u32 \<Rightarrow> ptr \<Rightarrow> H2K_kg_t \<Rightarrow> H2K_kg_t \<times> unit outcome" where
  "H2K_popup_int intnum me hwtnum wk s =
     (let s1 = set_handler intnum NoHandler NULL (BKL_LOCK s)
      in if wk = NULL then (BKL_UNLOCK s1, Ret ())
         else (take_over me hwtnum wk s1, Switch me wk))"

definition H2K_popup_wait :: "u32 \<Rightarrow> ptr \<Rightarrow> H2K_kg_t \<Rightarrow> (H2K_kg_t \<times> int outcome) option" where
  "H2K_popup_wait intnum me s =
     (let ht = hthread (thr s me)
      in if unat intnum \<ge> MAX_INTERRUPTS then Some (s, Ret (-1))
         else if intnum = L2_CORE_INTERRUPT then Some (s, Ret (-1))
         else
           let s1 = BKL_LOCK s
           in if bit (vmstatus (thr s1 me)) VMWORK then work_first me s1
              else if int_param s1 (unat intnum) \<noteq> NULL then Some (BKL_UNLOCK s1, Ret (-1))
              else
                let s2 = set_handler intnum H2K_popup_int_h me s1;
                    s3 = H2K_runlist_remove me s2;
                    s4 = upd_thr me (\<lambda>c. c\<lparr>status := H2K_STATUS_INTBLOCKED, r00 := intnum, r01 := 0\<rparr>) s3;
                    s5 = H2K_intcontrol_enable intnum s4
                in do { (s6, new) \<leftarrow> H2K_dosched me (ucast ht) s5; Some (s6, Switch me new) })"

section \<open>The interrupt pool of a VM\<close>

definition ring_update :: "ptr \<Rightarrow> (ptr \<Rightarrow> H2K_thread_context) \<times> ptr \<Rightarrow> H2K_kg_t \<Rightarrow> H2K_kg_t" where
  "ring_update vb hr s = upd_vmb vb (intpool_update (\<lambda>_. snd hr)) (s\<lparr>thr := fst hr\<rparr>)"

definition H2K_intpool_int :: "u32 \<Rightarrow> ptr \<Rightarrow> u32 \<Rightarrow> ptr \<Rightarrow> H2K_kg_t \<Rightarrow> H2K_kg_t \<times> unit outcome" where
  "H2K_intpool_int intnum me hwtnum vb s =
     (let s1 = BKL_LOCK s; wk = intpool (vmb s1 vb)
      in if wk = NULL
         then (BKL_UNLOCK (upd_vmb vb (\<lambda>v. v\<lparr>
                 intpool_pending := upd_bit (\<lambda>w. w OR push_bit (bitidx intnum) 1) (wordidx intnum) (intpool_pending v),
                 intpool_anypending := 1\<rparr>) s1), Ret ())
         else
           let s2 = ring_update vb (H2K_ring_remove_real (thr s1) (intpool (vmb s1 vb)) wk) s1;
               s3 = upd_thr wk (r00_update (\<lambda>_. intnum)) s2
           in (take_over me hwtnum wk s3, Switch me wk))"

fun pending_from :: "nat list \<Rightarrow> (nat \<Rightarrow> u32) \<Rightarrow> (nat \<times> nat) option" where
  "pending_from [] m = None"
| "pending_from (i # is) m = (if m i \<noteq> 0 then Some (i, ct0 (m i)) else pending_from is m)"

definition get_pending_interrupt :: "ptr \<Rightarrow> H2K_kg_t \<Rightarrow> H2K_kg_t \<times> int" where
  "get_pending_interrupt vb s =
     (case pending_from [0..<MAX_INTERRUPTS div 32] (intpool_pending (vmb s vb)) of
        None \<Rightarrow> (s, -1)
      | Some (i, b) \<Rightarrow>
          (upd_vmb vb (\<lambda>v. v\<lparr>intpool_pending := upd_bit (\<lambda>w. w AND NOT (push_bit b 1)) i (intpool_pending v)\<rparr>) s, int (32 * i + b)))"

text \<open>Blocking the caller in the pool of its VM.\<close>

definition intpool_block :: "ptr \<Rightarrow> H2K_kg_t \<Rightarrow> (H2K_kg_t \<times> int outcome) option" where
  "intpool_block me s =
     (let vb = vmblock (thr s me);
          s1 = H2K_runlist_remove me s;
          s2 = ring_update vb (H2K_ring_append_real (thr s1) (intpool (vmb s1 vb)) me) s1;
          s3 = upd_thr me (\<lambda>c. c\<lparr>status := H2K_STATUS_INTBLOCKED, r00 := -1\<rparr>) s2
      in do { (s4, new) \<leftarrow> H2K_dosched me (ucast (hthread (thr s me))) s3; Some (s4, Switch me new) })"

definition H2K_intpool_wait :: "u32 \<Rightarrow> ptr \<Rightarrow> H2K_kg_t \<Rightarrow> (H2K_kg_t \<times> int outcome) option" where
  "H2K_intpool_wait int_ack_num me s =
     (let vb = vmblock (thr s me);
          s0 = (if unat int_ack_num < MAX_INTERRUPTS then H2K_intcontrol_enable int_ack_num s else s);
          s1 = BKL_LOCK s0
      in if bit (vmstatus (thr s1 me)) VMWORK then work_first me s1
         else if intpool_anypending (vmb s1 vb) \<noteq> 0 then
           let (s2, intno) = get_pending_interrupt vb s1
           in if intno \<ge> 0 then Some (BKL_UNLOCK s2, Ret intno)
              else intpool_block me (upd_vmb vb (intpool_anypending_update (\<lambda>_. 0)) s2)
         else intpool_block me s1)"

definition H2K_intpool_configure :: "u32 \<Rightarrow> u32 \<Rightarrow> ptr \<Rightarrow> H2K_kg_t \<Rightarrow> H2K_kg_t \<times> int" where
  "H2K_intpool_configure intno en me s =
     (let s1 = BKL_LOCK s;
          s2 = (if en \<noteq> 0 then H2K_intcontrol_enable intno (set_handler intno H2K_intpool_int_h (vmblock (thr s1 me)) s1)
                else set_handler intno NoHandler NULL (H2K_intcontrol_disable intno s1))
      in (BKL_UNLOCK s2, 0))"

definition H2K_intpool_cancel :: "ptr \<Rightarrow> H2K_kg_t \<Rightarrow> H2K_kg_t" where
  "H2K_intpool_cancel dest s =
     (let vb = vmblock (thr s dest)
      in upd_thr dest (r00_update (\<lambda>_. -1))
           (ring_update vb (H2K_ring_remove_real (thr s) (intpool (vmb s vb)) dest) s))"

section \<open>Giving up the hardware thread\<close>

text \<open>
  The common core of the waits for physical interrupts: the caller leaves the run list,
  other threads change at most links outside the queues, and the next thread is chosen.
\<close>

lemma futex_rep_keep:
  assumes "futex_rep s fq" "futexhash s' = futexhash s"
    and keep: "\<And>u. status (thr s u) = H2K_STATUS_BLOCKED \<Longrightarrow> tview (thr s' u) = tview (thr s u)"
    and new: "\<And>u. status (thr s' u) = H2K_STATUS_BLOCKED \<Longrightarrow> status (thr s u) = H2K_STATUS_BLOCKED"
  shows "futex_rep s' fq"
proof -
  have eq: "tview (thr s' t) = tview (thr s t)" if "b < 64" "t \<in> set (fq b)" for b t
    using futex_repD(3) [OF assms(1) that] keep by blast
  have "is_ring (thr s') (futexhash s' b) (fq b)" if "b < 64" for b
    unfolding assms(2) using futex_repD(1) [OF assms(1) that] by (rule is_ring_frame) (use eq [OF that] in \<open>simp add: tview_def\<close>)
  moreover have "map (\<lambda>t. prio (thr s' t)) (fq b) = map (\<lambda>t. prio (thr s t)) (fq b)" if "b < 64" for b
    using eq [OF that] by (intro map_cong) (simp_all add: tview_def)
  moreover have "status (thr s' t) = H2K_STATUS_BLOCKED \<and> futex_bucket (thr s' t) = b" if "b < 64" "t \<in> set (fq b)" for b t
    using eq [OF that] futex_repD(3,4) [OF assms(1) that] by (simp add: tview_def futex_bucket_def)
  moreover have "t \<in> set (fq (futex_bucket (thr s' t)))" if "status (thr s' t) = H2K_STATUS_BLOCKED" for t
    using keep [OF new [OF that]] futex_repD(5) [OF assms(1) new [OF that]] by (simp add: tview_def futex_bucket_def)
  ultimately show ?thesis using futex_repD(2) [OF assms(1)] unfolding futex_rep_def by metis
qed

lemma giveup_kinv:
  assumes inv: "kinv s rq fq" and me: "status (thr s me) = H2K_STATUS_RUNNING" and cov: "clusters_cover s'"
    and ht: "htid s = ucast (hthread (thr s me))"
    and fields: "ready s' = ready s" "ready_valids s' = ready_valids s" "hthreads s' = hthreads s"
      "wait_mask s' = wait_mask s" "priomask s' = priomask s" "imask s' = imask s" "htid s' = htid s" "futexhash s' = futexhash s"
      "runlist s' = (runlist s)(unat (hthread (thr s me)) := NULL)" "runlist_prios s' = (runlist_prios s)(unat (hthread (thr s me)) := -1)"
    and links: "\<And>u. status (thr s u) \<in> {H2K_STATUS_READY, H2K_STATUS_BLOCKED} \<Longrightarrow> tview (thr s' u) = tview (thr s u)"
    and pay: "\<And>u. u \<noteq> me \<Longrightarrow> status (thr s' u) = status (thr s u) \<and> prio (thr s' u) = prio (thr s u) \<and> hthread (thr s' u) = hthread (thr s u)"
    and st: "status (thr s' me) \<notin> {H2K_STATUS_RUNNING, H2K_STATUS_READY, H2K_STATUS_BLOCKED}"
  shows "\<exists>s2 new. H2K_dosched x (htid s) s' = Some (s2, new) \<and> bkl s2 = bkl s' \<and> (\<forall>u. u \<notin> rq_threads rq \<longrightarrow> thr s2 u = thr s' u) \<and>
    next_runs x new s' s2 rq fq"
proof -
  have I: "sched_inv s rq" "futex_rep s fq" using inv by (auto simp: kinv_def)
  have rd: "status (thr s u) = H2K_STATUS_READY" if "u \<in> rq_threads rq" for u
    using that ready_repD(4) [OF sched_invD(1) [OF I(1)]] by (auto simp: rq_threads_def)
  have h: "unat (htid s) = unat (hthread (thr s me))"
    by (simp add: ht unsigned_ucast_eq take_bit_nat_eq_self order_less_trans [OF unsigned_less])
  have mid: "sched_mid (unat (htid s)) s' rq"
    by (rule giveup_mid [OF I(1) me h]) (use fields links rd pay st in \<open>auto simp: tview_def\<close>)
  have fut: "futex_rep s' fq" using I(2) fields(8)
  proof (rule futex_rep_keep)
    show "status (thr s u) = H2K_STATUS_BLOCKED" if "status (thr s' u) = H2K_STATUS_BLOCKED" for u
      using that pay [of u] st by (cases "u = me") auto
  qed (use links in simp)
  show ?thesis by (rule dosched_runs [OF mid fut cov refl])
qed

section \<open>Taking over\<close>

lemma highprio_mark:
  assumes "steer_ok s" "unat (htid s) = unat h" "unat h < unat (hthreads s)" "unat h < 32"
  shows "highprio_imask h (s\<lparr>priomask := unset_bit (unat h) (priomask s)\<rparr>) = mark False h s"
proof -
  have m: "mark False h s = (if bit (priomask s) (unat h) then unmark_self h s else s)"
    unfolding mark_def using push_bit_test [OF assms(4)] by simp
  show ?thesis
  proof (cases "bit (priomask s) (unat h)")
    case False
    then have "unset_bit (unat h) (priomask s) = priomask s" by (intro bit_word_eqI) auto
    moreover have "(imask s)(unat h := -1) = imask s" using assms False by (auto simp: steer_ok_def fun_upd_idem)
    ultimately show ?thesis using False assms(2) by (simp add: m highprio_imask_def)
  qed (simp add: m unmark_self_def)
qed

text \<open>The state in which the interrupted thread is queued again or the hardware thread awake.\<close>

definition interrupted :: "ptr \<Rightarrow> u32 \<Rightarrow> H2K_kg_t \<Rightarrow> H2K_kg_t" where
  "interrupted me hwtnum s = (if me \<noteq> NULL then requeue me s else s\<lparr>wait_mask := unset_bit (unat hwtnum) (wait_mask s)\<rparr>)"

definition on_hthread :: "ptr \<Rightarrow> u32 \<Rightarrow> H2K_kg_t \<Rightarrow> bool" where
  "on_hthread me hwtnum s \<longleftrightarrow> htid s = hwtnum \<and>
     (if me = NULL then bit (wait_mask s) (unat hwtnum)
      else status (thr s me) = H2K_STATUS_RUNNING \<and> unat (hthread (thr s me)) = unat hwtnum)"

definition requeued :: "ptr \<Rightarrow> H2K_kg_t \<Rightarrow> (nat \<Rightarrow> ptr list) \<Rightarrow> nat \<Rightarrow> ptr list" where
  "requeued me s rq = (if me = NULL then rq else rq(unat (prio (thr s me)) := rq (unat (prio (thr s me))) @ [me]))"

lemma interrupted_mid:
  assumes "sched_inv s rq" "on_hthread me hwtnum s"
  shows "sched_mid (unat hwtnum) (interrupted me hwtnum s) (requeued me s rq)"
proof (cases "me = NULL")
  case True
  then show ?thesis using wake_mid [OF assms(1)] assms(2) by (simp add: interrupted_def requeued_def on_hthread_def)
next
  case False
  then show ?thesis using requeue_mid [OF assms(1), of me] assms(2) by (simp add: interrupted_def requeued_def on_hthread_def)
qed

lemma interrupted_frame:
  assumes inv: "kinv s rq fq" and on: "on_hthread me hwtnum s" and u: "status (thr s u) = H2K_STATUS_BLOCKED"
  shows "thr (interrupted me hwtnum s) u = thr s u"
proof (cases "me = NULL")
  case False
  have I: "ready_rep s rq" using inv sched_invD(1) by (simp add: kinv_def)
  have "u \<noteq> me" using on u False by (auto simp: on_hthread_def)
  moreover have "u \<notin> rq_threads rq" using ready_repD(4) [OF I] u by (fastforce simp: rq_threads_def)
  ultimately have "thr (requeue me s) u = thr s u"
    using ready_append_outside [of "H2K_runlist_remove me s" rq u me] I
    by (simp add: requeue_def ready_rep_def H2K_runlist_remove_def Let_def)
  then show ?thesis by (simp add: interrupted_def)
qed (simp add: interrupted_def)

lemma interrupted_status:
  "status (thr (interrupted me hwtnum s) u) = (if me \<noteq> NULL \<and> u = me then H2K_STATUS_READY else status (thr s u))"
  "hthread (thr (interrupted me hwtnum s) u) = hthread (thr s u)"
  using more_eqD(2,3) [OF requeue_more [of me s u]] by (auto simp: interrupted_def)

text \<open>The choice of the next thread for an interrupted hardware thread.\<close>

lemma interrupted_runs:
  assumes inv: "kinv s rq fq" and on: "on_hthread me hwtnum s" and cov: "clusters_cover (interrupted me hwtnum s)"
  shows "\<exists>s' new. H2K_dosched me hwtnum (interrupted me hwtnum s) = Some (s', new) \<and> bkl s' = bkl s \<and>
    next_runs me new (interrupted me hwtnum s) s' (requeued me s rq) fq"
proof -
  have I: "sched_inv s rq" "futex_rep s fq" using inv by (auto simp: kinv_def)
  have "futex_rep (interrupted me hwtnum s) fq"
    using I(2) by (rule futex_rep_frame) (use interrupted_frame [OF inv on] in \<open>auto simp: interrupted_status split: if_splits\<close>,
      simp add: interrupted_def requeue_fields)
  from dosched_runs [OF interrupted_mid [OF I(1) on] this cov refl, of me] show ?thesis
    by (auto simp: interrupted_def requeue_fields)
qed

lemma take_over_kinv:
  assumes inv: "kinv s rq fq" and on: "on_hthread me hwtnum s" and w: "w \<noteq> NULL"
    "status (thr s w) = H2K_STATUS_INTBLOCKED" "unat (hthread (thr s w)) = unat hwtnum"
  defines "s' \<equiv> take_over me hwtnum w s"
  shows "kinv s' (requeued me s rq) fq" "runlist s' (unat hwtnum) = w" "status (thr s' w) = H2K_STATUS_RUNNING" "bkl s' = bkl s"
proof -
  have I: "sched_inv s rq" "futex_rep s fq" using inv by (auto simp: kinv_def)
  let ?i = "interrupted me hwtnum s" and ?rq = "requeued me s rq"
  note mid = interrupted_mid [OF I(1) on]
  note M = sched_midD [OF mid]
  have wme: "w \<noteq> me" using on w(1,2) by (auto simp: on_hthread_def)
  note mo = interrupted_status [of me hwtnum s]
  have wi: "status (thr ?i w) = H2K_STATUS_INTBLOCKED" "hthread (thr ?i w) = ucast hwtnum"
  proof -
    show "status (thr ?i w) = H2K_STATUS_INTBLOCKED" using w(2) wme by (simp add: mo)
    have "unat (ucast hwtnum :: u8) = unat hwtnum" using M(9) by (simp add: unsigned_ucast_eq take_bit_nat_eq_self)
    then show "hthread (thr ?i w) = ucast hwtnum" using w(3) by (simp add: mo word_unat_eq_iff)
  qed
  have wq: "w \<notin> rq_threads ?rq" using ready_repD(4) [OF M(1)] wi(1) by (fastforce simp: rq_threads_def)
  have hm: "highprio_imask hwtnum (?i\<lparr>priomask := unset_bit (unat hwtnum) (priomask ?i)\<rparr>) = mark False hwtnum ?i"
    by (rule highprio_mark) (use M in auto)
  have up: "upd_thr w (hthread_update (\<lambda>_. ucast hwtnum)) (mark False hwtnum ?i) = mark False hwtnum ?i"
    using wi(2) by (simp add: upd_thr_def fun_upd_idem)
  have ev: "s' = H2K_runlist_push w (upd_thr w (hthread_update (\<lambda>_. ucast hwtnum)) (mark False hwtnum ?i))"
    unfolding up unfolding hm [symmetric] by (simp add: s'_def take_over_def Let_def interrupted_def requeue_def)
  have "\<And>t. status (thr ?i t) = H2K_STATUS_READY \<Longrightarrow> t \<noteq> w \<Longrightarrow> t \<in> rq_threads ?rq" using M(2) by blast
  note R = run_inv [OF M(1,3,4,5) w(1) wq _ this M(6,7,8,9) refl, of False, folded ev]
  show "runlist s' (unat hwtnum) = w" "status (thr s' w) = H2K_STATUS_RUNNING" using R(2,3) wi(1) by simp_all
  have b: "bkl s' = bkl ?i" by (simp add: ev H2K_runlist_push_def Let_def upd_thr_def)
  then show "bkl s' = bkl s" by (simp add: interrupted_def requeue_fields)
  have fh: "futexhash s' = futexhash s"
    by (simp add: ev H2K_runlist_push_def Let_def upd_thr_def) (simp add: interrupted_def requeue_fields)
  have st: "status (thr s' u) = (if u = w then H2K_STATUS_RUNNING else status (thr ?i u))" for u
    by (simp add: ev H2K_runlist_push_def Let_def upd_thr_def)
  have th: "thr s' u = thr ?i u" if "u \<noteq> w" for u using that by (simp add: ev H2K_runlist_push_def Let_def upd_thr_def)
  have "futex_rep s' fq" using I(2) fh
  proof (rule futex_rep_frame)
    fix u
    show "status (thr s u) = H2K_STATUS_BLOCKED" if "status (thr s' u) = H2K_STATUS_BLOCKED"
      using that by (auto simp: st mo split: if_splits)
    assume u: "status (thr s u) = H2K_STATUS_BLOCKED"
    then have uw: "u \<noteq> w" using w(2) by auto
    show "thr s' u = thr s u" using th [OF uw] interrupted_frame [OF inv on u] by simp
  qed
  with R(1) wi(1) show "kinv s' (requeued me s rq) fq" by (simp add: kinv_def)
qed

section \<open>Soft-pending interrupts\<close>

definition pool_pending :: "ptr \<Rightarrow> H2K_kg_t \<Rightarrow> nat set" where
  "pool_pending vb s = {i. i < MAX_INTERRUPTS \<and> bit (intpool_pending (vmb s vb) (i div 32)) (i mod 32)}"

lemma pending_from_spec:
  "pending_from is m = (case filter (\<lambda>i. m i \<noteq> 0) is of [] \<Rightarrow> None | i # _ \<Rightarrow> Some (i, ct0 (m i)))"
  by (induction "is") auto

lemma get_pending_spec:
  "get_pending_interrupt vb s = (if pool_pending vb s = {} then (s, -1)
     else let i = Min (pool_pending vb s)
          in (upd_vmb vb (\<lambda>v. v\<lparr>intpool_pending := upd_bit (\<lambda>w. w AND NOT (push_bit (i mod 32) 1)) (i div 32) (intpool_pending v)\<rparr>) s, int i))"
proof -
  let ?m = "intpool_pending (vmb s vb)" and ?l = "[0..<MAX_INTERRUPTS div 32]"
  have fin: "finite (pool_pending vb s)" by (simp add: pool_pending_def)
  have div: "i div 32 < MAX_INTERRUPTS div 32 \<longleftrightarrow> i < MAX_INTERRUPTS" for i by (auto simp: MAX_INTERRUPTS_def)
  show ?thesis
  proof (cases "filter (\<lambda>i. ?m i \<noteq> 0) ?l")
    case Nil
    then have "?m j = 0" if "j < MAX_INTERRUPTS div 32" for j using that by (auto simp: filter_empty_conv)
    then have "pool_pending vb s = {}" by (auto simp: pool_pending_def div [symmetric])
    with Nil show ?thesis by (simp add: get_pending_interrupt_def pending_from_spec)
  next
    case (Cons j js)
    let ?b = "ct0 (?m j)"
    have j: "j < MAX_INTERRUPTS div 32" "?m j \<noteq> 0" using Cons list.set_intros(1) [of j js] by (simp_all only: Cons [symmetric] set_filter set_upt) simp_all
    have first: "j \<le> i" if "i < MAX_INTERRUPTS div 32" "?m i \<noteq> 0" for i
    proof -
      have "sorted (filter (\<lambda>i. ?m i \<noteq> 0) ?l)" by (simp add: sorted_wrt_filter)
      moreover have "i \<in> set (filter (\<lambda>i. ?m i \<noteq> 0) ?l)" using that by simp
      ultimately show ?thesis using Cons by auto
    qed
    have b: "?b < 32" "bit (?m j) ?b" using j(2) ct0_lt_iff [of "?m j"] ct0_bit [of "?m j"] by simp_all
    have mem: "32 * j + ?b \<in> pool_pending vb s" using b j(1) by (simp add: pool_pending_def MAX_INTERRUPTS_def)
    have "Min (pool_pending vb s) = 32 * j + ?b" using fin
    proof (rule Min_eqI)
      fix y assume "y \<in> pool_pending vb s"
      then have y: "y div 32 < MAX_INTERRUPTS div 32" "bit (?m (y div 32)) (y mod 32)" by (auto simp: pool_pending_def div)
      then have "j \<le> y div 32" by (intro first) auto
      moreover have "?b \<le> y mod 32" if "y div 32 = j" using y(2) that ct0_below [of "y mod 32" "?m j"] by (auto simp: not_less [symmetric])
      moreover have "y = 32 * (y div 32) + y mod 32" by simp
      ultimately show "32 * j + ?b \<le> y" using b(1) by (cases "y div 32 = j") auto
    qed (rule mem)
    moreover have "pool_pending vb s \<noteq> {}" using mem by blast
    ultimately show ?thesis using Cons b(1) by (simp add: get_pending_interrupt_def pending_from_spec Let_def)
  qed
qed

lemma wordbit: "unat n = 32 * wordidx n + bitidx n" "bitidx n < 32"
proof -
  have t: "n AND 0x1f = take_bit 5 n" by (simp add: take_bit_eq_mask mask_eq_exp_minus_1)
  have "bitidx n = unat n mod 32" unfolding bitidx_def t unsigned_take_bit_eq by (simp add: take_bit_eq_mod)
  moreover have "wordidx n = unat n div 32" by (simp add: wordidx_def drop_bit_eq_div unat_div_distrib)
  ultimately show "unat n = 32 * wordidx n + bitidx n" "bitidx n < 32" by simp_all
qed

lemma intpool_int_pends:
  fixes me :: ptr and hwtnum :: u32
  assumes "intpool (vmb s vb) = NULL" "unat intnum < MAX_INTERRUPTS"
  defines "s' \<equiv> fst (H2K_intpool_int intnum me hwtnum vb s)"
  shows "pool_pending vb s' = insert (unat intnum) (pool_pending vb s)" "intpool_anypending (vmb s' vb) \<noteq> 0" "thr s' = thr s" "kview s' = kview s"
proof -
  have e: "s' = BKL_UNLOCK (upd_vmb vb (\<lambda>v. v\<lparr>
       intpool_pending := upd_bit (\<lambda>w. w OR push_bit (bitidx intnum) 1) (wordidx intnum) (intpool_pending v), intpool_anypending := 1\<rparr>) (BKL_LOCK s))"
    using assms(1) by (simp add: s'_def H2K_intpool_int_def Let_def)
  have d: "unat intnum div 32 = wordidx intnum" "unat intnum mod 32 = bitidx intnum" using wordbit [of intnum] by simp_all
  show "pool_pending vb s' = insert (unat intnum) (pool_pending vb s)"
  proof (rule set_eqI)
    fix i
    have "i = unat intnum \<longleftrightarrow> i div 32 = wordidx intnum \<and> i mod 32 = bitidx intnum" using d by (metis div_mult_mod_eq)
    moreover have "bit (push_bit (bitidx intnum) (1 :: u32)) k \<longleftrightarrow> k = bitidx intnum" for k using wordbit(2) [of intnum] by (auto simp: bit_simps)
    ultimately show "i \<in> pool_pending vb s' \<longleftrightarrow> i \<in> insert (unat intnum) (pool_pending vb s)"
      using assms(2) unfolding pool_pending_def e by (auto simp: upd_bit_def bit_or_iff)
  qed
  show "intpool_anypending (vmb s' vb) \<noteq> 0" "thr s' = thr s" "kview s' = kview s" by (simp_all add: e)
qed

section \<open>Properties\<close>

lemma popup_wait_spec:
  fixes intnum :: u32
  assumes inv: "kinv s rq fq" and me: "status (thr s me) = H2K_STATUS_RUNNING" and cov: "clusters_cover s"
    and ht: "htid s = ucast (hthread (thr s me))" and nw: "\<not> bit (vmstatus (thr s me)) VMWORK"
  shows "if unat intnum \<ge> MAX_INTERRUPTS \<or> intnum = L2_CORE_INTERRUPT \<or> int_param s (unat intnum) \<noteq> NULL
    then \<exists>s'. H2K_popup_wait intnum me s = Some (s', Ret (-1)) \<and> kinv s' rq fq \<and> thr s' = thr s \<and> int_param s' = int_param s
    else \<exists>s' new. H2K_popup_wait intnum me s = Some (s', Switch me new) \<and> bkl s' \<and>
      status (thr s' me) = H2K_STATUS_INTBLOCKED \<and> r00 (thr s' me) = intnum \<and> next_runs me new s s' rq fq"
proof (cases "unat intnum \<ge> MAX_INTERRUPTS \<or> intnum = L2_CORE_INTERRUPT \<or> int_param s (unat intnum) \<noteq> NULL")
  case True
  then have "H2K_popup_wait intnum me s = Some (s, Ret (-1)) \<or> H2K_popup_wait intnum me s = Some (BKL_UNLOCK (BKL_LOCK s), Ret (-1))"
    using nw by (auto simp: H2K_popup_wait_def Let_def BKL_LOCK_def)
  then show ?thesis using True inv kinv_locks(2) [OF kinv_locks(1) [OF inv]] by (auto simp: BKL_LOCK_def BKL_UNLOCK_def)
next
  case False
  define s5 where "s5 = H2K_intcontrol_enable intnum (upd_thr me (\<lambda>c. c\<lparr>status := H2K_STATUS_INTBLOCKED, r00 := intnum, r01 := 0\<rparr>)
    (H2K_runlist_remove me (set_handler intnum H2K_popup_int_h me (BKL_LOCK s))))"
  have t5: "thr s5 = (thr s)(me := (thr s me)\<lparr>status := H2K_STATUS_INTBLOCKED, r00 := intnum, r01 := 0\<rparr>)"
    by (simp add: s5_def H2K_intcontrol_enable_def Let_def ciad_def H2K_runlist_remove_def set_handler_def upd_thr_def)
  have f5: "ready s5 = ready s" "ready_valids s5 = ready_valids s" "hthreads s5 = hthreads s"
    "wait_mask s5 = wait_mask s" "priomask s5 = priomask s" "imask s5 = imask s" "htid s5 = htid s" "futexhash s5 = futexhash s"
    "runlist s5 = (runlist s)(unat (hthread (thr s me)) := NULL)" "runlist_prios s5 = (runlist_prios s)(unat (hthread (thr s me)) := -1)"
    "cluster_sched s5 = cluster_sched s" "bkl s5"
    by (simp_all add: s5_def H2K_intcontrol_enable_def Let_def ciad_def H2K_runlist_remove_def set_handler_def upd_thr_def BKL_LOCK_def)
  have cov5: "clusters_cover s5" using cov clusters_cover_cong [of s5 s]
    by (simp add: s5_def H2K_intcontrol_enable_def Let_def ciad_def H2K_runlist_remove_def set_handler_def upd_thr_def BKL_LOCK_def)
  have p1: "int_param (BKL_LOCK s) = int_param s" by (simp add: BKL_LOCK_def)
  have notrq: "me \<notin> rq_threads rq"
    using ready_repD(4) [OF sched_invD(1)] inv me by (fastforce simp: rq_threads_def kinv_def)
  have "\<exists>s2 new. H2K_dosched me (htid s) s5 = Some (s2, new) \<and> bkl s2 = bkl s5 \<and> (\<forall>u. u \<notin> rq_threads rq \<longrightarrow> thr s2 u = thr s5 u) \<and>
    next_runs me new s5 s2 rq fq"
    by (rule giveup_kinv [OF inv me cov5 ht]) (use me in \<open>simp_all add: f5 t5, auto simp: tview_def\<close>)
  then obtain s2 new where d: "H2K_dosched me (htid s) s5 = Some (s2, new)" "bkl s2 = bkl s5" "\<forall>u. u \<notin> rq_threads rq \<longrightarrow> thr s2 u = thr s5 u"
    "next_runs me new s s2 rq fq" unfolding next_runs_cong [OF f5(11,4)] by (elim exE conjE)
  have ev: "H2K_popup_wait intnum me s = Some (s2, Switch me new)"
    using False nw d(1) p1 by (simp add: H2K_popup_wait_def Let_def s5_def [symmetric] ht)
  have "thr s2 me = thr s5 me" using d(3) notrq by blast
  with ev d False show ?thesis unfolding f5 by (intro if_not_P [THEN iffD2]) (auto simp: t5 f5)
qed


lemma popup_int_spec:
  fixes intnum :: u32
  assumes inv: "kinv s rq fq" and on: "on_hthread me hwtnum s" and w: "w \<noteq> NULL"
    "status (thr s w) = H2K_STATUS_INTBLOCKED" "unat (hthread (thr s w)) = unat hwtnum"
  defines "s' \<equiv> fst (H2K_popup_int intnum me hwtnum w s)"
  shows "snd (H2K_popup_int intnum me hwtnum w s) = Switch me w \<and> kinv s' (requeued me s rq) fq \<and>
    runlist s' (unat hwtnum) = w \<and> int_param s' (unat intnum) = NULL"
proof -
  let ?s1 = "set_handler intnum NoHandler NULL (BKL_LOCK s)"
  have k1: "kinv ?s1 rq fq" by (rule kinv_view [OF inv]) (simp add: set_handler_def kview_def BKL_LOCK_def)
  have f1: "thr ?s1 = thr s" "on_hthread me hwtnum ?s1 = on_hthread me hwtnum s" "requeued me ?s1 rq = requeued me s rq"
    by (simp_all add: set_handler_def on_hthread_def requeued_def BKL_LOCK_def)
  note t = take_over_kinv [OF k1, of me hwtnum w, unfolded f1, OF on w]
  have "int_param (take_over me hwtnum w ?s1) = int_param ?s1"
    by (simp add: take_over_def Let_def H2K_runlist_push_def highprio_imask_def upd_thr_def H2K_ready_append_def H2K_ready_set_prio_def split_beta H2K_runlist_remove_def)
  then show ?thesis using w(1) t by (simp add: s'_def H2K_popup_int_def Let_def) (simp add: set_handler_def)
qed

text \<open>
  the popup interrupt, on the hardware thread the waiter last ran on. The interrupted
  thread (if any) goes to the end of the queue of its priority, the waiter runs on the
  hardware thread, the handler is free again, and the kernel invariant holds.
\<close>

theorem popup_int_correct:
  fixes intnum :: u32
  assumes inv: "kinv s rq fq" and on: "on_hthread me hwtnum s" and w: "w \<noteq> NULL"
    "status (thr s w) = H2K_STATUS_INTBLOCKED" "unat (hthread (thr s w)) = unat hwtnum"
  defines "s' \<equiv> fst (H2K_popup_int intnum me hwtnum w s)"
  shows "snd (H2K_popup_int intnum me hwtnum w s) = Switch me w \<and> kinv s' (requeued me s rq) fq \<and>
    runlist s' (unat hwtnum) = w \<and> int_param s' (unat intnum) = NULL"
  unfolding s'_def by (rule popup_int_spec [OF inv on w])

text \<open>
  Threads 20 and 21 run on the two hardware threads; thread 40 waits for interrupt 5 and last
  ran on hardware thread \<open>h\<close>.
\<close>

definition popup_example :: "u8 \<Rightarrow> H2K_kg_t" where
  "popup_example h = futex_example\<lparr>thr := (thr futex_example)(40 := thread0\<lparr>prio := 1, status := H2K_STATUS_INTBLOCKED, hthread := h, r00 := 5\<rparr>),
     int_handler := (\<lambda>_. NoHandler)(5 := H2K_popup_int_h), int_param := (\<lambda>_. NULL)(5 := 40)\<rparr>"

lemma popup_example_inv: "kinv (popup_example h) (\<lambda>_. []) ((\<lambda>_. [])(15 := [30, 31]))"
proof -
  note E = popup_example_def futex_example_def sched_base_def
  have "ready_rep (popup_example h) (\<lambda>_. [])" by (simp add: ready_rep_def prio_bit_def E)
  moreover have "runlist_ok (popup_example h)" by (simp add: runlist_ok_def slot_ok_def E MAX_HTHREADS_def less_2_cases ucast_eq)
  moreover have "lowprio_ok (popup_example h)" "steer_ok (popup_example h)" by (simp_all add: lowprio_ok_def steer_ok_def E at_most_one_def less_2_cases bit_2_iff)
  ultimately have "sched_inv (popup_example h) (\<lambda>_. [])" by (simp add: sched_inv_def E)
  moreover have "is_ring (thr (popup_example h)) 30 [30, 31]" by (simp add: is_ring_def cyc_def E)
  then have "futex_rep (popup_example h) ((\<lambda>_. [])(15 := [30, 31]))" by (auto simp: futex_rep_def futex_bucket_def E futex_example_hash)
  ultimately show ?thesis by (simp add: kinv_def)
qed

lemma popup_example_thr:
  "status (thr (popup_example h) 20) = H2K_STATUS_RUNNING" "hthread (thr (popup_example h) 20) = 0" "htid (popup_example h) = 0"
  "status (thr (popup_example h) 40) = H2K_STATUS_INTBLOCKED" "hthread (thr (popup_example h) 40) = h" "vmstatus (thr (popup_example h) 20) = 0"
  "clusters_cover (popup_example h)" "int_param (popup_example h) 6 = NULL" "prio (thr (popup_example h) 20) = 3"
  by (simp_all add: popup_example_def futex_example_def sched_base_def clusters_cover_def thread0_def)


theorem popup_int_correct_witness:
  "kinv (fst (H2K_popup_int 5 20 0 40 (popup_example 0))) ((\<lambda>_. [])(3 := [20])) ((\<lambda>_. [])(15 := [30, 31]))"
proof -
  have "on_hthread 20 0 (popup_example 0)" by (simp add: on_hthread_def popup_example_thr)
  then show ?thesis using popup_int_correct [OF popup_example_inv, of 20 0 0 40 5]
    by (simp add: popup_example_thr requeued_def)
qed

text \<open>
  The popup interrupt on another hardware thread than the one the waiter last ran on
  breaks the run list. In a consistent state, the interrupt arrives on hardware thread 0;
  the waiter, which last ran on hardware thread 1, is entered there over the thread that
  runs on it, and the slot of hardware thread 0 stays empty.
\<close>

theorem popup_int_stale_hthread:
  "\<exists>s rq fq. kinv s rq fq \<and> on_hthread 20 0 s \<and> status (thr s 40) = H2K_STATUS_INTBLOCKED \<and> int_param s 5 = 40 \<and>
     (let s' = fst (H2K_popup_int 5 20 0 40 s) in runlist s' 0 = NULL \<and> runlist s' 1 = 40 \<and> status (thr s' 21) = H2K_STATUS_RUNNING \<and>
        (\<forall>rq' fq'. \<not> kinv s' rq' fq'))"
proof -
  let ?s = "popup_example 1"
  let ?s1 = "set_handler 5 NoHandler NULL (BKL_LOCK ?s)"
  let ?s' = "fst (H2K_popup_int 5 20 0 40 ?s)"
  have h: "hthread (thr (requeue 20 ?s1) 40) = 1"
    using more_eqD(3) [OF requeue_more [of 20 ?s1 40]] by (simp add: set_handler_def popup_example_thr)
  have st: "status (thr (requeue 20 ?s1) 21) = H2K_STATUS_RUNNING" "hthread (thr (requeue 20 ?s1) 21) = 1"
    using more_eqD(2,3) [OF requeue_more [of 20 ?s1 21]] by (simp_all add: set_handler_def popup_example_def futex_example_def sched_base_def)
  have rl: "runlist (requeue 20 ?s1) 0 = NULL" by (simp add: requeue_fields set_handler_def popup_example_thr)
  have s': "?s' = H2K_runlist_push 40 (highprio_imask 0 ((requeue 20 ?s1)\<lparr>priomask := unset_bit 0 (priomask (requeue 20 ?s1))\<rparr>))"
    by (simp add: H2K_popup_int_def Let_def take_over_def requeue_def)
  have r: "runlist ?s' 0 = NULL" "runlist ?s' 1 = 40" "status (thr ?s' 21) = H2K_STATUS_RUNNING" "hthread (thr ?s' 21) = 1"
    unfolding s' using h st rl by (simp_all add: H2K_runlist_push_def Let_def highprio_imask_def upd_thr_def)
  have "\<not> kinv ?s' rq' fq'" for rq' fq'
  proof
    assume "kinv ?s' rq' fq'"
    then have "runlist_ok ?s'" by (simp add: kinv_def sched_inv_def)
    from runlist_okD(4) [OF this r(3)] r(2,4) show False by simp
  qed
  moreover have "on_hthread 20 0 ?s" by (simp add: on_hthread_def popup_example_thr)
  moreover have "int_param ?s 5 = 40" by (simp add: popup_example_def)
  ultimately show ?thesis using popup_example_inv [of 1] r popup_example_thr(4) [of 1] unfolding Let_def by blast
qed

text \<open>
  no pooled interrupt is lost. If one arrives while no thread waits in the pool of the
  VM, a later wait of a thread of that VM returns at once with the least pending number,
  which is at most that of this interrupt, and takes only that one; no thread changes.
\<close>

theorem intpool_pends_until_wait:
  fixes intnum ack hwtnum :: u32 and c :: ptr
  assumes "intpool (vmb s vb) = NULL" "unat intnum < MAX_INTERRUPTS" "vmblock (thr s me) = vb" "\<not> bit (vmstatus (thr s me)) VMWORK"
  defines "s1 \<equiv> fst (H2K_intpool_int intnum c hwtnum vb s)"
  defines "P \<equiv> insert (unat intnum) (pool_pending vb s)"
  shows "\<exists>s2. H2K_intpool_wait ack me s1 = Some (s2, Ret (int (Min P))) \<and> Min P \<le> unat intnum \<and>
    pool_pending vb s2 = P - {Min P} \<and> kview s2 = kview s \<and> \<not> bkl s2"
proof -
  note p = intpool_int_pends [OF assms(1,2), of c hwtnum, folded s1_def]
  let ?i = "Min P"
  have fin: "finite P" by (simp add: P_def pool_pending_def)
  have mem: "?i \<in> P" using fin by (rule Min_in) (simp add: P_def)
  define s2 where "s2 = BKL_LOCK (if unat ack < MAX_INTERRUPTS then H2K_intcontrol_enable ack s1 else s1)"
  have f2: "vmb s2 = vmb s1" "thr s2 = thr s1" "kview s2 = kview s1"
    by (simp_all add: s2_def H2K_intcontrol_enable_def Let_def ciad_def, simp add: kview_def)
  have P2: "pool_pending vb s2 = P" using p(1) by (simp add: pool_pending_def f2 P_def)
  define s3 where "s3 = upd_vmb vb (\<lambda>v. v\<lparr>intpool_pending := upd_bit (\<lambda>w. w AND NOT (push_bit (?i mod 32) 1)) (?i div 32) (intpool_pending v)\<rparr>) s2"
  have g: "get_pending_interrupt vb s2 = (s3, int ?i)"
    unfolding get_pending_spec P2 using mem by (auto simp: Let_def s3_def)
  have nw: "\<not> bit (vmstatus (thr s2 me)) VMWORK" "vmblock (thr s1 me) = vb" "intpool_anypending (vmb s2 vb) \<noteq> 0"
    using assms(3,4) p(2,3) by (simp_all add: f2)
  have ev: "H2K_intpool_wait ack me s1 = Some (BKL_UNLOCK s3, Ret (int ?i))"
    unfolding H2K_intpool_wait_def Let_def s2_def [symmetric] using g nw by simp
  have "pool_pending vb (BKL_UNLOCK s3) = P - {?i}"
  proof (rule set_eqI)
    fix k
    have "bit (NOT (push_bit (?i mod 32) (1 :: u32))) b \<longleftrightarrow> b < 32 \<and> b \<noteq> ?i mod 32" for b by (auto simp: bit_simps)
    then have "k \<in> pool_pending vb (BKL_UNLOCK s3) \<longleftrightarrow> k \<in> pool_pending vb s2 \<and> \<not> (k div 32 = ?i div 32 \<and> k mod 32 = ?i mod 32)"
      by (auto simp: pool_pending_def s3_def upd_bit_def bit_and_iff)
    moreover have "k = ?i \<longleftrightarrow> k div 32 = ?i div 32 \<and> k mod 32 = ?i mod 32" by (metis div_mult_mod_eq)
    ultimately show "k \<in> pool_pending vb (BKL_UNLOCK s3) \<longleftrightarrow> k \<in> P - {?i}" by (auto simp: P2)
  qed
  moreover have "kview (BKL_UNLOCK s3) = kview s" by (simp add: s3_def f2 p)
  moreover have "?i \<le> unat intnum" using fin by (rule Min_le) (simp add: P_def)
  ultimately show ?thesis using ev by (intro exI [of _ "BKL_UNLOCK s3"]) simp
qed

theorem intpool_pends_until_wait_witness:
  "\<exists>s2. H2K_intpool_wait 600 20 (fst (H2K_intpool_int 37 21 1 0 (popup_example 0))) = Some (s2, Ret 37)"
proof -
  have "pool_pending 0 (popup_example 0) = {}" "intpool (vmb (popup_example 0) 0) = NULL" "vmblock (thr (popup_example 0) 20) = 0"
    by (simp_all add: pool_pending_def popup_example_def futex_example_def sched_base_def kg0_def vmblock0_def thread0_def)
  then show ?thesis using intpool_pends_until_wait [of "popup_example 0" 0 37 20 600 21 1]
    by (auto simp: popup_example_thr MAX_INTERRUPTS_def)
qed

end
