(* ===== verification/Translate.thy ===== *)
theory Translate
  imports Kernel_State Tlbfmt "HOL-Library.Monad_Syntax"
begin

text \<open>
  Address translation (\<^verbatim>\<open>kernel/mem/translate\<close>): one dispatcher over four translators,
  linear lists (\<^verbatim>\<open>kernel/mem/linear\<close>), two-level tables (\<^verbatim>\<open>kernel/mem/pagewalk\<close>), offsets
  with fences (\<^verbatim>\<open>kernel/mem/offset\<close>) and variable-radix tables (\<^verbatim>\<open>kernel/mem/varadix\<close>). A
  translator reads its tables in the memory of the guest, through the guest map of the VM, and
  hands its result to the guest map again: the recursion follows the chain of parents of the VM.
  The translators take the translation of the next level as an argument; \<open>H2K_translate\<close> ties
  the knot with a bound on the depth of the chain, and \<open>None\<close> is a translation that does not
  return.
\<close>

section \<open>Physical memory and bit fields\<close>

text \<open>
  The instruction \<open>memw_phys(Rs,Rt)\<close> reads the word at the physical address whose low 11 bits are
  those of \<open>Rs\<close> and whose upper bits are \<open>Rt\<close> (\<^verbatim>\<open>kernel/mem/physread/physread.h\<close>).
\<close>

definition memw_phys :: "H2K_kg_t \<Rightarrow> u32 \<Rightarrow> u32 \<Rightarrow> u32" where
  "memw_phys s lower upper = physmem s (push_bit 11 (ucast upper) OR ucast (take_bit 11 lower))"

definition H2K_mem_physread_word :: "H2K_kg_t \<Rightarrow> u64 \<Rightarrow> u32" where
  "H2K_mem_physread_word s pa = memw_phys s (ucast (pa AND 0x7fc)) (ucast (drop_bit 11 pa))"

definition H2K_mem_physread_dword :: "H2K_kg_t \<Rightarrow> u64 \<Rightarrow> u64" where
  "H2K_mem_physread_dword s pa =
     (let upper = ucast (drop_bit 11 pa); lower = ucast (pa AND 0x7fc)
      in push_bit 32 (ucast (memw_phys s (lower + 4) upper)) OR ucast (memw_phys s lower upper))"

text \<open>
  The bit-field instructions: the width is the low six bits of its operand, the offset a
  seven-bit signed number; a negative offset shifts the other way in \<open>extractu\<close> and clears the
  result of \<open>insert\<close>.
\<close>

definition field_offset :: "u32 \<Rightarrow> int" where
  "field_offset w = sint (ucast w :: 7 word)"

definition field_width :: "u32 \<Rightarrow> nat" where
  "field_width w = unat (ucast w :: 6 word)"

definition Q6_R_extractu_RP :: "u32 \<Rightarrow> u32 \<Rightarrow> u32 \<Rightarrow> u32" where
  "Q6_R_extractu_RP rs width off =
     (let k = field_offset off; v = (ucast rs :: u64)
      in ucast (take_bit (field_width width) (if k \<ge> 0 then drop_bit (nat k) v else push_bit (nat (- k)) v)))"

definition insert_field :: "'a::len word \<Rightarrow> 'a word \<Rightarrow> nat \<Rightarrow> nat \<Rightarrow> 'a word" where
  "insert_field rx rs width off = (rx AND NOT (push_bit off (mask width))) OR push_bit off (rs AND mask width)"

definition Q6_R_insert_RP :: "u32 \<Rightarrow> u32 \<Rightarrow> u32 \<Rightarrow> u32 \<Rightarrow> u32" where
  "Q6_R_insert_RP rx rs width off =
     (if field_offset off < 0 then 0 else insert_field rx rs (field_width width) (nat (field_offset off)))"

definition Q6_P_insert_PP :: "u64 \<Rightarrow> u64 \<Rightarrow> u32 \<Rightarrow> u32 \<Rightarrow> u64" where
  "Q6_P_insert_PP rx rs width off =
     (if field_offset off < 0 then 0 else insert_field rx rs (field_width width) (nat (field_offset off)))"

text \<open>The next level: a translation by another address-space entry, if it returns.\<close>

type_synonym translator = "H2K_translation_t \<Rightarrow> H2K_asid_entry_t \<Rightarrow> H2K_translation_t option"

text \<open>\<open>guestmap.raw\<close> covers every field of the entry, so it is zero for the zero entry only.\<close>

definition mapped :: "H2K_asid_entry_t \<Rightarrow> bool" where
  "mapped gm \<longleftrightarrow> gm \<noteq> asid_entry0"

definition entry_vmblock :: "H2K_kg_t \<Rightarrow> H2K_asid_entry_t \<Rightarrow> H2K_vmblock_t" where
  "entry_vmblock s info = vmb s (vmblocks s (unat (vmid info)))"

text \<open>Every translator but the offset ends by handing its result to the guest map, if it has to.\<close>

definition hand_over :: "translator \<Rightarrow> H2K_asid_entry_t \<Rightarrow> H2K_translation_t \<Rightarrow> H2K_translation_t option" where
  "hand_over tr gm t = (if \<not> shared t \<and> mapped gm then tr t gm else Some t)"

section \<open>Linear lists\<close>

text \<open>The fields of a list entry (\<^verbatim>\<open>libs/h2/common/h2_common_linear.h\<close>).\<close>

definition lin_chain :: "u64 \<Rightarrow> bool" where "lin_chain e = bit e 63"
definition lin_shared :: "u64 \<Rightarrow> bool" where "lin_shared e = bit e 62"
definition lin_extend :: "u64 \<Rightarrow> bool" where "lin_extend e = bit e 61"
definition lin_vpn :: "u64 \<Rightarrow> u32" where "lin_vpn e = ucast (take_bit 20 (drop_bit 32 e))"
definition lin_size :: "u64 \<Rightarrow> 4 word" where "lin_size e = ucast (drop_bit 52 e)"
definition lin_xwru :: "u64 \<Rightarrow> 4 word" where "lin_xwru e = ucast (drop_bit 28 e)"

definition H2K_linear_translate_update :: "H2K_translation_t \<Rightarrow> u64 \<Rightarrow> H2K_translation_t" where
  "H2K_linear_translate_update t e = t\<lparr>
     size := min (size t) (lin_size e),
     pn := (if lin_extend e then ucast (take_bit 26 e) else ucast (take_bit 24 e)),
     cccc := (if weak_ccc t then (if lin_extend e then ucast (drop_bit 56 e) else ucast (drop_bit 24 e)) else cccc t),
     xwru := xwru t AND lin_xwru e,
     weak_ccc := (if lin_extend e then bit e 59 else bit e 27),
     hsv39 := (if lin_extend e then bit e 60 else False),
     shared := lin_shared e\<rparr>"

text \<open>
  The physical address of the next entry, and whether its page may be read: a page boundary is
  translated anew.
  The translation \<open>tmp\<close> is the same variable for every page.
\<close>

definition list_page ::
  "translator \<Rightarrow> H2K_asid_entry_t \<Rightarrow> u32 \<Rightarrow> u64 \<Rightarrow> u32 \<Rightarrow> H2K_translation_t \<Rightarrow> (H2K_translation_t \<times> u64 \<times> bool) option" where
  "list_page tr gm lst list_pa last_gpn tmp =
     (let list_gpn = drop_bit 12 lst;
          pa_of = (\<lambda>list_ppn. push_bit 12 (ucast list_ppn) OR ucast (lst AND 0xfff))
      in if list_gpn \<noteq> last_gpn then
           (if mapped gm then do { t \<leftarrow> tr (tmp\<lparr>pn := list_gpn\<rparr>) gm; Some (t, pa_of (pn t), bit (xwru t) 1) }
            else Some (tmp, pa_of list_gpn, True))
         else Some (tmp, list_pa, True))"

definition lin_match :: "u32 \<Rightarrow> u64 \<Rightarrow> bool" where
  "lin_match badvpn e \<longleftrightarrow>
     (let m = push_bit (2 * unat (lin_size e)) (-1) in lin_vpn e AND m = badvpn AND m)"

partial_function (option) linear_walk ::
  "translator \<Rightarrow> H2K_kg_t \<Rightarrow> H2K_asid_entry_t \<Rightarrow> H2K_translation_t \<Rightarrow> u32 \<Rightarrow> u64 \<Rightarrow> u32 \<Rightarrow> H2K_translation_t \<Rightarrow> H2K_translation_t option" where
  "linear_walk tr s gm i lst list_pa last_gpn tmp =
     do {
       (tmp', pa, ok) \<leftarrow> list_page tr gm lst list_pa last_gpn tmp;
       let e = H2K_mem_physread_dword s pa; l = ucast e AND - 8; t = H2K_linear_translate_update i e
       in if \<not> ok \<or> e = 0 then Some H2K_translate_bad
          else if lin_chain e then
            linear_walk tr s gm i l ((pa AND (pa AND 0xfffff000)) OR ucast (l AND 0xfff)) (drop_bit 12 lst) tmp'
          else if lin_match (pn i) e then hand_over tr gm t
          else linear_walk tr s gm i (lst + 8) (pa + 8) (drop_bit 12 lst) tmp'
     }"

declare linear_walk.simps [code]

definition H2K_linear_translate :: "translator \<Rightarrow> H2K_kg_t \<Rightarrow> translator" where
  "H2K_linear_translate tr s i info =
     linear_walk tr s (guestmap (entry_vmblock s info)) i (ptb info) 0 (-1) (H2K_translate_default 0)"

section \<open>Offsets\<close>

definition in_range :: "u32 \<Rightarrow> u32 \<Rightarrow> u32 \<Rightarrow> bool" where
  "in_range base sz p \<longleftrightarrow> base \<le> p \<and> p < base + sz"

definition offset_apply :: "H2K_translation_t \<Rightarrow> H2K_offset_t \<Rightarrow> H2K_translation_t" where
  "offset_apply i os = i\<lparr>
     pn := pn i + ucast (os_pages os),
     size := (if size i > os_size os then os_size os else size i),
     xwru := xwru i AND os_xwru os,
     cccc := (if weak_ccc i then os_cccc os else cccc i),
     weak_ccc := os_weak_ccc os\<rparr>"

definition H2K_offset_translate :: "translator \<Rightarrow> H2K_kg_t \<Rightarrow> translator" where
  "H2K_offset_translate tr s i info =
     (let orig_in = pn i; t = offset_apply i (offset_of_raw (ptb info));
          vmblock = entry_vmblock s info
      in if \<not> shared t \<and> mapped (guestmap vmblock) then tr t (guestmap vmblock)
         else if in_range (tcm_base s) (tcm_size s) orig_in \<or> in_range (vtcm_base s) (vtcm_size s) orig_in
         then Some (t\<lparr>pn := orig_in\<rparr>)
         else if pn t < fence_lo vmblock \<or> pn t \<ge> fence_hi vmblock + push_bit (2 * unat (size t)) 1
         then Some H2K_translate_bad
         else Some t)"

section \<open>Two-level tables\<close>

text \<open>The fields of a table entry (\<^verbatim>\<open>libs/h2/common/h2_common_pagewalk.h\<close>).\<close>

definition pte_s :: "u32 \<Rightarrow> nat" where "pte_s e = unat (take_bit 3 e)"

definition H2K_pagewalk_update_translation :: "H2K_translation_t \<Rightarrow> u32 \<Rightarrow> H2K_translation_t" where
  "H2K_pagewalk_update_translation t pte = t\<lparr>
     size := min (size t) (of_nat (pte_s pte)),
     pn := (pn t AND mask (2 * pte_s pte)) OR (drop_bit 12 pte AND push_bit (2 * pte_s pte) (-1)),
     xwru := xwru t AND (push_bit 1 (ucast (take_bit 3 (drop_bit 9 pte))) OR of_bool (bit pte 5)),
     shared := bit pte 3,
     cccc := (if weak_ccc t then ucast (drop_bit 6 pte) else cccc t),
     weak_ccc := False\<rparr>"

definition H2K_mem_pagewalk_l2 :: "translator \<Rightarrow> H2K_kg_t \<Rightarrow> H2K_asid_entry_t \<Rightarrow> H2K_translation_t \<Rightarrow> u32 \<Rightarrow> nat \<Rightarrow> nat \<Rightarrow> u32 option" where
  "H2K_mem_pagewalk_l2 tr s gm i l2addr tablesize pagesize =
     (let l2 = Q6_P_insert_PP (ucast l2addr) (ucast (drop_bit (2 * pagesize) (pn i))) (of_nat (tablesize * 2)) 2;
          get = (\<lambda>pa. let pte = H2K_mem_physread_word s pa in (pte AND NOT (mask 3)) OR of_nat pagesize)
      in if mapped gm then
           do { t \<leftarrow> tr (H2K_translate_default l2) gm;
                Some (if \<not> bit (xwru t) 1 then 0 else get (insert_field l2 (ucast (pn t)) 24 12)) }
         else Some (get l2))"

definition H2K_mem_pagewalk_l1 :: "translator \<Rightarrow> H2K_kg_t \<Rightarrow> H2K_asid_entry_t \<Rightarrow> H2K_translation_t \<Rightarrow> H2K_asid_entry_t \<Rightarrow> u32 option" where
  "H2K_mem_pagewalk_l1 tr s gm i info =
     (let tmp = H2K_translate_default (ucast (ptb info)) in
      do {
        t \<leftarrow> (if mapped gm then tr tmp gm else Some tmp);
        if mapped gm \<and> \<not> bit (xwru t) 1 then Some 0
        else
          let pte = H2K_mem_physread_word s (push_bit 12 (ucast (pn t)) OR ucast (drop_bit 8 (pn i) AND 0xffc));
              sz = pte_s pte
          in if sz \<le> 4 then H2K_mem_pagewalk_l2 tr s gm i (pte AND - 16) (5 - sz) sz
             else if sz = 7 then Some 0
             else Some pte
      })"

definition H2K_pagewalk_translate :: "translator \<Rightarrow> H2K_kg_t \<Rightarrow> translator" where
  "H2K_pagewalk_translate tr s i info =
     (let gm = guestmap (entry_vmblock s info) in
      do {
        pte \<leftarrow> H2K_mem_pagewalk_l1 tr s gm i info;
        hand_over tr gm (H2K_pagewalk_update_translation i pte)
      })"

section \<open>Variable-radix tables\<close>

definition H2K_varadix_entry_size :: "u32 \<Rightarrow> u32" where
  "H2K_varadix_entry_size val = of_nat (ct0 val)"

definition H2K_varadix_update :: "H2K_translation_t \<Rightarrow> H2K_translation_t \<Rightarrow> H2K_translation_t" where
  "H2K_varadix_update t new =
     (if new = H2K_translate_bad then new
      else t\<lparr>pn := pn new, xwru := xwru t AND xwru new, shared := shared new,
             cccc := (if weak_ccc t then cccc new else cccc t),
             size := (if size t > size new then size new else size t),
             weak_ccc := weak_ccc new\<rparr>)"

definition VARADIX_PN_BITS :: u32 where "VARADIX_PN_BITS = 22"

definition H2K_varadix_mktrans :: "u32 \<Rightarrow> u32 \<Rightarrow> u32 \<Rightarrow> H2K_translation_t" where
  "H2K_varadix_mktrans vpn entry sz =
     (let e = entry AND (entry - 1);
          mypn = Q6_R_extractu_RP e (VARADIX_PN_BITS - sz) (1 + sz);
          sz' = (if sz > 12 then 12 else sz)
      in H2K_translate_bad\<lparr>
           xwru := ucast (drop_bit 28 entry),
           cccc := ucast (drop_bit 24 entry),
           weak_ccc := bit entry 27,
           pn := Q6_R_insert_RP vpn mypn (VARADIX_PN_BITS - sz) sz,
           size := ucast (drop_bit 1 sz')\<rparr>)"

lemma varadix_step_less:
  fixes sz startbit :: u32
  assumes "\<not> sz > startbit" "sz \<noteq> startbit"
  shows "unat (startbit - (sz + 1)) < unat startbit"
proof -
  have lt: "sz < startbit" using assms by simp
  have "unat sz < unat startbit" using lt by (simp add: word_less_nat_alt)
  moreover from this have "unat (sz + 1) = unat sz + 1" by (rule unat_suc)
  ultimately show ?thesis using unat_sub_if_size [of startbit "sz + 1"] by simp
qed

text \<open>
  The loop of \<open>H2K_varadix_walk\<close>. An entry names its size by its lowest set bit; the
  remaining bits of the page number shrink by one more than that in every round.
\<close>

definition varadix_entry_pa :: "translator \<Rightarrow> H2K_asid_entry_t \<Rightarrow> u32 \<Rightarrow> u32 \<Rightarrow> u32 \<Rightarrow> u32 \<Rightarrow> u64 option option" where
  "varadix_entry_pa tr gm vpn tablebase tablesize startbit =
     (let index = Q6_R_extractu_RP vpn tablesize startbit;
          tableaddr32 = Q6_R_insert_RP tablebase index tablesize 0;
          tableaddr = push_bit 2 (ucast tableaddr32) :: u64
      in if mapped gm then
           do { t \<leftarrow> tr (H2K_translate_default tableaddr) gm;
                Some (if \<not> bit (xwru t) 1 then None else Some (insert_field tableaddr (ucast (pn t)) 24 12)) }
         else Some (Some tableaddr))"

function H2K_varadix_walk :: "translator \<Rightarrow> H2K_kg_t \<Rightarrow> H2K_asid_entry_t \<Rightarrow> u32 \<Rightarrow> u32 \<Rightarrow> u32 \<Rightarrow> u32 \<Rightarrow> H2K_translation_t option" where
  "H2K_varadix_walk tr s gm vpn tablebase tablesize startbit =
     (case varadix_entry_pa tr gm vpn tablebase tablesize startbit of
        None \<Rightarrow> None
      | Some None \<Rightarrow> Some H2K_translate_bad
      | Some (Some pa) \<Rightarrow>
          let entry = H2K_mem_physread_word s pa; sz = H2K_varadix_entry_size entry
          in if sz > startbit then Some H2K_translate_bad
             else if sz = startbit then Some (H2K_varadix_mktrans vpn entry sz)
             else H2K_varadix_walk tr s gm vpn entry (sz + 1) (startbit - (sz + 1)))"
  by pat_completeness auto

termination
  by (relation "measure (\<lambda>(tr, s, gm, vpn, tablebase, tablesize, startbit). unat startbit)") (use varadix_step_less in auto)

declare H2K_varadix_walk.simps [simp del]

text \<open>\<open>1<<vpnbits\<close> is zero here from 32 on, where the shift of the C language is undefined.\<close>

definition H2K_varadix_translate :: "translator \<Rightarrow> H2K_kg_t \<Rightarrow> translator" where
  "H2K_varadix_translate tr s i info =
     (let vpnbits = ucast (extra info) :: u32;
          startsize = H2K_varadix_entry_size (ptb info);
          gm = guestmap (entry_vmblock s info)
      in do {
        new \<leftarrow> (if pn i \<ge> push_bit (unat vpnbits) 1 then Some H2K_translate_bad
                else if vpnbits = startsize then Some (H2K_varadix_mktrans (pn i) (ptb info) startsize)
                else H2K_varadix_walk tr s gm (pn i) (ptb info) (startsize + 1) (vpnbits - (startsize + 1)));
        hand_over tr gm (H2K_varadix_update i new)
      })"

section \<open>The dispatcher\<close>

text \<open>A type beyond the table of translators has no defined behaviour.\<close>

definition translate_funcs :: "translator \<Rightarrow> H2K_kg_t \<Rightarrow> translator" where
  "translate_funcs tr s i info =
     (if ttype info = 0 then H2K_linear_translate tr s i info
      else if ttype info = 1 then H2K_pagewalk_translate tr s i info
      else if ttype info = 2 then H2K_offset_translate tr s i info
      else if ttype info = 3 then H2K_varadix_translate tr s i info
      else None)"

fun H2K_translate :: "nat \<Rightarrow> H2K_kg_t \<Rightarrow> translator" where
  "H2K_translate 0 s i info = None"
| "H2K_translate (Suc n) s i info = translate_funcs (H2K_translate n s) s i info"

section \<open>The result of a translator\<close>

lemma linear_walk_result:
  assumes "linear_walk tr s gm i lst list_pa last_gpn tmp = Some y"
  shows "y = H2K_translate_bad \<or> (\<exists>e. hand_over tr gm (H2K_linear_translate_update i e) = Some y)"
proof (rule linear_walk.raw_induct
    [where P = "\<lambda>tr s gm i lst list_pa last_gpn tmp y. y = H2K_translate_bad \<or> (\<exists>e. hand_over tr gm (H2K_linear_translate_update i e) = Some y)",
     OF _ assms], goal_cases)
  case (1 f tr s gm i lst list_pa last_gpn tmp y)
  from 1(2) obtain r where "list_page tr gm lst list_pa last_gpn tmp = Some r" by (auto simp: bind_eq_Some_conv)
  with 1(2) show ?case by (auto simp: Let_def split: if_splits prod.splits dest: 1(1))
qed

lemma linear_translate_result:
  "H2K_linear_translate tr s i info = Some y \<Longrightarrow>
   y = H2K_translate_bad \<or> (\<exists>e. hand_over tr (guestmap (entry_vmblock s info)) (H2K_linear_translate_update i e) = Some y)"
  unfolding H2K_linear_translate_def by (rule linear_walk_result)

lemma pagewalk_translate_result:
  "H2K_pagewalk_translate tr s i info = Some y \<Longrightarrow>
   \<exists>e. hand_over tr (guestmap (entry_vmblock s info)) (H2K_pagewalk_update_translation i e) = Some y"
  unfolding H2K_pagewalk_translate_def Let_def by (auto simp only: bind_eq_Some_conv)

lemma varadix_translate_result:
  "H2K_varadix_translate tr s i info = Some y \<Longrightarrow>
   \<exists>new. hand_over tr (guestmap (entry_vmblock s info)) (H2K_varadix_update i new) = Some y"
  unfolding H2K_varadix_translate_def Let_def by (auto simp only: bind_eq_Some_conv)

text \<open>
  What the list, the table and the radix walk share: the result is bad, or a narrower
  translation handed over to the guest map.
\<close>

section \<open>Permissions\<close>

definition perms_within :: "H2K_translation_t \<Rightarrow> H2K_translation_t \<Rightarrow> bool" where
  "perms_within t' t \<longleftrightarrow> xwru t' AND xwru t = xwru t'"

lemma perms_refl [simp]: "perms_within t t" by (simp add: perms_within_def)

lemma perms_bad [simp]: "perms_within H2K_translate_bad t"
  by (simp add: perms_within_def H2K_translate_bad_def)

lemma perms_trans: "perms_within c b \<Longrightarrow> perms_within b a \<Longrightarrow> perms_within c a"
  unfolding perms_within_def by (metis and.assoc)

lemma perms_and: "xwru t' = xwru t AND w \<Longrightarrow> perms_within t' t"
  by (simp add: perms_within_def ac_simps and.left_commute)

lemma linear_update_perms [simp]: "perms_within (H2K_linear_translate_update t e) t"
  by (rule perms_and [of _ _ "lin_xwru e"]) (simp add: H2K_linear_translate_update_def)

lemma pagewalk_update_perms [simp]: "perms_within (H2K_pagewalk_update_translation t e) t"
  by (rule perms_and) (simp add: H2K_pagewalk_update_translation_def)

lemma varadix_update_perms [simp]: "perms_within (H2K_varadix_update t new) t"
  by (cases "new = H2K_translate_bad") (simp_all add: H2K_varadix_update_def perms_and)

text \<open>What the translators rely on of the next level: it adds no permission.\<close>

locale next_level =
  fixes tr :: translator
  assumes narrows: "tr t info = Some t' \<Longrightarrow> perms_within t' t"
begin

lemma hand_over_narrows: "hand_over tr gm t = Some t' \<Longrightarrow> perms_within t i \<Longrightarrow> perms_within t' i"
  unfolding hand_over_def by (auto intro: perms_trans narrows split: if_splits)

lemma offset_narrows:
  assumes "H2K_offset_translate tr s i info = Some t'"
  shows "perms_within t' i"
proof -
  let ?t = "offset_apply i (offset_of_raw (ptb info))"
  have "perms_within ?t i" "perms_within (?t\<lparr>pn := p\<rparr>) i" for p by (simp_all add: perms_and offset_apply_def)
  then show ?thesis using assms unfolding H2K_offset_translate_def Let_def
    by (auto split: if_splits intro: perms_trans [OF narrows])
qed

lemma funcs_narrow: "translate_funcs tr s i info = Some t' \<Longrightarrow> perms_within t' i"
  unfolding translate_funcs_def
  by (auto split: if_splits dest!: linear_translate_result pagewalk_translate_result varadix_translate_result
      intro: offset_narrows hand_over_narrows)

end

lemma translate_narrows: "H2K_translate n s t info = Some t' \<Longrightarrow> perms_within t' t"
proof (induction n arbitrary: t info t')
  case (Suc n)
  then have "next_level (H2K_translate n s)" by unfold_locales
  from next_level.funcs_narrow [OF this] Suc.prems show ?case by simp
qed simp

interpretation trans: next_level "H2K_translate n s" for n s
  by unfold_locales (rule translate_narrows)

text \<open>
  C31: translation never adds permissions: whatever the tables of the guest and the guest maps of
  its ancestors hold, each of the execute, write, read and user permissions of a result was a
  permission of the request.
\<close>

theorem translate_perms_shrink:
  assumes "H2K_translate n s t info = Some t'" "bit (xwru t') k"
  shows "bit (xwru t) k"
  using trans.narrows [OF assms(1)] assms(2) unfolding perms_within_def by (metis bit_and_iff)

section \<open>Isolation\<close>

text \<open>The memory a VM may reach: the tightly coupled memories and what lies between the fences.\<close>

definition allowed_page :: "H2K_kg_t \<Rightarrow> H2K_vmblock_t \<Rightarrow> H2K_translation_t \<Rightarrow> bool" where
  "allowed_page s vb t \<longleftrightarrow>
     in_range (tcm_base s) (tcm_size s) (pn t) \<or> in_range (vtcm_base s) (vtcm_size s) (pn t) \<or>
     fence_lo vb \<le> pn t \<and> pn t < fence_hi vb + push_bit (2 * unat (size t)) 1"

lemma offset_lowest:
  assumes "H2K_offset_translate tr s t info = Some t'" "\<not> mapped (guestmap (entry_vmblock s info))"
  shows "t' = H2K_translate_bad \<or> allowed_page s (entry_vmblock s info) t' \<and>
    size t' \<le> os_size (offset_of_raw (ptb info)) \<and> (\<forall>k. bit (xwru t') k \<longrightarrow> bit (os_xwru (offset_of_raw (ptb info))) k)"
  using assms unfolding H2K_offset_translate_def Let_def allowed_page_def
  by (auto simp: offset_apply_def bit_and_iff split: if_splits)

lemma hand_over_offset:
  assumes "hand_over (H2K_translate n s) gm t = Some t'" "mapped gm" "ttype gm = 2"
  shows "shared t' \<or> (\<exists>m t. H2K_offset_translate (H2K_translate m s) s t gm = Some t')"
proof (cases n)
  case (Suc m)
  then show ?thesis using assms by (auto simp: hand_over_def translate_funcs_def split: if_splits)
qed (use assms in \<open>auto simp: hand_over_def split: if_splits\<close>)

lemma offset_as_hand_over:
  assumes "H2K_offset_translate tr s t info = Some t'" "mapped (guestmap (entry_vmblock s info))"
  shows "shared t' \<or> t' = H2K_translate_bad \<or> (\<exists>t. hand_over tr (guestmap (entry_vmblock s info)) t = Some t')"
  using assms unfolding H2K_offset_translate_def Let_def
  by (auto simp: hand_over_def offset_apply_def split: if_splits)


section \<open>Linear lists as lists\<close>

text \<open>
  The list in memory, from address \<open>l\<close>: entries at ascending addresses, pointers that continue it
  elsewhere, and a zero entry at its end.
\<close>

inductive linear_list :: "H2K_kg_t \<Rightarrow> u32 \<Rightarrow> u64 list \<Rightarrow> bool" for s :: H2K_kg_t where
  stop: "H2K_mem_physread_dword s (ucast l) = 0 \<Longrightarrow> linear_list s l []"
| entry: "H2K_mem_physread_dword s (ucast l) = e \<Longrightarrow> e \<noteq> 0 \<Longrightarrow> \<not> lin_chain e \<Longrightarrow> linear_list s (l + 8) es \<Longrightarrow> linear_list s l (e # es)"
| chain: "H2K_mem_physread_dword s (ucast l) = e \<Longrightarrow> e \<noteq> 0 \<Longrightarrow> lin_chain e \<Longrightarrow> linear_list s (ucast e AND - 8) es \<Longrightarrow> linear_list s l es"

lemma mask12: "0xfff = (mask 12 :: 'a::len word)" by (simp add: mask_eq_exp_minus_1)

lemma page_split: "push_bit 12 (ucast (drop_bit 12 l)) OR ucast (l AND 0xfff) = (ucast (l :: u32) :: u64)"
  unfolding mask12 by (intro bit_word_eqI) (auto simp: bit_simps)

lemma chain_pa:
  fixes l l' :: u32
  assumes "drop_bit 12 l' = drop_bit 12 l"
  shows "(ucast l AND (ucast l AND 0xfffff000)) OR ucast (l' AND 0xfff) = (ucast l' :: u64)"
proof -
  have m: "(0xfffff000 :: u64) = NOT (mask 12) AND mask 32" by (simp add: mask_eq_exp_minus_1)
  have "bit l' i = bit l i" if "\<not> i < 12" for i
    using arg_cong [OF assms, of "\<lambda>w. bit w (i - 12)"] that by (simp add: bit_drop_bit_eq)
  then show ?thesis unfolding m mask12
    by (intro bit_word_eqI) (auto simp: bit_simps dest: bit_imp_le_length)
qed

lemma unat_page: "unat (drop_bit 12 (l :: u32)) = unat l div 4096"
  by (simp add: drop_bit_eq_div unat_div_distrib)

lemma page_not_minus1: "drop_bit 12 (l :: u32) \<noteq> - 1"
proof -
  have "unat (drop_bit 12 l) < 2 ^ 20" using unsigned_less [of l, where 'a = nat] by (simp add: unat_page less_mult_imp_div_less)
  moreover have "unat (-1 :: u32) = 2 ^ 32 - 1" by (simp add: unsigned_minus_1_eq_mask mask_eq_exp_minus_1)
  ultimately show ?thesis by force
qed

lemma next_pa:
  fixes l :: u32
  assumes "drop_bit 12 (l + 8) = drop_bit 12 l"
  shows "ucast l + 8 = (ucast (l + 8) :: u64)"
proof -
  have lt: "unat l < 2 ^ 32" using unsigned_less [of l] by simp
  have s: "unat (l + 8) = (unat l + 8) mod 2 ^ 32" by (simp add: unat_word_ariths)
  have d: "unat (l + 8) div 4096 = unat l div 4096" using arg_cong [OF assms, of unat] by (simp only: unat_page)
  have "unat l + 8 < 2 ^ 32"
  proof (rule ccontr)
    assume "\<not> unat l + 8 < 2 ^ 32"
    with lt s have "unat (l + 8) < 8" "unat l \<ge> 4096 * 8" by (simp_all add: le_mod_geq)
    then have "unat (l + 8) div 4096 < unat l div 4096" by simp
    with d show False by simp
  qed
  then have a: "unat (l + 8) = unat l + 8" using s by simp
  have "unat (ucast l :: u64) = unat l" for l :: u32
    by (simp add: unsigned_ucast_eq take_bit_nat_eq_self order_less_trans [OF unsigned_less])
  moreover from this lt have "unat (ucast l + 8 :: u64) = unat l + 8" by (simp add: unat_word_ariths)
  ultimately show ?thesis using a by (simp add: word_unat_eq_iff)
qed

lemma list_page_unmapped:
  assumes "\<not> mapped gm" "drop_bit 12 l = last_gpn \<longrightarrow> pa = ucast l"
  shows "list_page tr gm l pa last_gpn tmp = Some (tmp, ucast l, True)"
  using assms by (auto simp: list_page_def Let_def page_split)

definition linear_result :: "H2K_translation_t \<Rightarrow> u64 list \<Rightarrow> H2K_translation_t" where
  "linear_result t es = (case List.find (lin_match (pn t)) es of None \<Rightarrow> H2K_translate_bad | Some e \<Rightarrow> H2K_linear_translate_update t e)"

lemma linear_walk_finds:
  assumes "linear_list s l es" "\<not> mapped gm" "drop_bit 12 l = last_gpn \<longrightarrow> pa = ucast l"
  shows "linear_walk tr s gm i l pa last_gpn tmp = Some (linear_result i es)"
  using assms(1,3)
proof (induction arbitrary: pa last_gpn tmp rule: linear_list.induct)
  case (stop l)
  then show ?case using list_page_unmapped [OF assms(2) stop.prems]
    by (subst linear_walk.simps) (simp add: linear_result_def)
next
  case (entry l e es)
  show ?case
    using list_page_unmapped [OF assms(2) entry.prems] entry.hyps entry.IH [of "drop_bit 12 l" "ucast l + 8"] next_pa [of l] assms(2)
    by (subst linear_walk.simps) (auto simp: linear_result_def hand_over_def)
next
  case (chain l e es)
  define l' :: u32 where "l' = ucast e AND - 8"
  have "linear_walk tr s gm i l' ((ucast l AND (ucast l AND 0xfffff000)) OR ucast (l' AND 0xfff)) (drop_bit 12 l) tmp =
      Some (linear_result i es)"
    by (rule chain.IH [folded l'_def]) (use chain_pa [of l' l] in blast)
  then show ?case using list_page_unmapped [OF assms(2) chain.prems] chain.hyps
    by (subst linear_walk.simps) (simp only: l'_def bind.bind_lunit prod.case Let_def if_False if_True simp_thms)
qed


text \<open>
  A guest can make the kernel loop: if the list of an address space starts with a chain entry
  that points to itself, the translation does not return, for any depth of guest maps allowed.
\<close>

theorem linear_self_chain_diverges:
  assumes "ttype info = 0" "\<not> mapped (guestmap (entry_vmblock s info))"
    and self: "e = H2K_mem_physread_dword s (ucast (ptb info))" "e \<noteq> 0" "lin_chain e" "ucast e AND - 8 = ptb info"
  shows "H2K_translate n s t info = None"
proof (rule ccontr)
  assume "H2K_translate n s t info \<noteq> None"
  then obtain m y where "H2K_linear_translate (H2K_translate m s) s t info = Some y"
    using assms(1) by (cases n) (auto simp: translate_funcs_def)
  then have run: "linear_walk (H2K_translate m s) s (guestmap (entry_vmblock s info)) t (ptb info) 0 (- 1) (H2K_translate_default 0) = Some y"
    by (simp add: H2K_linear_translate_def)
  have "\<not> (s' = s \<and> gm = guestmap (entry_vmblock s info) \<and> lst = ptb info \<and> (drop_bit 12 lst = last_gpn \<longrightarrow> pa = ucast lst))"
    if "linear_walk tr s' gm i lst pa last_gpn tmp = Some y" for tr s' gm i lst pa last_gpn tmp y
    using that
  proof (rule linear_walk.raw_induct [rotated], goal_cases)
    case (1 f tr s' gm i lst pa last_gpn tmp y)
    show ?case
    proof
      assume a: "s' = s \<and> gm = guestmap (entry_vmblock s info) \<and> lst = ptb info \<and> (drop_bit 12 lst = last_gpn \<longrightarrow> pa = ucast lst)"
      then have "list_page tr gm lst pa last_gpn tmp = Some (tmp, ucast lst, True)"
        using list_page_unmapped assms(2) by blast
      with 1(2) a self have "f tr s gm i (ptb info) ((ucast (ptb info) AND (ucast (ptb info) AND 0xfffff000)) OR ucast (ptb info AND 0xfff))
          (drop_bit 12 (ptb info)) tmp = Some y"
        by (simp only: bind.bind_lunit prod.case Let_def if_False if_True simp_thms)
      from 1(1) [OF this] a show False using chain_pa [of "ptb info" "ptb info"] by blast
    qed
  qed
  from this [OF run] page_not_minus1 show False by blast
qed

section \<open>Termination\<close>

text \<open>
  The chain of guest maps: every VM with a guest map has a smaller rank than the one whose
  block the map names, and guest maps are not linear lists.
\<close>

definition bounded_type :: "H2K_asid_entry_t \<Rightarrow> bool" where
  "bounded_type info \<longleftrightarrow> ttype info \<in> {1, 2, 3}"

definition guest_chain :: "H2K_kg_t \<Rightarrow> (6 word \<Rightarrow> nat) \<Rightarrow> bool" where
  "guest_chain s rank \<longleftrightarrow> (\<forall>v. let gm = guestmap (vmb s (vmblocks s (unat v))) in
     mapped gm \<longrightarrow> bounded_type gm \<and> rank (vmid gm) < rank v)"

lemma option_total_bind: "(\<exists>x. m = Some x) \<Longrightarrow> (\<And>x. \<exists>y. f x = Some y) \<Longrightarrow> \<exists>y. m \<bind> f = Some y"
  by auto

definition total_on :: "translator \<Rightarrow> H2K_asid_entry_t \<Rightarrow> bool" where
  "total_on tr gm \<longleftrightarrow> (mapped gm \<longrightarrow> (\<forall>t. \<exists>y. tr t gm = Some y))"

lemma total_onD: "total_on tr gm \<Longrightarrow> mapped gm \<Longrightarrow> \<exists>y. tr t gm = Some y"
  by (simp add: total_on_def)

lemma hand_over_total: "total_on tr gm \<Longrightarrow> \<exists>y. hand_over tr gm t = Some y"
  by (simp add: hand_over_def total_onD)

lemma varadix_walk_total:
  assumes "total_on tr gm"
  shows "\<exists>y. H2K_varadix_walk tr s gm vpn tablebase tablesize startbit = Some y"
  using assms
proof (induction tr s gm vpn tablebase tablesize startbit rule: H2K_varadix_walk.induct)
  case (1 tr s gm vpn tablebase tablesize startbit)
  have "\<exists>r. varadix_entry_pa tr gm vpn tablebase tablesize startbit = Some r"
    unfolding varadix_entry_pa_def Let_def using total_onD [OF 1(2)] by (auto intro: option_total_bind)
  then show ?case using 1
    by (subst H2K_varadix_walk.simps) (auto simp: Let_def split: option.splits)
qed

lemma pagewalk_total:
  assumes "total_on tr gm"
  shows "\<exists>y. H2K_mem_pagewalk_l1 tr s gm i info = Some y"
proof -
  have "\<exists>y. H2K_mem_pagewalk_l2 tr s gm i a b c = Some y" for a b c
    unfolding H2K_mem_pagewalk_l2_def Let_def using total_onD [OF assms] by (auto intro: option_total_bind)
  then show ?thesis
    unfolding H2K_mem_pagewalk_l1_def Let_def using total_onD [OF assms] by (auto intro!: option_total_bind)
qed

lemma funcs_total:
  assumes "total_on tr (guestmap (entry_vmblock s info))" "bounded_type info"
  shows "\<exists>y. translate_funcs tr s t info = Some y"
proof -
  note h = hand_over_total [OF assms(1)]
  consider "ttype info = 1" | "ttype info = 2" | "ttype info = 3" using assms(2) by (auto simp: bounded_type_def)
  then show ?thesis
  proof cases
    case 1
    then show ?thesis unfolding translate_funcs_def H2K_pagewalk_translate_def Let_def
      using h by (auto intro!: option_total_bind pagewalk_total assms(1))
  next
    case 2
    then show ?thesis unfolding translate_funcs_def H2K_offset_translate_def Let_def using total_onD [OF assms(1)] by simp
  next
    case 3
    then show ?thesis unfolding translate_funcs_def H2K_varadix_translate_def Let_def
      using varadix_walk_total [OF assms(1)] h by (auto intro!: option_total_bind)
  qed
qed

text \<open>
  A next level that returns more often on the guest map does not change a result, nor does a
  state with the same physical memory, guest maps and, for offsets, the same fences.
\<close>

definition extends :: "H2K_asid_entry_t \<Rightarrow> translator \<Rightarrow> translator \<Rightarrow> bool" where
  "extends gm tr' tr \<longleftrightarrow> (\<forall>t y. tr t gm = Some y \<longrightarrow> tr' t gm = Some y)"

lemma extendsD: "extends gm tr' tr \<Longrightarrow> tr t gm = Some y \<Longrightarrow> tr' t gm = Some y"
  by (simp add: extends_def)

definition same_maps :: "H2K_kg_t \<Rightarrow> H2K_kg_t \<Rightarrow> H2K_asid_entry_t \<Rightarrow> bool" where
  "same_maps s' s info \<longleftrightarrow> physmem s' = physmem s \<and> guestmap (entry_vmblock s' info) = guestmap (entry_vmblock s info) \<and>
     (ttype info = 2 \<longrightarrow> tcm_base s' = tcm_base s \<and> tcm_size s' = tcm_size s \<and> vtcm_base s' = vtcm_base s \<and> vtcm_size s' = vtcm_size s \<and>
        fence_lo (entry_vmblock s' info) = fence_lo (entry_vmblock s info) \<and> fence_hi (entry_vmblock s' info) = fence_hi (entry_vmblock s info))"

lemma physread_same:
  "physmem s' = physmem s \<Longrightarrow> H2K_mem_physread_word s' = H2K_mem_physread_word s"
  "physmem s' = physmem s \<Longrightarrow> H2K_mem_physread_dword s' = H2K_mem_physread_dword s"
  by (simp_all add: fun_eq_iff H2K_mem_physread_word_def H2K_mem_physread_dword_def memw_phys_def)

lemma hand_over_extends: "extends gm tr' tr \<Longrightarrow> hand_over tr gm t = Some y \<Longrightarrow> hand_over tr' gm t = Some y"
  by (auto simp: hand_over_def extendsD split: if_splits)

lemma list_page_extends:
  "extends gm tr' tr \<Longrightarrow> list_page tr gm lst pa last_gpn tmp = Some r \<Longrightarrow> list_page tr' gm lst pa last_gpn tmp = Some r"
  by (auto simp: list_page_def Let_def bind_eq_Some_conv extendsD split: if_splits)

lemma linear_walk_extends:
  assumes "linear_walk tr s gm i lst pa last_gpn tmp = Some y" "extends gm tr' tr" "physmem s' = physmem s"
  shows "linear_walk tr' s' gm i lst pa last_gpn tmp = Some y"
proof -
  have "extends gm tr' tr \<longrightarrow> physmem s' = physmem s \<longrightarrow> linear_walk tr' s' gm i lst pa last_gpn tmp = Some y"
  proof (rule linear_walk.raw_induct
      [where P = "\<lambda>tr s gm i lst pa last_gpn tmp y. extends gm tr' tr \<longrightarrow> physmem s' = physmem s \<longrightarrow> linear_walk tr' s' gm i lst pa last_gpn tmp = Some y",
       OF _ assms(1)], goal_cases)
    case (1 f tr s gm i lst pa last_gpn tmp y)
    show ?case
    proof (intro impI)
      assume e: "extends gm tr' tr" and m: "physmem s' = physmem s"
      from 1(2) obtain tmp' pa' ok where l: "list_page tr gm lst pa last_gpn tmp = Some (tmp', pa', ok)" by (auto simp: bind_eq_Some_conv)
      note l' = list_page_extends [OF e l]
      have ih: "f tr s gm i' lst' pa' last' tmp' = Some y' \<Longrightarrow> linear_walk tr' s' gm i' lst' pa' last' tmp' = Some y'" for i' lst' pa' last' tmp' y'
        using 1(1) e m by simp
      show "linear_walk tr' s' gm i lst pa last_gpn tmp = Some y"
        using 1(2) l l' hand_over_extends [OF e] ih
        by (subst linear_walk.simps) (simp only: physread_same(2) [OF m] bind.bind_lunit prod.case Let_def simp_thms split: if_splits)
    qed
  qed
  then show ?thesis using assms(2,3) by simp
qed

lemma varadix_walk_extends:
  assumes "extends gm tr' tr" "physmem s' = physmem s" "H2K_varadix_walk tr s gm vpn tablebase tablesize startbit = Some y"
  shows "H2K_varadix_walk tr' s' gm vpn tablebase tablesize startbit = Some y"
  using assms
proof (induction tr s gm vpn tablebase tablesize startbit rule: H2K_varadix_walk.induct)
  case (1 tr s gm vpn tablebase tablesize startbit)
  from 1(4) obtain r where r: "varadix_entry_pa tr gm vpn tablebase tablesize startbit = Some r"
    by (subst (asm) H2K_varadix_walk.simps) (auto split: option.splits)
  then have "varadix_entry_pa tr' gm vpn tablebase tablesize startbit = Some r"
    unfolding varadix_entry_pa_def Let_def using extendsD [OF 1(2)] by (auto simp: bind_eq_Some_conv split: if_splits)
  note r' = this
  show ?case
  proof (cases r)
    case None
    then show ?thesis using 1(4) r r' by (simp add: H2K_varadix_walk.simps [of tr] H2K_varadix_walk.simps [of tr'])
  next
    case (Some pa)
    then show ?thesis using 1(4) r r' 1(1) [OF r Some refl refl _ _ 1(2,3)]
      unfolding H2K_varadix_walk.simps [of tr s gm vpn tablebase] H2K_varadix_walk.simps [of tr' s' gm vpn tablebase]
      by (simp add: Let_def physread_same [OF 1(3)] split: if_splits)
  qed
qed

lemma pagewalk_extends:
  assumes "extends gm tr' tr" "physmem s' = physmem s" "H2K_mem_pagewalk_l1 tr s gm i info = Some y"
  shows "H2K_mem_pagewalk_l1 tr' s' gm i info = Some y"
proof -
  note x = extendsD [OF assms(1)] and m = physread_same [OF assms(2)]
  have l2: "H2K_mem_pagewalk_l2 tr' s' gm i a b c = Some y" if "H2K_mem_pagewalk_l2 tr s gm i a b c = Some y" for i a b c y
    using that x unfolding H2K_mem_pagewalk_l2_def Let_def m by (cases "mapped gm") (auto simp only: bind_eq_Some_conv if_True if_False)
  obtain u where u: "(if mapped gm then tr (H2K_translate_default (ucast (ptb info))) gm else Some (H2K_translate_default (ucast (ptb info)))) = Some u"
    using assms(3) unfolding H2K_mem_pagewalk_l1_def Let_def by (auto simp only: bind_eq_Some_conv)
  then have "(if mapped gm then tr' (H2K_translate_default (ucast (ptb info))) gm else Some (H2K_translate_default (ucast (ptb info)))) = Some u"
    using x by (simp split: if_splits)
  moreover have "(if A then a else if B then z' else c) = Some y"
    if "(if A then a else if B then z else c) = Some y" "z = Some y \<Longrightarrow> z' = Some y" for A B a c z z'
    using that by (auto split: if_splits)
  ultimately show ?thesis using u assms(3) unfolding H2K_mem_pagewalk_l1_def Let_def m by (simp only: bind.bind_lunit) (blast intro: l2)
qed

lemma funcs_extends:
  assumes "extends (guestmap (entry_vmblock s info)) tr' tr" "same_maps s' s info" "translate_funcs tr s t info = Some y"
  shows "translate_funcs tr' s' t info = Some y"
proof -
  note x = extendsD [OF assms(1)] and h = hand_over_extends [OF assms(1)]
  have m: "physmem s' = physmem s" and g: "guestmap (entry_vmblock s' info) = guestmap (entry_vmblock s info)"
    using assms(2) by (simp_all add: same_maps_def)
  have "H2K_linear_translate tr' s' t info = Some y" if "H2K_linear_translate tr s t info = Some y"
    using that linear_walk_extends [OF _ assms(1) m] by (simp add: H2K_linear_translate_def g)
  moreover have "H2K_pagewalk_translate tr' s' t info = Some y" if "H2K_pagewalk_translate tr s t info = Some y"
    using that unfolding H2K_pagewalk_translate_def Let_def g by (auto simp: bind_eq_Some_conv h pagewalk_extends [OF assms(1) m])
  moreover have "H2K_offset_translate tr' s' t info = Some y" if "H2K_offset_translate tr s t info = Some y" "ttype info = 2"
    using that assms(2) unfolding H2K_offset_translate_def Let_def by (auto simp: x g same_maps_def split: if_splits)
  moreover have "H2K_varadix_translate tr' s' t info = Some y" if "H2K_varadix_translate tr s t info = Some y"
    using that unfolding H2K_varadix_translate_def Let_def g
    by (auto simp: bind_eq_Some_conv h varadix_walk_extends [OF assms(1) m] split: if_splits)
  ultimately show ?thesis using assms(3) unfolding translate_funcs_def by (auto split: if_splits)
qed

text \<open>
  Two states whose maps agree on every entry a translation can come to give the same
  translations.
\<close>

lemma translate_same:
  assumes "\<And>e. ok e \<Longrightarrow> same_maps s' s e \<and> ok (guestmap (entry_vmblock s e))" "ok info" "H2K_translate n s t info = Some y"
  shows "H2K_translate n s' t info = Some y"
  using assms(2,3)
proof (induction n arbitrary: t info y)
  case (Suc n)
  let ?gm = "guestmap (entry_vmblock s info)"
  have "extends ?gm (H2K_translate n s') (H2K_translate n s)"
    using Suc.IH assms(1) [OF Suc.prems(1)] by (simp add: extends_def)
  from funcs_extends [OF this] assms(1) [OF Suc.prems(1)] Suc.prems(2) show ?case by simp
qed simp

lemma translate_mono: "extends gm (H2K_translate (Suc n) s) (H2K_translate n s)"
proof (induction n arbitrary: gm)
  case (Suc n)
  have "same_maps s s gm" by (simp add: same_maps_def)
  moreover have "H2K_translate (Suc k) s = translate_funcs (H2K_translate k s) s" for k by (intro ext) simp
  ultimately show ?case using funcs_extends [OF Suc] by (simp only: extends_def simp_thms) blast
qed (simp add: extends_def)

lemma translate_more: "n \<le> m \<Longrightarrow> H2K_translate n s t info = Some y \<Longrightarrow> H2K_translate m s t info = Some y"
  by (induction rule: dec_induct) (simp_all only: extendsD [OF translate_mono])

lemma translate_total:
  assumes "guest_chain s rank" "bounded_type info" "rank (vmid info) < n"
  shows "\<exists>t'. H2K_translate n s t info = Some t'"
  using assms(2,3)
proof (induction n arbitrary: t info)
  case (Suc n)
  let ?gm = "guestmap (entry_vmblock s info)"
  have "bounded_type ?gm \<and> rank (vmid ?gm) < rank (vmid info)" if "mapped ?gm"
    using assms(1) that by (simp add: guest_chain_def entry_vmblock_def Let_def)
  then have "total_on (H2K_translate n s) ?gm" using Suc by (auto simp: total_on_def)
  from funcs_total [OF this Suc.prems(1)] show ?case by simp
qed simp

text \<open>
  C30: translation through tables, offsets and variable-radix tables returns. With guest maps of
  these kinds along a chain of VMs without a cycle, the depth of the recursion is at most the
  rank of the VM, whatever the guests wrote into their tables; and the result is the same for
  every larger bound of the depth.
\<close>

theorem translate_returns:
  assumes "guest_chain s rank" "bounded_type info"
  shows "\<exists>t'. \<forall>n>rank (vmid info). H2K_translate n s t info = Some t'"
  using translate_total [OF assms lessI] translate_more [OF Suc_leI] by blast

section \<open>An example\<close>

text \<open>
  VM 1 has its memory from VM 0 by an offset of 0x100 pages, within the fences 0x100 and
  0x1ff. Its address spaces are a linear list at 0x1000, two entries long and continued at 0x1100.
\<close>

definition gm_example :: H2K_asid_entry_t where
  "gm_example = asid_entry0\<lparr>ptb := offset_raw \<lparr>os_size = 10, os_cccc = 7, os_weak_ccc = False, os_xwru = 14, os_pages = 0x100\<rparr>,
     count := 1, vmid := 0, ttype := 2\<rparr>"

definition mem_example :: "u64 \<Rightarrow> u32" where
  "mem_example a =
     (if a = 0x1000 \<or> a = 0x101000 then 0xF0000021 else if a = 0x1004 \<or> a = 0x101004 then 0x00040001
      else if a = 0x1008 \<or> a = 0x101008 then 0x1100 else if a = 0x100C \<or> a = 0x10100C then 0x80000000
      else if a = 0x1100 \<or> a = 0x101100 then 0xF0000020 else if a = 0x1104 \<or> a = 0x101104 then 0x00040000
      else if a = 0x3000 then 0x3000 else if a = 0x3004 then 0x80000000 else 0)"

definition tr_example :: H2K_kg_t where
  "tr_example = kg0\<lparr>physmem := mem_example, vmblocks := (\<lambda>v. if v = 0 then 100 else 200),
     vmb := (\<lambda>p. if p = 100 then vmblock0\<lparr>fence_lo := 0x100, fence_hi := 0x1ff\<rparr> else vmblock0\<lparr>guestmap := gm_example\<rparr>)\<rparr>"

definition as_example :: "6 word \<Rightarrow> u32 \<Rightarrow> H2K_asid_entry_t" where
  "as_example v l = asid_entry0\<lparr>ptb := l, count := 1, vmid := v\<rparr>"

lemma tr_example_run:
  "H2K_translate 2 tr_example (H2K_translate_default 0x40000000) (as_example 1 0x1000) =
     Some \<lparr>pn = 0x120, size = 0, xwru = 14, cccc = 0, weak_ccc = False, hsv39 = False, shared = False\<rparr>"
  by code_simp

lemma gm_example_facts: "mapped gm_example" "ttype gm_example = 2" "vmid gm_example = 0"
  by (simp_all add: mapped_def gm_example_def asid_entry0_def)

lemma tr_example_vmblock:
  "entry_vmblock tr_example i = (if vmid i = 0 then vmblock0\<lparr>fence_lo := 0x100, fence_hi := 0x1ff\<rparr> else vmblock0\<lparr>guestmap := gm_example\<rparr>)"
  by (simp add: entry_vmblock_def tr_example_def unat_eq_0)

lemma as_example_sel [simp]: "ptb (as_example v l) = l" "vmid (as_example v l) = v" "ttype (as_example v l) = 0"
  by (simp_all add: as_example_def asid_entry0_def)

lemma tr_example_maps:
  "guestmap (entry_vmblock tr_example (as_example 1 l)) = gm_example" "\<not> mapped (guestmap (entry_vmblock tr_example gm_example))"
  "\<not> mapped (guestmap (entry_vmblock tr_example (as_example 0 l)))"
  by (simp_all add: tr_example_vmblock gm_example_facts) (simp_all add: vmblock0_def mapped_def)

theorem translate_perms_shrink_witness:
  "H2K_translate 2 tr_example (H2K_translate_default 0x40000000) (as_example 1 0x1000) \<noteq> None \<and> bit (14 :: 4 word) 1 \<and>
   bit (xwru (H2K_translate_default 0x40000000)) 1"
  using translate_perms_shrink [OF tr_example_run, of 1] tr_example_run by simp


lemma list_example_words:
  "H2K_mem_physread_dword tr_example (ucast (0x1000 :: u32)) = 0x00040001F0000021"
  "H2K_mem_physread_dword tr_example (ucast (0x1008 :: u32)) = 0x8000000000001100"
  "H2K_mem_physread_dword tr_example (ucast (0x1100 :: u32)) = 0x00040000F0000020"
  "H2K_mem_physread_dword tr_example (ucast (0x1108 :: u32)) = 0"
  "H2K_mem_physread_dword tr_example (ucast (0x3000 :: u32)) = 0x8000000000003000"
  by code_simp+

lemma list_example: "linear_list tr_example 0x1000 [0x00040001F0000021, 0x00040000F0000020]"
proof (rule linear_list.entry [OF list_example_words(1)])
  have a: "(ucast (0x8000000000001100 :: u64) AND - 8) = (0x1100 :: u32)" by code_simp
  show "linear_list tr_example (0x1000 + 8) [0x00040000F0000020]"
  proof (rule linear_list.chain)
    show "linear_list tr_example (ucast (0x8000000000001100 :: u64) AND - 8) [0x00040000F0000020]"
      using linear_list.entry [OF list_example_words(3)] linear_list.stop [OF list_example_words(4)]
      unfolding a by (simp add: lin_chain_def)
  qed (use list_example_words(2) in \<open>simp_all add: lin_chain_def\<close>)
qed (simp_all add: lin_chain_def)


theorem linear_self_chain_diverges_witness: "H2K_translate 64 tr_example (H2K_translate_default 0) (as_example 0 0x3000) = None"
proof (rule linear_self_chain_diverges)
  show "(0x8000000000003000 :: u64) = H2K_mem_physread_dword tr_example (ucast (ptb (as_example 0 0x3000)))"
    using list_example_words(5) by simp
  show "ucast (0x8000000000003000 :: u64) AND - 8 = ptb (as_example 0 0x3000)" unfolding as_example_sel by code_simp
qed (simp_all add: tr_example_maps lin_chain_def)

theorem translate_returns_witness:
  "guest_chain tr_example (\<lambda>v. unat v) \<and> (\<exists>t'. H2K_translate 2 tr_example (H2K_translate_default 0) ((as_example 1 0)\<lparr>ttype := 2\<rparr>) = Some t')"
proof -
  have c: "guest_chain tr_example (\<lambda>v. unat v)"
    unfolding guest_chain_def Let_def tr_example_def
    by (auto simp: gm_example_facts bounded_type_def unat_eq_0 unat_gt_0) (simp add: vmblock0_def mapped_def)+
  have "bounded_type ((as_example 1 0)\<lparr>ttype := 2\<rparr>)" "vmid ((as_example 1 0)\<lparr>ttype := 2\<rparr>) = 1"
    by (simp_all add: bounded_type_def)
  with translate_returns [OF c this(1), of "H2K_translate_default 0"] c show ?thesis by force
qed

end
