(* ===== verification/Tlb.thy ===== *)
theory Tlb
  imports Thread_Life Translate
begin

text \<open>
  Filling the hardware TLB: the miss handler (\<^verbatim>\<open>kernel/mem/tlbfill\<close>), temporary mappings of the
  kernel (\<^verbatim>\<open>kernel/mem/tmpmap\<close>), page faults (\<^verbatim>\<open>kernel/mem/pagefault\<close>), and the operations on
  pinned entries that guests call (\<^verbatim>\<open>kernel/traps/tlb\<close>). The entries up to
  \<open>last_tlb_index\<close> are replaced in turn; the entries above are pinned, and the 64 entries at
  the end of the TLB have their pins in a mask. The hardware itself is given by the sequence
  of commands it received.
\<close>

section \<open>Filling\<close>

definition H2K_mem_tlb_insert_index :: "tlbfmt \<Rightarrow> u32 \<Rightarrow> H2K_kg_t \<Rightarrow> H2K_kg_t \<times> bool" where
  "H2K_mem_tlb_insert_index e idx s =
     (s\<lparr>tlb_hist := tlb_hist s @ [TLB_CWRITE idx e]\<rparr>, hw_ctlbw s (tlb_hist s) e idx = 0x80000000)"

definition tlb_hsv39 :: "tlbfmt \<Rightarrow> bool" where "tlb_hsv39 e = bit e 27"

definition H2K_mem_tlb_insert_unlock :: "tlbfmt \<Rightarrow> ptr \<Rightarrow> H2K_kg_t \<Rightarrow> H2K_kg_t" where
  "H2K_mem_tlb_insert_unlock e me s =
     (let s1 = s\<lparr>tlb_lock := True\<rparr>;
          index = (if tlb_hsv39 e then tlb_index_dma s1 else tlb_index s1);
          (s2, ok) = H2K_mem_tlb_insert_index e (index AND ucast (tlbidxmask (thr s1 me))) s1;
          nxt = (if index + 1 \<le> (if tlb_hsv39 e then last_tlb_index_dma s2 else last_tlb_index s2) then index + 1 else 0);
          s3 = (if \<not> ok then s2 else if tlb_hsv39 e then s2\<lparr>tlb_index_dma := nxt\<rparr> else s2\<lparr>tlb_index := nxt\<rparr>)
      in s3\<lparr>tlb_lock := False\<rparr>)"

definition ERROR_GEVB_OFFSET :: u32 where "ERROR_GEVB_OFFSET = 8"

definition H2K_mem_pagefault :: "u32 \<Rightarrow> ptr \<Rightarrow> H2K_kg_t \<Rightarrow> (H2K_kg_t \<times> unit outcome) option" where
  "H2K_mem_pagefault va me s = H2K_vm_event va 0x22 ERROR_GEVB_OFFSET me s"

text \<open>\<open>depth\<close> bounds the chain of guest maps, \<open>tm\<close> is the match instruction of the processor.\<close>

definition H2K_mem_tlb_fill :: "tlbmatch \<Rightarrow> nat \<Rightarrow> u32 \<Rightarrow> ptr \<Rightarrow> H2K_kg_t \<Rightarrow> (H2K_kg_t \<times> unit outcome) option" where
  "H2K_mem_tlb_fill tm depth va me s =
     (let asid = ssr_asid (thr s me);
          e = H2K_mem_stlb_lookup tm va asid s
      in if e \<noteq> 0 then Some (H2K_mem_tlb_insert_unlock e me s, Ret ())
         else do {
           t \<leftarrow> H2K_translate depth s (H2K_translate_default (ucast va)) (asid_table s (unat asid));
           let e = H2K_mem_tlbfmt_from_trans t va asid (tlb_size_dma s)
           in if e = 0 then H2K_mem_pagefault va me s
              else Some (H2K_mem_tlb_insert_unlock e me (H2K_mem_stlb_add va asid e s), Ret ())
         })"

section \<open>Temporary mappings\<close>

definition TEMP_MAP_VA :: u32 where "TEMP_MAP_VA = 0xff800000"

definition TEMP_MAP_PG_MASK :: "u32 \<Rightarrow> u32" where
  "TEMP_MAP_PG_MASK sz = push_bit (12 + 2 * unat sz) 0xffffffff"

definition tmpmap_entry :: "u64 \<Rightarrow> u32 \<Rightarrow> u32 \<Rightarrow> tlbfmt" where
  "tmpmap_entry pa c sz =
     ucast (take_bit 24 (drop_bit 11 (pa AND ucast (TEMP_MAP_PG_MASK sz)) OR push_bit (unat sz) 1))
     OR push_bit 24 (ucast (take_bit 3 c))
     OR push_bit 32 (ucast (drop_bit 12 TEMP_MAP_VA))
     OR push_bit 59 (take_bit 2 (drop_bit 36 pa))
     OR push_bit 61 (take_bit 1 (drop_bit 35 pa))
     OR push_bit 62 1 OR push_bit 63 1"

definition H2K_tmpmap_add_and_lock :: "u64 \<Rightarrow> u32 \<Rightarrow> u32 \<Rightarrow> H2K_kg_t \<Rightarrow> H2K_kg_t \<times> u32" where
  "H2K_tmpmap_add_and_lock pa c sz0 s =
     (let sz = (if sz0 = -1 then 0 else sz0);
          s1 = s\<lparr>tmpmap_lock := True, tlb_lock := True\<rparr>;
          index = last_tlb_index s1;
          s2 = s1\<lparr>last_tlb_index := last_tlb_index s1 - 1\<rparr>;
          s3 = (if tlb_index s2 \<ge> index then s2\<lparr>tlb_index := 0\<rparr> else s2);
          s4 = fst (H2K_mem_tlb_insert_index (tmpmap_entry pa c sz) index s3)
      in (s4\<lparr>tlb_lock := False\<rparr>, TEMP_MAP_VA OR (ucast pa AND NOT (TEMP_MAP_PG_MASK sz))))"

definition H2K_tmpmap_remove_and_unlock :: "H2K_kg_t \<Rightarrow> H2K_kg_t" where
  "H2K_tmpmap_remove_and_unlock s =
     (let s1 = s\<lparr>tlb_lock := True, last_tlb_index := last_tlb_index s + 1\<rparr>;
          s2 = H2K_mem_tlb_write (last_tlb_index s1) 0 s1
      in s2\<lparr>tlb_lock := False, tmpmap_lock := False\<rparr>)"

definition H2K_tmpmap_init :: "H2K_kg_t \<Rightarrow> H2K_kg_t" where
  "H2K_tmpmap_init s = s\<lparr>tmpmap_lock := False\<rparr>"

section \<open>Pinned entries\<close>

definition cl1 :: "u64 \<Rightarrow> nat" where "cl1 w = cl0 (NOT w)"

definition H2K_tlb_tlbread :: "u32 \<Rightarrow> H2K_kg_t \<Rightarrow> H2K_kg_t \<times> u64" where
  "H2K_tlb_tlbread idx s = (s, H2K_mem_tlb_read idx s)"

definition with_asid :: "u64 \<Rightarrow> ptr \<Rightarrow> H2K_kg_t \<Rightarrow> tlbfmt" where
  "with_asid e me s = insert_field e (ucast (ssr_asid (thr s me))) 7 52"

definition H2K_tlb_tlbwrite :: "u32 \<Rightarrow> u64 \<Rightarrow> ptr \<Rightarrow> H2K_kg_t \<Rightarrow> H2K_kg_t \<times> u64" where
  "H2K_tlb_tlbwrite idx entry_in me s =
     ((H2K_mem_tlb_write idx (with_asid entry_in me s) (s\<lparr>tlb_lock := True\<rparr>))\<lparr>tlb_lock := False\<rparr>, 0)"

definition H2K_tlb_tlbquery :: "u32 \<Rightarrow> ptr \<Rightarrow> H2K_kg_t \<Rightarrow> H2K_kg_t \<times> u64" where
  "H2K_tlb_tlbquery va me s = (s, ucast (H2K_mem_tlb_probe va (ssr_asid (thr s me)) s))"

definition H2K_tlb_invalidate_overlap :: "u64 \<Rightarrow> H2K_kg_t \<Rightarrow> H2K_kg_t \<times> int" where
  "H2K_tlb_invalidate_overlap entry_in s =
     (let idx = hw_tlboc s (tlb_hist s) entry_in
      in if idx = -1 then (s, -1)
         else if bit idx 31 then (s, 0)
         else (H2K_mem_tlb_write idx 0 s, 0))"

definition H2K_tlb_tlballoc :: "u64 \<Rightarrow> ptr \<Rightarrow> H2K_kg_t \<Rightarrow> H2K_kg_t \<times> u64" where
  "H2K_tlb_tlballoc entry_in me s =
     (let e = with_asid entry_in me s;
          (s1, r) = H2K_tlb_invalidate_overlap e (s\<lparr>tlb_lock := True\<rparr>)
      in if r \<noteq> 0 then (s1\<lparr>tlb_lock := False\<rparr>, -1)
         else
           let m = pinned_tlb_mask s1;
               maskidx = 63 - int (cl1 m);
               idx = word_of_int maskidx + (tlb_size s1 - 64)
           in if m = -1 then (s1\<lparr>tlb_lock := False\<rparr>, -1)
              else
                let s2 = (if last_tlb_index s1 = idx
                          then (let s' = s1\<lparr>last_tlb_index := last_tlb_index s1 - 1\<rparr>
                                in if tlb_index s' = idx then s'\<lparr>tlb_index := 0\<rparr> else s')
                          else s1);
                    s3 = s2\<lparr>pinned_tlb_mask := m OR push_bit (nat maskidx) 1\<rparr>;
                    s4 = H2K_mem_tlb_write idx e s3
                in (s4\<lparr>tlb_lock := False\<rparr>, scast idx))"

text \<open>The loop of \<open>H2K_tlb_tlbfree\<close> that grows the replaceable section.\<close>

partial_function (option) grow_replaceable :: "H2K_kg_t \<Rightarrow> H2K_kg_t option" where
  "grow_replaceable s =
     (if \<not> bit (pinned_tlb_mask s) (unat ((last_tlb_index s + 1) AND 0x3f))
      then grow_replaceable (s\<lparr>last_tlb_index := last_tlb_index s + 1\<rparr>)
      else Some s)"

declare grow_replaceable.simps [code]

definition H2K_tlb_tlbfree :: "u32 \<Rightarrow> H2K_kg_t \<Rightarrow> (H2K_kg_t \<times> u64) option" where
  "H2K_tlb_tlbfree index s =
     (if index \<ge> tlb_size s - (kernel_npages s + 1) then Some (s, -1)
      else
        let s1 = s\<lparr>tlb_lock := True\<rparr>
        in if index \<le> last_tlb_index s1 then Some (s1, -1)
           else
             let s2 = H2K_mem_tlb_write index 0 s1;
                 s3 = s2\<lparr>pinned_tlb_mask := pinned_tlb_mask s2 AND NOT (push_bit (unat (index AND 0x3f)) 1)\<rparr>
             in do { s4 \<leftarrow> grow_replaceable s3; Some (s4\<lparr>tlb_lock := False\<rparr>, 0) })"

definition H2K_tlb_dmaset :: "u32 \<Rightarrow> u64 \<Rightarrow> H2K_kg_t \<Rightarrow> H2K_kg_t \<times> u64" where
  "H2K_tlb_dmaset idx0 entry_in s =
     (let idx = idx0 + dma_tlb_start s
      in ((H2K_mem_tlb_write idx entry_in (s\<lparr>tlb_lock := True\<rparr>))\<lparr>tlb_lock := False\<rparr>, ucast idx))"

definition H2K_tlb_tlbop :: "u32 \<Rightarrow> u32 \<Rightarrow> u64 \<Rightarrow> ptr \<Rightarrow> H2K_kg_t \<Rightarrow> (H2K_kg_t \<times> u64) option" where
  "H2K_tlb_tlbop opr val32 val64 me s =
     (if opr \<ge> 6 then Some (s, -1)
      else if opr = 0 then Some (H2K_tlb_tlbread val32 s)
      else if opr = 1 then Some (H2K_tlb_tlbwrite val32 val64 me s)
      else if opr = 2 then Some (H2K_tlb_tlbquery val32 me s)
      else if opr = 3 then Some (H2K_tlb_tlballoc val64 me s)
      else if opr = 4 then H2K_tlb_tlbfree val32 s
      else Some (H2K_tlb_dmaset val32 val64 s))"

section \<open>The miss handler\<close>

definition fill_ok :: "H2K_kg_t \<Rightarrow> bool" where
  "fill_ok s \<longleftrightarrow> tlb_index s \<le> last_tlb_index s"

text \<open>What inserting an entry does: one conditional write, at an index that may be replaced.\<close>

definition inserted :: "tlbfmt \<Rightarrow> H2K_kg_t \<Rightarrow> H2K_kg_t \<Rightarrow> bool" where
  "inserted e s s' \<longleftrightarrow> fill_ok s' \<and> \<not> tlb_lock s' \<and> last_tlb_index s' = last_tlb_index s \<and> thr s' = thr s \<and>
     (\<exists>i \<le> last_tlb_index s. tlb_hist s' = tlb_hist s @ [TLB_CWRITE i e])"

lemma insert_unlock_inserted:
  assumes "fill_ok s" "\<not> tlb_hsv39 e"
  shows "inserted e s (H2K_mem_tlb_insert_unlock e me s)"
proof -
  have "tlb_index s AND m \<le> last_tlb_index s" for m
    using assms(1) word_and_le2 [of "tlb_index s" m] unfolding fill_ok_def by (meson order_trans)
  then show ?thesis using assms
    by (simp add: inserted_def H2K_mem_tlb_insert_unlock_def H2K_mem_tlb_insert_index_def fill_ok_def Let_def)
qed

lemma stlb_add_frame [kstate_frame]:
  "thr (H2K_mem_stlb_add va asid e s) = thr s" "tlb_index (H2K_mem_stlb_add va asid e s) = tlb_index s"
  "last_tlb_index (H2K_mem_stlb_add va asid e s) = last_tlb_index s" "tlb_hist (H2K_mem_stlb_add va asid e s) = tlb_hist s"
  by (simp_all add: H2K_mem_stlb_add_def Let_def split: option.splits)

lemma find_way_none: "find_way P i n = None \<longleftrightarrow> (\<forall>j. i \<le> j \<and> j < i + n \<longrightarrow> \<not> P j)"
proof (induction n arbitrary: i)
  case (Suc n)
  have "(\<forall>j. i \<le> j \<and> j < i + Suc n \<longrightarrow> \<not> P j) \<longleftrightarrow> \<not> P i \<and> (\<forall>j. Suc i \<le> j \<and> j < Suc i + n \<longrightarrow> \<not> P j)"
    by (auto simp: Suc_le_eq) (metis le_neq_implies_less)
  then show ?case using Suc by simp
qed auto

lemma find_way_some: "find_way P i n = Some j \<Longrightarrow> P j \<and> i \<le> j \<and> j < i + n"
proof (induction n arbitrary: i)
  case (Suc n)
  then show ?case by (cases "P i") (auto dest: Suc.IH)
qed simp

lemma find_way_only: "P k \<Longrightarrow> i \<le> k \<Longrightarrow> k < i + n \<Longrightarrow> (\<And>j. P j \<Longrightarrow> i \<le> j \<Longrightarrow> j < i + n \<Longrightarrow> j = k) \<Longrightarrow> find_way P i n = Some k"
  by (metis find_way_none find_way_some option.exhaust)

lemma clear_ways_apply: "clear_ways asid base n b j = (if base \<le> j \<and> j < base + n \<and> tlb_asid (b j) = asid then 0 else b j)"
  by (induction n) (auto simp: Let_def H2K_mem_stlb_match_asid_def)

lemma random_way_less: "H2K_mem_stlb_quick_random_way s < STLB_MAX_WAYS"
proof -
  have "(ucast (pcycle_reg s) AND 3 :: u32) \<le> 3" by (rule word_and_le1)
  then have "unat (ucast (pcycle_reg s) AND 3 :: u32) \<le> 3" by (simp add: word_le_nat_alt)
  then show ?thesis by (simp add: H2K_mem_stlb_quick_random_way_def STLB_MAX_WAYS_def)
qed

text \<open>The ways of the set of an address, as the lookup sees them.\<close>

definition stlb_way :: "H2K_kg_t \<Rightarrow> u32 \<Rightarrow> u32 \<Rightarrow> nat \<Rightarrow> tlbfmt" where
  "stlb_way s asid va i = (case stlbptr s of None \<Rightarrow> 0 | Some infos \<Rightarrow> stlb_bulk s (baseaddr (infos (unat asid)) + set_idx va * STLB_MAX_WAYS + i))"

definition stlb_set_valid :: "H2K_kg_t \<Rightarrow> u32 \<Rightarrow> u32 \<Rightarrow> bool" where
  "stlb_set_valid s asid va = (case stlbptr s of None \<Rightarrow> False | Some infos \<Rightarrow> set_valid (infos (unat asid)) (set_idx va))"

lemma stlb_lookup_ways:
  "H2K_mem_stlb_lookup tm va asid s =
     (if stlb_set_valid s asid va
      then (case find_way (\<lambda>i. H2K_mem_stlb_check tm va asid (stlb_way s asid va i)) 0 STLB_MAX_WAYS of
              None \<Rightarrow> 0 | Some i \<Rightarrow> stlb_way s asid va i)
      else 0)"
  by (simp add: H2K_mem_stlb_lookup_def H2K_mem_stlb_find_def stlb_way_def stlb_set_valid_def Let_def add.assoc split: option.splits)

lemma stlb_add_ways:
  assumes "stlbptr s = Some infos"
  defines "r \<equiv> H2K_mem_stlb_quick_random_way s"
  shows "stlb_set_valid (H2K_mem_stlb_add va asid e s) asid va"
    and "i < STLB_MAX_WAYS \<Longrightarrow> stlb_way (H2K_mem_stlb_add va asid e s) asid va i =
      (if i = r then e
       else if \<not> stlb_set_valid s asid va \<and> tlb_asid (stlb_way s asid va i) = asid then 0 else stlb_way s asid va i)"
  using assms
  by (auto simp: H2K_mem_stlb_add_def stlb_set_valid_def stlb_way_def set_valid_def clear_ways_apply Let_def bit_simps
      H2K_mem_stlb_quick_random_way_def)

text \<open>
  The match instruction, by its documentation: it does not match an invalid entry, and a
  non-global entry only for the address space of the entry. The software TLB relies on no more.
\<close>

locale tlb_match =
  fixes tm :: tlbmatch
  assumes match_valid: "\<not> tm 0 k"
    and match_asid: "tm e (drop_bit 12 va OR push_bit 20 asid) \<Longrightarrow> unat asid < MAX_ASIDS \<Longrightarrow> \<not> bit e 62 \<Longrightarrow> tlb_asid e = asid"
begin

lemma lookup_none:
  assumes "H2K_mem_stlb_lookup tm va asid s = 0" "stlb_set_valid s asid va" "i < STLB_MAX_WAYS"
  shows "\<not> H2K_mem_stlb_check tm va asid (stlb_way s asid va i)"
proof -
  let ?P = "\<lambda>i. H2K_mem_stlb_check tm va asid (stlb_way s asid va i)"
  have "find_way ?P 0 STLB_MAX_WAYS = None"
  proof (rule ccontr)
    assume "find_way ?P 0 STLB_MAX_WAYS \<noteq> None"
    then obtain j where j: "find_way ?P 0 STLB_MAX_WAYS = Some j" by blast
    then have "?P j" by (auto dest: find_way_some)
    moreover have "stlb_way s asid va j = 0" using assms(1,2) j by (simp add: stlb_lookup_ways)
    ultimately show False by (simp add: H2K_mem_stlb_check_def match_valid)
  qed
  then show ?thesis using assms(3) by (simp add: find_way_none)
qed

lemma lookup_after_add:
  assumes "stlbptr s \<noteq> None" "H2K_mem_stlb_lookup tm va asid s = 0" "unat asid < MAX_ASIDS"
    and loc: "\<And>i. \<not> bit (stlb_way s asid va i) 62" and e: "H2K_mem_stlb_check tm va asid e"
  shows "H2K_mem_stlb_lookup tm va asid (H2K_mem_stlb_add va asid e s) = e"
proof -
  let ?s' = "H2K_mem_stlb_add va asid e s" and ?r = "H2K_mem_stlb_quick_random_way s"
  obtain infos where "stlbptr s = Some infos" using assms(1) by blast
  note w = stlb_add_ways [OF this, where va = va and asid = asid and e = e]
  have "\<not> H2K_mem_stlb_check tm va asid (stlb_way ?s' asid va i)" if i: "i < STLB_MAX_WAYS" "i \<noteq> ?r" for i
  proof (cases "stlb_set_valid s asid va")
    case True
    then show ?thesis using lookup_none [OF assms(2) True i(1)] w(2) [OF i(1)] i(2) by simp
  next
    case False
    then have "stlb_way ?s' asid va i = 0 \<or> stlb_way ?s' asid va i = stlb_way s asid va i \<and> tlb_asid (stlb_way s asid va i) \<noteq> asid"
      using w(2) [OF i(1)] i(2) by simp
    then show ?thesis using match_valid match_asid [OF _ assms(3) loc] unfolding H2K_mem_stlb_check_def by metis
  qed
  moreover have "stlb_way ?s' asid va ?r = e" using w(2) [OF random_way_less] by simp
  ultimately have "find_way (\<lambda>i. H2K_mem_stlb_check tm va asid (stlb_way ?s' asid va i)) 0 STLB_MAX_WAYS = Some ?r"
    using e random_way_less [of s] by (intro find_way_only) auto
  then show ?thesis using w(1) \<open>stlb_way ?s' asid va ?r = e\<close> by (simp add: stlb_lookup_ways)
qed

end

text \<open>The match in software, by the check of \<^verbatim>\<open>stlb.ref.c\<close> for processors without the instruction.\<close>

definition stlb_match :: tlbmatch where
  "stlb_match e k \<longleftrightarrow> tlb_valid e \<and> tlb_asid e = drop_bit 20 k \<and>
     (let m = push_bit (2 * H2K_mem_tlbfmt_get_size e) (-1) in take_bit 20 k AND m = tlb_vpn e AND m)"

lemma key_asid:
  fixes va asid :: u32
  assumes "unat asid < MAX_ASIDS"
  shows "drop_bit 20 (drop_bit 12 va OR push_bit 20 asid) = asid"
proof -
  have "asid < 2 ^ 7" using assms by (simp add: MAX_ASIDS_def word_less_nat_alt)
  then have "\<not> bit asid i" if "i \<ge> 7" for i using word_lt_exp_bits that by blast
  then show ?thesis by (intro bit_word_eqI) (auto simp: bit_simps not_less dest: bit_imp_le_length intro: ccontr)
qed

interpretation sw: tlb_match stlb_match
proof
  show "tlb_asid e = asid" if "stlb_match e (drop_bit 12 va OR push_bit 20 asid)" "unat asid < MAX_ASIDS" for e va asid
    using that(1) key_asid [OF that(2), of va] unfolding stlb_match_def by metis
qed (simp add: stlb_match_def tlb_valid_def)

lemma ssr_asid_less: "unat (ssr_asid c) < MAX_ASIDS"
proof -
  have "unat (take_bit 7 w :: u32) < 2 ^ 7" for w unfolding unsigned_take_bit_eq by (rule take_bit_nat_less_exp)
  then show ?thesis by (simp add: ssr_asid_def MAX_ASIDS_def)
qed

lemma insert_unlock_lookup: "H2K_mem_stlb_lookup tm va asid (H2K_mem_tlb_insert_unlock e me s) = H2K_mem_stlb_lookup tm va asid s"
proof -
  have eqs: "stlbptr (H2K_mem_tlb_insert_unlock e me s) = stlbptr s" "stlb_bulk (H2K_mem_tlb_insert_unlock e me s) = stlb_bulk s"
    by (simp_all add: H2K_mem_tlb_insert_unlock_def H2K_mem_tlb_insert_index_def Let_def)
  show ?thesis unfolding H2K_mem_stlb_lookup_def eqs ..
qed

lemma from_trans_hsv39: "\<not> hsv39 t \<Longrightarrow> \<not> tlb_hsv39 (H2K_mem_tlbfmt_from_trans t va asid dma)"
  by (auto simp: tlb_hsv39_def H2K_mem_tlbfmt_from_trans_def Let_def bit_simps dest: bit_imp_le_length)


section \<open>The pins\<close>

text \<open>The highest clear bit of a mask that is not full.\<close>

lemma cl1_spec:
  assumes "m \<noteq> - 1"
  shows "cl1 m < 64" "\<not> bit m (63 - cl1 m)" "63 - cl1 m < i \<Longrightarrow> i < 64 \<Longrightarrow> bit m i"
proof -
  define xs where "xs = rev [0..<64]"
  have nth: "xs ! j = 63 - j" if "j < 64" for j using that by (simp add: xs_def rev_nth)
  have len: "length xs = 64" by (simp add: xs_def)
  have c: "cl1 m = length (takeWhile (\<lambda>i. \<not> bit (NOT m) i) xs)" by (simp add: cl1_def cl0_def xs_def)
  obtain i where i: "i < 64" "\<not> bit m i"
    using assms bit_word_eqI [of m "- 1"] by (auto dest: bit_imp_le_length)
  then have "i \<in> set xs" by (simp add: xs_def)
  show lt: "cl1 m < 64"
  proof (rule ccontr)
    assume "\<not> cl1 m < 64"
    then have "takeWhile (\<lambda>i. \<not> bit (NOT m) i) xs = xs" using c len length_takeWhile_le [of "\<lambda>i. \<not> bit (NOT m) i" xs]
      by (metis le_antisym not_less takeWhile_eq_take take_all)
    then show False using \<open>i \<in> set xs\<close> i by (auto simp: takeWhile_eq_all_conv bit_not_iff_eq)
  qed
  show "\<not> bit m (63 - cl1 m)"
    using nth_length_takeWhile [of "\<lambda>i. \<not> bit (NOT m) i" xs] lt nth [of "cl1 m"] len by (simp add: c bit_not_iff_eq)
  show "bit m i" if "63 - cl1 m < i" "i < 64" for i
  proof -
    let ?j = "63 - i"
    have j: "?j < cl1 m" "?j < 64" using that lt by auto
    then have "takeWhile (\<lambda>i. \<not> bit (NOT m) i) xs ! ?j = i" using takeWhile_nth [of ?j "\<lambda>i. \<not> bit (NOT m) i" xs] nth [OF j(2)] that c by simp
    moreover have "takeWhile (\<lambda>i. \<not> bit (NOT m) i) xs ! ?j \<in> set (takeWhile (\<lambda>i. \<not> bit (NOT m) i) xs)" using j(1) c by simp
    ultimately show ?thesis using that(2) by (auto dest: set_takeWhileD simp: bit_not_iff_eq)
  qed
qed

text \<open>
  The mask of the pins and the end of the replaceable section agree: the lowest pinned entry of
  the last 64 is the one after the section. The TLB has 64 or 128 entries.
\<close>

definition pin_ok :: "H2K_kg_t \<Rightarrow> bool" where
  "pin_ok s \<longleftrightarrow> tlb_size s \<in> {64, 128} \<and> pinned_tlb_mask s \<noteq> 0 \<and>
     unat (last_tlb_index s) + 1 = unat (tlb_size s) - 64 + ct0 (pinned_tlb_mask s)"

lemma pinned_unat:
  assumes "tlb_size s \<in> {64, 128}" "i < 64"
  shows "unat (tlb_size s - 64 + of_nat i) = unat (tlb_size s) - 64 + i"
  using assms by (auto simp: unat_of_nat take_bit_nat_eq_self unat_word_ariths)

lemma pin_okD:
  assumes "pin_ok s"
  shows "tlb_size s \<in> {64, 128}" "ct0 (pinned_tlb_mask s) < 64" "bit (pinned_tlb_mask s) (ct0 (pinned_tlb_mask s))"
    and "last_tlb_index s + 1 = tlb_size s - 64 + of_nat (ct0 (pinned_tlb_mask s))"
    and "unat (last_tlb_index s) + 1 = unat (tlb_size s) - 64 + ct0 (pinned_tlb_mask s)"
proof -
  show a: "tlb_size s \<in> {64, 128}" "ct0 (pinned_tlb_mask s) < 64" "bit (pinned_tlb_mask s) (ct0 (pinned_tlb_mask s))"
    and u: "unat (last_tlb_index s) + 1 = unat (tlb_size s) - 64 + ct0 (pinned_tlb_mask s)"
    using assms ct0_lt_iff [of "pinned_tlb_mask s"] ct0_bit by (auto simp: pin_ok_def)
  have "unat (last_tlb_index s) + 1 < 2 ^ 32" using a u by auto
  then have "unat (last_tlb_index s + 1) = unat (last_tlb_index s) + 1" by (simp add: unat_word_ariths)
  then show "last_tlb_index s + 1 = tlb_size s - 64 + of_nat (ct0 (pinned_tlb_mask s))"
    using pinned_unat [OF a(1,2)] u by (simp only: word_unat_eq_iff)
qed

lemma unat_pred: "unat w > 0 \<Longrightarrow> unat (w - 1 :: u32) = unat w - 1"
  by (simp add: unat_sub_if_size)

lemma pin_okI:
  assumes "tlb_size s \<in> {64, 128}" "pinned_tlb_mask s \<noteq> 0" "unat (tlb_size s) - 64 + ct0 (pinned_tlb_mask s) > 0"
    and "last_tlb_index s = tlb_size s - 64 + of_nat (ct0 (pinned_tlb_mask s)) - 1"
  shows "pin_ok s"
proof -
  let ?w = "tlb_size s - 64 + of_nat (ct0 (pinned_tlb_mask s))"
  have "ct0 (pinned_tlb_mask s) < 64" using assms(2) ct0_lt_iff [of "pinned_tlb_mask s"] by simp
  then have u: "unat ?w = unat (tlb_size s) - 64 + ct0 (pinned_tlb_mask s)" using pinned_unat [OF assms(1)] by simp
  then have "unat (?w - 1) = unat ?w - 1" using assms(3) by (intro unat_pred) simp
  then show ?thesis using assms u by (simp add: pin_ok_def)
qed

lemma pinned_index:
  assumes "tlb_size s \<in> {64, 128}" "i < 64"
  shows "unat ((tlb_size s - 64 + of_nat i) AND 0x3f) = i"
proof -
  have *: "unat (of_nat n AND 0x3f :: u32) = n mod 64" if "n < 2 ^ 32" for n
  proof -
    have m: "(0x3f :: u32) = mask 6" by (simp add: mask_eq_exp_minus_1)
    have "unat (of_nat n :: u32) = n" using that by (simp add: unat_of_nat)
    then show ?thesis unfolding m take_bit_eq_mask [symmetric] unsigned_take_bit_eq by (simp add: take_bit_eq_mod)
  qed
  show ?thesis using assms * [of i] * [of "64 + i"] by auto
qed

lemma grow_replaceable_spec:
  assumes "tlb_size s \<in> {64, 128}" "pinned_tlb_mask s \<noteq> 0"
    and "last_tlb_index s + 1 = tlb_size s - 64 + of_nat c" "c \<le> ct0 (pinned_tlb_mask s)"
  shows "grow_replaceable s = Some (s\<lparr>last_tlb_index := tlb_size s - 64 + of_nat (ct0 (pinned_tlb_mask s)) - 1\<rparr>)"
  using assms
proof (induction "ct0 (pinned_tlb_mask s) - c" arbitrary: s c)
  case 0
  then have c: "c = ct0 (pinned_tlb_mask s)" "c < 64" using ct0_lt_iff [of "pinned_tlb_mask s"] by auto
  then have "bit (pinned_tlb_mask s) (unat ((last_tlb_index s + 1) AND 0x3f))"
    using pinned_index [OF 0(2), of c] 0(3,4) ct0_bit by metis
  moreover have "s\<lparr>last_tlb_index := last_tlb_index s\<rparr> = s" by simp
  moreover have "last_tlb_index s = tlb_size s - 64 + of_nat c - 1" using 0(4) by (simp add: algebra_simps)
  ultimately show ?case using c by (subst grow_replaceable.simps) simp
next
  case (Suc n)
  let ?s = "s\<lparr>last_tlb_index := last_tlb_index s + 1\<rparr>"
  have c: "c < ct0 (pinned_tlb_mask s)" "c < 64" using Suc(2) ct0_le [of "pinned_tlb_mask s"] by auto
  then have "\<not> bit (pinned_tlb_mask s) (unat ((last_tlb_index s + 1) AND 0x3f))"
    using pinned_index [OF Suc(3), of c] Suc(5) ct0_below by metis
  moreover have "grow_replaceable ?s = Some (?s\<lparr>last_tlb_index := tlb_size ?s - 64 + of_nat (ct0 (pinned_tlb_mask ?s)) - 1\<rparr>)"
    by (rule Suc(1) [of _ "Suc c"]) (use Suc c in \<open>auto simp: algebra_simps\<close>)
  ultimately show ?case by (subst grow_replaceable.simps) simp
qed

text \<open>The pins of the kernel: its image and one more page, at the end of the TLB.\<close>

definition kernel_pinned :: "H2K_kg_t \<Rightarrow> bool" where
  "kernel_pinned s \<longleftrightarrow> bit (pinned_tlb_mask s) 63 \<and>
     (\<forall>i<64. tlb_size s - (kernel_npages s + 1) \<le> tlb_size s - 64 + of_nat i \<longrightarrow> bit (pinned_tlb_mask s) i)"

lemma tlb_free_ok:
  assumes "pin_ok s" "bit (pinned_tlb_mask s) 63" "j < 63"
    and idx: "index = tlb_size s - 64 + of_nat j" "index < tlb_size s - (kernel_npages s + 1)" "last_tlb_index s < index"
  shows "\<exists>s'. H2K_tlb_tlbfree index s = Some (s', 0) \<and> pinned_tlb_mask s' = unset_bit j (pinned_tlb_mask s) \<and>
    pin_ok s' \<and> \<not> tlb_lock s' \<and> tlb_size s' = tlb_size s"
proof -
  let ?m = "pinned_tlb_mask s"
  let ?m' = "?m AND NOT (push_bit j 1)"
  have m': "?m' = unset_bit j ?m" by (intro bit_word_eqI) (auto simp: bit_simps)
  note p = pin_okD(1,4,5) [OF assms(1)]
  have nz: "unset_bit j ?m \<noteq> 0" using assms(2,3) by (metis bit_0_eq bit_unset_bit_word bot_apply bot_bool_def nat_neq_iff)
  have le: "ct0 ?m \<le> ct0 (unset_bit j ?m)"
    using ct0_bit [OF nz] ct0_below [of "ct0 (unset_bit j ?m)" ?m] by (auto simp: not_less [symmetric])
  have j: "unat (index AND 0x3f) = j" using pinned_index [OF p(1)] assms(3) idx(1) by simp
  let ?s3 = "(H2K_mem_tlb_write index 0 (s\<lparr>tlb_lock := True\<rparr>))\<lparr>pinned_tlb_mask := unset_bit j ?m\<rparr>"
  have g: "grow_replaceable ?s3 = Some (?s3\<lparr>last_tlb_index := tlb_size s - 64 + of_nat (ct0 (unset_bit j ?m)) - 1\<rparr>)"
    using grow_replaceable_spec [of ?s3 "ct0 ?m"] p nz le by (simp add: H2K_mem_tlb_write_def)
  have "H2K_tlb_tlbfree index s = Some (?s3\<lparr>last_tlb_index := tlb_size s - 64 + of_nat (ct0 (unset_bit j ?m)) - 1, tlb_lock := False\<rparr>, 0)"
    unfolding H2K_tlb_tlbfree_def Let_def using idx(2,3) g j m' by (simp add: H2K_mem_tlb_write_def not_le)
  moreover have "pin_ok (?s3\<lparr>last_tlb_index := tlb_size s - 64 + of_nat (ct0 (unset_bit j ?m)) - 1, tlb_lock := False\<rparr>)"
    by (rule pin_okI) (use p nz le in \<open>auto simp: H2K_mem_tlb_write_def\<close>)
  ultimately show ?thesis by (simp add: H2K_mem_tlb_write_def)
qed

lemma overlap_frame:
  assumes "H2K_tlb_invalidate_overlap e s = (s1, r)"
  shows "\<exists>h. s1 = s\<lparr>tlb_hist := h\<rparr>" "r = 0 \<longleftrightarrow> hw_tlboc s (tlb_hist s) e \<noteq> - 1"
proof -
  have "\<exists>h. s = s\<lparr>tlb_hist := h\<rparr>" by (rule exI [of _ "tlb_hist s"]) simp
  then show "\<exists>h. s1 = s\<lparr>tlb_hist := h\<rparr>" "r = 0 \<longleftrightarrow> hw_tlboc s (tlb_hist s) e \<noteq> - 1"
    using assms by (auto simp: H2K_tlb_invalidate_overlap_def H2K_mem_tlb_write_def Let_def split: if_splits)
qed

lemma highest_clear_or_lowest_set:
  assumes "m \<noteq> 0" "m \<noteq> - 1"
  defines "k \<equiv> 63 - cl1 m"
  shows "ct0 (set_bit k m) = (if k < ct0 m then k else ct0 m)" "k < ct0 m \<longleftrightarrow> k = ct0 m - 1 \<and> ct0 m > 0"
proof -
  note c = cl1_spec [OF assms(2), folded k_def]
  have b: "bit m (ct0 m)" "ct0 m < 64" using assms(1) ct0_bit ct0_lt_iff [of m] by auto
  have k: "k < 64" by (simp add: k_def)
  show e: "k < ct0 m \<longleftrightarrow> k = ct0 m - 1 \<and> ct0 m > 0"
  proof
    assume a: "k < ct0 m"
    then have "\<not> bit m (ct0 m - 1)" using ct0_below [of "ct0 m - 1" m] by simp
    then have "\<not> k < ct0 m - 1" using c(3) [of "ct0 m - 1"] b(2) by linarith
    with a show "k = ct0 m - 1 \<and> ct0 m > 0" by linarith
  qed auto
  show "ct0 (set_bit k m) = (if k < ct0 m then k else ct0 m)"
    using k b ct0_below [of _ m] by (intro ct0_eqI) (auto split: if_splits)
qed

lemma tlb_alloc_ok:
  assumes p: "pin_ok s" and room: "pinned_tlb_mask s \<noteq> - 1" and one: "hw_tlboc s (tlb_hist s) (with_asid e me s) \<noteq> - 1"
    and last: "tlb_size s = 128 \<or> pinned_tlb_mask s OR 1 \<noteq> - 1"
  defines "k \<equiv> 63 - cl1 (pinned_tlb_mask s)"
  defines "idx \<equiv> tlb_size s - 64 + of_nat k"
  shows "\<exists>s'. H2K_tlb_tlballoc e me s = (s', scast idx) \<and> pinned_tlb_mask s' = set_bit k (pinned_tlb_mask s) \<and> pin_ok s' \<and>
    \<not> tlb_lock s' \<and> last_tlb_index s' < idx \<and> (fill_ok s \<longrightarrow> fill_ok s') \<and> tlb_size s' = tlb_size s \<and> kernel_npages s' = kernel_npages s \<and>
    List.last (tlb_hist s') = TLB_WRITE idx (with_asid e me s)"
proof -
  let ?m = "pinned_tlb_mask s" and ?e = "with_asid e me s"
  obtain s1 r where o: "H2K_tlb_invalidate_overlap ?e (s\<lparr>tlb_lock := True\<rparr>) = (s1, r)" by fastforce
  obtain h where s1: "s1 = s\<lparr>tlb_lock := True, tlb_hist := h\<rparr>" using overlap_frame(1) [OF o] by auto
  have r: "r = 0" using overlap_frame(2) [OF o] one by simp
  note c = cl1_spec [OF room, folded k_def]
  note P = pin_okD [OF p]
  have nz: "?m \<noteq> 0" using P(3) by auto
  note hc = highest_clear_or_lowest_set [OF nz room, folded k_def]
  have mi: "63 - int (cl1 ?m) = int k" using c(1) by (simp add: k_def)
  have sb: "?m OR push_bit k 1 = set_bit k ?m" by (simp add: set_bit_eq_or)
  have k: "k < 64" by (simp add: k_def)
  have ui: "unat idx = unat (tlb_size s) - 64 + k" unfolding idx_def by (rule pinned_unat [OF P(1) k])
  have shr: "last_tlb_index s = idx \<longleftrightarrow> k < ct0 ?m"
    using ui P(5) hc(2) by (auto simp: word_unat_eq_iff)
  have "k \<noteq> ct0 ?m" using c(2) P(3) by auto
  have pos: "unat (tlb_size s) - 64 + k > 0" if "k < ct0 ?m"
  proof (rule ccontr)
    assume "\<not> unat (tlb_size s) - 64 + k > 0"
    then have z: "k = 0" "tlb_size s \<noteq> 128" by auto
    then have "?m OR 1 = - 1" using c(3) by (intro bit_word_eqI) (auto simp: bit_simps intro: ccontr)
    with last z(2) show False by simp
  qed
  let ?s2 = "s1\<lparr>last_tlb_index := last_tlb_index s - (if k < ct0 ?m then 1 else 0),
     tlb_index := (if k < ct0 ?m \<and> tlb_index s = idx then 0 else tlb_index s)\<rparr>"
  let ?s' = "(H2K_mem_tlb_write idx ?e (?s2\<lparr>pinned_tlb_mask := set_bit k ?m\<rparr>))\<lparr>tlb_lock := False\<rparr>"
  have run: "H2K_tlb_tlballoc e me s = (?s', scast idx)"
    unfolding H2K_tlb_tlballoc_def Let_def o prod.case
    using r room shr mi sb by (auto simp: s1 idx_def add.commute)
  have below: "last_tlb_index ?s' < idx"
  proof (cases "k < ct0 ?m")
    case True
    then have "unat (idx - 1) = unat idx - 1" using pos ui by (intro unat_pred) simp
    then show ?thesis using True shr pos ui by (simp add: H2K_mem_tlb_write_def s1 word_less_nat_alt)
  next
    case False
    then show ?thesis using \<open>k \<noteq> ct0 ?m\<close> P(5) ui by (simp add: H2K_mem_tlb_write_def s1 word_less_nat_alt)
  qed
  have "pin_ok ?s'"
  proof (rule pin_okI)
    show "last_tlb_index ?s' = tlb_size ?s' - 64 + of_nat (ct0 (pinned_tlb_mask ?s')) - 1"
      using hc(1) shr P(4) by (cases "k < ct0 ?m") (simp_all add: H2K_mem_tlb_write_def s1 idx_def algebra_simps)
    show "unat (tlb_size ?s') - 64 + ct0 (pinned_tlb_mask ?s') > 0"
      using hc(1) pos P(5) by (auto simp: H2K_mem_tlb_write_def s1)
    show "pinned_tlb_mask ?s' \<noteq> 0" using k by (simp add: H2K_mem_tlb_write_def)
  qed (use P(1) in \<open>simp add: H2K_mem_tlb_write_def s1\<close>)
  moreover have "fill_ok ?s'" if "fill_ok s"
  proof (cases "k < ct0 ?m")
    case True
    then have l: "last_tlb_index s = idx" "unat (idx - 1) = unat idx - 1" using pos ui shr by (blast, intro unat_pred, simp)
    have "unat (tlb_index s) \<le> unat idx - 1" if "tlb_index s \<noteq> idx"
      using that \<open>fill_ok s\<close> l(1) by (simp add: fill_ok_def word_le_nat_alt word_unat_eq_iff)
    then show ?thesis using True l by (simp add: fill_ok_def H2K_mem_tlb_write_def s1 word_le_nat_alt)
  qed (use that in \<open>simp add: fill_ok_def H2K_mem_tlb_write_def s1\<close>)
  ultimately show ?thesis using run below by (intro exI [of _ ?s']) (simp add: H2K_mem_tlb_write_def s1)
qed

text \<open>
  C34: pinned entries are allocated and freed. With room in the mask and no double overlap, an
  allocation writes the entry, with the address space of the caller, at the highest entry not
  pinned, pins it, and takes it out of the replaceable section, so that a miss never replaces it.
  Freeing that index gives the mask and the replaceable section back as they were.
\<close>

theorem tlb_alloc_free:
  assumes p: "pin_ok s" and kp: "kernel_pinned s" and room: "pinned_tlb_mask s \<noteq> - 1"
    and one: "hw_tlboc s (tlb_hist s) (with_asid e me s) \<noteq> - 1" and last: "tlb_size s = 128 \<or> pinned_tlb_mask s OR 1 \<noteq> - 1"
  defines "k \<equiv> 63 - cl1 (pinned_tlb_mask s)"
  defines "idx \<equiv> tlb_size s - 64 + of_nat k"
  shows "\<exists>s' s''. H2K_tlb_tlballoc e me s = (s', scast idx) \<and> List.last (tlb_hist s') = TLB_WRITE idx (with_asid e me s) \<and>
    \<not> bit (pinned_tlb_mask s) k \<and> pinned_tlb_mask s' = set_bit k (pinned_tlb_mask s) \<and> pin_ok s' \<and>
    last_tlb_index s' < idx \<and> (fill_ok s \<longrightarrow> fill_ok s') \<and> \<not> tlb_lock s' \<and>
    H2K_tlb_tlbfree idx s' = Some (s'', 0) \<and> pinned_tlb_mask s'' = pinned_tlb_mask s \<and>
    last_tlb_index s'' = last_tlb_index s \<and> \<not> tlb_lock s''"
proof -
  note c = cl1_spec [OF room, folded k_def]
  obtain s' where a: "H2K_tlb_tlballoc e me s = (s', scast idx)" "pinned_tlb_mask s' = set_bit k (pinned_tlb_mask s)" "pin_ok s'"
    "\<not> tlb_lock s'" "last_tlb_index s' < idx" "fill_ok s \<longrightarrow> fill_ok s'" "tlb_size s' = tlb_size s" "kernel_npages s' = kernel_npages s"
    "List.last (tlb_hist s') = TLB_WRITE idx (with_asid e me s)"
    using tlb_alloc_ok [OF p room one last, folded k_def, folded idx_def] by (elim exE conjE)
  have k: "k < 64" "k \<noteq> 63" using c(2) kp by (auto simp: k_def kernel_pinned_def)
  then have free: "idx < tlb_size s - (kernel_npages s + 1)"
    using c(2) kp unfolding kernel_pinned_def idx_def by (meson not_le)
  obtain s'' where f: "H2K_tlb_tlbfree idx s' = Some (s'', 0)" "pinned_tlb_mask s'' = unset_bit k (pinned_tlb_mask s')" "pin_ok s''" "\<not> tlb_lock s''"
    "tlb_size s'' = tlb_size s'"
    using tlb_free_ok [OF a(3), of k idx] a k kp free by (auto simp: kernel_pinned_def idx_def)
  have m: "pinned_tlb_mask s'' = pinned_tlb_mask s"
    unfolding f(2) a(2) using c(2) by (intro bit_word_eqI) auto
  then have "last_tlb_index s'' = last_tlb_index s"
    using pin_okD(5) [OF p] pin_okD(5) [OF f(3)] f(5) a(7) m unfolding m word_unat_eq_iff [of "last_tlb_index s''"] by simp
  with a f m c(2) show ?thesis by blast
qed

text \<open>
  The free operation leaves the TLB lock taken when it refuses the index of a replaceable
  entry: it returns \<open>-1\<close> with the lock held.
\<close>

theorem tlb_free_keeps_lock:
  assumes "index < tlb_size s - (kernel_npages s + 1)" "index \<le> last_tlb_index s"
  shows "\<exists>s'. H2K_tlb_tlbop 4 index val64 me s = Some (s', - 1) \<and> tlb_lock s'"
proof -
  have "\<not> tlb_size s - (kernel_npages s + 1) \<le> index" using assms(1) by simp
  with assms(2) show ?thesis by (simp add: H2K_tlb_tlbop_def H2K_tlb_tlbfree_def del: not_le)
qed

text \<open>
  Filling the DMA TLB writes into the main TLB. The index of the next DMA entry is at least
  512, but the mask of the thread has eight bits: with the full mask and the next index \<open>512 + k\<close>
  the entry for the extended address space is written at index \<open>k\<close>, pinned or not.
\<close>

theorem dma_fill_hits_main_tlb:
  assumes "tlb_hsv39 e" "tlb_index_dma s = 512 + k" "k < 256" "tlbidxmask (thr s me) = 0xff"
  shows "tlb_hist (H2K_mem_tlb_insert_unlock e me s) = tlb_hist s @ [TLB_CWRITE k e]"
proof -
  have m: "ucast (0xff :: u8) = (mask 8 :: u32)" by (simp add: mask_eq_exp_minus_1)
  have k: "unat k < 256" using assms(3) by (simp add: word_less_nat_alt)
  then have "unat (512 + k) = 512 + unat k" by (simp add: unat_word_ariths)
  then have "unat (take_bit 8 (512 + k)) = unat k" 
    using k mod_mult_self2 [of "unat k" 256 2] unfolding unsigned_take_bit_eq by (simp add: take_bit_eq_mod add.commute)
  then have "(512 + k) AND ucast (0xff :: u8) = k" unfolding m take_bit_eq_mask [symmetric] by (simp add: word_unat_eq_iff)
  with assms show ?thesis
    by (simp add: H2K_mem_tlb_insert_unlock_def H2K_mem_tlb_insert_index_def Let_def)
qed

section \<open>Temporary mappings\<close>

lemma tmpmap_add_state:
  "\<exists>va. H2K_tmpmap_add_and_lock pa c sz s =
     (s\<lparr>tmpmap_lock := True, last_tlb_index := last_tlb_index s - 1,
        tlb_index := (if tlb_index s \<ge> last_tlb_index s then 0 else tlb_index s),
        tlb_hist := tlb_hist s @ [TLB_CWRITE (last_tlb_index s) (tmpmap_entry pa c (if sz = - 1 then 0 else sz))],
        tlb_lock := False\<rparr>, va)"
  by (simp add: H2K_tmpmap_add_and_lock_def H2K_mem_tlb_insert_index_def Let_def)

text \<open>
  A temporary mapping is undone. Adding one writes the entry over the last of the replaceable
  section and takes it out of the section, with the next index inside what is left, and holds
  the lock of the mapping; removing it invalidates that entry, gives the section back and frees
  both locks.
\<close>

theorem tmpmap_add_remove:
  fixes pa :: u64 and c sz :: u32
  assumes "fill_ok s" "last_tlb_index s > 0"
  defines "s1 \<equiv> fst (H2K_tmpmap_add_and_lock pa c sz s)"
  defines "s2 \<equiv> H2K_tmpmap_remove_and_unlock s1"
  shows "tmpmap_lock s1 \<and> \<not> tlb_lock s1 \<and> fill_ok s1 \<and> last_tlb_index s1 < last_tlb_index s \<and>
    \<not> tmpmap_lock s2 \<and> \<not> tlb_lock s2 \<and> fill_ok s2 \<and> last_tlb_index s2 = last_tlb_index s \<and>
    tlb_hist s2 = tlb_hist s @ [TLB_CWRITE (last_tlb_index s) (tmpmap_entry pa c (if sz = - 1 then 0 else sz)), TLB_WRITE (last_tlb_index s) 0]"
proof -
  let ?l = "last_tlb_index s"
  obtain va where a: "H2K_tmpmap_add_and_lock pa c sz s =
     (s\<lparr>tmpmap_lock := True, last_tlb_index := ?l - 1, tlb_index := (if tlb_index s \<ge> ?l then 0 else tlb_index s),
        tlb_hist := tlb_hist s @ [TLB_CWRITE ?l (tmpmap_entry pa c (if sz = - 1 then 0 else sz))], tlb_lock := False\<rparr>, va)"
    using tmpmap_add_state [of pa c sz s] by (elim exE)
  have p: "unat (?l - 1) = unat ?l - 1" "unat ?l > 0" using assms(2) unat_pred [of ?l] by (simp_all add: word_less_nat_alt)
  then have "fill_ok s1" "?l - 1 < ?l" "fill_ok s2" using assms(1)
    by (auto simp: s1_def s2_def a fill_ok_def H2K_tmpmap_remove_and_unlock_def H2K_mem_tlb_write_def Let_def word_le_nat_alt word_less_nat_alt)
  then show ?thesis by (simp add: s1_def s2_def a H2K_tmpmap_remove_and_unlock_def H2K_mem_tlb_write_def Let_def)
qed

text \<open>
  The entry of a temporary mapping loses the address bits 32 to 34: two physical pages 4 GB
  apart get the same entry, since the mask of the page has 32 bits only.
\<close>

theorem tmpmap_aliases_4g:
  "tmpmap_entry (flip_bit 32 pa) c sz = tmpmap_entry pa c sz \<and> drop_bit 12 (flip_bit 32 pa) \<noteq> drop_bit 12 pa"
proof -
  have "bit (drop_bit 12 (flip_bit 32 pa)) 20 \<noteq> bit (drop_bit 12 pa) 20" by (simp add: bit_simps)
  then have "drop_bit 12 (flip_bit 32 pa) \<noteq> drop_bit 12 pa" by metis
  moreover have "(flip_bit 32 pa) AND ucast (w :: u32) = pa AND ucast w" for w
    by (intro bit_word_eqI) (auto simp: bit_simps dest: bit_imp_le_length)
  moreover have "drop_bit 35 (flip_bit 32 pa) = drop_bit 35 pa" "drop_bit 36 (flip_bit 32 pa) = drop_bit 36 pa"
    using bit_imp_le_length [of pa] by (fastforce intro!: bit_word_eqI simp: bit_simps)+
  ultimately show ?thesis unfolding tmpmap_entry_def by simp
qed

section \<open>Examples\<close>

text \<open>A TLB of 128 entries, the last 27 pinned, and one address space by the offset of the example above.\<close>

definition tlb_example :: H2K_kg_t where
  "tlb_example = tr_example\<lparr>asid_table := (\<lambda>_. gm_example), tlb_size := 128, last_tlb_index := 100, tlb_index := 7,
     pinned_tlb_mask := NOT (mask 37), kernel_npages := 20, stlbptr := Some (\<lambda>_. \<lparr>valids = (\<lambda>_. 0), baseaddr = 0\<rparr>)\<rparr>"

definition tlb_trans :: H2K_translation_t where
  "tlb_trans = \<lparr>pn = 0x120, size = 10, xwru = 14, cccc = 7, weak_ccc = False, hsv39 = False, shared = False\<rparr>"

lemma tlb_example_facts:
  "H2K_translate 1 tlb_example (H2K_translate_default (ucast (0x20000 :: u32))) gm_example = Some tlb_trans"
  "H2K_mem_stlb_lookup stlb_match 0x20000 0 tlb_example = 0"
  "H2K_mem_tlbfmt_from_trans tlb_trans 0x20000 0 0 \<noteq> 0"
  "H2K_mem_stlb_check stlb_match 0x20000 0 (H2K_mem_tlbfmt_from_trans tlb_trans 0x20000 0 0)"
  "ct0 (pinned_tlb_mask tlb_example) = 37" "cl1 (pinned_tlb_mask tlb_example) = 27"
  by code_simp+

lemma tlb_example_thr: "ssr_asid (thr tlb_example 20) = 0" "asid_table tlb_example n = gm_example" "fill_ok tlb_example" "stlbptr tlb_example \<noteq> None"
  "tlb_size_dma tlb_example = 0" "\<not> bit (stlb_way tlb_example a va i) 62"
  by (simp_all add: tlb_example_def tr_example_def kg0_def thread0_def ssr_asid_def fill_ok_def stlb_way_def)


theorem tlb_alloc_free_witness:
  "\<exists>s' s''. H2K_tlb_tlballoc 0x8000000000000001 20 tlb_example = (s', 100) \<and> last_tlb_index s' < 100 \<and>
     H2K_tlb_tlbfree 100 s' = Some (s'', 0) \<and> last_tlb_index s'' = 100"
proof -
  have "pinned_tlb_mask tlb_example \<noteq> 0" using tlb_example_facts(5) by (cases "pinned_tlb_mask tlb_example = 0") simp_all
  then have p: "pin_ok tlb_example"
    using tlb_example_facts(5) by (simp add: pin_ok_def) (simp add: tlb_example_def)
  have kp: "kernel_pinned tlb_example"
  proof -
    have "bit (pinned_tlb_mask tlb_example) i" if "i < 64" "(107 :: u32) \<le> 64 + of_nat i" for i
    proof -
      have "unat (64 + of_nat i :: u32) = 64 + i" using that(1) by (simp add: unat_word_ariths unat_of_nat take_bit_nat_eq_self)
      then have "i \<ge> 43" using that(2) by (simp add: word_le_nat_alt)
      then show ?thesis using that(1) by (simp add: tlb_example_def bit_simps)
    qed
    then show ?thesis unfolding kernel_pinned_def by (simp add: tlb_example_def bit_simps)
  qed
  have m: "pinned_tlb_mask tlb_example \<noteq> - 1" "hw_tlboc tlb_example (tlb_hist tlb_example) x \<noteq> - 1"
    "tlb_size tlb_example = 128" "last_tlb_index tlb_example = 100" for x
    using cl1_spec by (simp_all add: tlb_example_def tr_example_def kg0_def mask_eq_exp_minus_1)
  from tlb_alloc_free [OF p kp m(1) m(2) [of "with_asid 0x8000000000000001 20 tlb_example"]] show ?thesis
    unfolding tlb_example_facts m by simp blast
qed

theorem tlb_free_keeps_lock_witness: "\<exists>s'. H2K_tlb_tlbop 4 50 0 20 tlb_example = Some (s', - 1) \<and> tlb_lock s'"
  by (rule tlb_free_keeps_lock) (simp_all add: tlb_example_def tr_example_def kg0_def)

theorem dma_fill_hits_main_tlb_witness:
  "tlb_hist (H2K_mem_tlb_insert_unlock (push_bit 27 1) 20
     (tlb_example\<lparr>tlb_index_dma := 512 + 120, thr := \<lambda>_. thread0\<lparr>tlbidxmask := 0xff\<rparr>\<rparr>)) = [TLB_CWRITE 120 (push_bit 27 1)]"
  by (subst dma_fill_hits_main_tlb [where k = 120]) (simp_all add: tlb_hsv39_def bit_simps tlb_example_def tr_example_def kg0_def)

theorem tmpmap_add_remove_witness:
  "last_tlb_index (H2K_tmpmap_remove_and_unlock (fst (H2K_tmpmap_add_and_lock 0x90001000 6 (- 1) tlb_example))) = 100"
  using tmpmap_add_remove [OF tlb_example_thr(3), where pa = "0x90001000" and c = "6" and sz = "- 1"] by (simp add: tlb_example_def)

end
