(* ===== verification/Vmtrap.thy ===== *)
theory Vmtrap
  imports Popup Tlb
begin

text \<open>
  The traps a guest enters the kernel with: return from an event, event vector, interrupt
  enable, waiting, yielding, starting and stopping threads, guest registers, maps
  (\<^verbatim>\<open>kernel/vm/vmfuncs\<close>, \<^verbatim>\<open>kernel/vm/vmmap\<close>), operations on interrupt controllers with
  the policy between VMs (\<^verbatim>\<open>kernel/vm/vmint\<close>), and the small traps on the priority, thread
  identifier, cycle counters and the performance monitor (\<^verbatim>\<open>kernel/traps\<close>). Physical interrupts
  passed through to a VM (\<^verbatim>\<open>kernel/event/passthru\<close>) end in the same controllers.

  A trap that switches to another thread ends there: what the C code writes into the caller
  after the switch happens when the caller runs again and is not part of the step.
\<close>

type_synonym trap = "ptr \<Rightarrow> H2K_kg_t \<Rightarrow> (H2K_kg_t \<times> unit outcome) option"

definition finish :: "H2K_kg_t \<Rightarrow> (H2K_kg_t \<times> unit outcome) option" where
  "finish s = Some (s, Ret ())"

definition set_r00 :: "ptr \<Rightarrow> u32 \<Rightarrow> H2K_kg_t \<Rightarrow> H2K_kg_t" where
  "set_r00 me v s = upd_thr me (r00_update (\<lambda>_. v)) s"

definition then_set_r00 :: "ptr \<Rightarrow> (H2K_kg_t \<times> u32 outcome) option \<Rightarrow> (H2K_kg_t \<times> unit outcome) option" where
  "then_set_r00 me x =
     do { (s, r) \<leftarrow> x; Some (case r of Ret v \<Rightarrow> (set_r00 me v s, Ret ()) | Switch a b \<Rightarrow> (s, Switch a b)) }"

section \<open>Cycles, thread identifiers and priorities\<close>

definition H2K_pcycles_get :: "H2K_kg_t \<Rightarrow> u64" where "H2K_pcycles_get s = pcycle_reg s"

definition H2K_cputime_get :: "ptr \<Rightarrow> H2K_kg_t \<Rightarrow> u64" where
  "H2K_cputime_get me s = totalcycles (thr s me) + (H2K_pcycles_get s - oncpu_start s (unat (htid s)))"

definition H2K_waitcycles_get :: "u32 \<Rightarrow> H2K_kg_t \<Rightarrow> u64" where
  "H2K_waitcycles_get h s =
     (if h \<ge> hthreads s then 0
      else if \<not> bit (drop_bit 16 (hw_modectl s)) (unat h) then waitcycles s (unat h)
      else waitcycles s (unat h) + H2K_pcycles_get s - oncpu_wait s (unat h))"

definition H2K_tid_set :: "u32 \<Rightarrow> ptr \<Rightarrow> H2K_kg_t \<Rightarrow> H2K_kg_t" where
  "H2K_tid_set t me s =
     (let s1 = upd_thr me (tid_update (\<lambda>_. ucast t)) s in s1\<lparr>hw_tid := (hw_tid s1)(unat (htid s1) := ucast t)\<rparr>)"

definition H2K_tid_get :: "ptr \<Rightarrow> H2K_kg_t \<Rightarrow> u32" where
  "H2K_tid_get me s = ucast (tid (thr s me))"

definition H2K_prio_set :: "u32 \<Rightarrow> ptr \<Rightarrow> H2K_kg_t \<Rightarrow> H2K_kg_t \<times> int" where
  "H2K_prio_set p me s =
     (if p > MAX_PRIO then (s, -1)
      else if vmblock (thr s me) \<noteq> NULL \<and> p < bestprio (vmb s (vmblock (thr s me))) then (s, -1)
      else (upd_thr me (base_prio_update (\<lambda>_. ucast p)) s, int (unat (base_prio (thr s me)))))"

definition H2K_prio_get :: "ptr \<Rightarrow> H2K_kg_t \<Rightarrow> u32" where
  "H2K_prio_get me s = ucast (base_prio (thr s me))"

section \<open>The performance monitor\<close>

definition trap_pmuctrl_threadset :: "H2K_kg_t \<Rightarrow> H2K_kg_t \<times> u32" where
  "trap_pmuctrl_threadset s = (s, -1)"

definition H2K_trap_pmuctrl_setreg :: "u32 \<Rightarrow> u32 \<Rightarrow> H2K_kg_t \<Rightarrow> H2K_kg_t \<times> u32" where
  "H2K_trap_pmuctrl_setreg whichreg newval s =
     (if whichreg \<le> 12 then (s\<lparr>hw_pmu := (hw_pmu s)(unat whichreg := newval)\<rparr>, 0) else (s, -1))"

definition H2K_trap_pmuctrl_getreg :: "u32 \<Rightarrow> H2K_kg_t \<Rightarrow> H2K_kg_t \<times> u32" where
  "H2K_trap_pmuctrl_getreg whichreg s = (s, if whichreg \<le> 12 then hw_pmu s (unat whichreg) else -1)"

definition H2K_trap_pmuctrl :: "u32 \<Rightarrow> u32 \<Rightarrow> u32 \<Rightarrow> u32 \<Rightarrow> H2K_kg_t \<Rightarrow> H2K_kg_t \<times> u32" where
  "H2K_trap_pmuctrl configtype val1 val2 val3 s =
     (if configtype = 0 \<or> configtype \<ge> 3 then (s, -1)
      else if configtype = 1 then H2K_trap_pmuctrl_setreg val2 val3 s
      else H2K_trap_pmuctrl_getreg val2 s)"

text \<open>The loop over all CPUs of the VM counts the calls that succeed.\<close>

fun pmuctrl_all :: "u32 \<Rightarrow> H2K_id_t \<Rightarrow> u32 \<Rightarrow> nat \<Rightarrow> nat \<Rightarrow> H2K_kg_t \<Rightarrow> H2K_kg_t \<times> u32" where
  "pmuctrl_all opr i turnon c 0 s = (s, 0)"
| "pmuctrl_all opr i turnon c (Suc n) s =
     (let (s1, r) = H2K_trap_pmuctrl opr (id_raw (i\<lparr>cpuidx := of_nat c\<rparr>)) turnon 0 s;
          (s2, k) = pmuctrl_all opr i turnon (Suc c) n s1
      in (s2, if r = 0 then k + 1 else k))"

definition H2K_vmtrap_pmuctrl :: trap where
  "H2K_vmtrap_pmuctrl me s =
     (let c = thr s me; vb = vmblock c
      in if r00 c = 0 \<and> r01 c = 0 then
           (let (s1, k) = pmuctrl_all (r00 c) ((id_of_raw (r01 c))\<lparr>vmidx := ucast (vm_vmidx (vmb s vb))\<rparr>) (r02 c) 0 (unat (max_cpus (vmb s vb))) s
            in finish (set_r00 me k s1))
         else (let (s1, r) = H2K_trap_pmuctrl (r00 c) (r01 c) (r02 c) (r03 c) s in finish (set_r00 me r s1)))"

section \<open>Events and guest registers\<close>

definition H2K_vmtrap_version :: trap where
  "H2K_vmtrap_version me s = finish (set_r00 me 0x800 s)"

text \<open>The registers of the caller after the return from an event.\<close>

definition return_regs :: "H2K_thread_context \<Rightarrow> H2K_thread_context" where
  "return_regs c =
     (let c1 = (if bit (gssr c) GSSR_UM_BIT
                then c\<lparr>r29 := gosp c, gosp := r29 c, ssr := unset_bit SSR_GUEST_BIT (ssr c)\<rparr> else c);
          c2 = c1\<lparr>elr := gelr c1\<rparr>
      in c2\<lparr>ssr := assign_bit SSR_SS_BIT (bit (gssr c2) GSSR_SS_BIT) (ssr c2)\<rparr>)"

definition H2K_vmtrap_return :: trap where
  "H2K_vmtrap_return me s =
     (let s1 = upd_thr me return_regs (H2K_gregs_save me s);
          s2 = H2K_set_elr (elr (thr s1 me)) s1;
          ints_enabled = bit (gssr (thr s2 me)) GSSR_IE_BIT;
          s3 = H2K_gregs_restore me s2
      in if ints_enabled
         then do { (s4, r) \<leftarrow> H2K_enable_guest_interrupts me s3; Some (s4, case r of Ret _ \<Rightarrow> Ret () | Switch a b \<Rightarrow> Switch a b) }
         else finish s3)"

definition H2K_vmtrap_setvec :: trap where
  "H2K_vmtrap_setvec me s = finish (upd_thr me (\<lambda>c. c\<lparr>gevb := r00 c, r00 := 0\<rparr>) s)"

definition H2K_vmtrap_setie :: trap where
  "H2K_vmtrap_setie me s =
     (if bit (r00 (thr s me)) 0 then then_set_r00 me (H2K_enable_guest_interrupts me s)
      else (let (s1, prv) = H2K_disable_guest_interrupts me s in finish (set_r00 me prv s1)))"

definition H2K_vmtrap_getie :: trap where
  "H2K_vmtrap_getie me s = finish (set_r00 me (of_bool (vm_ie (thr s me))) s)"

definition H2K_vmtrap_get_pcycles :: trap where
  "H2K_vmtrap_get_pcycles me s =
     (let t = H2K_cputime_get me s; p = H2K_pcycles_get s
      in finish (upd_thr me (\<lambda>c. c\<lparr>r00 := pair_lo t, r01 := pair_hi t, r02 := pair_lo p, r03 := pair_hi p\<rparr>) s))"

definition H2K_vmtrap_set_pcycles :: trap where
  "H2K_vmtrap_set_pcycles me s =
     (let s1 = upd_thr me (\<lambda>c. c\<lparr>totalcycles := pair (r00 c) (r01 c)\<rparr>) s
      in finish (s1\<lparr>oncpu_start := (oncpu_start s1)(unat (htid s1) := pcycle_reg s1)\<rparr>))"

definition H2K_vmtrap_setregs :: trap where
  "H2K_vmtrap_setregs me s =
     finish (H2K_gregs_restore me (upd_thr me (\<lambda>c. c\<lparr>gelr := r00 c, gssr := r01 c, gosp := r02 c, gbadva := r03 c\<rparr>) s))"

definition H2K_vmtrap_getregs :: trap where
  "H2K_vmtrap_getregs me s =
     finish (upd_thr me (\<lambda>c. c\<lparr>r00 := gelr c, r01 := gssr c, r02 := gosp c, r03 := gbadva c\<rparr>) (H2K_gregs_save me s))"

section \<open>Waiting, yielding, starting and stopping\<close>

text \<open>The mark of a waiting CPU is a 32-bit signed shift, converted to 64 bits.\<close>

definition waiting_mark :: "H2K_id_t \<Rightarrow> u64" where
  "waiting_mark i = scast (push_bit (unat (cpuidx i)) 1 :: u32)"

definition vmwait_block :: trap where
  "vmwait_block me s =
     (let s1 = upd_thr me (status_update (\<lambda>_. H2K_STATUS_VMWAIT)) s;
          i = id (thr s1 me);
          s2 = (if unat (cpuidx i) < 64
                then upd_vmb (vmblock (thr s1 me)) (\<lambda>v. v\<lparr>waiting_cpus := waiting_cpus v OR waiting_mark i\<rparr>) s1 else s1);
          s3 = H2K_runlist_remove me s2
      in do { (s4, new) \<leftarrow> H2K_dosched me (ucast (hthread (thr s3 me))) s3; Some (s4, Switch me new) })"

definition H2K_vmtrap_wait :: trap where
  "H2K_vmtrap_wait me s =
     do {
       (s1, r) \<leftarrow> H2K_vm_do_work_withlock me (BKL_LOCK s);
       case r of
         Switch a b \<Rightarrow> Some (s1, Switch a b)
       | Ret intno \<Rightarrow>
           if intno = -1 then vmwait_block me s1
           else finish (BKL_UNLOCK (set_r00 me (word_of_int intno) s1))
     }"

definition H2K_vmtrap_yield :: trap where
  "H2K_vmtrap_yield me s =
     do { (s1, r) \<leftarrow> H2K_sched_yield me s; Some (case r of Ret _ \<Rightarrow> (set_r00 me 0 s1, Ret ()) | Switch a b \<Rightarrow> (s1, Switch a b)) }"

definition H2K_vmtrap_start :: trap where
  "H2K_vmtrap_start me s =
     (let c = thr s me; (s1, r) = H2K_thread_create_no_squash (r00 c) (r01 c) 0 (ucast (base_prio c)) (vmblock c) me s
      in finish (set_r00 me r s1))"

definition H2K_vmtrap_stop :: trap where
  "H2K_vmtrap_stop me s = do { (s1, new) \<leftarrow> H2K_thread_stop (r00 (thr s me)) me s; Some (s1, Switch NULL new) }"

definition H2K_vmtrap_vmpid :: trap where
  "H2K_vmtrap_vmpid me s = finish (set_r00 me (id_raw (H2K_id_from_context s me)) s)"

section \<open>Maps\<close>

definition H2K_vmtrap_clrmap :: "tlbmatch \<Rightarrow> trap" where
  "H2K_vmtrap_clrmap tm me s =
     (let va = r00 (thr s me); cnt = r01 (thr s me); s1 = set_r00 me 0 s; asid = ssr_asid (thr s1 me)
      in if cnt = 0 then finish s1
         else do { s2 \<leftarrow> H2K_mem_stlb_invalidate_va tm va cnt asid s1; finish (H2K_mem_tlb_invalidate_va va cnt asid s2) })"

definition H2K_vmtrap_newmap :: trap where
  "H2K_vmtrap_newmap me s =
     (let c = thr s me
      in if r01 c \<ge> 4 then finish (set_r00 me (-1) s)
         else
           let (s1, newasid) = H2K_asid_table_inc (r00 c) (r01 c) (r02 c \<noteq> 0) (r03 c) (vmblock c) s
           in if newasid = -1 then finish (set_r00 me (-1) s1)
              else
                let s2 = H2K_asid_table_dec (ssr_asid (thr s1 me)) s1
                in finish (upd_thr me (\<lambda>c. c\<lparr>ssr := set_ssr_asid (word_of_int newasid) (ssr c), r00 := 0\<rparr>) s2))"

section \<open>Operations on interrupt controllers\<close>

definition H2K_vmint_fixup_getpeek :: "ptr \<Rightarrow> u32 \<Rightarrow> ptr \<times> u32" where
  "H2K_vmint_fixup_getpeek me arg = (me, 0)"

text \<open>Who may post to whom: VM 0, the parent, a child, or the VM itself.\<close>

definition post_allowed :: "ptr \<Rightarrow> H2K_id_t \<Rightarrow> H2K_kg_t \<Rightarrow> bool" where
  "post_allowed me i s \<longleftrightarrow>
     (let vb = vmblocks s (unat (vmidx i))
      in vb \<noteq> NULL \<and>
         (me = NULL \<or> vmidx (id (thr s me)) = 0 \<or> vmidx (id (thr s me)) = vmidx (parent (vmb s vb)) \<or>
          vmidx (parent (vmb s (vmblock (thr s me)))) = vmidx i \<or> vmidx (id (thr s me)) = vmidx i))"

definition H2K_vmint_fixup_post :: "ptr \<Rightarrow> H2K_kg_t \<Rightarrow> ptr" where
  "H2K_vmint_fixup_post me s =
     (if r02 (thr s me) \<noteq> 0 then
        (let i = id_of_raw (r02 (thr s me)) in if post_allowed me i s then H2K_id_to_context s i else NULL)
      else H2K_id_to_context s (id (thr s me)))"

definition H2K_vmint_fixup_aff :: "ptr \<Rightarrow> H2K_kg_t \<Rightarrow> ptr" where
  "H2K_vmint_fixup_aff me s = H2K_id_cpuidx_to_context s (vmblock (thr s me)) (r02 (thr s me))"

definition H2K_vmint_fixup_default :: "ptr \<Rightarrow> ptr" where
  "H2K_vmint_fixup_default me = me"

fun H2K_intops_fixups :: "intop_type \<Rightarrow> ptr \<Rightarrow> u32 \<Rightarrow> H2K_kg_t \<Rightarrow> ptr \<times> u32" where
  "H2K_intops_fixups H2K_INTOP_AFFINITY me arg s = (H2K_vmint_fixup_aff me s, arg)"
| "H2K_intops_fixups H2K_INTOP_GET me arg s = H2K_vmint_fixup_getpeek me arg"
| "H2K_intops_fixups H2K_INTOP_PEEK me arg s = H2K_vmint_fixup_getpeek me arg"
| "H2K_intops_fixups H2K_INTOP_POST me arg s = (H2K_vmint_fixup_post me s, arg)"
| "H2K_intops_fixups _ me arg s = (H2K_vmint_fixup_default me, arg)"

definition intop_table :: "intop_type list" where
  "intop_table = [H2K_INTOP_NOP, H2K_INTOP_GLOBEN, H2K_INTOP_GLOBDIS, H2K_INTOP_LOCEN, H2K_INTOP_LOCDIS, H2K_INTOP_AFFINITY,
     H2K_INTOP_GET, H2K_INTOP_PEEK, H2K_INTOP_STATUS, H2K_INTOP_POST, H2K_INTOP_CLEAR]"

definition H2K_vmtrap_intop :: trap where
  "H2K_vmtrap_intop me s =
     (let opr = r00 (thr s me); s1 = set_r00 me (-1) s; arg = r01 (thr s1 me)
      in if unat opr \<ge> length intop_table then finish s1
         else
           let k = intop_table ! unat opr; (dst, arg') = H2K_intops_fixups k me arg s1
           in if dst = NULL then finish s1
              else
                let vb = vmblock (thr s1 dst)
                in do { (s2, r) \<leftarrow> int_call k (intinfo (vmb s1 vb)) vb dst arg' s1; finish (set_r00 me (word_of_int r) s2) })"

section \<open>Physical interrupts passed through\<close>

definition H2K_passthru :: "u32 \<Rightarrow> H2K_kg_t \<Rightarrow> H2K_kg_t option" where
  "H2K_passthru phys_int s =
     (let i = id_of_raw (of_nat (int_param s (unat phys_int)));
          dst = H2K_id_to_context s i
      in if dst = NULL then Some s
         else
           let vb = vmblock (thr s dst)
           in map_option fst (int_call H2K_INTOP_POST (intinfo (vmb s vb)) vb dst (ucast (reserved i)) s))"

section \<open>Waiting\<close>

lemma vmwait_spec:
  assumes inv: "kinv s rq fq" and me: "status (thr s me) = H2K_STATUS_RUNNING" and cov: "clusters_cover s"
    and ht: "htid s = ucast (hthread (thr s me))" and nw: "\<not> bit (vmstatus (thr s me)) VMWORK" "\<not> bit (vmstatus (thr s me)) KILL"
  shows "\<exists>s' new. H2K_vmtrap_wait me s = Some (s', Switch me new) \<and> status (thr s' me) = H2K_STATUS_VMWAIT \<and> bkl s' \<and> next_runs me new s s' rq fq"
proof -
  define s1 where "s1 = upd_thr me (status_update (\<lambda>_. H2K_STATUS_VMWAIT)) (BKL_LOCK s)"
  define s2 where "s2 = (if unat (cpuidx (id (thr s1 me))) < 64
    then upd_vmb (vmblock (thr s1 me)) (\<lambda>v. v\<lparr>waiting_cpus := waiting_cpus v OR waiting_mark (id (thr s1 me))\<rparr>) s1 else s1)"
  define s3 where "s3 = H2K_runlist_remove me s2"
  have t1: "thr s1 = (thr s)(me := (thr s me)\<lparr>status := H2K_STATUS_VMWAIT\<rparr>)" by (simp add: s1_def upd_thr_def BKL_LOCK_def)
  have t3: "thr s3 = (thr s)(me := (thr s me)\<lparr>status := H2K_STATUS_VMWAIT\<rparr>)"
    by (simp add: s3_def s2_def t1 H2K_runlist_remove_def upd_vmb_def Let_def)
  note E = s3_def s2_def s1_def H2K_runlist_remove_def upd_thr_def upd_vmb_def BKL_LOCK_def Let_def
  have f3: "ready s3 = ready s" "ready_valids s3 = ready_valids s" "hthreads s3 = hthreads s"
    "wait_mask s3 = wait_mask s" "priomask s3 = priomask s" "imask s3 = imask s" "htid s3 = htid s" "futexhash s3 = futexhash s"
    "runlist s3 = (runlist s)(unat (hthread (thr s me)) := NULL)" "runlist_prios s3 = (runlist_prios s)(unat (hthread (thr s me)) := -1)"
    "cluster_sched s3 = cluster_sched s" "bkl s3"
    by (simp_all add: E)
  have cov3: "clusters_cover s3" using cov clusters_cover_cong [of s3 s] by (simp add: E)
  have notrq: "me \<notin> rq_threads rq"
    using ready_repD(4) [OF sched_invD(1)] inv me by (fastforce simp: rq_threads_def kinv_def)
  have "\<exists>s4 new. H2K_dosched me (htid s) s3 = Some (s4, new) \<and> bkl s4 = bkl s3 \<and> (\<forall>u. u \<notin> rq_threads rq \<longrightarrow> thr s4 u = thr s3 u) \<and>
    next_runs me new s3 s4 rq fq"
    by (rule giveup_kinv [OF inv me cov3 ht]) (use me in \<open>simp_all add: f3 t3, auto simp: tview_def\<close>)
  then obtain s4 new where d: "H2K_dosched me (htid s) s3 = Some (s4, new)" "bkl s4 = bkl s3" "\<forall>u. u \<notin> rq_threads rq \<longrightarrow> thr s4 u = thr s3 u"
    "next_runs me new s s4 rq fq" unfolding next_runs_cong [OF f3(11,4)] by (elim exE conjE)
  have w: "H2K_vm_do_work_withlock me (BKL_LOCK s) = Some (BKL_LOCK s, Ret (-1))"
    using nw by (simp add: H2K_vm_do_work_withlock_def BKL_LOCK_def)
  have h3: "ucast (hthread (thr s3 me)) = htid s" using ht by (simp add: t3)
  have "vmwait_block me (BKL_LOCK s) = Some (s4, Switch me new)"
    unfolding vmwait_block_def Let_def s1_def [symmetric] unfolding s2_def [symmetric] unfolding s3_def [symmetric]
    using d(1) h3 by simp
  then have "H2K_vmtrap_wait me s = Some (s4, Switch me new)" unfolding H2K_vmtrap_wait_def w by simp
  moreover have "thr s4 me = thr s3 me" using d(3) notrq by blast
  ultimately show ?thesis using d(2,4) by (auto simp: t3 f3)
qed

text \<open>
  C23: a guest that waits for an interrupt when none is pending gives up its hardware thread: it
  is marked as waiting, the best ready thread runs in its place (or the hardware thread sleeps
  when there is none to run), and the kernel invariant holds again.
\<close>

theorem vmwait_correct:
  assumes inv: "kinv s rq fq" and me: "status (thr s me) = H2K_STATUS_RUNNING" and cov: "clusters_cover s"
    and ht: "htid s = ucast (hthread (thr s me))" and nw: "\<not> bit (vmstatus (thr s me)) VMWORK" "\<not> bit (vmstatus (thr s me)) KILL"
  shows "\<exists>s' new. H2K_vmtrap_wait me s = Some (s', Switch me new) \<and> status (thr s' me) = H2K_STATUS_VMWAIT \<and> bkl s' \<and> next_runs me new s s' rq fq"
  by (rule vmwait_spec [OF inv me cov ht nw])

theorem vmwait_correct_witness:
  "\<exists>s' new. H2K_vmtrap_wait 20 (popup_example 0) = Some (s', Switch 20 new) \<and> status (thr s' 20) = H2K_STATUS_VMWAIT"
  using vmwait_correct [OF popup_example_inv popup_example_thr(1,7), of 0] by (auto simp: popup_example_thr)

text \<open>
  The mark of a waiting CPU is wrong from CPU 31 on: CPU 31 marks every CPU from 31 to 63
  as waiting, and a CPU from 32 to 63 leaves no mark.
\<close>

theorem waiting_mark_wrong:
  "bit (waiting_mark \<lparr>reserved = r, cpuidx = c, vmidx = v\<rparr>) i \<longleftrightarrow>
     (if unat c < 31 then i = unat c else if unat c = 31 then 31 \<le> i \<and> i < 64 else False)"
  unfolding waiting_mark_def by (auto simp: bit_simps)

section \<open>Events and their return\<close>

lemma assign_bit_bits [simp]: "n < LENGTH('a) \<Longrightarrow> bit (assign_bit n b w) i = (if i = n then b else bit (w :: 'a::len word) i)"
  by (auto simp: assign_bit_def)

lemma event_regs_fields:
  fixes c :: H2K_thread_context and e bv cause off :: u32
  defines "c' \<equiv> event_regs e bv cause off c"
  shows "elr c' = gevb c + off" "gelr c' = e" "gbadva c' = bv" "ssr_guest c'" "\<not> ssr_ss c'" "vmstatus c' = vmstatus c"
    "bit (gssr c') GSSR_IE_BIT = vm_ie c" "bit (gssr c') GSSR_SS_BIT = ssr_ss c"
    "\<not> bit cause 31 \<Longrightarrow> bit (gssr c') GSSR_UM_BIT = (\<not> ssr_guest c)"
    "ssr_guest c \<Longrightarrow> r29 c' = r29 c \<and> gosp c' = gosp c" "\<not> ssr_guest c \<Longrightarrow> r29 c' = gosp c \<and> gosp c' = r29 c"
    "k \<noteq> SSR_GUEST_BIT \<Longrightarrow> k \<noteq> SSR_SS_BIT \<Longrightarrow> bit (ssr c') k = bit (ssr c) k"
  unfolding c'_def event_regs_def Let_def
  by (auto simp: SSR_GUEST_BIT_def SSR_SS_BIT_def GSSR_UM_BIT_def GSSR_IE_BIT_def GSSR_SS_BIT_def)

lemma return_regs_event:
  assumes "\<not> bit cause 31" "c' = event_regs e bv cause off c"
    and keep: "gosp d = gosp c'" "gelr d = gelr c'" "gssr d = gssr c'" "r29 d = r29 c'" "ssr d = ssr c'"
  shows "elr (return_regs d) = e" "r29 (return_regs d) = r29 c" "gosp (return_regs d) = gosp c" "ssr (return_regs d) = ssr c"
    "gssr (return_regs d) = gssr c'"
proof -
  note E = event_regs_fields [where e = e and bv = bv and cause = cause and off = off and c = c, folded assms(2)]
  note F = E(9) [OF assms(1)]
  have "elr (return_regs d) = gelr d" "gssr (return_regs d) = gssr d" by (simp_all add: return_regs_def Let_def)
  then show "elr (return_regs d) = e" "gssr (return_regs d) = gssr c'" using keep E(2) by auto
  show "r29 (return_regs d) = r29 c" "gosp (return_regs d) = gosp c"
    using keep F E(10,11) by (cases "ssr_guest c"; simp add: return_regs_def Let_def)+
  show "ssr (return_regs d) = ssr c"
  proof (rule bit_word_eqI)
    fix k
    have "ssr (return_regs d) = assign_bit SSR_SS_BIT (ssr_ss c) (if ssr_guest c then ssr c' else unset_bit SSR_GUEST_BIT (ssr c'))"
      using keep F E(8) by (simp add: return_regs_def Let_def)
    then show "bit (ssr (return_regs d)) k = bit (ssr c) k"
      using E(4) E(12) [of k] by (cases "k = 19") (auto simp: SSR_SS_BIT_def SSR_GUEST_BIT_def)
  qed
qed

text \<open>
  C32: an event and the return from it. A guest with an event vector enters its handler in guest
  mode with interrupts off, the interrupted address, bad address and cause in its guest
  registers. The return restores the program counter, both stack pointers and the status
  register as they were, and turns interrupts on again exactly if they were on (which may
  deliver the next one).
\<close>

theorem event_return_roundtrip:
  assumes "gevb (thr s me) \<noteq> 0" "\<not> bit cause 31"
  shows "\<exists>s1 s2. H2K_vm_event bv cause off me s = Some (s1, Ret ()) \<and>
    H2K_get_elr s1 = gevb (thr s me) + off \<and> ssr_guest (thr s1 me) \<and> \<not> vm_ie (thr s1 me) \<and> gbadva (thr s1 me) = bv \<and>
    H2K_vmtrap_return me s1 =
      (if vm_ie (thr s me)
       then do { (s3, r) \<leftarrow> H2K_enable_guest_interrupts me s2; Some (s3, case r of Ret _ \<Rightarrow> Ret () | Switch a b \<Rightarrow> Switch a b) }
       else Some (s2, Ret ())) \<and>
    H2K_get_elr s2 = H2K_get_elr s \<and> ssr (thr s2 me) = ssr (thr s me) \<and> r29 (thr s2 me) = r29 (thr s me) \<and>
    pair_lo (hw_g32 s2 (unat (htid s2))) = pair_lo (hw_g32 s (unat (htid s))) \<and> \<not> vm_ie (thr s2 me)"
proof -
  define s0 where "s0 = H2K_gregs_save me s"
  define c where "c = thr s0 me"
  define c' where "c' = event_regs (H2K_get_elr s0) bv cause off c"
  have c: "gosp c = pair_lo (hw_g32 s (unat (htid s)))" "ssr c = ssr (thr s me)" "r29 c = r29 (thr s me)" "vmstatus c = vmstatus (thr s me)"
    "gevb c = gevb (thr s me)" "H2K_get_elr s0 = H2K_get_elr s"
    by (simp_all add: c_def s0_def H2K_gregs_save_def Let_def H2K_get_elr_def upd_thr_def)
  note E = event_regs_fields [where e = "H2K_get_elr s0" and bv = bv and cause = cause and off = off and c = c, folded c'_def]
  define s1 where "s1 = fst (H2K_disable_guest_interrupts me (H2K_gregs_restore me (H2K_set_elr (elr c') (upd_thr me (\<lambda>_. c') s0))))"
  have u: "upd_thr me (event_regs (H2K_get_elr s0) bv cause off) s0 = upd_thr me (\<lambda>_. c') s0"
    by (simp add: upd_thr_def c'_def c_def)
  have ev: "H2K_vm_event bv cause off me s = Some (s1, Ret ())"
    using assms(1) c(5) unfolding H2K_vm_event_def Let_def s0_def [symmetric] u s1_def c_def by (simp add: upd_thr_def)
  have t1: "thr s1 me = c'\<lparr>vmstatus := unset_bit IE (vmstatus c')\<rparr>"
    by (simp add: s1_def H2K_disable_guest_interrupts_def clr_vmstatus_def upd_thr_def H2K_gregs_restore_def H2K_set_elr_def H2K_atomic_clrbit_def)
  have g1: "hw_g32 s1 (unat (htid s1)) = pair (gosp c') (gbadva c')" "hw_g10 s1 (unat (htid s1)) = pair (gelr c') (gssr c')" "H2K_get_elr s1 = elr c'"
    by (simp_all add: s1_def H2K_disable_guest_interrupts_def clr_vmstatus_def upd_thr_def H2K_gregs_restore_def H2K_set_elr_def H2K_get_elr_def)
  define d where "d = (thr s1 me)\<lparr>gosp := gosp c', gbadva := gbadva c', gelr := gelr c', gssr := gssr c'\<rparr>"
  have sv: "H2K_gregs_save me s1 = upd_thr me (\<lambda>_. d) s1"
    using g1 by (simp add: H2K_gregs_save_def Let_def upd_thr_def d_def)
  note R = return_regs_event [OF assms(2) c'_def, of d]
  have dd: "gosp d = gosp c'" "gelr d = gelr c'" "gssr d = gssr c'" "r29 d = r29 c'" "ssr d = ssr c'" by (simp_all add: d_def t1)
  note R = R [OF dd]
  define s2 where "s2 = H2K_gregs_restore me (H2K_set_elr (elr (return_regs d)) (upd_thr me return_regs (upd_thr me (\<lambda>_. d) s1)))"
  have t2: "thr s2 me = return_regs d" by (simp add: s2_def H2K_gregs_restore_def H2K_set_elr_def upd_thr_def)
  have v2: "vmstatus (return_regs d) = unset_bit IE (vmstatus c)" using E(6) by (simp add: return_regs_def Let_def d_def t1)
  have "H2K_vmtrap_return me s1 =
      (if bit (gssr (return_regs d)) GSSR_IE_BIT
       then do { (s3, r) \<leftarrow> H2K_enable_guest_interrupts me s2; Some (s3, case r of Ret _ \<Rightarrow> Ret () | Switch a b \<Rightarrow> Switch a b) }
       else Some (s2, Ret ()))"
    unfolding H2K_vmtrap_return_def Let_def sv s2_def by (simp add: upd_thr_def H2K_set_elr_def finish_def)
  moreover have "H2K_get_elr s2 = H2K_get_elr s"
    using R(1) c(6) by (simp add: s2_def H2K_gregs_restore_def H2K_set_elr_def H2K_get_elr_def upd_thr_def)
  moreover have "pair_lo (hw_g32 s2 (unat (htid s2))) = gosp (return_regs d)"
    by (simp add: s2_def H2K_gregs_restore_def H2K_set_elr_def upd_thr_def)
  ultimately show ?thesis using ev R E c t1 t2 v2 g1(3) by (intro exI [of _ s1] exI [of _ s2]) simp
qed

theorem event_return_roundtrip_witness:
  "\<exists>s1 s2. H2K_vm_event 0x1000 0x22 8 20 (tlb_example\<lparr>thr := \<lambda>_. thread0\<lparr>gevb := 0x4000\<rparr>\<rparr>) = Some (s1, Ret ()) \<and>
     H2K_get_elr s1 = 0x4008 \<and> H2K_vmtrap_return 20 s1 = Some (s2, Ret ()) \<and> H2K_get_elr s2 = 0"
proof -
  have "\<not> bit (0x22 :: u32) 31" by simp
  from event_return_roundtrip [OF _ this, where s = "tlb_example\<lparr>thr := \<lambda>_. thread0\<lparr>gevb := 0x4000\<rparr>\<rparr>" and me = "20" and bv = "0x1000" and off = "8"] show ?thesis
    by (auto simp: thread0_def H2K_get_elr_def tlb_example_def tr_example_def kg0_def)
qed

section \<open>The policy between VMs\<close>

text \<open>
  C33: interrupts cross VMs only between relatives. A post names its target by an identifier; if
  the VM of the caller is not VM 0, the parent or a child of the target, or the target itself,
  the operation fails with \<open>-1\<close> and changes nothing but the result register; otherwise it
  is the post of the target's own controllers to the target.
\<close>

theorem intop_post_policy:
  assumes "r00 (thr s me) = 9" "r02 (thr s me) \<noteq> 0" "me \<noteq> NULL"
  defines "i \<equiv> id_of_raw (r02 (thr s me))" and "own \<equiv> vmidx (id (thr s me))"
  defines "vb \<equiv> vmblocks s (unat (vmidx i))"
  shows "if vb = NULL \<or> own \<noteq> 0 \<and> own \<noteq> vmidx (parent (vmb s vb)) \<and> vmidx (parent (vmb s (vmblock (thr s me)))) \<noteq> vmidx i \<and> own \<noteq> vmidx i
    then H2K_vmtrap_intop me s = Some (set_r00 me (-1) s, Ret ())
    else \<forall>dst. dst = H2K_id_to_context s i \<and> dst \<noteq> NULL \<longrightarrow>
      H2K_vmtrap_intop me s =
        do { (s2, r) \<leftarrow> int_call H2K_INTOP_POST (intinfo (vmb s (vmblock (thr s dst)))) (vmblock (thr s dst)) dst (r01 (thr s me)) (set_r00 me (-1) s);
             Some (set_r00 me (word_of_int r) s2, Ret ()) }"
proof -
  let ?s1 = "set_r00 me (-1) s"
  have o: "unat (r00 (thr s me)) = 9" using assms(1) by simp
  have k: "intop_table ! 9 = H2K_INTOP_POST" "length intop_table = 11" by (simp_all add: intop_table_def)
  have f: "vmb ?s1 = vmb s" "vmblocks ?s1 = vmblocks s" "r02 (thr ?s1 me) = r02 (thr s me)" "r01 (thr ?s1 me) = r01 (thr s me)"
    "id (thr ?s1 me) = id (thr s me)" "vmblock (thr ?s1 t) = vmblock (thr s t)" "H2K_id_to_context ?s1 x = H2K_id_to_context s x" for t x
    by (simp_all add: set_r00_def upd_thr_def H2K_id_to_context_def H2K_id_cpuidx_to_context_def)
  have "post_allowed me i ?s1 \<longleftrightarrow> \<not> (vb = NULL \<or> own \<noteq> 0 \<and> own \<noteq> vmidx (parent (vmb s vb)) \<and> vmidx (parent (vmb s (vmblock (thr s me)))) \<noteq> vmidx i \<and> own \<noteq> vmidx i)"
    using assms(3) by (auto simp: post_allowed_def Let_def f vb_def own_def)
  moreover have "H2K_vmint_fixup_post me ?s1 = (if post_allowed me i ?s1 then H2K_id_to_context s i else NULL)"
    using assms(2) by (simp add: H2K_vmint_fixup_post_def f i_def Let_def)
  ultimately show ?thesis
    by (auto simp: H2K_vmtrap_intop_def Let_def o k f finish_def)
qed

text \<open>Three VMs: the thread 500 of VM 3 and the block of VM 2 have VM 1 as parent.\<close>

definition policy_example :: "u32 \<Rightarrow> H2K_kg_t" where
  "policy_example target = kg0\<lparr>vmblocks := (\<lambda>v. if v \<in> {1, 2, 3} then 100 * v else NULL),
     vmb := (\<lambda>b. vmblock0\<lparr>parent := \<lparr>reserved = 0, cpuidx = 0, vmidx = (if b = 100 then 0 else 1)\<rparr>, max_cpus := 1, contexts := b + 10\<rparr>),
     thr := (\<lambda>t. thread0\<lparr>id := \<lparr>reserved = 0, cpuidx = 0, vmidx = 3\<rparr>, vmblock := 300, r00 := 9, r02 := target\<rparr>)\<rparr>"

theorem intop_post_policy_witness:
  "H2K_vmtrap_intop 500 (policy_example 0x8000000) = Some (set_r00 500 (-1) (policy_example 0x8000000), Ret ())"
proof -
  have v: "vmidx (id_of_raw 0x8000000) = 2" by code_simp
  have f: "r00 (thr (policy_example x) 500) = 9" "r02 (thr (policy_example x) 500) = x" "vmidx (id (thr (policy_example x) 500)) = 3"
    "vmblock (thr (policy_example x) 500) = 300" "vmblocks (policy_example x) 2 = 200" "vmidx (parent (vmb (policy_example x) 200)) = 1"
    "vmidx (parent (vmb (policy_example x) 300)) = 1" for x
    by (simp_all add: policy_example_def)
  show ?thesis using intop_post_policy [of "policy_example 0x8000000" 500] unfolding f v by (simp add: f)
qed

end
