(* ===== verification/Vmop.thy ===== *)
theory Vmop
  imports Vmtrap
begin

text \<open>
  Operations on VMs (\<^verbatim>\<open>kernel/vm/vmop\<close>): booting a child VM, its status, freeing its block, and
  killing a thread or all threads of a VM. A thread is killed by a mark it finds when it next
  enters the kernel; a waiting or blocked thread is made ready for that.
\<close>

section \<open>Boot, status and free\<close>

text \<open>Only the parent may boot or free a VM, and only one that does not run.\<close>

definition child_at_rest :: "ptr \<Rightarrow> u32 \<Rightarrow> H2K_kg_t \<Rightarrow> bool" where
  "child_at_rest me vm s \<longleftrightarrow> unat vm < 64 \<and> vmblocks s (unat vm) \<noteq> NULL \<and>
     (let vb = vmb s (vmblocks s (unat vm))
      in \<not> (me \<noteq> NULL \<and> vmidx (id (thr s me)) \<noteq> vmidx (parent vb)) \<and> \<not> num_cpus vb > 0)"

definition H2K_vmop_boot :: "u32 \<Rightarrow> u32 \<Rightarrow> u32 \<Rightarrow> u32 \<Rightarrow> u32 \<Rightarrow> ptr \<Rightarrow> H2K_kg_t \<Rightarrow> H2K_kg_t \<times> u32" where
  "H2K_vmop_boot pc sp arg1 p vm me s =
     (if \<not> child_at_rest me vm s then (s, -1)
      else H2K_thread_create_no_squash pc sp arg1 p (vmblocks s (unat vm)) me s)"

text \<open>Only the VM itself and its parent may ask or kill.\<close>

definition self_or_parent :: "ptr \<Rightarrow> ptr \<Rightarrow> H2K_kg_t \<Rightarrow> bool" where
  "self_or_parent me vb s \<longleftrightarrow>
     ucast (vmidx (id (thr s me))) = vm_vmidx (vmb s vb) \<or> vmidx (id (thr s me)) = vmidx (parent (vmb s vb))"

definition H2K_vmop_status :: "u32 \<Rightarrow> u32 \<Rightarrow> ptr \<Rightarrow> H2K_kg_t \<Rightarrow> H2K_kg_t \<times> u32" where
  "H2K_vmop_status opr vm me s =
     (if me = NULL then (s, -1)
      else if unat vm \<ge> 64 then (s, -1)
      else if vm \<noteq> 0 \<and> vmblocks s (unat vm) = NULL then (s, -1)
      else
        let vb = (if vm = 0 then vmblock (thr s me) else vmblocks s (unat vm))
        in if \<not> self_or_parent me vb s then (s, -1)
           else
             let s1 = BKL_LOCK s;
                 r = (if opr = 0 then vm_status (vmb s1 vb) else if opr = 1 then num_cpus (vmb s1 vb) else -1)
             in (BKL_UNLOCK s1, r))"

definition H2K_vmop_free :: "u32 \<Rightarrow> ptr \<Rightarrow> H2K_kg_t \<Rightarrow> H2K_kg_t \<times> u32" where
  "H2K_vmop_free vm me s =
     (if \<not> child_at_rest me vm s then (s, -1)
      else
        let s1 = H2K_mem_alloc_free (vmblocks s (unat vm)) s
        in (s1\<lparr>vmblocks := (vmblocks s1)(unat vm := NULL)\<rparr>, 0))"

section \<open>Killing\<close>

definition kill_thread_locked :: "ptr \<Rightarrow> ptr \<Rightarrow> H2K_kg_t \<Rightarrow> H2K_kg_t" where
  "kill_thread_locked vb target s =
     (if status (thr s target) = H2K_STATUS_DEAD then s
      else
        let s1 = upd_thr target (\<lambda>c. c\<lparr>vmstatus := vmstatus c OR (push_bit KILL 1 OR push_bit VMWORK 1)\<rparr>) s
        in case status (thr s1 target) of
             H2K_STATUS_VMWAIT \<Rightarrow>
               let ci = unat (cpuidx (id (thr s1 target)))
               in H2K_ready_append target
                    (if ci < 64 then upd_vmb vb (\<lambda>v. v\<lparr>waiting_cpus := waiting_cpus v AND NOT (push_bit ci 1)\<rparr>) s1 else s1)
           | H2K_STATUS_RUNNING \<Rightarrow> H2K_vm_ipi_send_withlock target s1
           | H2K_STATUS_INTBLOCKED \<Rightarrow> H2K_ready_append target (H2K_popup_cancel target s1)
           | H2K_STATUS_BLOCKED \<Rightarrow> H2K_ready_append target (H2K_futex_cancel target s1)
           | H2K_STATUS_READY \<Rightarrow> s1
           | H2K_STATUS_DEAD \<Rightarrow> s1)"

definition H2K_vmop_kill_thread :: "u32 \<Rightarrow> ptr \<Rightarrow> H2K_kg_t \<Rightarrow> H2K_kg_t \<times> u32" where
  "H2K_vmop_kill_thread i me s =
     (if me = NULL then (s, -1)
      else
        let target_id = id_of_raw i; vb = vmblocks s (unat (vmidx target_id))
        in if vb = NULL then (s, 0)
           else if \<not> self_or_parent me vb s then (s, -1)
           else
             let target = H2K_id_cpuidx_to_context s vb (ucast (cpuidx target_id))
             in if target = NULL then (s, -1)
                else (BKL_UNLOCK (kill_thread_locked vb target (BKL_LOCK s)), 0))"

text \<open>The loop over the contexts of a VM.\<close>

fun kill_contexts :: "ptr \<Rightarrow> nat \<Rightarrow> nat \<Rightarrow> H2K_kg_t \<Rightarrow> H2K_kg_t" where
  "kill_contexts vb i 0 s = s"
| "kill_contexts vb i (Suc n) s =
     kill_contexts vb (Suc i) n (kill_thread_locked vb (contexts (vmb s vb) + i * CONTEXT_SIZE) s)"

definition VMOP_KILL_VM_SELF :: u32 where "VMOP_KILL_VM_SELF = 0"

definition H2K_vmop_kill_vm :: "u32 \<Rightarrow> u32 \<Rightarrow> ptr \<Rightarrow> H2K_kg_t \<Rightarrow> H2K_kg_t \<times> u32" where
  "H2K_vmop_kill_vm vm st me s =
     (if me = NULL then (s, -1)
      else if vm \<noteq> VMOP_KILL_VM_SELF \<and> unat vm \<ge> 64 then (s, -1)
      else if vm \<noteq> VMOP_KILL_VM_SELF \<and> vmblocks s (unat vm) = NULL then (s, 0)
      else
        let vb = (if vm = VMOP_KILL_VM_SELF then vmblock (thr s me) else vmblocks s (unat vm))
        in if \<not> self_or_parent me vb s then (s, -1)
           else
             let s1 = upd_vmb vb (vm_status_update (\<lambda>_. st)) (BKL_LOCK s)
             in (BKL_UNLOCK (kill_contexts vb 0 (unat (max_cpus (vmb s1 vb))) s1), 0))"

definition H2K_vmop :: "u32 \<Rightarrow> u32 \<Rightarrow> u32 \<Rightarrow> u32 \<Rightarrow> u32 \<Rightarrow> u32 \<Rightarrow> ptr \<Rightarrow> H2K_kg_t \<Rightarrow> H2K_kg_t \<times> u32" where
  "H2K_vmop opr val1 val2 val3 val4 val5 me s =
     (if opr \<ge> 5 then (s, -1)
      else if opr = 0 then H2K_vmop_boot val1 val2 val3 val4 val5 me s
      else if opr = 1 then H2K_vmop_status val1 val2 me s
      else if opr = 2 then H2K_vmop_free val1 me s
      else if opr = 3 then H2K_vmop_kill_thread val1 me s
      else H2K_vmop_kill_vm val1 val2 me s)"

section \<open>What a kill leaves behind\<close>

text \<open>The threads a kill makes ready, and the state in which the target carries its mark.\<close>

definition asleep :: "H2K_thread_context \<Rightarrow> bool" where
  "asleep c \<longleftrightarrow> status c \<in> {H2K_STATUS_VMWAIT, H2K_STATUS_INTBLOCKED, H2K_STATUS_BLOCKED}"

definition marked :: "ptr \<Rightarrow> H2K_kg_t \<Rightarrow> H2K_kg_t" where
  "marked t s = upd_thr t (\<lambda>c. c\<lparr>vmstatus := vmstatus c OR (push_bit KILL 1 OR push_bit VMWORK 1)\<rparr>) s"

lemma marked_bits: "bit (vmstatus (thr (marked t s) t)) KILL" "bit (vmstatus (thr (marked t s) t)) VMWORK"
  by (simp_all add: marked_def bit_simps KILL_def VMWORK_def)

lemma marked_keeps:
  "kview (marked t s) = kview s" "status (thr (marked t s) u) = status (thr s u)" "prio (thr (marked t s) u) = prio (thr s u)"
  "futex_ptr (thr (marked t s) u) = futex_ptr (thr s u)" "bkl (marked t s) = bkl s" "u \<noteq> t \<Longrightarrow> thr (marked t s) u = thr s u"
  by (simp add: marked_def kview_thr tview_def, simp_all add: marked_def upd_thr_def)

text \<open>How the status word of the target and the payload of the others come out of the wake-up.\<close>

definition killed :: "ptr \<Rightarrow> H2K_kg_t \<Rightarrow> H2K_kg_t \<Rightarrow> bool" where
  "killed t s s' \<longleftrightarrow> bit (vmstatus (thr s' t)) KILL \<and> bit (vmstatus (thr s' t)) VMWORK \<and>
     status (thr s' t) = (if asleep (thr s t) then H2K_STATUS_READY else status (thr s t)) \<and>
     (\<forall>u. u \<noteq> t \<longrightarrow> ringnode.more (thr s' u) = ringnode.more (thr s u))"

lemma killed_append:
  assumes "asleep (thr s t)" "vmstatus (thr s1 t) = vmstatus (thr (marked t s) t)"
    "\<And>u. u \<noteq> t \<Longrightarrow> ringnode.more (thr s1 u) = ringnode.more (thr s u)"
  shows "killed t s (H2K_ready_append t s1)"
proof -
  have "ringnode.more (thr (H2K_ready_append t s1) u) = ringnode.more (thr s u)" if "u \<noteq> t" for u
    using ready_append_more [of t s1 u] assms(3) [OF that] that by simp
  moreover have "status (thr (H2K_ready_append t s1) t) = H2K_STATUS_READY" "vmstatus (thr (H2K_ready_append t s1) t) = vmstatus (thr s1 t)"
    using more_eqD(2,6) [OF ready_append_more [of t s1 t]] by simp_all
  ultimately show ?thesis using assms(1,2) marked_bits [of t s] by (simp add: killed_def)
qed

lemma futex_cancel_keeps:
  "vmstatus (thr (H2K_futex_cancel t s) u) = vmstatus (thr s u)" "bkl (H2K_futex_cancel t s) = bkl s"
  "u \<noteq> t \<Longrightarrow> ringnode.more (thr (H2K_futex_cancel t s) u) = ringnode.more (thr s u)"
  using more_eqD(6) [OF kring.rem_payload] kring.rem_payload
  by (simp_all add: H2K_futex_cancel_def Let_def split_beta upd_thr_def)

lemma kill_locked_spec:
  fixes vb t :: ptr and s :: H2K_kg_t
  assumes inv: "kinv s rq fq" and t: "t \<noteq> NULL" and live: "status (thr s t) \<noteq> H2K_STATUS_DEAD"
  defines "p \<equiv> unat (prio (thr s t))" and "b \<equiv> futex_bucket (thr s t)"
  defines "s' \<equiv> kill_thread_locked vb t s"
  shows "kinv s' (if asleep (thr s t) then rq(p := rq p @ [t]) else rq) (fq(b := remove1 t (fq b))) \<and> killed t s s'"
proof -
  have fut: "futex_rep s fq" using inv by (simp add: kinv_def)
  have nb: "fq(b := remove1 t (fq b)) = fq" if "status (thr s t) \<noteq> H2K_STATUS_BLOCKED"
    using not_queued [OF fut that, of b] by (simp add: b_def remove1_idem)
  define m where "m = marked t s"
  have k: "kinv m rq fq" by (rule kinv_view [OF inv]) (simp add: m_def marked_keeps)
  note mk = marked_keeps [where t = t and s = s, folded m_def]
  have aw: "killed t s x" if "\<not> asleep (thr s t)" "thr x = thr m" for x
    using that marked_bits [of t s] mk(2,6) by (simp add: killed_def m_def)
  note kl = kill_thread_locked_def [of vb t s, unfolded marked_def [of t s, symmetric], folded m_def] mk(2) live
  show ?thesis
  proof (cases "status (thr s t)")
    case H2K_STATUS_VMWAIT
    define s1 where "s1 = (if unat (cpuidx (id (thr m t))) < 64
      then upd_vmb vb (\<lambda>v. v\<lparr>waiting_cpus := waiting_cpus v AND NOT (push_bit (unat (cpuidx (id (thr m t)))) 1)\<rparr>) m else m)"
    have s1: "thr s1 = thr m" "kview s1 = kview m" by (simp_all add: s1_def upd_vmb_def, simp add: kview_def)
    have "s' = H2K_ready_append t s1" by (simp add: s'_def kl H2K_STATUS_VMWAIT s1_def Let_def)
    moreover have "kinv (H2K_ready_append t s1) (rq(p := rq p @ [t])) fq"
      using kinv_ready [OF kinv_view [OF k s1(2)] _ t] H2K_STATUS_VMWAIT by (simp add: s1 mk p_def)
    moreover have "killed t s (H2K_ready_append t s1)"
      by (rule killed_append) (simp_all add: asleep_def H2K_STATUS_VMWAIT s1 m_def marked_keeps)
    ultimately show ?thesis using nb H2K_STATUS_VMWAIT by (simp add: asleep_def)
  next
    case H2K_STATUS_INTBLOCKED
    define s1 where "s1 = H2K_popup_cancel t m"
    have v: "kview s1 = kview m" by (auto simp: s1_def H2K_popup_cancel_def kview_def tview_def Let_def upd_thr_def fun_eq_iff)
    have s1: "status (thr s1 t) = H2K_STATUS_INTBLOCKED" "prio (thr s1 t) = prio (thr s t)" "vmstatus (thr s1 t) = vmstatus (thr m t)"
      "u \<noteq> t \<Longrightarrow> thr s1 u = thr s u" for u
      using mk H2K_STATUS_INTBLOCKED by (simp_all add: s1_def H2K_popup_cancel_def Let_def upd_thr_def)
    have "s' = H2K_ready_append t s1" by (simp add: s'_def kl H2K_STATUS_INTBLOCKED s1_def Let_def)
    moreover have "kinv (H2K_ready_append t s1) (rq(p := rq p @ [t])) fq"
      using kinv_ready [OF kinv_view [OF k v] _ t] by (simp add: s1 p_def)
    moreover have "killed t s (H2K_ready_append t s1)"
      by (rule killed_append) (simp_all add: asleep_def H2K_STATUS_INTBLOCKED s1 m_def)
    ultimately show ?thesis using nb H2K_STATUS_INTBLOCKED by (simp add: asleep_def)
  next
    case H2K_STATUS_BLOCKED
    have "s' = H2K_ready_append t (H2K_futex_cancel t m)" by (simp add: s'_def kl H2K_STATUS_BLOCKED Let_def)
    moreover have "kinv (H2K_ready_append t (H2K_futex_cancel t m)) (rq(p := rq p @ [t])) (fq(b := remove1 t (fq b)))"
      using kinv_cancel_ready [OF k, of t] H2K_STATUS_BLOCKED by (simp add: mk p_def b_def futex_bucket_def)
    moreover have "killed t s (H2K_ready_append t (H2K_futex_cancel t m))"
      by (rule killed_append) (simp_all add: asleep_def H2K_STATUS_BLOCKED futex_cancel_keeps mk(6), simp add: m_def)
    ultimately show ?thesis using H2K_STATUS_BLOCKED by (simp add: asleep_def)
  next
    case H2K_STATUS_RUNNING
    then have "s' = H2K_vm_ipi_send_withlock t m" by (simp add: s'_def kl Let_def)
    moreover have "kinv (H2K_vm_ipi_send_withlock t m) rq fq" by (rule kinv_view [OF k]) simp
    ultimately show ?thesis using nb H2K_STATUS_RUNNING aw by (simp add: asleep_def)
  next
    case H2K_STATUS_READY
    then have "s' = m" by (simp add: s'_def kl Let_def)
    then show ?thesis using nb H2K_STATUS_READY aw k by (simp add: asleep_def)
  next
    case H2K_STATUS_DEAD
    with live show ?thesis by simp
  qed
qed

section \<open>Properties\<close>

lemma kill_thread_spec:
  fixes i :: u32 and me :: ptr
  assumes "kinv s rq fq"
  defines "vb \<equiv> vmblocks s (unat (vmidx (id_of_raw i)))" and "t \<equiv> H2K_id_to_context s (id_of_raw i)"
  defines "p \<equiv> unat (prio (thr s t))" and "b \<equiv> futex_bucket (thr s t)"
  defines "r \<equiv> H2K_vmop_kill_thread i me s"
  shows "if me = NULL \<or> vb \<noteq> NULL \<and> (\<not> self_or_parent me vb s \<or> t = NULL) then r = (s, -1)
    else if vb = NULL then r = (s, 0)
    else snd r = 0 \<and> \<not> bkl (fst r) \<and>
      (if status (thr s t) = H2K_STATUS_DEAD then fst r = s\<lparr>bkl := False\<rparr>
       else killed t s (fst r) \<and>
         kinv (fst r) (if asleep (thr s t) then rq(p := rq p @ [t]) else rq) (fq(b := remove1 t (fq b))))"
proof -
  have t: "vb \<noteq> NULL \<Longrightarrow> t = H2K_id_cpuidx_to_context s vb (ucast (cpuidx (id_of_raw i)))"
    by (simp add: t_def vb_def H2K_id_to_context_def)
  have k: "kinv (BKL_LOCK s) rq fq" using assms(1) by (rule kinv_locks)
  have e: "thr (BKL_LOCK s) = thr s" by (simp add: BKL_LOCK_def)
  have u: "killed t s (BKL_UNLOCK x) = killed t (BKL_LOCK s) x" for x by (simp add: killed_def BKL_UNLOCK_def BKL_LOCK_def)
  have go: "r = (BKL_UNLOCK (kill_thread_locked vb t (BKL_LOCK s)), 0)" if "me \<noteq> NULL" "vb \<noteq> NULL" "self_or_parent me vb s" "t \<noteq> NULL"
    using that by (simp add: r_def H2K_vmop_kill_thread_def Let_def vb_def [symmetric] t [symmetric])
  have dead: "BKL_UNLOCK (kill_thread_locked vb t (BKL_LOCK s)) = s\<lparr>bkl := False\<rparr>" if "status (thr s t) = H2K_STATUS_DEAD"
    using that by (simp add: kill_thread_locked_def BKL_LOCK_def BKL_UNLOCK_def)
  show ?thesis
  proof (cases "me = NULL \<or> vb = NULL \<or> \<not> self_or_parent me vb s \<or> t = NULL")
    case True
    then show ?thesis using t by (auto simp: r_def H2K_vmop_kill_thread_def Let_def vb_def [symmetric])
  next
    case False
    then have r: "r = (BKL_UNLOCK (kill_thread_locked vb t (BKL_LOCK s)), 0)" and "t \<noteq> NULL" using go by blast+
    note c = kill_locked_spec [OF k \<open>t \<noteq> NULL\<close>, where vb = vb, unfolded e, folded p_def b_def]
    have "\<not> bkl (fst r)" by (simp add: r BKL_UNLOCK_def)
    moreover have "status (thr s t) \<noteq> H2K_STATUS_DEAD \<Longrightarrow> killed t s (fst r) \<and>
        kinv (fst r) (if asleep (thr s t) then rq(p := rq p @ [t]) else rq) (fq(b := remove1 t (fq b)))"
      using c kinv_locks(2) by (simp add: r u)
    ultimately show ?thesis using False dead by (simp add: r)
  qed
qed


text \<open>
  The example VM with its block entered as VM 1: its second CPU, which waits, has identifier
  \<open>1 << 26 | 1 << 10\<close>.
\<close>

definition kill_example :: H2K_kg_t where
  "kill_example = vm_example\<lparr>vmblocks := (vmblocks vm_example)(1 := 7)\<rparr>"

lemma kill_example_inv: "kinv kill_example (\<lambda>_. []) ((\<lambda>_. [])(15 := [30, 31]))"
  by (rule kinv_view [OF vm_example_inv]) (simp add: kill_example_def kview_def)

lemma kill_example_facts:
  "unat (vmidx (id_of_raw 0x4000400)) = Suc 0" "H2K_id_cpuidx_to_context kill_example 7 (ucast (cpuidx (id_of_raw 0x4000400))) = 340" "H2K_id_to_context kill_example (id_of_raw 0x4000400) = 340" "self_or_parent 20 7 kill_example"
  "vmblocks kill_example (Suc 0) = 7" "thr kill_example = thr vm_example" "futex_bucket (thr kill_example 340) = 0" "prio (thr vm_example 340) = 2" "unat (cpuidx (id (thr vm_example 340))) = Suc 0"
  by (simp_all add: kill_example_def vm_example_def futex_example_def sched_base_def id_of_raw_def H2K_id_to_context_def H2K_id_cpuidx_to_context_def
      self_or_parent_def vmblock0_def thread0_def CONTEXT_SIZE_def futex_bucket_def FUTEX_HASHVAL_def)


text \<open>
  A kill can leave the best thread unscheduled. Thread 340 has priority 2 and becomes ready
  while a thread of priority 5 runs, but the kill raises no reschedule interrupt, so nothing
  makes the hardware thread change over until the next event.
\<close>

theorem kill_misses_resched:
  "let s' = fst (H2K_vmop_kill_thread 0x4000400 20 kill_example)
   in H2K_ready_best_prio s' = 2 \<and> H2K_runlist_worst_prio s' = 5 \<and> \<not> bit (ipend s') 1"
proof -
  define m where "m = marked 340 (BKL_LOCK kill_example)"
  define s1 where "s1 = upd_vmb 7 (\<lambda>v. v\<lparr>waiting_cpus := waiting_cpus v AND NOT (push_bit 1 1)\<rparr>) m"
  have tm: "prio (thr m 340) = 2"
    by (simp_all add: m_def marked_def kill_example_def vm_example_def futex_example_def sched_base_def BKL_LOCK_def upd_thr_def
        id_of_raw_def thread0_def)
  have st: "status (thr (BKL_LOCK kill_example) 340) = H2K_STATUS_VMWAIT"
    by (simp add: kill_example_facts vm_example_vm BKL_LOCK_def)
  have f: "ready_valids s1 = (\<lambda>_. 0)" "ready s1 2 = NULL" "thr s1 = thr m" "runlist_prios s1 = runlist_prios vm_example" "ipend s1 = 0" "hthreads s1 = 2"
    by (simp_all add: s1_def m_def marked_def kill_example_def vm_example_def futex_example_def sched_base_def BKL_LOCK_def upd_thr_def upd_vmb_def kg0_def)
  have r: "fst (H2K_vmop_kill_thread 0x4000400 20 kill_example) = BKL_UNLOCK (H2K_ready_append 340 s1)"
    using st by (simp add: H2K_vmop_kill_thread_def kill_example_facts Let_def kill_thread_locked_def m_def marked_def s1_def)
  have "ct0 (4 :: u32) = 2" by (rule ct0_eqI) (auto simp: bit_simps simp: less_Suc_eq numeral_2_eq_2)
  then have b: "best_prio_loop ((\<lambda>_. 0)(0 := 4)) [0..<MAX_PRIOS div 64] 0 = 2" by (simp add: MAX_PRIOS_def upt_conv_Cons)
  have w: "worst_loop (runlist_prios vm_example) [0..<2] (-1) (-1) = (5, 1)"
    by (simp add: vm_example_def futex_example_def sched_base_def upt_conv_Cons)
  show ?thesis
    by (simp add: r b w Let_def BKL_UNLOCK_def H2K_ready_append_def f upd_thr_def tm H2K_ring_append_real_def H2K_ready_set_prio_def
        H2K_ready_best_prio_def H2K_runlist_worst_prio_def)
qed

end
