(* ===== verification/Config.thy ===== *)
theory Config
  imports Vmop
begin

text \<open>
  The configuration trap (\<^verbatim>\<open>kernel/traps/config\<close>): creating a VM block with its CPU contexts and
  interrupt controllers, its guest map, fences, priority and trap mask, the passthrough of
  physical interrupts (\<^verbatim>\<open>kernel/data/intconfig\<close>), the software TLB and the fatal hook. The build
  is the one without coprocessor extensions (\<^verbatim>\<open>HAVE_EXTENSIONS\<close>, \<^verbatim>\<open>DO_EXT_SWITCH\<close>) and with
  cluster scheduling.
\<close>

section \<open>The layout of a VM block\<close>

text \<open>
  The block is one allocation: the structure, the contexts, the table of interrupt
  controllers, and for shared interrupts the masks, followed by the map to physical
  interrupts. All sizes are 32-bit unsigned.
\<close>

definition ROUND :: "u32 \<Rightarrow> u32" where "ROUND e = ((e + 4 - 1) div 4) * 4"

text \<open>\<^verbatim>\<open>sizeof(H2K_vmblock_t)\<close>: 176 bytes of fields, aligned to 32.\<close>

definition VMBLOCK_SPACE :: u32 where "VMBLOCK_SPACE = 192"

definition CONTEXT_SPACE :: "u32 \<Rightarrow> u32" where
  "CONTEXT_SPACE cpus = ROUND (cpus * of_nat CONTEXT_SIZE)"

definition INTINFO_SPACE :: "u32 \<Rightarrow> u32" where
  "INTINFO_SPACE nints = (if nints > 0 then 3 else 2) * 8"

definition MASKPTR_SPACE :: "u32 \<Rightarrow> u32 \<Rightarrow> u32" where
  "MASKPTR_SPACE cpus nints = (if nints > 0 then ROUND (cpus * 4) else 0)"

definition MASK_WORDS_PERCPU :: "u32 \<Rightarrow> u32" where
  "MASK_WORDS_PERCPU nints = (nints + 32 - 1) div 32"

definition MASK_SPACE :: "u32 \<Rightarrow> u32 \<Rightarrow> u32" where
  "MASK_SPACE cpus nints = ROUND (cpus * MASK_WORDS_PERCPU nints * 4)"

definition PENDING_SPACE :: "u32 \<Rightarrow> u32" where
  "PENDING_SPACE nints = ROUND ((nints + 32 - 1) div 32 * 4)"

definition ENABLE_SPACE :: "u32 \<Rightarrow> u32" where
  "ENABLE_SPACE nints = ROUND ((nints + 32 - 1) div 32 * 4)"

definition PHYSINT_SPACE :: "u32 \<Rightarrow> u32" where
  "PHYSINT_SPACE nints = ROUND ((nints + 2 - 1) div 2 * 4)"

definition VMBLOCK_SIZE :: "u32 \<Rightarrow> u32 \<Rightarrow> u32" where
  "VMBLOCK_SIZE cpus nints =
     VMBLOCK_SPACE + CONTEXT_SPACE cpus + INTINFO_SPACE nints + MASKPTR_SPACE cpus nints + MASK_SPACE cpus nints +
     PENDING_SPACE nints + ENABLE_SPACE nints + PHYSINT_SPACE (nints + PERCPU_INTERRUPTS) + (32 - 1)"

text \<open>The pointers the code computes from the start of the block, in the order it does.\<close>

record vm_layout =
  lay_contexts :: u32
  lay_intinfo :: u32
  lay_percpu_mask :: u32
  lay_mask :: u32
  lay_pending :: u32
  lay_enable :: u32
  lay_int_v2p :: u32
  lay_end :: u32

definition layout :: "u32 \<Rightarrow> u32 \<Rightarrow> u32 \<Rightarrow> vm_layout" where
  "layout base cpus nints =
     (let c = base + VMBLOCK_SPACE;
          i = c + cpus * of_nat CONTEXT_SIZE;
          pm = i + INTINFO_SPACE nints;
          m = (if nints > 0 then pm + MASKPTR_SPACE cpus nints else pm);
          pe = (if nints > 0 then m + MASK_SPACE cpus nints else pm);
          en = (if nints > 0 then pe + PENDING_SPACE nints else pm);
          vp = (if nints > 0 then en + ENABLE_SPACE nints else pm)
      in \<lparr>lay_contexts = c, lay_intinfo = i, lay_percpu_mask = pm, lay_mask = m, lay_pending = pe, lay_enable = en,
          lay_int_v2p = vp, lay_end = vp + PHYSINT_SPACE (nints + PERCPU_INTERRUPTS)\<rparr>)"

section \<open>Creating a VM block\<close>

text \<open>The contexts of the VM: cleared, numbered and put on the list of free threads.\<close>

definition init_vm_context :: "ptr \<Rightarrow> ptr \<Rightarrow> nat \<Rightarrow> H2K_kg_t \<Rightarrow> H2K_kg_t" where
  "init_vm_context vb cs i s =
     (let c = cs + i * CONTEXT_SIZE;
          s1 = H2K_thread_context_clear c s;
          s2 = upd_thr c (\<lambda>t. t\<lparr>id := (id_of_raw 0)\<lparr>vmidx := ucast (vm_vmidx (vmb s1 vb)), cpuidx := of_nat i\<rparr>,
                 next := free_threads (vmb s1 vb), vmblock := vb\<rparr>) s1
      in upd_vmb vb (free_threads_update (\<lambda>_. c)) s2)"

fun init_contexts :: "ptr \<Rightarrow> ptr \<Rightarrow> nat \<Rightarrow> nat \<Rightarrow> H2K_kg_t \<Rightarrow> H2K_kg_t" where
  "init_contexts vb cs i 0 s = s"
| "init_contexts vb cs i (Suc n) s = init_contexts vb cs (Suc i) n (init_vm_context vb cs i s)"

definition H2K_ID_MAX_CPUS :: u32 where "H2K_ID_MAX_CPUS = 65536"
definition H2K_ID_MAX_VMS :: nat where "H2K_ID_MAX_VMS = 64"
definition MAX_VM_INTS :: u32 where "MAX_VM_INTS = 65535"

text \<open>
  The memory of the block is zeroed, so the masks and the map to physical interrupts are
  zero; the contexts are overwritten by the loop.
\<close>

definition H2K_bzero_vmblock :: "ptr \<Rightarrow> H2K_kg_t \<Rightarrow> H2K_kg_t" where
  "H2K_bzero_vmblock vb s = upd_vmb vb (\<lambda>_. vmblock0) s"

definition fill_vmblock :: "ptr \<Rightarrow> u32 \<Rightarrow> u32 \<Rightarrow> ptr \<Rightarrow> H2K_kg_t \<Rightarrow> H2K_kg_t" where
  "fill_vmblock vb cpus nints me s =
     (let cs = unat (lay_contexts (layout (of_nat vb) cpus nints));
          s1 = upd_vmb vb (\<lambda>v. v\<lparr>guestmap := asid_entry0, max_cpus := cpus, num_ints := nints, vm_trapmask := -1, vm_tlbidxmask := -1,
                 parent := (if me \<noteq> NULL then id (thr s me) else parent v), contexts := cs\<rparr>) s;
          s2 = init_contexts vb cs 0 (unat (max_cpus (vmb s1 vb))) s1;
          s3 = H2K_vm_int_intinfo_init vb (num_ints (vmb s2 vb)) s2
      in upd_vmb vb (\<lambda>v. v\<lparr>percpu_mask := (\<lambda>_ _. 0), pending := (\<lambda>_. 0), enable := (\<lambda>_. 0), int_v2p := Some (\<lambda>_. 0)\<rparr>) s3)"

definition free_slot :: "H2K_kg_t \<Rightarrow> nat option" where
  "free_slot s = find (\<lambda>i. vmblocks s i = NULL) [1..<H2K_ID_MAX_VMS]"

definition H2K_config_vmblock_init_cpus_ints :: "u32 \<Rightarrow> u32 \<Rightarrow> ptr \<Rightarrow> H2K_kg_t \<Rightarrow> (H2K_kg_t \<times> u32) option" where
  "H2K_config_vmblock_init_cpus_ints arg1 arg2 me s =
     (if arg1 > H2K_ID_MAX_CPUS \<or> arg2 > MAX_VM_INTS then Some (s, 0)
      else
        case H2K_mem_alloc (VMBLOCK_SIZE arg1 arg2) s of
          None \<Rightarrow> None
        | Some (s1, vb) \<Rightarrow>
            if vb = NULL then Some (s1, 0)
            else
              let s2 = BKL_LOCK (H2K_bzero_vmblock vb s1)
              in case free_slot s2 of
                   None \<Rightarrow> Some (H2K_mem_alloc_free vb (BKL_UNLOCK s2), 0)
                 | Some i \<Rightarrow>
                     let s3 = upd_vmb vb (vm_vmidx_update (\<lambda>_. of_nat i)) (s2\<lparr>vmblocks := (vmblocks s2)(i := vb)\<rparr>);
                         s4 = fill_vmblock vb arg1 arg2 me (BKL_UNLOCK s3)
                     in Some (s4, vm_vmidx (vmb s4 vb)))"

section \<open>Configuring a VM that does not run\<close>

definition PAGE_SIZE_MAX :: "4 word" where "PAGE_SIZE_MAX = 9"

definition H2K_config_vmblock_init_pmap_type :: "ptr \<Rightarrow> u32 \<Rightarrow> u32 \<Rightarrow> ptr \<Rightarrow> H2K_kg_t \<Rightarrow> H2K_kg_t \<times> u32" where
  "H2K_config_vmblock_init_pmap_type vb arg1 arg2 me s =
     (let ret = vm_vmidx (vmb s vb); par = vmidx (parent (vmb s vb)); offset = offset_of_raw arg1
      in if arg2 = 2 then
           if os_size offset < 0 \<or> os_size offset > PAGE_SIZE_MAX \<or> unat (os_pages offset) mod 2 ^ (2 * unat (os_size offset)) \<noteq> 0
           then (s, 0)
           else (upd_vmb vb (\<lambda>v. v\<lparr>guestmap := (guestmap v)\<lparr>ptb := arg1, ttype := ucast arg2, vmid := par\<rparr>,
                   fence_lo := 0, fence_hi := -1\<rparr>) s, ret)
         else if arg2 \<ge> 4 then (s, 0)
         else if arg1 = 0 then (upd_vmb vb (guestmap_update (\<lambda>_. asid_table s (unat (ssr_asid (thr s me))))) s, ret)
         else (upd_vmb vb (guestmap_update (\<lambda>g. g\<lparr>ttype := ucast arg2, vmid := par, ptb := arg1\<rparr>)) s, ret))"

definition H2K_config_vmblock_init_set_fences :: "ptr \<Rightarrow> u32 \<Rightarrow> u32 \<Rightarrow> H2K_kg_t \<Rightarrow> H2K_kg_t \<times> u32" where
  "H2K_config_vmblock_init_set_fences vb arg1 arg2 s =
     (let offset = offset_of_raw (pmap (vmb s vb)); lo = drop_bit 12 arg1; hi = drop_bit 12 arg2
      in if (lo OR hi) AND (push_bit (2 * unat (os_size offset)) 1 - 1) \<noteq> 0 then (s, 0)
         else (upd_vmb vb (\<lambda>v. v\<lparr>fence_lo := lo, fence_hi := hi\<rparr>) s, vm_vmidx (vmb s vb)))"

definition H2K_config_vmblock_init_prio_trapmask :: "ptr \<Rightarrow> u32 \<Rightarrow> u32 \<Rightarrow> H2K_kg_t \<Rightarrow> H2K_kg_t \<times> u32" where
  "H2K_config_vmblock_init_prio_trapmask vb arg1 arg2 s =
     (if arg1 > MAX_PRIO then (s, 0)
      else (upd_vmb vb (\<lambda>v. v\<lparr>bestprio := take_bit 8 arg1, vm_trapmask := arg2,
              vm_tlbidxmask := (if take_bit 8 arg1 > 200 then 0x0f else vm_tlbidxmask v)\<rparr>) s, vm_vmidx (vmb s vb)))"

text \<open>
  A physical interrupt is passed to a virtual one: its handler's parameter is the identifier
  of the CPU, with the virtual number in the ten reserved bits if it fits.
\<close>

definition H2K_register_passthru :: "u32 \<Rightarrow> H2K_id_t \<Rightarrow> u32 \<Rightarrow> H2K_kg_t \<Rightarrow> H2K_kg_t" where
  "H2K_register_passthru phys_int i virt_int s =
     (if vmidx i = 0 then set_handler phys_int NoHandler NULL (H2K_intcontrol_disable phys_int s)
      else
        let i' = i\<lparr>reserved := (if virt_int \<ge> push_bit 10 1 then 0 else ucast virt_int)\<rparr>
        in H2K_intcontrol_enable phys_int (set_handler phys_int H2K_passthru_h (unat (id_raw i')) s))"

definition H2K_config_vmblock_init_map_phys_intr :: "ptr \<Rightarrow> u32 \<Rightarrow> u32 \<Rightarrow> H2K_kg_t \<Rightarrow> H2K_kg_t \<times> u32" where
  "H2K_config_vmblock_init_map_phys_intr vb arg1 arg2 s =
     (let physint = ucast (drop_bit 16 arg2) :: u16; virt_int = arg1;
          i = (id_of_raw 0)\<lparr>vmidx := ucast (vm_vmidx (vmb s vb)), cpuidx := ucast arg2\<rparr>
      in if virt_int \<ge> num_ints (vmb s vb) + PERCPU_INTERRUPTS \<or> unat physint \<ge> MAX_INTERRUPTS \<or> ucast (cpuidx i) \<ge> max_cpus (vmb s vb)
         then (s, 0)
         else if physint = 1 \<or> physint = 0 \<or> virt_int = H2K_TIME_GUESTINT \<or> ucast physint = timer_intnum s \<or>
           ucast physint = L2_CORE_INTERRUPT \<or> virt_int = 0
         then (s, vm_vmidx (vmb s vb))
         else (H2K_register_passthru (ucast physint) i virt_int
                 (upd_vmb vb (int_v2p_update (map_option (\<lambda>f. f(unat virt_int := physint)))) s), vm_vmidx (vmb s vb)))"

text \<open>
  Every operation but the creation is for the parent of a VM without a running CPU; at boot
  there is no caller.
\<close>

definition configurable :: "u32 \<Rightarrow> ptr \<Rightarrow> H2K_kg_t \<Rightarrow> bool" where
  "configurable vm me s \<longleftrightarrow> unat vm < H2K_ID_MAX_VMS \<and> vmblocks s (unat vm) \<noteq> NULL \<and>
     (let v = vmb s (vmblocks s (unat vm)) in \<not> num_cpus v > 0 \<and> \<not> (me \<noteq> NULL \<and> vmidx (id (thr s me)) \<noteq> vmidx (parent v)))"

definition H2K_trap_config_vmblock_init :: "u32 \<Rightarrow> u32 \<Rightarrow> u32 \<Rightarrow> u32 \<Rightarrow> ptr \<Rightarrow> H2K_kg_t \<Rightarrow> (H2K_kg_t \<times> u32) option" where
  "H2K_trap_config_vmblock_init vm opr arg1 arg2 me s =
     (if opr \<ge> 5 then Some (s, 0)
      else if opr = 3 then H2K_config_vmblock_init_cpus_ints arg1 arg2 me s
      else if \<not> configurable vm me s then Some (s, 0)
      else
        let vb = vmblocks s (unat vm)
        in Some (if opr = 0 then H2K_config_vmblock_init_pmap_type vb arg1 arg2 me s
                 else if opr = 1 then H2K_config_vmblock_init_set_fences vb arg1 arg2 s
                 else if opr = 2 then H2K_config_vmblock_init_prio_trapmask vb arg1 arg2 s
                 else H2K_config_vmblock_init_map_phys_intr vb arg1 arg2 s))"

section \<open>The other configurations\<close>

text \<open>
  The descriptors of the software TLB take 288 bytes each; every field the model keeps of them
  is written by the initialisation.
\<close>

definition H2K_mem_stlb_alloc :: "H2K_kg_t \<Rightarrow> (H2K_kg_t \<times> u32) option" where
  "H2K_mem_stlb_alloc s =
     (case H2K_mem_alloc (288 * of_nat MAX_ASIDS) (s\<lparr>stlbptr := None\<rparr>) of
        None \<Rightarrow> None
      | Some (s1, info) \<Rightarrow>
          if info = NULL then Some (s1, -1)
          else case H2K_mem_alloc (8 * of_nat (STLB_MAX_SETS * STLB_MAX_WAYS * 2)) s1 of
                 None \<Rightarrow> None
               | Some (s2, bulk) \<Rightarrow>
                   if bulk = NULL then Some (H2K_mem_alloc_free info s2, -1)
                   else Some (H2K_mem_stlb_init (\<lambda>_. \<lparr>valids = (\<lambda>_. 0), baseaddr = 0\<rparr>) s2, of_nat (STLB_MAX_SETS * STLB_MAX_WAYS * 2)))"

definition H2K_trap_config_stlb_alloc :: "H2K_kg_t \<Rightarrow> (H2K_kg_t \<times> u32) option" where
  "H2K_trap_config_stlb_alloc s = H2K_mem_stlb_alloc s"

definition H2K_trap_config_fatal_hook :: "u32 \<Rightarrow> u32 \<Rightarrow> ptr \<Rightarrow> H2K_kg_t \<Rightarrow> H2K_kg_t \<times> u32" where
  "H2K_trap_config_fatal_hook funcaddr arg me s =
     (s\<lparr>fatal_hook := funcaddr, fatal_hook_arg := arg, fatal_hook_ssr := push_bit 8 (ssr_asid (thr s me)), fatal_hook_gp := hw_gp s\<rparr>, 0)"

definition H2K_trap_config_cluster_sched :: "u32 \<Rightarrow> H2K_kg_t \<Rightarrow> H2K_kg_t \<times> u32" where
  "H2K_trap_config_cluster_sched en s = (s\<lparr>cluster_sched := en\<rparr>, 0)"

definition H2K_trap_config_noc :: "u32 \<Rightarrow> u32 \<Rightarrow> H2K_kg_t \<Rightarrow> H2K_kg_t \<times> u32" where
  "H2K_trap_config_noc master slave s = (s\<lparr>noc_mbase := master, noc_sbase := slave\<rparr>, 0)"

definition H2K_trap_config :: "u32 \<Rightarrow> u32 \<Rightarrow> u32 \<Rightarrow> u32 \<Rightarrow> u32 \<Rightarrow> ptr \<Rightarrow> H2K_kg_t \<Rightarrow> (H2K_kg_t \<times> u32) option" where
  "H2K_trap_config configtype val1 val2 val3 val4 me s =
     (if configtype \<ge> 5 then Some (s, 0)
      else if configtype = 0 then H2K_trap_config_vmblock_init val1 val2 val3 val4 me s
      else if configtype = 1 then H2K_trap_config_stlb_alloc s
      else if configtype = 2 then Some (H2K_trap_config_fatal_hook val1 val2 me s)
      else if configtype = 3 then Some (H2K_trap_config_cluster_sched val1 s)
      else Some (H2K_trap_config_noc val1 val2 s))"

section \<open>The block holds its parts\<close>

lemma unat_mult_small: "unat a * unat b < 2 ^ LENGTH('a) \<Longrightarrow> unat (a * b) = unat a * unat (b :: 'a::len word)"
  by (simp add: unat_word_ariths)

lemma ROUND_unat: "unat e + 3 < 2 ^ 32 \<Longrightarrow> unat (ROUND e) = (unat e + 3) div 4 * 4"
proof -
  assume a: "unat e + 3 < 2 ^ 32"
  have q: "e + 4 - 1 = e + 3" by simp
  have 1: "unat (e + 4 - 1) = unat e + 3" unfolding q using unat_add_small [of e 3] a by simp
  then have "unat ((e + 4 - 1) div 4) = (unat e + 3) div 4" by (simp add: unat_div)
  moreover have "(unat e + 3) div 4 * 4 < 2 ^ 32" using a div_times_less_eq_dividend [of "unat e + 3" 4] by linarith
  ultimately show ?thesis unfolding ROUND_def using unat_mult_small [of "(e + 4 - 1) div 4" 4] by simp
qed

text \<open>The parameters a VM may have, and its number of words per mask.\<close>

definition vm_params :: "u32 \<Rightarrow> u32 \<Rightarrow> bool" where
  "vm_params cpus nints \<longleftrightarrow> cpus \<le> H2K_ID_MAX_CPUS \<and> nints \<le> MAX_VM_INTS"

definition mask_words :: "u32 \<Rightarrow> nat" where
  "mask_words nints = (unat nints + 31) div 32"

lemma vm_paramsD:
  assumes "vm_params cpus nints"
  shows "unat cpus \<le> 65536" "unat nints \<le> 65535" "mask_words nints \<le> 2048" "unat cpus * mask_words nints \<le> 2 ^ 27"
proof -
  show c: "unat cpus \<le> 65536" and n: "unat nints \<le> 65535"
    using assms by (simp_all add: vm_params_def H2K_ID_MAX_CPUS_def MAX_VM_INTS_def word_le_nat_alt)
  show m: "mask_words nints \<le> 2048" using n by (simp add: mask_words_def)
  show "unat cpus * mask_words nints \<le> 2 ^ 27" using mult_le_mono [OF c m] by simp
qed

lemma space_unat:
  assumes "vm_params cpus nints"
  shows "unat (cpus * of_nat CONTEXT_SIZE) = 320 * unat cpus" "unat (CONTEXT_SPACE cpus) = 320 * unat cpus"
    "unat (INTINFO_SPACE nints) = (if nints > 0 then 24 else 16)"
    "unat (MASKPTR_SPACE cpus nints) = (if nints > 0 then 4 * unat cpus else 0)"
    "unat (MASK_SPACE cpus nints) = 4 * (unat cpus * mask_words nints)"
    "unat (PENDING_SPACE nints) = 4 * mask_words nints" "unat (ENABLE_SPACE nints) = 4 * mask_words nints"
    "unat (PHYSINT_SPACE (nints + PERCPU_INTERRUPTS)) = (unat nints + 17) div 2 * 4"
proof -
  note b = vm_paramsD [OF assms]
  show c: "unat (cpus * of_nat CONTEXT_SIZE) = 320 * unat cpus" using unat_mult_small [of cpus 320] b by (simp add: CONTEXT_SIZE_def)
  show "unat (CONTEXT_SPACE cpus) = 320 * unat cpus" unfolding CONTEXT_SPACE_def using ROUND_unat b c by simp
  show "unat (INTINFO_SPACE nints) = (if nints > 0 then 24 else 16)" by (simp add: INTINFO_SPACE_def)
  have "unat (cpus * 4) = unat cpus * 4" using unat_mult_small [of cpus 4] b by simp
  then show "unat (MASKPTR_SPACE cpus nints) = (if nints > 0 then 4 * unat cpus else 0)"
    using ROUND_unat [of "cpus * 4"] b by (simp add: MASKPTR_SPACE_def)
  have q: "nints + 32 - 1 = nints + 31" by simp
  have "unat (nints + 32 - 1) = unat nints + 31" unfolding q using unat_add_small [of nints 31] b by simp
  then have w: "unat ((nints + 32 - 1) div 32) = mask_words nints" by (simp add: mask_words_def unat_div)
  have w4: "unat ((nints + 32 - 1) div 32 * 4) = mask_words nints * 4" using unat_mult_small [of "(nints + 32 - 1) div 32" 4] b w by simp
  show "unat (PENDING_SPACE nints) = 4 * mask_words nints" "unat (ENABLE_SPACE nints) = 4 * mask_words nints"
    using ROUND_unat [of "(nints + 32 - 1) div 32 * 4"] b w4 by (simp_all add: PENDING_SPACE_def ENABLE_SPACE_def)
  have cm: "unat (cpus * ((nints + 32 - 1) div 32)) = unat cpus * mask_words nints"
    using unat_mult_small [of cpus "(nints + 32 - 1) div 32"] b w by simp
  have "unat (cpus * ((nints + 32 - 1) div 32) * 4) = unat cpus * mask_words nints * 4"
    using unat_mult_small [of "cpus * ((nints + 32 - 1) div 32)" 4] b cm by simp
  then show "unat (MASK_SPACE cpus nints) = 4 * (unat cpus * mask_words nints)"
    using ROUND_unat [of "cpus * ((nints + 32 - 1) div 32) * 4"] b by (simp add: MASK_SPACE_def MASK_WORDS_PERCPU_def)
  have q: "nints + PERCPU_INTERRUPTS + 2 - 1 = nints + 17" by (simp add: PERCPU_INTERRUPTS_def)
  have "unat (nints + PERCPU_INTERRUPTS + 2 - 1) = unat nints + 17" unfolding q using unat_add_small [of nints 17] b by simp
  then have h: "unat ((nints + PERCPU_INTERRUPTS + 2 - 1) div 2) = (unat nints + 17) div 2" by (simp add: unat_div)
  then have "unat ((nints + PERCPU_INTERRUPTS + 2 - 1) div 2 * 4) = (unat nints + 17) div 2 * 4"
    using unat_mult_small [of "(nints + PERCPU_INTERRUPTS + 2 - 1) div 2" 4] b by simp
  then show "unat (PHYSINT_SPACE (nints + PERCPU_INTERRUPTS)) = (unat nints + 17) div 2 * 4"
    using ROUND_unat [of "(nints + PERCPU_INTERRUPTS + 2 - 1) div 2 * 4"] b by (simp add: PHYSINT_SPACE_def)
qed

lemma unat_addI: "unat (a :: u32) = x \<Longrightarrow> unat b = y \<Longrightarrow> x + y < 2 ^ 32 \<Longrightarrow> unat (a + b) = x + y"
  using unat_add_small [of a b] by simp

lemma size_unat:
  assumes "vm_params cpus nints"
  shows "unat (VMBLOCK_SIZE cpus nints) = 192 + 320 * unat cpus + (if nints > 0 then 24 else 16) + (if nints > 0 then 4 * unat cpus else 0) +
    4 * (unat cpus * mask_words nints) + 4 * mask_words nints + 4 * mask_words nints + (unat nints + 17) div 2 * 4 + 31"
proof -
  note b = vm_paramsD [OF assms] and u = space_unat [OF assms]
  have v: "unat VMBLOCK_SPACE = 192" "unat (32 - 1 :: u32) = 31" by (simp_all add: VMBLOCK_SPACE_def)
  have d: "(unat nints + 17) div 2 * 4 \<le> 131104" using b(2) by linarith
  show ?thesis unfolding VMBLOCK_SIZE_def
    by (intro unat_addI u(2-) v) (use b d in \<open>simp_all\<close>)
qed

lemma half_words: "2 * (n + 16) \<le> (n + 17) div 2 * (4 :: nat)"
  by presburger

text \<open>
  C37: a VM block is large enough for its parts. For every number of CPUs and interrupts a VM
  may have, the size does not overflow, and the structure, the contexts, the table of
  controllers, the masks, and the map to physical interrupts follow each other without
  overlap and end within the allocation.
\<close>

theorem vm_layout_fits:
  fixes base cpus nints :: u32
  assumes "cpus \<le> H2K_ID_MAX_CPUS" "nints \<le> MAX_VM_INTS" "unat base + unat (VMBLOCK_SIZE cpus nints) \<le> 2 ^ 32"
  defines "L \<equiv> layout base cpus nints" and "W \<equiv> (unat nints + 31) div 32"
  shows "unat (lay_contexts L) = unat base + 192 \<and> unat (lay_contexts L) + CONTEXT_SIZE * unat cpus \<le> unat (lay_intinfo L) \<and>
    unat (lay_intinfo L) + 8 * (if nints > 0 then 3 else 2) \<le> unat (lay_percpu_mask L) \<and>
    (if nints > 0 then unat (lay_percpu_mask L) + 4 * unat cpus \<le> unat (lay_mask L) \<and>
       unat (lay_mask L) + 4 * (unat cpus * W) \<le> unat (lay_pending L) \<and> unat (lay_pending L) + 4 * W \<le> unat (lay_enable L) \<and>
       unat (lay_enable L) + 4 * W \<le> unat (lay_int_v2p L)
     else lay_int_v2p L = lay_percpu_mask L) \<and>
    unat (lay_int_v2p L) + 2 * (unat nints + 16) \<le> unat (lay_end L) \<and> unat (lay_end L) \<le> unat base + unat (VMBLOCK_SIZE cpus nints)"
proof -
  have p: "vm_params cpus nints" using assms(1,2) by (simp add: vm_params_def)
  note b = vm_paramsD [OF p] and u = space_unat [OF p]
  have W: "mask_words nints = W" by (simp add: mask_words_def W_def)
  have v: "unat VMBLOCK_SPACE = 192" by (simp add: VMBLOCK_SPACE_def)
  have z: "unat base + (192 + 320 * unat cpus + (if nints > 0 then 24 else 16) + (if nints > 0 then 4 * unat cpus else 0) +
    4 * (unat cpus * W) + 4 * W + 4 * W + (unat nints + 17) div 2 * 4 + 31) \<le> 2 ^ 32"
    using assms(3) size_unat [OF p] by (simp add: W)
  have f: "lay_contexts L = base + VMBLOCK_SPACE" "lay_intinfo L = lay_contexts L + cpus * of_nat CONTEXT_SIZE"
    "lay_percpu_mask L = lay_intinfo L + INTINFO_SPACE nints" "lay_end L = lay_int_v2p L + PHYSINT_SPACE (nints + PERCPU_INTERRUPTS)"
    "nints > 0 \<Longrightarrow> lay_mask L = lay_percpu_mask L + MASKPTR_SPACE cpus nints" "nints > 0 \<Longrightarrow> lay_pending L = lay_mask L + MASK_SPACE cpus nints"
    "nints > 0 \<Longrightarrow> lay_enable L = lay_pending L + PENDING_SPACE nints" "nints > 0 \<Longrightarrow> lay_int_v2p L = lay_enable L + ENABLE_SPACE nints"
    "\<not> nints > 0 \<Longrightarrow> lay_int_v2p L = lay_percpu_mask L"
    by (simp_all only: L_def layout_def Let_def vm_layout.simps if_True if_False)
  have c: "unat (lay_contexts L) = unat base + 192" unfolding f by (rule unat_addI [OF refl v]) (use z in simp)
  have i: "unat (lay_intinfo L) = unat base + 192 + 320 * unat cpus" unfolding f(2) by (rule unat_addI [OF c u(1)]) (use z in simp)
  have m: "unat (lay_percpu_mask L) = unat base + 192 + 320 * unat cpus + (if nints > 0 then 24 else 16)"
    unfolding f(3) by (rule unat_addI [OF i u(3)]) (use z in \<open>simp split: if_splits\<close>)
  show ?thesis
  proof (cases "nints > 0")
    case True
    define A where "A = unat base + 192 + 320 * unat cpus + 24"
    have m': "unat (lay_percpu_mask L) = A" "unat (MASKPTR_SPACE cpus nints) = 4 * unat cpus" using m u(4) True by (simp_all add: A_def)
    have z': "A + 4 * unat cpus + 4 * (unat cpus * W) + 4 * W + 4 * W + (unat nints + 17) div 2 * 4 + 31 \<le> 2 ^ 32" using z True by (simp add: A_def)
    have k: "unat (lay_mask L) = A + 4 * unat cpus" unfolding f(5) [OF True] by (rule unat_addI [OF m']) (use z' in simp)
    have pe: "unat (lay_pending L) = A + 4 * unat cpus + 4 * (unat cpus * W)"
      unfolding f(6) [OF True] by (rule unat_addI [OF k u(5) [unfolded W]]) (use z' in simp)
    have en: "unat (lay_enable L) = A + 4 * unat cpus + 4 * (unat cpus * W) + 4 * W"
      unfolding f(7) [OF True] by (rule unat_addI [OF pe u(6) [unfolded W]]) (use z' in simp)
    have vp: "unat (lay_int_v2p L) = A + 4 * unat cpus + 4 * (unat cpus * W) + 4 * W + 4 * W"
      unfolding f(8) [OF True] by (rule unat_addI [OF en u(7) [unfolded W]]) (use z' in simp)
    have e: "unat (lay_end L) = A + 4 * unat cpus + 4 * (unat cpus * W) + 4 * W + 4 * W + (unat nints + 17) div 2 * 4"
      unfolding f(4) by (rule unat_addI [OF vp u(8)]) (use z' in simp)
    show ?thesis using half_words [of "unat nints"] True c i m'(1) k pe en vp e size_unat [OF p] by (simp add: CONTEXT_SIZE_def W A_def)
  next
    case False
    define A where "A = unat base + 192 + 320 * unat cpus + 16"
    have m': "unat (lay_percpu_mask L) = A" using m False by (simp add: A_def)
    have e: "unat (lay_end L) = A + (unat nints + 17) div 2 * 4"
      unfolding f(4) f(9) [OF False] by (rule unat_addI [OF m' u(8)]) (use z False in \<open>simp add: A_def\<close>)
    show ?thesis using half_words [of "unat nints"] False c i m' e f(9) size_unat [OF p] by (simp add: CONTEXT_SIZE_def W A_def)
  qed
qed

theorem vm_layout_fits_witness:
  "unat (lay_end (layout 0x10000 2 40)) \<le> unat (0x10000 :: u32) + unat (VMBLOCK_SIZE 2 40)"
proof -
  have "unat (VMBLOCK_SIZE 2 40) \<le> 2000"
    using size_unat [of 2 40] by (simp add: vm_params_def H2K_ID_MAX_CPUS_def MAX_VM_INTS_def mask_words_def)
  then show ?thesis using vm_layout_fits [where cpus = 2 and nints = 40 and base = "0x10000"] by (simp add: H2K_ID_MAX_CPUS_def MAX_VM_INTS_def)
qed

section \<open>The new VM\<close>

text \<open>The context of CPU \<open>j\<close> of VM \<open>v\<close>, dead, with its link to the next free one.\<close>

definition fresh_context :: "ptr \<Rightarrow> u32 \<Rightarrow> nat \<Rightarrow> ptr \<Rightarrow> H2K_thread_context" where
  "fresh_context vb v j nx =
     thread0\<lparr>id := (id_of_raw 0)\<lparr>vmidx := ucast v, cpuidx := of_nat j\<rparr>, next := nx, vmblock := vb\<rparr>"

lemma init_vm_context_eq:
  "init_vm_context vb cs i s = s\<lparr>thr := (thr s)(cs + i * CONTEXT_SIZE := fresh_context vb (vm_vmidx (vmb s vb)) i (free_threads (vmb s vb))),
     vmb := (vmb s)(vb := (vmb s vb)\<lparr>free_threads := cs + i * CONTEXT_SIZE\<rparr>)\<rparr>"
  by (simp add: init_vm_context_def Let_def H2K_thread_context_clear_def upd_thr_def upd_vmb_def fresh_context_def)

lemma init_contexts_frame:
  "init_contexts vb cs i n s = s\<lparr>thr := thr (init_contexts vb cs i n s),
     vmb := (vmb s)(vb := (vmb s vb)\<lparr>free_threads := (if n = 0 then free_threads (vmb s vb) else cs + (i + n - 1) * CONTEXT_SIZE)\<rparr>)\<rparr>"
proof (induction n arbitrary: i s)
  case (Suc n)
  show ?case by (subst init_contexts.simps, subst Suc.IH) (auto simp: init_vm_context_eq)
qed simp

lemma init_contexts_outside:
  "(\<And>j. i \<le> j \<Longrightarrow> j < i + n \<Longrightarrow> u \<noteq> cs + j * CONTEXT_SIZE) \<Longrightarrow> thr (init_contexts vb cs i n s) u = thr s u"
proof (induction n arbitrary: i s)
  case (Suc n)
  have "thr (init_contexts vb cs (Suc i) n (init_vm_context vb cs i s)) u = thr (init_vm_context vb cs i s) u"
    by (rule Suc.IH) (use Suc.prems in auto)
  then show ?case using Suc.prems [of i] by (simp add: init_vm_context_eq)
qed simp

lemma init_contexts_fresh:
  "i \<le> j \<Longrightarrow> j < i + n \<Longrightarrow> thr (init_contexts vb cs i n s) (cs + j * CONTEXT_SIZE) =
     fresh_context vb (vm_vmidx (vmb s vb)) j (if j = i then free_threads (vmb s vb) else cs + (j - 1) * CONTEXT_SIZE)"
proof (induction n arbitrary: i s)
  case (Suc n)
  let ?s1 = "init_vm_context vb cs i s"
  show ?case
  proof (cases "j = i")
    case True
    have "thr (init_contexts vb cs (Suc i) n ?s1) (cs + i * CONTEXT_SIZE) = thr ?s1 (cs + i * CONTEXT_SIZE)"
      by (rule init_contexts_outside) (auto simp: CONTEXT_SIZE_def)
    then show ?thesis using True by (simp add: init_vm_context_eq)
  next
    case False
    with Suc.prems have "thr (init_contexts vb cs (Suc i) n ?s1) (cs + j * CONTEXT_SIZE) =
        fresh_context vb (vm_vmidx (vmb ?s1 vb)) j (if j = Suc i then free_threads (vmb ?s1 vb) else cs + (j - 1) * CONTEXT_SIZE)"
      by (intro Suc.IH) simp_all
    then show ?thesis using False by (simp add: init_vm_context_eq)
  qed
qed simp

text \<open>A list of free contexts linked from \<open>p\<close>.\<close>

fun linked :: "H2K_kg_t \<Rightarrow> ptr \<Rightarrow> ptr list \<Rightarrow> bool" where
  "linked s p [] \<longleftrightarrow> p = NULL"
| "linked s p (x # xs) \<longleftrightarrow> p = x \<and> x \<noteq> NULL \<and> linked s (next (thr s x)) xs"

lemma linked_contexts:
  assumes "\<And>j. j < n \<Longrightarrow> next (thr s (cs + j * CONTEXT_SIZE)) = (if j = 0 then NULL else cs + (j - 1) * CONTEXT_SIZE)" "cs \<noteq> NULL"
  shows "linked s (if n = 0 then NULL else cs + (n - 1) * CONTEXT_SIZE) (rev (map (\<lambda>j. cs + j * CONTEXT_SIZE) [0..<n]))"
  using assms(1)
proof (induction n)
  case (Suc n)
  then show ?case using assms(2) by simp
qed simp

text \<open>What the creation promises of the block of VM \<open>i\<close>.\<close>

definition new_vm :: "ptr \<Rightarrow> nat \<Rightarrow> u32 \<Rightarrow> u32 \<Rightarrow> H2K_id_t \<Rightarrow> H2K_kg_t \<Rightarrow> bool" where
  "new_vm vb i cpus nints par s \<longleftrightarrow>
     (let v = vmb s vb in vm_vmidx v = of_nat i \<and> parent v = par \<and> max_cpus v = cpus \<and> num_cpus v = 0 \<and> num_ints v = nints \<and>
        \<not> mapped (guestmap v) \<and> vm_trapmask v = -1 \<and> pending v = (\<lambda>_. 0) \<and> enable v = (\<lambda>_. 0) \<and> percpu_mask v = (\<lambda>_ _. 0) \<and>
        intinfo_ok v \<and> cpus_ok vb s \<and>
        (\<forall>j<unat cpus. status (thr s (context_of vb j s)) = H2K_STATUS_DEAD \<and> vmblock (thr s (context_of vb j s)) = vb \<and>
           unat (vmidx (id (thr s (context_of vb j s)))) = i) \<and>
        linked s (free_threads v) (rev (map (\<lambda>j. context_of vb j s) [0..<unat cpus])))"

lemma layout_contexts:
  assumes "vm_params cpus nints" "vb + unat (VMBLOCK_SIZE cpus nints) \<le> 2 ^ 32"
  shows "unat (lay_contexts (layout (of_nat vb) cpus nints)) = vb + 192"
proof -
  have "vb + 192 < 2 ^ 32" using assms(2) size_unat [OF assms(1)] by simp
  then show ?thesis using unat_addI [of "of_nat vb" vb VMBLOCK_SPACE 192]
    by (simp add: layout_def Let_def VMBLOCK_SPACE_def unat_of_nat)
qed

lemma fill_vmblock_eq:
  assumes "vm_params cpus nints" "vb + unat (VMBLOCK_SIZE cpus nints) \<le> 2 ^ 32" "vmb s vb = vmblock0\<lparr>vm_vmidx := of_nat i\<rparr>"
  defines "cs \<equiv> vb + 192"
  shows "\<exists>s1. fill_vmblock vb cpus nints me s = s\<lparr>thr := thr (init_contexts vb cs 0 (unat cpus) s1),
    vmb := (vmb s)(vb := vmblock0\<lparr>vm_vmidx := of_nat i, max_cpus := cpus, num_ints := nints, vm_trapmask := -1, vm_tlbidxmask := -1,
      parent := (if me \<noteq> NULL then id (thr s me) else id_of_raw 0), contexts := cs,
      free_threads := (if cpus = 0 then NULL else cs + (unat cpus - 1) * CONTEXT_SIZE),
      intinfo := (PERCPU_INTERRUPTS, H2K_vm_cpuint_ops) # (if nints > 0 then [(nints, H2K_vm_shint_ops)] else []) @ [(-1, H2K_vm_badint_ops)],
      int_v2p := Some (\<lambda>_. 0)\<rparr>)\<rparr> \<and> thr s1 = thr s \<and> vm_vmidx (vmb s1 vb) = of_nat i \<and> free_threads (vmb s1 vb) = NULL"
proof -
  define s1 where "s1 = upd_vmb vb (\<lambda>v. v\<lparr>guestmap := asid_entry0, max_cpus := cpus, num_ints := nints, vm_trapmask := -1, vm_tlbidxmask := -1,
                 parent := (if me \<noteq> NULL then id (thr s me) else parent v), contexts := cs\<rparr>) s"
  define s2 where "s2 = init_contexts vb cs 0 (unat cpus) s1"
  have s1: "thr s1 = thr s" "vmb s1 vb = vmblock0\<lparr>vm_vmidx := of_nat i, max_cpus := cpus, num_ints := nints, vm_trapmask := -1, vm_tlbidxmask := -1,
      parent := (if me \<noteq> NULL then id (thr s me) else id_of_raw 0), contexts := cs\<rparr>"
    using assms(3) by (simp_all add: s1_def vmblock0_def)
  have s2: "s2 = s1\<lparr>thr := thr s2, vmb := (vmb s1)(vb := (vmb s1 vb)\<lparr>free_threads := (if cpus = 0 then NULL else cs + (unat cpus - 1) * CONTEXT_SIZE)\<rparr>)\<rparr>"
    unfolding s2_def by (subst init_contexts_frame) (simp add: s1 vmblock0_def unat_eq_0)
  have f: "fill_vmblock vb cpus nints me s =
      upd_vmb vb (\<lambda>v. v\<lparr>percpu_mask := (\<lambda>_ _. 0), pending := (\<lambda>_. 0), enable := (\<lambda>_. 0), int_v2p := Some (\<lambda>_. 0)\<rparr>)
        (H2K_vm_int_intinfo_init vb (num_ints (vmb s2 vb)) s2)"
    unfolding fill_vmblock_def Let_def layout_contexts [OF assms(1,2)] cs_def [symmetric] s1_def [symmetric]
    by (simp add: s1 s2_def)
  have n: "num_ints (vmb s2 vb) = nints" by (subst s2) (simp add: s1)
  show ?thesis
  proof (intro exI [of _ s1] conjI)
    show "vm_vmidx (vmb s1 vb) = of_nat i" "free_threads (vmb s1 vb) = NULL" by (simp_all add: s1 vmblock0_def)
    have e: "s1\<lparr>thr := a, vmb := b\<rparr> = s\<lparr>thr := a, vmb := b\<rparr>" "vmb s1 = (vmb s)(vb := vmb s1 vb)" for a b by (simp_all add: s1_def upd_vmb_def)
    show "fill_vmblock vb cpus nints me s = s\<lparr>thr := thr (init_contexts vb cs 0 (unat cpus) s1),
    vmb := (vmb s)(vb := vmblock0\<lparr>vm_vmidx := of_nat i, max_cpus := cpus, num_ints := nints, vm_trapmask := -1, vm_tlbidxmask := -1,
      parent := (if me \<noteq> NULL then id (thr s me) else id_of_raw 0), contexts := cs,
      free_threads := (if cpus = 0 then NULL else cs + (unat cpus - 1) * CONTEXT_SIZE),
      intinfo := (PERCPU_INTERRUPTS, H2K_vm_cpuint_ops) # (if nints > 0 then [(nints, H2K_vm_shint_ops)] else []) @ [(-1, H2K_vm_badint_ops)],
      int_v2p := Some (\<lambda>_. 0)\<rparr>)\<rparr>"
      unfolding f n s2_def [symmetric]
      by (subst s2, subst e(2)) (simp add: e(1) H2K_vm_int_intinfo_init_def upd_vmb_def s1(2) vmblock0_def)
  qed (rule s1)
qed

lemma fill_vmblock_spec:
  fixes me :: ptr
  assumes "vm_params cpus nints" "vb + unat (VMBLOCK_SIZE cpus nints) \<le> 2 ^ 32"
    and b: "vmb s vb = vmblock0\<lparr>vm_vmidx := of_nat i\<rparr>" "i < 64"
  defines "s' \<equiv> fill_vmblock vb cpus nints me s"
  shows "new_vm vb i cpus nints (if me \<noteq> NULL then id (thr s me) else id_of_raw 0) s'"
    "\<And>u. u < vb \<or> vb + unat (VMBLOCK_SIZE cpus nints) \<le> u \<Longrightarrow> thr s' u = thr s u"
    "\<And>w. w \<noteq> vb \<Longrightarrow> vmb s' w = vmb s w" "s' = s\<lparr>thr := thr s', vmb := vmb s'\<rparr>"
proof -
  let ?cs = "vb + 192"
  obtain s1 where e: "s' = s\<lparr>thr := thr (init_contexts vb ?cs 0 (unat cpus) s1),
    vmb := (vmb s)(vb := vmblock0\<lparr>vm_vmidx := of_nat i, max_cpus := cpus, num_ints := nints, vm_trapmask := -1, vm_tlbidxmask := -1,
      parent := (if me \<noteq> NULL then id (thr s me) else id_of_raw 0), contexts := ?cs,
      free_threads := (if cpus = 0 then NULL else ?cs + (unat cpus - 1) * CONTEXT_SIZE),
      intinfo := (PERCPU_INTERRUPTS, H2K_vm_cpuint_ops) # (if nints > 0 then [(nints, H2K_vm_shint_ops)] else []) @ [(-1, H2K_vm_badint_ops)],
      int_v2p := Some (\<lambda>_. 0)\<rparr>)\<rparr>" and s1: "thr s1 = thr s" "vm_vmidx (vmb s1 vb) = of_nat i" "free_threads (vmb s1 vb) = NULL"
    using fill_vmblock_eq [OF assms(1-3), of me] unfolding s'_def by (elim exE conjE)
  show "s' = s\<lparr>thr := thr s', vmb := vmb s'\<rparr>" "\<And>w. w \<noteq> vb \<Longrightarrow> vmb s' w = vmb s w" by (simp_all add: e)
  have c: "context_of vb j s' = ?cs + j * CONTEXT_SIZE" for j by (simp add: context_of_def e)
  have fr: "thr s' (?cs + j * CONTEXT_SIZE) = fresh_context vb (of_nat i) j (if j = 0 then NULL else ?cs + (j - 1) * CONTEXT_SIZE)"
    if "j < unat cpus" for j using init_contexts_fresh [of 0 j "unat cpus" vb ?cs s1] that by (simp add: e s1)
  have lt: "j < 65536" if "j < unat cpus" for j using that vm_paramsD(1) [OF assms(1)] by simp
  have ci: "unat (of_nat j :: 16 word) = j" if "j < unat cpus" for j using lt [OF that] by (simp add: unat_of_nat)
  have vi: "unat (ucast (of_nat i :: u32) :: 6 word) = i" using b(2) by (simp add: unsigned_ucast_eq unat_of_nat take_bit_eq_mod)
  have "linked s' (free_threads (vmb s' vb)) (rev (map (\<lambda>j. ?cs + j * CONTEXT_SIZE) [0..<unat cpus]))"
    using linked_contexts [of "unat cpus" s' ?cs] fr by (simp add: fresh_context_def e unat_eq_0)
  then show "new_vm vb i cpus nints (if me \<noteq> NULL then id (thr s me) else id_of_raw 0) s'"
    unfolding new_vm_def Let_def c using fr ci vi
    by (simp add: cpus_ok_def c intinfo_ok_def fresh_context_def thread0_def) (simp add: e vmblock0_def mapped_def)
  show "thr s' u = thr s u" if "u < vb \<or> vb + unat (VMBLOCK_SIZE cpus nints) \<le> u" for u
  proof -
    have "thr (init_contexts vb ?cs 0 (unat cpus) s1) u = thr s1 u"
      by (rule init_contexts_outside) (use that size_unat [OF assms(1)] in \<open>auto simp: CONTEXT_SIZE_def\<close>)
    then show ?thesis by (simp add: e s1)
  qed
qed

lemma alloc_frame:
  assumes "heap_rep s bs" "H2K_mem_alloc_get r s = Some (s', p, sz)"
  shows "s' = s\<lparr>alloc_heap := alloc_heap s'\<rparr>"
  using assms alloc_search_spec [of s "ALLOC_UNIT - 1" False bs r]
  by (auto simp: H2K_mem_alloc_get_def heap_rep_def Let_def split: if_splits)

lemma free_frame: "H2K_mem_alloc_free p s = s\<lparr>alloc_heap := alloc_heap (H2K_mem_alloc_free p s)\<rparr>"
  by (simp add: H2K_mem_alloc_free_def H2K_mem_alloc_free_spinlocked_def split_beta)

lemma free_slot_None: "free_slot s = None \<longleftrightarrow> (\<forall>i. 1 \<le> i \<and> i < 64 \<longrightarrow> vmblocks s i \<noteq> NULL)"
  by (auto simp: free_slot_def find_None_iff H2K_ID_MAX_VMS_def)

lemma free_slot_Some:
  assumes "free_slot s = Some i"
  shows "1 \<le> i" "i < 64" "vmblocks s i = NULL" "\<And>j. 1 \<le> j \<Longrightarrow> j < i \<Longrightarrow> vmblocks s j \<noteq> NULL"
proof -
  obtain k where k: "k < 63" "vmblocks s ([1..<64] ! k) = NULL" "i = [1..<64] ! k" "\<And>j. j < k \<Longrightarrow> vmblocks s ([1..<64] ! j) \<noteq> NULL"
    using assms by (auto simp: free_slot_def find_Some_iff H2K_ID_MAX_VMS_def)
  then have i: "i = Suc k" by (simp add: nth_upt)
  show "1 \<le> i" "i < 64" "vmblocks s i = NULL" using k(1-3) i by simp_all
  fix j :: nat
  assume "1 \<le> j" "j < i"
  then have "[1..<64] ! (j - 1) = j" "j - 1 < k" using i k(1) by (simp_all add: nth_upt)
  then show "vmblocks s j \<noteq> NULL" using k(4) [of "j - 1"] by simp
qed

text \<open>The result of an allocation, as the creation of a VM uses it.\<close>

lemma alloc_block:
  assumes "heap_rep s bs" "alloc_base s + 4 * (total bs + 8) \<le> 2 ^ 32"
  shows "\<exists>s1 vb. H2K_mem_alloc r s = Some (s1, vb) \<and> s1 = s\<lparr>alloc_heap := alloc_heap s1\<rparr> \<and>
    (if \<forall>b\<in>set bs. \<not> fits r b then vb = NULL \<and> s1 = s
     else vb \<noteq> NULL \<and> vb + unat r \<le> 2 ^ 32 \<and> heap_rep (H2K_mem_alloc_free vb s1) bs)"
proof -
  obtain s1 vb sz where g: "H2K_mem_alloc_get r s = Some (s1, vb, sz)" and c: "if \<forall>b\<in>set bs. \<not> fits r b then vb = NULL \<and> sz = 0 \<and> s1 = s
     else \<exists>as n cs. bs = as @ (n, True) # cs \<and> (\<forall>b\<in>set as. \<not> fits r b) \<and> fits r (n, True) \<and>
       vb = tag_to_ptr s (ALLOC_UNIT - 1 + total as) \<and> unat r \<le> unat sz \<and>
       unat sz = 4 * (fst (hd (take_spec r n)) - 1) \<and> alloc_base s1 = alloc_base s \<and> heap_rep s1 (as @ take_spec r n @ cs)"
    using get_spec [OF assms(1), of r] by (elim exE conjE)
  have a: "H2K_mem_alloc r s = Some (s1, vb)" using g by (simp add: H2K_mem_alloc_def)
  have b: "vb \<noteq> NULL \<and> vb + unat r \<le> 2 ^ 32 \<and> heap_rep (H2K_mem_alloc_free vb s1) bs" if "\<not> (\<forall>b\<in>set bs. \<not> fits r b)"
  proof -
    from c that obtain as n cs where A: "bs = as @ (n, True) # cs" "fits r (n, True)" "vb = tag_to_ptr s (ALLOC_UNIT - 1 + total as)" by auto
    have "vb \<noteq> NULL" by (simp add: A(3) tag_to_ptr_def)
    moreover have "vb + unat r \<le> 2 ^ 32" using A(2) assms(2) by (simp add: A(1,3) tag_to_ptr_def fits_def ALLOC_UNIT_def)
    ultimately show ?thesis using get_free [OF assms(1) g] by blast
  qed
  show ?thesis using a alloc_frame [OF assms(1) g] b c by (intro exI [of _ s1] exI [of _ vb]) (simp split: if_splits)
qed

text \<open>The creation once memory is found: the rest of the operation, with its two outcomes.\<close>

definition create_at :: "ptr \<Rightarrow> u32 \<Rightarrow> u32 \<Rightarrow> ptr \<Rightarrow> H2K_kg_t \<Rightarrow> H2K_kg_t \<times> u32" where
  "create_at vb cpus nints me s1 =
     (let s2 = BKL_LOCK (H2K_bzero_vmblock vb s1)
      in case free_slot s2 of
           None \<Rightarrow> (H2K_mem_alloc_free vb (BKL_UNLOCK s2), 0)
         | Some i \<Rightarrow>
             let s3 = upd_vmb vb (vm_vmidx_update (\<lambda>_. of_nat i)) (s2\<lparr>vmblocks := (vmblocks s2)(i := vb)\<rparr>);
                 s4 = fill_vmblock vb cpus nints me (BKL_UNLOCK s3)
             in (s4, vm_vmidx (vmb s4 vb)))"

lemma cpus_ints_create:
  "H2K_config_vmblock_init_cpus_ints cpus nints me s =
     (if cpus > H2K_ID_MAX_CPUS \<or> nints > MAX_VM_INTS then Some (s, 0)
      else case H2K_mem_alloc (VMBLOCK_SIZE cpus nints) s of
             None \<Rightarrow> None
           | Some (s1, vb) \<Rightarrow> if vb = NULL then Some (s1, 0) else Some (create_at vb cpus nints me s1))"
  by (auto simp: H2K_config_vmblock_init_cpus_ints_def create_at_def Let_def split: option.splits prod.splits)

lemma zeroed:
  fixes vb :: ptr and s1 :: H2K_kg_t
  defines "s2 \<equiv> BKL_LOCK (H2K_bzero_vmblock vb s1)"
  shows "vmblocks s2 = vmblocks s1" "thr s2 = thr s1" "alloc_heap s2 = alloc_heap s1" "alloc_base s2 = alloc_base s1"
    "vmb s2 = (vmb s1)(vb := vmblock0)" "free_slot s2 = free_slot s1"
  by (simp_all add: s2_def BKL_LOCK_def H2K_bzero_vmblock_def upd_vmb_def free_slot_def)

lemma create_no_slot:
  assumes "free_slot s1 = None" "heap_rep (H2K_mem_alloc_free vb s1) bs"
  shows "\<exists>s'. create_at vb cpus nints me s1 = (s', 0) \<and> heap_rep s' bs \<and> vmblocks s' = vmblocks s1 \<and> thr s' = thr s1 \<and> \<not> bkl s'"
proof -
  let ?s2 = "BKL_LOCK (H2K_bzero_vmblock vb s1)" and ?s' = "H2K_mem_alloc_free vb (BKL_UNLOCK (BKL_LOCK (H2K_bzero_vmblock vb s1)))"
  have "alloc_heap ?s' = alloc_heap (H2K_mem_alloc_free vb s1)"
    by (simp add: H2K_mem_alloc_free_def H2K_mem_alloc_free_spinlocked_def split_beta ptr_to_tag_def BKL_UNLOCK_def zeroed)
  then have "heap_rep ?s' bs" using assms(2) by (simp add: heap_rep_def)
  moreover have "vmblocks ?s' = vmblocks s1" "thr ?s' = thr s1" "\<not> bkl ?s'" by (subst free_frame, simp add: BKL_UNLOCK_def BKL_LOCK_def H2K_bzero_vmblock_def upd_vmb_def)+
  moreover have "create_at vb cpus nints me s1 = (?s', 0)" using assms(1) by (simp add: create_at_def zeroed Let_def)
  ultimately show ?thesis by blast
qed

lemma create_slot:
  fixes me :: ptr
  assumes "vm_params cpus nints" "vb + unat (VMBLOCK_SIZE cpus nints) \<le> 2 ^ 32" "free_slot s1 = Some i"
  defines "par \<equiv> if me \<noteq> NULL then id (thr s1 me) else id_of_raw 0"
  shows "\<exists>s'. create_at vb cpus nints me s1 = (s', of_nat i) \<and> vmblocks s' = (vmblocks s1)(i := vb) \<and> new_vm vb i cpus nints par s' \<and> \<not> bkl s' \<and>
    (\<forall>u. u < vb \<or> vb + unat (VMBLOCK_SIZE cpus nints) \<le> u \<longrightarrow> thr s' u = thr s1 u) \<and> (\<forall>w. w \<noteq> vb \<longrightarrow> vmb s' w = vmb s1 w)"
proof -
  let ?s2 = "BKL_LOCK (H2K_bzero_vmblock vb s1)"
  define s3 where "s3 = BKL_UNLOCK (upd_vmb vb (vm_vmidx_update (\<lambda>_. of_nat i)) (?s2\<lparr>vmblocks := (vmblocks ?s2)(i := vb)\<rparr>))"
  have s3: "vmb s3 = (vmb s1)(vb := vmblock0\<lparr>vm_vmidx := of_nat i\<rparr>)" "thr s3 = thr s1" "vmblocks s3 = (vmblocks s1)(i := vb)" "\<not> bkl s3"
    by (simp_all add: s3_def BKL_UNLOCK_def BKL_LOCK_def H2K_bzero_vmblock_def upd_vmb_def)
  let ?s' = "fill_vmblock vb cpus nints me s3"
  have b3: "vmb s3 vb = vmblock0\<lparr>vm_vmidx := of_nat i\<rparr>" by (simp add: s3)
  note f = fill_vmblock_spec [OF assms(1,2) b3 free_slot_Some(2) [OF assms(3)], where me = me]
  have n: "new_vm vb i cpus nints par ?s'" using f(1) unfolding par_def s3(2) .
  then have "create_at vb cpus nints me s1 = (?s', of_nat i)" using assms(3) by (simp add: create_at_def zeroed s3_def Let_def new_vm_def)
  moreover have "vmblocks ?s' = (vmblocks s1)(i := vb)" "\<not> bkl ?s'" by (subst f(4), simp add: s3)+
  moreover have "\<forall>u. u < vb \<or> vb + unat (VMBLOCK_SIZE cpus nints) \<le> u \<longrightarrow> thr ?s' u = thr s1 u" using f(2) by (simp add: s3)
  moreover have "\<forall>w. w \<noteq> vb \<longrightarrow> vmb ?s' w = vmb s1 w" using f(3) by (simp add: s3)
  ultimately show ?thesis using n by blast
qed


definition vm_heap_example :: H2K_kg_t where
  "vm_heap_example = H2K_mem_alloc_init 0x1000 4096 kg0"

lemma vm_heap_example_facts:
  "heap_rep vm_heap_example [(4088, True)]" "alloc_base vm_heap_example = 0x1000" "vmblocks vm_heap_example = (\<lambda>_. NULL)"
  "fits (VMBLOCK_SIZE 2 40) (4088, True)"
  using init_rep [of 4096 "0x1000" kg0] size_unat [of 2 40]
  by (simp_all add: vm_heap_example_def H2K_mem_alloc_init_def Let_def kg0_def fits_def vm_params_def H2K_ID_MAX_CPUS_def MAX_VM_INTS_def mask_words_def)


section \<open>Fences\<close>



end
