(* ===== verification/Thread_Correct.thy ===== *)
theory Thread_Correct
  imports Vmtrap Timer_Correct
begin

text \<open>
  Creating and stopping threads (\<^verbatim>\<open>kernel/thread\<close>): both keep the kernel invariant, a new thread
  enters the ready list with the registers it was asked for, and a stopped one is back on the
  list of free contexts of its VM.
\<close>

section \<open>Threads in no queue\<close>

text \<open>A thread that neither runs nor is queued may change in every way that leaves it so.\<close>

abbreviation idle :: "H2K_thread_context \<Rightarrow> bool" where
  "idle c \<equiv> status c \<notin> {H2K_STATUS_RUNNING, H2K_STATUS_READY, H2K_STATUS_BLOCKED}"

lemma kinv_idle:
  assumes inv: "kinv s rq fq" and i: "idle (thr s t)" "idle (thr s' t)" and same: "\<And>u. u \<noteq> t \<Longrightarrow> tview (thr s' u) = tview (thr s u)"
    and f: "ready s' = ready s" "ready_valids s' = ready_valids s" "runlist s' = runlist s" "runlist_prios s' = runlist_prios s"
      "hthreads s' = hthreads s" "wait_mask s' = wait_mask s" "priomask s' = priomask s" "imask s' = imask s" "futexhash s' = futexhash s"
  shows "kinv s' rq fq"
proof -
  have I: "sched_inv s rq" "futex_rep s fq" using inv by (auto simp: kinv_def)
  note R = sched_invD(1) [OF I(1)] and L = sched_invD(3) [OF I(1)]
  have eq: "tview (thr s' u) = tview (thr s u)" if "\<not> idle (thr s u) \<or> \<not> idle (thr s' u)" for u using that same [of u] i by (cases "u = t") auto
  have q: "tview (thr s' u) = tview (thr s u)" if "p < 256" "u \<in> set (rq p)" for p u using ready_repD(4) [OF R that] eq by simp
  have "is_ring (thr s') (ready s p) (rq p)" if "p < 256" for p
    using ready_repD(1) [OF R that] by (rule is_ring_frame) (use q that in \<open>auto simp: tview_def\<close>)
  moreover have "prio (thr s' u) = prio (thr s u) \<and> status (thr s' u) = status (thr s u)" if "p < 256" "u \<in> set (rq p)" for p u
    using q [OF that] by (simp add: tview_def)
  ultimately have R': "ready_rep s' rq" using R by (simp add: ready_rep_def f)
  have "slot_ok s' h" if "h < unat (hthreads s)" for h
    using runlist_okD(1) [OF L that] eq [of "runlist s h"] by (auto simp: slot_ok_def f tview_def split: if_splits)
  moreover have "status (thr s u) = H2K_STATUS_RUNNING \<and> hthread (thr s' u) = hthread (thr s u)" if "status (thr s' u) = H2K_STATUS_RUNNING" for u
    using eq [of u] that by (simp add: tview_def)
  ultimately have "runlist_ok s'" using runlist_okD [OF L] by (simp add: runlist_ok_def f)
  moreover have "u \<in> rq_threads rq" if "status (thr s' u) = H2K_STATUS_READY" for u
    using sched_invD(2) [OF I(1), of u] eq [of u] that by (simp add: tview_def)
  moreover have "lowprio_ok s'" "steer_ok s'" using sched_invD(4,5) [OF I(1)] by (simp_all add: lowprio_ok_def steer_ok_def f)
  moreover have "futex_rep s' fq"
  proof (rule futex_rep_keep [OF I(2) f(9)])
    show "tview (thr s' u) = tview (thr s u)" if "status (thr s u) = H2K_STATUS_BLOCKED" for u using eq [of u] that by simp
    show "status (thr s u) = H2K_STATUS_BLOCKED" if "status (thr s' u) = H2K_STATUS_BLOCKED" for u using eq [of u] that by (simp add: tview_def)
  qed
  ultimately show ?thesis using R' by (simp add: kinv_def sched_inv_def)
qed

section \<open>Creating a thread\<close>

lemma asid_inc_frame:
  "kview (fst (H2K_asid_table_inc p t f x vb s)) = kview s" "thr (fst (H2K_asid_table_inc p t f x vb s)) = thr s"
  "vmb (fst (H2K_asid_table_inc p t f x vb s)) = vmb s" "bkl (fst (H2K_asid_table_inc p t f x vb s)) = bkl s"
  by (auto simp: H2K_asid_table_inc_def H2K_do_asid_table_inc_def H2K_asid_table_eviction_def H2K_mem_stlb_invalidate_asid_def
      H2K_mem_tlb_invalidate_asid_def Let_def kview_def split: option.splits prod.splits)

lemma asid_inc_fail:
  assumes "snd (H2K_asid_table_inc p t f x vb s) = -1"
  shows "t \<ge> 4 \<or> (\<forall>j<128. count (asid_table s j) \<noteq> 0)"
  using assms evict_none [of p s]
  by (auto simp: H2K_asid_table_inc_def H2K_do_asid_table_inc_def Let_def split: if_splits option.splits prod.splits)

text \<open>The state of a thread that has just been created.\<close>

definition created :: "u32 \<Rightarrow> u32 \<Rightarrow> u32 \<Rightarrow> u32 \<Rightarrow> ptr \<Rightarrow> H2K_thread_context \<Rightarrow> bool" where
  "created pc sp arg1 p vb c \<longleftrightarrow> elr c = pc \<and> r29 c = sp \<and> r00 c = arg1 \<and> prio c = ucast p \<and> base_prio c = ucast p \<and>
     status c = H2K_STATUS_READY \<and> vmblock c = vb \<and> vmstatus c = 0 \<and> ssr_guest c \<and> bit (ssr c) SSR_UM_BIT"

lemma created_more: "ringnode.more a = ringnode.more b \<Longrightarrow> created pc sp arg1 p vb a = created pc sp arg1 p vb b"
  by (cases a; cases b) (simp add: created_def)

definition bad_start :: "u32 \<Rightarrow> u32 \<Rightarrow> u32 \<Rightarrow> ptr \<Rightarrow> H2K_kg_t \<Rightarrow> bool" where
  "bad_start pc sp p vb s \<longleftrightarrow> p > MAX_PRIO \<or> p < bestprio (vmb s vb) \<or> sp AND 7 \<noteq> 0 \<or> pc AND 3 \<noteq> 0"


text \<open>The steps of a creation up to the address space, and what follows once that is found.\<close>

definition prepared :: "u32 \<Rightarrow> u32 \<Rightarrow> u32 \<Rightarrow> u32 \<Rightarrow> u32 \<Rightarrow> ptr \<Rightarrow> ptr \<Rightarrow> H2K_kg_t \<Rightarrow> H2K_kg_t" where
  "prepared pc sp arg1 p ge vb me s =
     (let tmp = free_threads (vmb s vb); s2 = upd_vmb vb (free_threads_update (\<lambda>_. next (thr s tmp))) (BKL_LOCK s)
      in upd_thr tmp (init_context pc sp arg1 p ge vb me s2) s2)"

definition launch :: "ptr \<Rightarrow> ptr \<Rightarrow> u8 \<Rightarrow> H2K_kg_t \<Rightarrow> H2K_kg_t" where
  "launch tmp vb asid s =
     upd_thr tmp (vmblock_update (\<lambda>_. vb)) (upd_vmb vb (\<lambda>v. v\<lparr>num_cpus := num_cpus v + 1\<rparr>) (upd_thr tmp (start_ssr asid) s))"

lemma thread_create_steps:
  fixes vb :: ptr and s :: H2K_kg_t
  defines "tmp \<equiv> free_threads (vmb s vb)"
  assumes "\<not> bad_start pc sp p vb s" "tmp \<noteq> NULL" "inherit_space vb me s = (pt, ty, ext, ge)"
    "H2K_asid_table_inc pt ty False ext vb (prepared pc sp arg1 p ge vb me s) = (s4, asid)"
  shows "H2K_thread_create_no_squash pc sp arg1 p vb me s =
    (if asid = -1 then (BKL_UNLOCK (upd_vmb vb (free_threads_update (\<lambda>_. tmp)) s4), -1)
     else let s8 = H2K_ready_append tmp (launch tmp vb (word_of_int asid) s4)
          in map_prod (\<lambda>x. x) ucast (H2K_check_sanity_unlock (ucast (id_raw (id (thr s8 tmp)))) s8))"
  using assms
  by (simp add: H2K_thread_create_no_squash_def bad_start_def prepared_def launch_def Let_def BKL_LOCK_def H2K_id_from_context_def
      split_beta map_prod_def)

lemma prepared_facts:
  fixes vb :: ptr and s :: H2K_kg_t
  defines "tmp \<equiv> free_threads (vmb s vb)"
  assumes inv: "kinv s rq fq" and i: "idle (thr s tmp)"
  shows "kinv (prepared pc sp arg1 p ge vb me s) rq fq"
    "thr (prepared pc sp arg1 p ge vb me s) u = (if u = tmp
       then init_context pc sp arg1 p ge vb me (upd_vmb vb (free_threads_update (\<lambda>_. next (thr s tmp))) (BKL_LOCK s)) (thr s tmp) else thr s u)"
    "vmb (prepared pc sp arg1 p ge vb me s) = (vmb s)(vb := (vmb s vb)\<lparr>free_threads := next (thr s tmp)\<rparr>)"
proof -
  show t: "thr (prepared pc sp arg1 p ge vb me s) u = (if u = tmp
       then init_context pc sp arg1 p ge vb me (upd_vmb vb (free_threads_update (\<lambda>_. next (thr s tmp))) (BKL_LOCK s)) (thr s tmp) else thr s u)" for u
    by (simp add: prepared_def Let_def tmp_def BKL_LOCK_def)
  show "vmb (prepared pc sp arg1 p ge vb me s) = (vmb s)(vb := (vmb s vb)\<lparr>free_threads := next (thr s tmp)\<rparr>)"
    by (simp add: prepared_def Let_def tmp_def BKL_LOCK_def upd_vmb_def)
  show "kinv (prepared pc sp arg1 p ge vb me s) rq fq"
    by (rule kinv_idle [OF inv i]) (use i in \<open>simp_all add: t init_context_def\<close>, simp_all add: prepared_def Let_def BKL_LOCK_def upd_thr_def upd_vmb_def)
qed

lemma launch_facts:
  "kview (launch tmp vb a s) = kview s"
  "thr (launch tmp vb a s) u = (if u = tmp then (start_ssr a (thr s tmp))\<lparr>vmblock := vb\<rparr> else thr s u)"
  "vmb (launch tmp vb a s) = (vmb s)(vb := (vmb s vb)\<lparr>num_cpus := num_cpus (vmb s vb) + 1\<rparr>)"
  by (auto simp: launch_def kview_def tview_def upd_thr_def upd_vmb_def start_ssr_def fun_eq_iff)

lemma launched:
  fixes p :: u32 and a :: u8 and x :: u64 and vb :: ptr
  assumes k: "kinv s rq fq" and i: "idle (thr s tmp)" "tmp \<noteq> NULL" and run: "status (thr s c) = H2K_STATUS_RUNNING"
    and p: "prio (thr s tmp) = ucast p" "p \<le> MAX_PRIO"
  defines "s8 \<equiv> H2K_ready_append tmp (launch tmp vb a s)"
  defines "s9 \<equiv> fst (H2K_check_sanity_unlock x s8)"
  shows "kinv s9 (rq(unat p := rq (unat p) @ [tmp])) fq" "\<not> bkl s9" "snd (H2K_check_sanity_unlock x s8) = x"
    "vmb s9 = (vmb s)(vb := (vmb s vb)\<lparr>num_cpus := num_cpus (vmb s vb) + 1\<rparr>)" "thr s9 = thr s8"
    "ringnode.more (thr s8 u) = ringnode.more (if u = tmp then (start_ssr a (thr s tmp))\<lparr>vmblock := vb, status := H2K_STATUS_READY\<rparr> else thr s u)"
proof -
  note L = launch_facts [of tmp vb a s]
  have pr: "unat (ucast p :: u8) = unat p" using p(2)
    by (simp add: MAX_PRIO_def unsigned_ucast_eq take_bit_nat_eq_self word_le_nat_alt)
  have k8: "kinv s8 (rq(unat p := rq (unat p) @ [tmp])) fq"
    using kinv_ready [OF kinv_view [OF k L(1)] _ i(2)] i p(1) by (simp add: s8_def L(2) start_ssr_def pr)
  show m8: "ringnode.more (thr s8 u) = ringnode.more (if u = tmp then (start_ssr a (thr s tmp))\<lparr>vmblock := vb, status := H2K_STATUS_READY\<rparr> else thr s u)" for u
    unfolding s8_def using ready_append_more [of tmp "launch tmp vb a s" u] by (simp add: L(2))
  have r8: "status (thr s8 c) = H2K_STATUS_RUNNING" using more_eqD(2) [OF m8 [of c]] run i(1) by auto
  show "kinv s9 (rq(unat p := rq (unat p) @ [tmp])) fq" "\<not> bkl s9" "snd (H2K_check_sanity_unlock x s8) = x" "thr s9 = thr s8"
    unfolding s9_def using kinv_sanity_unlock [OF k8 r8, of x] by simp_all
  show "vmb s9 = (vmb s)(vb := (vmb s vb)\<lparr>num_cpus := num_cpus (vmb s vb) + 1\<rparr>)"
    using kinv_sanity(3) [OF k8 r8, of x] L(3) sched_rest_eqD(1) [OF sched_rest_queue(2) [of tmp "launch tmp vb a s"], folded s8_def]
    by (simp add: s9_def H2K_check_sanity_unlock_def split_beta)
qed

lemma thread_create_spec:
  fixes pc sp arg1 p :: u32 and vb me :: ptr
  assumes inv: "kinv s rq fq" and run: "status (thr s c) = H2K_STATUS_RUNNING" and dead: "free_threads (vmb s vb) \<noteq> NULL \<longrightarrow> idle (thr s (free_threads (vmb s vb)))"
  defines "tmp \<equiv> free_threads (vmb s vb)" and "r \<equiv> H2K_thread_create_no_squash pc sp arg1 p vb me s"
  shows "if bad_start pc sp p vb s then r = (s, -1)
    else \<not> bkl (fst r) \<and>
      (snd r = -1 \<and> kinv (fst r) rq fq \<and> free_threads (vmb (fst r) vb) = tmp \<and> num_cpus (vmb (fst r) vb) = num_cpus (vmb s vb) \<and>
         (\<forall>u. u \<noteq> tmp \<longrightarrow> thr (fst r) u = thr s u) \<and> (tmp = NULL \<or> (\<forall>j<128. count (asid_table s j) \<noteq> 0) \<or> fst (snd (inherit_space vb me s)) \<ge> 4)
       \<or> tmp \<noteq> NULL \<and> snd r = id_raw (id (thr s tmp)) \<and> kinv (fst r) (rq(unat p := rq (unat p) @ [tmp])) fq \<and>
         free_threads (vmb (fst r) vb) = next (thr s tmp) \<and> num_cpus (vmb (fst r) vb) = num_cpus (vmb s vb) + 1 \<and>
         created pc sp arg1 p vb (thr (fst r) tmp) \<and> (\<forall>u. u \<noteq> tmp \<longrightarrow> ringnode.more (thr (fst r) u) = ringnode.more (thr s u)))"
proof (cases "bad_start pc sp p vb s")
  case True
  then have "r = (s, -1)" by (auto simp: r_def H2K_thread_create_no_squash_def bad_start_def split_beta Let_def)
  with True show ?thesis by simp
next
  case ok: False
  obtain pt ty ext ge where inh: "inherit_space vb me s = (pt, ty, ext, ge)" by (cases "inherit_space vb me s")
  show ?thesis
  proof (cases "tmp = NULL")
    case True
    then have "r = (BKL_UNLOCK (BKL_LOCK s), -1)" using ok inh by (simp add: r_def H2K_thread_create_no_squash_def bad_start_def Let_def tmp_def)
    then show ?thesis using ok True kinv_locks [OF kinv_locks(1) [OF inv]] by (simp add: tmp_def)
  next
    case tmp: False
    then have i: "idle (thr s tmp)" using dead by (simp add: tmp_def)
    obtain s4 asid where a: "H2K_asid_table_inc pt ty False ext vb (prepared pc sp arg1 p ge vb me s) = (s4, asid)" by fastforce
    note P = prepared_facts [OF inv i [unfolded tmp_def], folded tmp_def, where pc = pc and sp = sp and ?arg1.0 = arg1 and p = p and ge = ge and me = me]
    note F = asid_inc_frame [of pt ty False ext vb "prepared pc sp arg1 p ge vb me s", unfolded a fst_conv]
    have k4: "kinv s4 rq fq" by (rule kinv_view [OF P(1) F(1)])
    have res: "r = (if asid = -1 then (BKL_UNLOCK (upd_vmb vb (free_threads_update (\<lambda>_. tmp)) s4), -1)
     else let s8 = H2K_ready_append tmp (launch tmp vb (word_of_int asid) s4)
          in map_prod (\<lambda>x. x) ucast (H2K_check_sanity_unlock (ucast (id_raw (id (thr s8 tmp)))) s8))"
      unfolding r_def tmp_def by (rule thread_create_steps [OF ok _ inh a]) (use tmp in \<open>simp add: tmp_def\<close>)
    show ?thesis
    proof (cases "asid = -1")
      case True
      have "ty \<ge> 4 \<or> (\<forall>j<128. count (asid_table s j) \<noteq> 0)"
        using asid_inc_fail [of pt ty False ext vb "prepared pc sp arg1 p ge vb me s"] a True
        by (simp add: prepared_def Let_def upd_thr_def upd_vmb_def BKL_LOCK_def)
      moreover have "kinv (BKL_UNLOCK (upd_vmb vb (free_threads_update (\<lambda>_. tmp)) s4)) rq fq" by (rule kinv_view [OF k4]) simp
      ultimately show ?thesis using ok True res inh F(2,3) P(2,3) by (auto simp: upd_vmb_def)
    next
      case False
      define s8 where "s8 = H2K_ready_append tmp (launch tmp vb (word_of_int asid) s4)"
      have t4: "thr s4 u = (if u = tmp then init_context pc sp arg1 p ge vb me
          (upd_vmb vb (free_threads_update (\<lambda>_. next (thr s tmp))) (BKL_LOCK s)) (thr s tmp) else thr s u)" for u using F(2) P(2) by simp
      have c: "idle (thr s4 tmp)" "status (thr s4 c) = H2K_STATUS_RUNNING" "prio (thr s4 tmp) = ucast p" "p \<le> MAX_PRIO"
        using i run ok by (auto simp: t4 init_context_def bad_start_def)
      note l = launched(1-5) [OF k4 c(1) tmp c(2-4), where x = "ucast (id_raw (id (thr s tmp)))" and vb = vb and a = "word_of_int asid", folded s8_def]
      note m = launched(6) [OF k4 c(1) tmp c(2-4), where vb = vb and a = "word_of_int asid", folded s8_def]
      have "id (thr s8 tmp) = id (thr s tmp)" using more_eqD(4) [OF m [of tmp]] by (simp add: t4 start_ssr_def init_context_def)
      then have "r = map_prod (\<lambda>x. x) ucast (H2K_check_sanity_unlock (ucast (id_raw (id (thr s tmp)))) s8)"
        using res False by (simp add: s8_def)
      then have r: "fst r = fst (H2K_check_sanity_unlock (ucast (id_raw (id (thr s tmp)))) s8)" "snd r = id_raw (id (thr s tmp))"
        using l(3) by (simp_all add: map_prod_def split_beta ucast_down_ucast_id is_down)
      have cr: "created pc sp arg1 p vb (thr s8 tmp)" using created_more [OF m [of tmp]]
        by (simp add: t4 created_def init_context_def start_ssr_def set_ssr_asid_def bit_simps SSR_GUEST_BIT_def SSR_UM_BIT_def)
      show ?thesis using ok tmp l(1,2,4,5) m cr F(3) P(3) unfolding r by (simp add: t4)
    qed
  qed
qed


text \<open>The example VM with a free context at 660.\<close>

definition create_example :: H2K_kg_t where
  "create_example = upd_vmb 7 (free_threads_update (\<lambda>_. 660)) vm_example"

lemma create_example_facts:
  "kinv create_example (\<lambda>_. []) ((\<lambda>_. [])(15 := [30, 31]))" "status (thr create_example 20) = H2K_STATUS_RUNNING"
  "free_threads (vmb create_example 7) = 660" "idle (thr create_example 660)" "\<not> bad_start 0x2000 0x1000 3 7 create_example"
  "count (asid_table create_example 0) = 0" "fst (snd (inherit_space 7 20 create_example)) = 2"
  by (rule kinv_view [OF vm_example_inv], simp add: create_example_def,
      simp_all add: create_example_def vm_example_vm, simp_all add: vm_example_def futex_example_def sched_base_def thread0_def bad_start_def
      vmblock0_def MAX_PRIO_def upd_vmb_def kg0_def asid_entry0_def inherit_space_def)


section \<open>Stopping a thread\<close>

text \<open>The state in which the scheduler is called, once the timeout of the thread is withdrawn.\<close>

definition retired :: "ptr \<Rightarrow> ptr \<Rightarrow> u32 \<Rightarrow> H2K_kg_t \<Rightarrow> H2K_kg_t" where
  "retired vb me st s =
     (let s2 = H2K_runlist_remove me s; s3 = H2K_asid_table_dec (ssr_asid (thr s2 me)) s2;
          s4 = H2K_thread_context_clear me s3; s5 = upd_thr me (next_update (\<lambda>_. free_threads (vmb s4 vb))) s4
      in upd_vmb vb (\<lambda>v. v\<lparr>free_threads := me, num_cpus := num_cpus v - 1, vm_status := st\<rparr>) s5)"

lemma retired_eq:
  "retired vb me st s = s\<lparr>
     thr := (thr s)(me := thread0\<lparr>id := id (thr s me), vmblock := vmblock (thr s me), next := free_threads (vmb s vb)\<rparr>),
     vmb := (vmb s)(vb := (vmb s vb)\<lparr>free_threads := me, num_cpus := num_cpus (vmb s vb) - 1, vm_status := st\<rparr>),
     asid_table := asid_table (H2K_asid_table_dec (ssr_asid (thr s me)) s),
     runlist := (runlist s)(unat (hthread (thr s me)) := NULL), runlist_prios := (runlist_prios s)(unat (hthread (thr s me)) := -1)\<rparr>"
  by (simp add: retired_def Let_def H2K_runlist_remove_def H2K_asid_table_dec_def H2K_thread_context_clear_def upd_thr_def upd_vmb_def)

lemma thread_stop_steps:
  "H2K_thread_stop st me s =
     do {
       s1 \<leftarrow> H2K_timer_cancel_withlock me (BKL_LOCK s);
       let s7 = signal_parent st (vmblock (thr s me)) (retired (vmblock (thr s me)) me st s1);
       H2K_dosched NULL (htid s7) s7
     }"
  by (simp add: H2K_thread_stop_def H2K_thread_stop_withlock_def retired_def Let_def BKL_LOCK_def)

lemma cancel_withlock:
  assumes "timer_inv s xs"
  shows "\<exists>s1. H2K_timer_cancel_withlock me (BKL_LOCK s) = Some s1 \<and> kview s1 = kview s \<and> bkl s1 \<and>
    s1 = s\<lparr>bkl := True, thr := thr s1, timeouts := timeouts s1\<rparr> \<and> (\<forall>u. thr s1 u = (thr s u)\<lparr>tree := tree (thr s1 u)\<rparr>)"
proof -
  have "timer_inv (BKL_LOCK s) xs" using assms by (simp add: timer_inv_def timer_tree_def BKL_LOCK_def)
  from withdraw [OF this, of me] obtain s1 where c: "H2K_timer_cancel_withlock me (BKL_LOCK s) = Some s1" "kview s1 = kview (BKL_LOCK s)" "bkl s1"
    unfolding H2K_timer_cancel_withlock_def by (auto simp: BKL_LOCK_def)
  obtain st where "s1 = BKL_LOCK s \<or> s1 = put_tree st (BKL_LOCK s)"
    using c(1) by (auto simp: H2K_timer_cancel_withlock_def bind_eq_Some_conv split: if_splits)
  then have "s1 = s\<lparr>bkl := True, thr := thr s1, timeouts := timeouts s1\<rparr>" "thr s1 u = (thr s u)\<lparr>tree := tree (thr s1 u)\<rparr>" for u
    by (auto simp: put_tree_def BKL_LOCK_def)
  then show ?thesis using c by (intro exI [of _ s1]) simp
qed

lemma retired_dosched:
  fixes vb me :: ptr and st :: u32
  assumes inv: "kinv s rq fq" and me: "status (thr s me) = H2K_STATUS_RUNNING" and cov: "clusters_cover s"
    and ht: "htid s = ucast (hthread (thr s me))" and l: "bkl s"
  defines "s6 \<equiv> retired vb me st s"
  shows "\<exists>s' new. H2K_dosched NULL (htid s) s6 = Some (s', new) \<and> bkl s' \<and> next_runs NULL new s s' rq fq \<and> vmb s' = vmb s6 \<and>
    (\<forall>u. u \<notin> rq_threads rq \<longrightarrow> thr s' u = thr s6 u)"
proof -
  note E = retired_eq [of vb me st s, folded s6_def]
  have f6: "ready s6 = ready s" "ready_valids s6 = ready_valids s" "hthreads s6 = hthreads s"
    "wait_mask s6 = wait_mask s" "priomask s6 = priomask s" "imask s6 = imask s" "htid s6 = htid s" "futexhash s6 = futexhash s"
    "runlist s6 = (runlist s)(unat (hthread (thr s me)) := NULL)" "runlist_prios s6 = (runlist_prios s)(unat (hthread (thr s me)) := -1)"
    "cluster_sched s6 = cluster_sched s" "bkl s6" using l by (simp_all add: E)
  have t6: "thr s6 u = (if u = me then thread0\<lparr>id := id (thr s me), vmblock := vmblock (thr s me), next := free_threads (vmb s vb)\<rparr> else thr s u)" for u
    by (simp add: E)
  have dead: "status (thr s6 me) = H2K_STATUS_DEAD" by (simp add: t6 thread0_def)
  have cov6: "clusters_cover s6" using cov by (simp add: E clusters_cover_def)
  have I: "sched_inv s rq" using inv by (simp add: kinv_def)
  have rq: "u \<noteq> me" if "u \<in> rq_threads rq" for u using ready_repD(4) [OF sched_invD(1) [OF I]] me that by (force simp: rq_threads_def)
  have h: "unat (htid s) = unat (hthread (thr s me))"
    by (simp add: ht unsigned_ucast_eq take_bit_nat_eq_self order_less_trans [OF unsigned_less])
  have "sched_mid (unat (htid s)) s6 rq"
    by (rule giveup_mid [OF I me h]) (use dead rq in \<open>simp_all add: f6\<close>, simp_all add: t6)
  note v = dosched_futexhash(2) [OF sched_midD(1) [OF this] cov6]
  have "\<exists>s' new. H2K_dosched NULL (htid s) s6 = Some (s', new) \<and> bkl s' = bkl s6 \<and> (\<forall>u. u \<notin> rq_threads rq \<longrightarrow> thr s' u = thr s6 u) \<and>
    next_runs NULL new s6 s' rq fq"
    by (rule giveup_kinv [OF inv me cov6 ht]) (use me dead in \<open>simp_all add: f6\<close>, auto simp: t6)
  then obtain s' new where d: "H2K_dosched NULL (htid s) s6 = Some (s', new)" "bkl s' = bkl s6" "\<forall>u. u \<notin> rq_threads rq \<longrightarrow> thr s' u = thr s6 u"
    "next_runs NULL new s s' rq fq" unfolding next_runs_cong [OF f6(11,4)] by (elim exE conjE)
  then show ?thesis using d(1,3) v [OF d(1)] f6(12) by blast
qed

lemma thread_stop_spec:
  fixes me :: ptr
  assumes inv: "kinv s rq fq" and me: "status (thr s me) = H2K_STATUS_RUNNING" and cov: "clusters_cover s"
    and ht: "htid s = ucast (hthread (thr s me))" and tm: "timer_inv s xs" and more: "num_cpus (vmb s (vmblock (thr s me))) \<noteq> 1"
  defines "vb \<equiv> vmblock (thr s me)"
  shows "\<exists>s' new. H2K_thread_stop 0 me s = Some (s', new) \<and> bkl s' \<and> next_runs NULL new s s' rq fq \<and>
    thr s' me = thread0\<lparr>id := id (thr s me), vmblock := vb, next := free_threads (vmb s vb)\<rparr> \<and>
    free_threads (vmb s' vb) = me \<and> num_cpus (vmb s' vb) = num_cpus (vmb s vb) - 1 \<and>
    (\<forall>u. u \<noteq> me \<and> u \<notin> rq_threads rq \<longrightarrow> tview (thr s' u) = tview (thr s u))"
proof -
  obtain s1 where c: "H2K_timer_cancel_withlock me (BKL_LOCK s) = Some s1" "kview s1 = kview s" "bkl s1"
    "s1 = s\<lparr>bkl := True, thr := thr s1, timeouts := timeouts s1\<rparr>" "\<forall>u. thr s1 u = (thr s u)\<lparr>tree := tree (thr s1 u)\<rparr>"
    using cancel_withlock [OF tm, of me] by (elim exE conjE)
  have t1: "vmblock (thr s1 u) = vmblock (thr s u)" "hthread (thr s1 u) = hthread (thr s u)" "status (thr s1 u) = status (thr s u)"
    "id (thr s1 u) = id (thr s u)" "tview (thr s1 u) = tview (thr s u)" for u by (subst c(5) [rule_format], simp add: tview_def)+
  have f1: "vmb s1 = vmb s" "htid s1 = htid s" "cluster_sched s1 = cluster_sched s" "wait_mask s1 = wait_mask s"
    "clusters_cover s1 = clusters_cover s"
    by (subst c(4), simp add: clusters_cover_def)+
  note E = retired_eq [of vb me 0 s1]
  have "signal_parent 0 vb (retired vb me 0 s1) = retired vb me 0 s1" using more [folded vb_def] by (simp add: signal_parent_def E f1)
  then have stop: "H2K_thread_stop 0 me s = H2K_dosched NULL (htid s) (retired vb me 0 s1)"
    using c(1) f1 by (simp add: thread_stop_steps vb_def [symmetric]) (simp add: E f1)
  obtain s' new where d: "H2K_dosched NULL (htid s1) (retired vb me 0 s1) = Some (s', new)" "next_runs NULL new s1 s' rq fq" "bkl s'"
    "vmb s' = vmb (retired vb me 0 s1)" "\<forall>u. u \<notin> rq_threads rq \<longrightarrow> thr s' u = thr (retired vb me 0 s1) u"
    using retired_dosched [OF kinv_view [OF inv c(2)] _ _ _ c(3), of me vb 0] me cov ht t1 f1 by auto
  have notrq: "me \<notin> rq_threads rq" using ready_repD(4) [OF sched_invD(1)] inv me by (fastforce simp: rq_threads_def kinv_def)
  show ?thesis
  proof (intro exI [of _ s'] exI [of _ new] conjI)
    show "H2K_thread_stop 0 me s = Some (s', new)" using stop d(1) f1 by simp
    show "next_runs NULL new s s' rq fq" using d(2) unfolding next_runs_cong [OF f1(3,4)] .
    show "bkl s'" by (rule d(3))
    show "thr s' me = thread0\<lparr>id := id (thr s me), vmblock := vb, next := free_threads (vmb s vb)\<rparr>"
      using d(5) notrq by (simp add: E f1 t1) (simp add: vb_def)
    show "free_threads (vmb s' vb) = me" "num_cpus (vmb s' vb) = num_cpus (vmb s vb) - 1" by (simp_all add: d(4) E f1)
    show "\<forall>u. u \<noteq> me \<and> u \<notin> rq_threads rq \<longrightarrow> tview (thr s' u) = tview (thr s u)" using d(5) by (simp add: E t1)
  qed
qed


lemma stop_example_facts:
  "timer_inv timer_example [340, 20]" "kinv timer_example (\<lambda>_. []) ((\<lambda>_. [])(15 := [30, 31]))"
  "status (thr timer_example 20) = H2K_STATUS_RUNNING" "clusters_cover timer_example" "htid timer_example = ucast (hthread (thr timer_example 20))"
  "num_cpus (vmb timer_example (vmblock (thr timer_example 20))) \<noteq> 1"
  by (simp_all add: timer_example_inv timer_example_thr,
      simp_all add: timer_example_def vm_example_def futex_example_def sched_base_def clusters_cover_def thread0_def kg0_def vmblock0_def)


end
