(* ===== verification/Globals.thy ===== *)
theory Globals
  imports Translate Readylist
begin

text \<open>
  The configuration table (\<^verbatim>\<open>kernel/util/hw/cfg_table.h\<close>), the initialisation of the kernel
  globals and of the scheduling clusters (\<^verbatim>\<open>kernel/data/globals/globals.ref.c\<close>) and the
  information trap (\<^verbatim>\<open>kernel/traps/info/info.ref.c\<close>).

  The build is the one for architecture version 81 and up. \<^verbatim>\<open>HAVE_EXTENSIONS\<close> is an argument of
  the initialisation; so is the identifier of the build. Link address and page size of the kernel
  are the defaults of \<^verbatim>\<open>scripts/Makefile.inc.config\<close>.

  The properties: the masks of the clusters are a partition of the started hardware threads that
  agrees with \<open>H2K_hthread_cluster\<close>, and what a guest can read with the unit query of the
  information trap.
\<close>

section \<open>The configuration table\<close>

definition CFG_TABLE_SHIFT :: nat where "CFG_TABLE_SHIFT = 16"
definition PAGE_BITS :: nat where "PAGE_BITS = 12"

definition H2K_cfg_table :: "H2K_kg_t \<Rightarrow> u32 \<Rightarrow> u32" where
  "H2K_cfg_table s entry = H2K_mem_physread_word s (ucast (push_bit CFG_TABLE_SHIFT (hw_cfgbase s) + entry))"

text \<open>Offsets of the entries.\<close>

definition CFG_TABLE_L2TCM :: u32 where "CFG_TABLE_L2TCM = 0x0"
definition CFG_TABLE_SSBASE :: u32 where "CFG_TABLE_SSBASE = 0x8"
definition CFG_TABLE_CORECFG_BASE :: u32 where "CFG_TABLE_CORECFG_BASE = 0xc"
definition CFG_TABLE_L2REGS :: u32 where "CFG_TABLE_L2REGS = 0x10"
definition CFG_TABLE_CLADEREGS :: u32 where "CFG_TABLE_CLADEREGS = 0x24"
definition CFG_TABLE_COPROC_TYPE :: u32 where "CFG_TABLE_COPROC_TYPE = 0x30"
definition CFG_TABLE_COPROC_CONTEXTS :: u32 where "CFG_TABLE_COPROC_CONTEXTS = 0x34"
definition CFG_TABLE_VTCM_BASE :: u32 where "CFG_TABLE_VTCM_BASE = 0x38"
definition CFG_TABLE_VTCM_SIZE :: u32 where "CFG_TABLE_VTCM_SIZE = 0x3c"
definition CFG_TABLE_L2TAG_SIZE :: u32 where "CFG_TABLE_L2TAG_SIZE = 0x40"
definition CFG_TABLE_L2ARRAY_SIZE :: u32 where "CFG_TABLE_L2ARRAY_SIZE = 0x44"
definition CFG_TABLE_HTHREADS_MASK :: u32 where "CFG_TABLE_HTHREADS_MASK = 0x48"
definition CFG_TABLE_ECC_BASE :: u32 where "CFG_TABLE_ECC_BASE = 0x4c"
definition CFG_TABLE_L2_LINE_SZ :: u32 where "CFG_TABLE_L2_LINE_SZ = 0x50"
definition CFG_TABLE_AUDIO_EXT :: u32 where "CFG_TABLE_AUDIO_EXT = 0x54"
definition CFG_TABLE_DMA_VERSION :: u32 where "CFG_TABLE_DMA_VERSION = 0x68"
definition CFG_TABLE_COPROC_VLENGTH :: u32 where "CFG_TABLE_COPROC_VLENGTH = 0x6c"
definition CFG_TABLE_CORE_ID :: u32 where "CFG_TABLE_CORE_ID = 0x70"
definition CFG_TABLE_CORE_COUNT :: u32 where "CFG_TABLE_CORE_COUNT = 0x74"
definition CFG_TABLE_HMX_INT8_RATE :: u32 where "CFG_TABLE_HMX_INT8_RATE = 0x78"
definition CFG_TABLE_HLX_CONTEXTS :: u32 where "CFG_TABLE_HLX_CONTEXTS = 0x84"
definition CFG_TABLE_L1D_SZ :: u32 where "CFG_TABLE_L1D_SZ = 0xa4"
definition CFG_TABLE_VTCM_BANK_WIDTH :: u32 where "CFG_TABLE_VTCM_BANK_WIDTH = 0xb0"
definition CFG_TABLE_CORECFG_PRESENT :: u32 where "CFG_TABLE_CORECFG_PRESENT = 0xd4"
definition CFG_TABLE_DMA_JTLB_SIZE :: u32 where "CFG_TABLE_DMA_JTLB_SIZE = 0xf0"
definition CFG_TABLE_UNIT_CONFIG_REG_BASE :: u32 where "CFG_TABLE_UNIT_CONFIG_REG_BASE = 0x108"

text \<open>
  The offsets of the entries of a unit block, by type, subtype and entry; the entries without
  an initialiser are 0. An index out of range has no value.
\<close>

definition H2K_unit_offsets :: "u32 list list list" where
  "H2K_unit_offsets = [[[0x0, 0x4, 0x8, 0xc, 0x10, 0x14, 0x18, 0x1c, 0x20, 0x30, 0x34]]]"

definition unit_offset :: "u32 \<Rightarrow> u32 \<Rightarrow> u32 \<Rightarrow> u32 option" where
  "unit_offset type subtype entry =
     (if unat type < length H2K_unit_offsets \<and> unat subtype < length (H2K_unit_offsets ! unat type) \<and>
         unat entry < length (H2K_unit_offsets ! unat type ! unat subtype)
      then Some (H2K_unit_offsets ! unat type ! unat subtype ! unat entry) else None)"

definition H2K_cfg_table_unit_entry :: "H2K_kg_t \<Rightarrow> u32 \<Rightarrow> u32 \<Rightarrow> u32 option" where
  "H2K_cfg_table_unit_entry s unit entry =
     (let base = push_bit CFG_TABLE_SHIFT (hw_cfgbase s) + unit;
          type = H2K_mem_physread_word s (ucast base);
          subtype = H2K_mem_physread_word s (ucast (base + 0x4))
      in map_option (\<lambda>off. H2K_mem_physread_word s (ucast (base + off))) (unit_offset type subtype entry))"

section \<open>Initialisation of the globals\<close>

definition popcount :: "'a::len word \<Rightarrow> nat" where
  "popcount w = length (filter (bit w) [0..<LENGTH('a)])"

text \<open>The fields of the core revision.\<close>

definition arch :: "H2K_kg_t \<Rightarrow> u32" where "arch s = take_bit 8 (core_rev s)"
definition uarch :: "H2K_kg_t \<Rightarrow> u32" where "uarch s = take_bit 4 (drop_bit 8 (core_rev s))"

text \<open>A one-bit field of the boot flags.\<close>

definition put_flag :: "nat \<Rightarrow> bool \<Rightarrow> H2K_kg_t \<Rightarrow> H2K_kg_t" where
  "put_flag n b s = s\<lparr>info_boot_flags := (if b then set_bit n (info_boot_flags s) else unset_bit n (info_boot_flags s))\<rparr>"

definition boot_use_tcm :: nat where "boot_use_tcm = 0"
definition boot_have_hvx :: nat where "boot_have_hvx = 1"
definition boot_have_sample :: nat where "boot_have_sample = 2"
definition boot_ext_ok :: nat where "boot_ext_ok = 3"
definition boot_have_dma :: nat where "boot_have_dma = 4"
definition boot_have_hmx :: nat where "boot_have_hmx = 5"
definition boot_have_silver :: nat where "boot_have_silver = 6"
definition boot_have_hlx :: nat where "boot_have_hlx = 7"

definition kg_bzero :: "H2K_kg_t \<Rightarrow> H2K_kg_t" where
  "kg_bzero s = s\<lparr>ready_valids := \<lambda>_. 0, ready := \<lambda>_. NULL, priomask := 0, wait_mask := 0, runlist := \<lambda>_. NULL,
     runlist_prios := \<lambda>_. 0, hthreads := 0, cluster_clusters := 0, cluster_hthreads := 0, cluster_mask := \<lambda>_. 0,
     cluster_sched := 0, coproc_max := 0, coproc_count := \<lambda>_. 0, vmblocks := \<lambda>_. NULL, int_handler := \<lambda>_. NoHandler,
     int_param := \<lambda>_. NULL, futexhash := \<lambda>_. NULL, asid_table := \<lambda>_. asid_entry0, stlbptr := None, next_ticks := 0,
     last_ticks := 0, last_pcycles := 0, timeouts := NULL, timer_intnum := 0, mask_for_ipi := 0, alloc_base := NULL,
     alloc_heap_size := 0, oncpu_start := \<lambda>_. 0, last_tlb_index := 0, dma_version := 0, tlb_size := 0, tlb_index := 0,
     tlb_index_dma := 0, last_tlb_index_dma := 0, tlb_size_dma := 0, dma_tlb_start := 0, pinned_tlb_mask := 0,
     tcm_base := 0, tcm_size := 0, vtcm_base := 0, vtcm_size := 0, tmpmap_lock := False, waitcycles := \<lambda>_. 0,
     oncpu_wait := \<lambda>_. 0, fatal_hook := 0, fatal_hook_arg := 0, fatal_hook_ssr := 0, fatal_hook_gp := 0, noc_mbase := 0,
     noc_sbase := 0, hthreads_mask := 0, coproc_max_save := 0, coproc_contexts := 0, hmx_units := 0, hlx_contexts := 0,
     hvx_vlength := 0, core_rev := 0, phys_offset := 0, multicore_shift := 0, tcm_offset := 0, core_id := 0,
     core_count := 0, build_id := 0, l2size := 0, l2tags := 0, info_boot_flags := 0, info_stlb := 0, kernel_error := 0,
     syscfg_val := 0, ecc_enable := 0, gpio_reg := 0, hmx_rsc_seq_power_on_start_addr := 0,
     hmx_rsc_seq_power_off_start_addr := 0, fastint_ssr := 0, fastint_gp := 0\<rparr>"

definition CORE_V60 :: u32 where "CORE_V60 = 0x60"
definition CORE_V61 :: u32 where "CORE_V61 = 0x61"
definition CORE_V62 :: u32 where "CORE_V62 = 0x62"
definition CORE_V65 :: u32 where "CORE_V65 = 0x65"
definition CORE_V67 :: u32 where "CORE_V67 = 0x67"
definition CORE_V68 :: u32 where "CORE_V68 = 0x68"
definition CLUSTER_SCHED_MIN_COPROCS :: u32 where "CLUSTER_SCHED_MIN_COPROCS = 2"

text \<open>Whether a core too old for the configuration table has vector extensions.\<close>

definition old_have_hvx :: "H2K_kg_t \<Rightarrow> bool" where
  "old_have_hvx s =
     (if arch s = CORE_V60 \<or> arch s = CORE_V62 then uarch s = 0x0 \<or> uarch s = 0x8
      else if arch s = CORE_V65 then uarch s = 0x0 else False)"

text \<open>
  The part for coprocessor extensions. The limit \<open>coproc_max_save\<close> is computed from \<open>coproc_max\<close>,
  which is still zero, as in the code.
\<close>

definition kg_init_ext :: "H2K_kg_t \<Rightarrow> H2K_kg_t" where
  "kg_init_ext s =
     (let new = CORE_V65 < arch s;
          coproc_type = H2K_cfg_table s CFG_TABLE_COPROC_TYPE;
          have_hvx = (if new then coproc_type AND 0x1 \<noteq> 0 else old_have_hvx s);
          have_silver = (new \<and> coproc_type AND 0x2 \<noteq> 0);
          n = popcount (H2K_cfg_table s CFG_TABLE_HTHREADS_MASK);
          clusters = (if n > 8 then 4 else 2);
          s1 = (if new
                then s\<lparr>coproc_contexts := (if have_hvx \<or> have_silver then H2K_cfg_table s CFG_TABLE_COPROC_CONTEXTS else 0),
                       cluster_clusters := clusters, cluster_hthreads := of_nat n div clusters\<rparr>
                else s\<lparr>coproc_contexts := 4\<rparr>);
          s2 = put_flag boot_have_silver have_silver (put_flag boot_have_hvx have_hvx s1);
          s3 = s2\<lparr>hvx_vlength :=
                 (if have_hvx
                  then if CORE_V67 < arch s2 then push_bit (unat (H2K_cfg_table s2 CFG_TABLE_COPROC_VLENGTH)) 1
                       else if uarch s2 = 0x4 \<or> uarch s2 = 0xf then 128 else 64
                  else 0)\<rparr>;
          s4 = (if CORE_V67 < arch s3
                then
                  let val = H2K_cfg_table s3 CFG_TABLE_HMX_INT8_RATE;
                      units = of_nat (length (filter (\<lambda>i. val AND push_bit (i * 8) 0xff \<noteq> 0) [0..<4]));
                      t1 = put_flag boot_have_hmx (coproc_type AND 0x4 \<noteq> 0) (s3\<lparr>hmx_units := hmx_units s3 + units\<rparr>);
                      t2 = t1\<lparr>coproc_max_save :=
                             (if coproc_max t1 < CLUSTER_SCHED_MIN_COPROCS then CLUSTER_SCHED_MIN_COPROCS else coproc_max t1)\<rparr>;
                      t3 = t2\<lparr>dma_version := H2K_cfg_table t2 CFG_TABLE_DMA_VERSION\<rparr>
                  in (put_flag boot_have_dma (dma_version t3 > 0) t3)
                       \<lparr>hmx_rsc_seq_power_on_start_addr := 0x63, hmx_rsc_seq_power_off_start_addr := 0x59\<rparr>
                else put_flag boot_have_dma False (put_flag boot_have_hmx False (s3\<lparr>hmx_units := 0, dma_version := 0\<rparr>)))
      in put_flag boot_ext_ok (have_hvx \<and> syscfg_val s4 AND 0x80 = 0 \<and> hthreads s4 \<le> coproc_contexts s4) s4)"

definition DMA_TLB_START :: u32 where "DMA_TLB_START = 512"

definition H2K_kg_init :: "bool \<Rightarrow> u32 \<Rightarrow> u32 \<Rightarrow> u32 \<Rightarrow> u32 \<Rightarrow> u32 \<Rightarrow> u32 \<Rightarrow> H2K_kg_t \<Rightarrow> H2K_kg_t" where
  "H2K_kg_init ext git_commit poff mshift last_tlb tsize toff s =
     (let s1 = (kg_bzero s)\<lparr>core_rev := hw_rev s, phys_offset := poff, multicore_shift := mshift, tcm_offset := toff,
             last_tlb_index := last_tlb, tlb_size := tsize, pinned_tlb_mask := push_bit (unat ((last_tlb + 1) AND 0x3f)) (-1),
             dma_tlb_start := DMA_TLB_START, tlb_size_dma := H2K_cfg_table s CFG_TABLE_DMA_JTLB_SIZE,
             last_tlb_index_dma := DMA_TLB_START + tsize - 1, tlb_index_dma := DMA_TLB_START,
             core_id := H2K_cfg_table s CFG_TABLE_CORE_ID, core_count := H2K_cfg_table s CFG_TABLE_CORE_COUNT,
             stlbptr := None, build_id := git_commit\<rparr>;
          s2 = put_flag boot_use_tcm False s1;
          have_hlx = H2K_cfg_table s2 CFG_TABLE_COPROC_TYPE AND 0x10 \<noteq> 0;
          s3 = (put_flag boot_have_hlx have_hlx s2)
             \<lparr>hlx_contexts := (if have_hlx then of_nat (popcount (H2K_cfg_table s2 CFG_TABLE_HLX_CONTEXTS)) else 0)\<rparr>;
          s4 = (if ext then kg_init_ext s3 else s3);
          s5 = put_flag boot_have_sample True s4;
          s6 = s5\<lparr>timer_intnum := (if arch s5 = 0x04 then 50 else 34),
             tcm_base := drop_bit PAGE_BITS (push_bit CFG_TABLE_SHIFT (H2K_cfg_table s5 CFG_TABLE_L2TCM))\<rparr>
      in s6\<lparr>vtcm_base :=
              (if 0x65 < arch s6 then drop_bit PAGE_BITS (push_bit CFG_TABLE_SHIFT (H2K_cfg_table s6 CFG_TABLE_VTCM_BASE))
               else if 0 < coproc_contexts s6 \<and> 0x65 = arch s6 then drop_bit PAGE_BITS (tcm_base s6 + 0x200000) else 0),
            vtcm_size :=
              (if 0x65 < arch s6 then drop_bit (PAGE_BITS - 10) (H2K_cfg_table s6 CFG_TABLE_VTCM_SIZE)
               else if 0 < coproc_contexts s6 \<and> 0x65 = arch s6 then drop_bit (PAGE_BITS - 10) 256 else 0),
            dma_tlb_start := 512\<rparr>)"

section \<open>Clusters\<close>

text \<open>
  A shift by the register width or more gives 0, as the shift instruction does for the amounts
  that occur.
\<close>

definition cluster_bits :: "H2K_kg_t \<Rightarrow> nat \<Rightarrow> u32" where
  "cluster_bits s i =
     (let k = unat (cluster_hthreads s) in push_bit (k * i) (drop_bit (k * i) (hthreads_mask s) AND drop_bit (32 - k) 0xffffffff))"

definition cluster_masks :: "H2K_kg_t \<Rightarrow> nat \<Rightarrow> u32" where
  "cluster_masks s = (cluster_mask s)(0 := cluster_bits s 0, 1 := cluster_bits s 1, 2 := cluster_bits s 2, 3 := cluster_bits s 3)"

definition H2K_cluster_config :: "H2K_kg_t \<Rightarrow> H2K_kg_t" where
  "H2K_cluster_config s =
     (let s1 = s\<lparr>cluster_mask := cluster_masks s\<rparr>;
          s2 = s1\<lparr>coproc_max := coproc_max_save s1\<rparr>
      in if \<exists>i<unat (cluster_clusters s2). of_nat (popcount (cluster_mask s2 i)) < coproc_max s2
         then s2\<lparr>coproc_max := -1\<rparr> else s2)"

section \<open>The information trap\<close>

datatype info_type = INFO_BUILD_ID | INFO_BOOT_FLAGS | INFO_STLB | INFO_SYSCFG | INFO_LIVELOCK | INFO_REV | INFO_SSBASE
  | INFO_TLB_FREE | INFO_TLB_SIZE | INFO_PHYSADDR | INFO_TCM_BASE | INFO_L2MEM_SIZE | INFO_TCM_SIZE | INFO_H2K_PGSIZE
  | INFO_H2K_NPAGES | INFO_L2VIC_BASE | INFO_TIMER_BASE | INFO_TIMER_INT | INFO_ERROR | INFO_HTHREADS | INFO_L2TAG_SIZE
  | INFO_L2CFG_BASE | INFO_CLADE_BASE | INFO_CFGBASE | INFO_HVX_VLENGTH | INFO_COPROC_CONTEXTS | INFO_HVX_SWITCH
  | INFO_VTCM_BASE | INFO_VTCM_SIZE | INFO_ECC_BASE | INFO_L2_LINE_SZ | INFO_AUDIO_EXT | INFO_VTCM_BANK_WIDTH
  | INFO_L1D_SIZE | INFO_MAX_CLUSTER_COPROC | INFO_HMX_INSTANCES | INFO_CORECFG_BASE | INFO_HLX_CONTEXTS | INFO_UNIT_START
  | INFO_UNIT_ENTRY | INFO_CORE_ID | INFO_CORE_COUNT | INFO_SHIFT | INFO_TCM_OFFSET | INFO_NOC_MBASE | INFO_NOC_SBASE

definition info_types :: "info_type list" where
  "info_types = [INFO_BUILD_ID, INFO_BOOT_FLAGS, INFO_STLB, INFO_SYSCFG, INFO_LIVELOCK, INFO_REV, INFO_SSBASE,
     INFO_TLB_FREE, INFO_TLB_SIZE, INFO_PHYSADDR, INFO_TCM_BASE, INFO_L2MEM_SIZE, INFO_TCM_SIZE, INFO_H2K_PGSIZE,
     INFO_H2K_NPAGES, INFO_L2VIC_BASE, INFO_TIMER_BASE, INFO_TIMER_INT, INFO_ERROR, INFO_HTHREADS, INFO_L2TAG_SIZE,
     INFO_L2CFG_BASE, INFO_CLADE_BASE, INFO_CFGBASE, INFO_HVX_VLENGTH, INFO_COPROC_CONTEXTS, INFO_HVX_SWITCH,
     INFO_VTCM_BASE, INFO_VTCM_SIZE, INFO_ECC_BASE, INFO_L2_LINE_SZ, INFO_AUDIO_EXT, INFO_VTCM_BANK_WIDTH,
     INFO_L1D_SIZE, INFO_MAX_CLUSTER_COPROC, INFO_HMX_INSTANCES, INFO_CORECFG_BASE, INFO_HLX_CONTEXTS, INFO_UNIT_START,
     INFO_UNIT_ENTRY, INFO_CORE_ID, INFO_CORE_COUNT, INFO_SHIFT, INFO_TCM_OFFSET, INFO_NOC_MBASE, INFO_NOC_SBASE]"

definition H2K_LINK_ADDR :: u32 where "H2K_LINK_ADDR = 0xff000000"
definition H2K_KERNEL_PGSIZE :: nat where "H2K_KERNEL_PGSIZE = 3"
definition L2_TAG_CHUNK :: u32 where "L2_TAG_CHUNK = 0x8000"
definition L2VIC_OFFSET :: u32 where "L2VIC_OFFSET = 0x10000"
definition TIMER_OFFSET :: u32 where "TIMER_OFFSET = 0x20000"

definition cfg_shifted :: "H2K_kg_t \<Rightarrow> u32 \<Rightarrow> u32" where
  "cfg_shifted s entry = push_bit CFG_TABLE_SHIFT (H2K_cfg_table s entry)"

definition l2tag_bytes :: "H2K_kg_t \<Rightarrow> u32" where
  "l2tag_bytes s = (if l2tags s > 0 then push_bit (unat (l2tags s)) 1 * L2_TAG_CHUNK else 0)"

text \<open>The value for an operation; only the unit query can index a table out of range.\<close>

primrec info_value :: "H2K_kg_t \<Rightarrow> u32 \<Rightarrow> u32 \<Rightarrow> info_type \<Rightarrow> u32 option" where
  "info_value s unit entry INFO_BUILD_ID = Some (build_id s)"
| "info_value s unit entry INFO_BOOT_FLAGS = Some (info_boot_flags s)"
| "info_value s unit entry INFO_STLB = Some (info_stlb s)"
| "info_value s unit entry INFO_SYSCFG = Some (hw_syscfg s)"
| "info_value s unit entry INFO_LIVELOCK = Some (hw_livelock s)"
| "info_value s unit entry INFO_REV = Some (core_rev s)"
| "info_value s unit entry INFO_SSBASE = Some (cfg_shifted s CFG_TABLE_SSBASE)"
| "info_value s unit entry INFO_TLB_FREE = Some (last_tlb_index s + 1)"
| "info_value s unit entry INFO_TLB_SIZE = Some (tlb_size s)"
| "info_value s unit entry INFO_PHYSADDR = Some (H2K_LINK_ADDR - phys_offset s)"
| "info_value s unit entry INFO_TCM_BASE = Some (push_bit PAGE_BITS (tcm_base s))"
| "info_value s unit entry INFO_L2MEM_SIZE = Some (l2size s)"
| "info_value s unit entry INFO_TCM_SIZE = Some (tcm_size s)"
| "info_value s unit entry INFO_H2K_PGSIZE = Some (push_bit (PAGE_BITS + H2K_KERNEL_PGSIZE * 2) 1)"
| "info_value s unit entry INFO_H2K_NPAGES = Some (kernel_npages s)"
| "info_value s unit entry INFO_L2VIC_BASE = Some (cfg_shifted s CFG_TABLE_SSBASE + L2VIC_OFFSET)"
| "info_value s unit entry INFO_TIMER_BASE = Some (cfg_shifted s CFG_TABLE_SSBASE + TIMER_OFFSET)"
| "info_value s unit entry INFO_TIMER_INT = Some (timer_intnum s)"
| "info_value s unit entry INFO_ERROR = Some (kernel_error s)"
| "info_value s unit entry INFO_HTHREADS = Some (hthreads_mask s)"
| "info_value s unit entry INFO_L2TAG_SIZE = Some (l2tag_bytes s)"
| "info_value s unit entry INFO_L2CFG_BASE = Some (cfg_shifted s CFG_TABLE_L2REGS)"
| "info_value s unit entry INFO_CLADE_BASE = Some (cfg_shifted s CFG_TABLE_CLADEREGS)"
| "info_value s unit entry INFO_CFGBASE = Some (hw_cfgbase s)"
| "info_value s unit entry INFO_HVX_VLENGTH = Some (hvx_vlength s)"
| "info_value s unit entry INFO_COPROC_CONTEXTS = Some (coproc_contexts s)"
| "info_value s unit entry INFO_HVX_SWITCH = Some 0"
| "info_value s unit entry INFO_VTCM_BASE = Some (push_bit PAGE_BITS (vtcm_base s))"
| "info_value s unit entry INFO_VTCM_SIZE = Some (push_bit (PAGE_BITS - 10) (vtcm_size s))"
| "info_value s unit entry INFO_ECC_BASE = Some (if 0x65 < arch s then cfg_shifted s CFG_TABLE_ECC_BASE else 0)"
| "info_value s unit entry INFO_L2_LINE_SZ = Some (if 0x65 < arch s then H2K_cfg_table s CFG_TABLE_L2_LINE_SZ else 64)"
| "info_value s unit entry INFO_AUDIO_EXT = Some (if 0x65 < arch s then H2K_cfg_table s CFG_TABLE_AUDIO_EXT else 0)"
| "info_value s unit entry INFO_VTCM_BANK_WIDTH = Some (if CORE_V68 \<le> arch s then H2K_cfg_table s CFG_TABLE_VTCM_BANK_WIDTH
     else if 0 < coproc_contexts s \<and> CORE_V65 \<le> arch s then 16 else 0)"
| "info_value s unit entry INFO_L1D_SIZE = Some (if CORE_V68 \<le> arch s then H2K_cfg_table s CFG_TABLE_L1D_SZ * 1024
     else if 0 < coproc_contexts s \<and> CORE_V65 \<le> arch s then 16 * 1024 else 0)"
| "info_value s unit entry INFO_MAX_CLUSTER_COPROC = Some (coproc_max s)"
| "info_value s unit entry INFO_HLX_CONTEXTS = Some (if 0x85 \<le> arch s then hlx_contexts s else 0)"
| "info_value s unit entry INFO_HMX_INSTANCES = Some (hmx_units s)"
| "info_value s unit entry INFO_CORECFG_BASE = Some (cfg_shifted s CFG_TABLE_CORECFG_BASE)"
| "info_value s unit entry INFO_UNIT_START =
     Some (if 0x89 \<le> arch s then H2K_cfg_table s CFG_TABLE_UNIT_CONFIG_REG_BASE else 0)"
| "info_value s unit entry INFO_UNIT_ENTRY = H2K_cfg_table_unit_entry s unit entry"
| "info_value s unit entry INFO_CORE_ID = Some (core_id s)"
| "info_value s unit entry INFO_CORE_COUNT = Some (core_count s)"
| "info_value s unit entry INFO_SHIFT = Some (multicore_shift s)"
| "info_value s unit entry INFO_TCM_OFFSET = Some (tcm_offset s)"
| "info_value s unit entry INFO_NOC_MBASE = Some (noc_mbase s)"
| "info_value s unit entry INFO_NOC_SBASE = Some (noc_sbase s)"

definition H2K_trap_info :: "u32 \<Rightarrow> u32 \<Rightarrow> u32 \<Rightarrow> H2K_kg_t \<Rightarrow> u32 option" where
  "H2K_trap_info op unit entry s =
     (if unat op < length info_types then info_value s unit entry (info_types ! unat op) else Some (-1))"

section \<open>Properties\<close>

lemma bit_cluster_bits:
  assumes "unat (cluster_hthreads s) = k" "0 < k" "k \<le> 32" "h < 32"
  shows "bit (cluster_bits s i) h \<longleftrightarrow> bit (hthreads_mask s) h \<and> h div k = i"
proof -
  have m: "(0xffffffff :: u32) = -1" by simp
  have "bit (drop_bit (32 - k) (0xffffffff :: u32)) j \<longleftrightarrow> j < k" for j
    using assms(3) unfolding m by (auto simp: bit_simps)
  moreover have "h div k = i \<longleftrightarrow> k * i \<le> h \<and> h < k * i + k" using assms(2) split_div' [of "\<lambda>q. q = i" h k] by auto
  moreover have "k * i \<le> h \<Longrightarrow> h - k * i < k \<longleftrightarrow> h < k * i + k" by linarith
  moreover have "bit (cluster_bits s i) h \<longleftrightarrow> k * i \<le> h \<and> bit (hthreads_mask s) h \<and> bit (drop_bit (32 - k) (0xffffffff :: u32)) (h - k * i)"
    unfolding cluster_bits_def Let_def assms(1) bit_push_bit_iff bit_and_iff bit_drop_bit_eq using assms(4) by auto
  ultimately show ?thesis by blast
qed


lemma cluster_config_fields:
  shows "cluster_mask (H2K_cluster_config s) = cluster_masks s"
    and "cluster_hthreads (H2K_cluster_config s) = cluster_hthreads s"
    and "coproc_max (H2K_cluster_config s) =
      (if \<forall>j<unat (cluster_clusters s). coproc_max_save s \<le> of_nat (popcount (cluster_masks s j)) then coproc_max_save s else -1)"
  by (simp_all add: H2K_cluster_config_def Let_def not_less [symmetric], blast)

lemma cluster_config_frame [kstate_frame]:
  "thr (H2K_cluster_config s) = thr s" "vmb (H2K_cluster_config s) = vmb s" "bkl (H2K_cluster_config s) = bkl s"
  "hthreads (H2K_cluster_config s) = hthreads s" "hthreads_mask (H2K_cluster_config s) = hthreads_mask s"
  "cluster_sched (H2K_cluster_config s) = cluster_sched s"
  by (simp_all add: H2K_cluster_config_def Let_def)

text \<open>
  With clusters of one to eight hardware threads, \<open>H2K_cluster_config\<close> makes the four cluster
  masks a partition of the started threads below four clusters that agrees with
  \<open>H2K_hthread_cluster\<close>, and keeps the limit of coprocessors per cluster exactly if every cluster
  has that many started threads, lifting it otherwise.
\<close>

theorem cluster_config_partition:
  assumes "1 \<le> cluster_hthreads s" "cluster_hthreads s \<le> 8" "i < 4" "h < 32"
  defines "s' \<equiv> H2K_cluster_config s"
  shows "(bit (cluster_mask s' i) h \<longleftrightarrow> bit (hthreads_mask s) h \<and> H2K_hthread_cluster s' (of_nat h) = i) \<and>
    (coproc_max s' = (if \<forall>j<unat (cluster_clusters s). coproc_max_save s \<le> of_nat (popcount (cluster_mask s' j)) then coproc_max_save s else -1))"
proof -
  have k: "0 < unat (cluster_hthreads s)" "unat (cluster_hthreads s) \<le> 8" using assms(1,2) by (simp_all add: word_le_nat_alt)
  have "cluster_mask s' i = cluster_bits s i" using assms(3) by (auto simp: s'_def cluster_config_fields cluster_masks_def numeral_eq_Suc less_Suc_eq)
  moreover have "unat (of_nat h :: u32) = h" using assms(4) by (simp add: unat_of_nat)
  then have "H2K_hthread_cluster s' (of_nat h) = h div unat (cluster_hthreads s)"
    by (simp add: H2K_hthread_cluster_def s'_def cluster_config_fields unat_div_distrib)
  ultimately show ?thesis using bit_cluster_bits [OF refl k(1) _ assms(4), of i] k(2) cluster_config_fields(1,3) [of s]
    by (simp add: s'_def)
qed

theorem cluster_config_partition_witness:
  "bit (cluster_mask (H2K_cluster_config (kg0\<lparr>cluster_hthreads := 4, hthreads_mask := 0xf3\<rparr>)) 1) 5"
proof -
  let ?s = "kg0\<lparr>cluster_hthreads := 4, hthreads_mask := 0xf3\<rparr>"
  have h: "1 \<le> cluster_hthreads ?s" "cluster_hthreads ?s \<le> 8" "(1::nat) < 4" "(5::nat) < 32" by simp_all
  have c: "cluster_hthreads (H2K_cluster_config ?s) = 4" by (simp only: cluster_config_fields) simp
  have "bit (hthreads_mask ?s) 5" "H2K_hthread_cluster (H2K_cluster_config ?s) (of_nat 5) = 1"
    by (simp, simp add: H2K_hthread_cluster_def c)
  then show ?thesis using cluster_config_partition [OF h] by blast
qed

text \<open>
  The unit query of the information trap is not confined to the configuration table: for any
  32-bit physical address whose word and next word are zero (a unit of the first type), some unit
  number makes the trap return the word 16 bytes further on, whatever that memory belongs to.
\<close>

theorem info_unit_reads_memory:
  assumes "H2K_mem_physread_word s (ucast (pa :: u32)) = 0" "H2K_mem_physread_word s (ucast (pa + 0x4)) = 0"
  shows "\<exists>unit. H2K_trap_info 39 unit 4 s = Some (H2K_mem_physread_word s (ucast (pa + 0x10)))"
proof -
  let ?u = "pa - push_bit CFG_TABLE_SHIFT (hw_cfgbase s)"
  have "unit_offset 0 0 4 = Some 0x10" by (simp add: unit_offset_def H2K_unit_offsets_def)
  then have "H2K_cfg_table_unit_entry s ?u 4 = Some (H2K_mem_physread_word s (ucast (pa + 0x10)))"
    using assms by (simp add: H2K_cfg_table_unit_entry_def Let_def)
  then show ?thesis by (intro exI [of _ ?u]) (simp add: H2K_trap_info_def info_types_def)
qed

theorem info_unit_reads_memory_witness:
  "\<exists>unit. H2K_trap_info 39 unit 4 (kg0\<lparr>physmem := (\<lambda>_. 0)(0x2010 := 0x5ec2e7)\<rparr>) = Some 0x5ec2e7"
  using info_unit_reads_memory [where s = "kg0\<lparr>physmem := (\<lambda>_. 0)(0x2010 := 0x5ec2e7)\<rparr>" and pa = "0x2000"]
  by (simp add: H2K_mem_physread_word_def memw_phys_def)

end
