(* ===== verification/Kernel.thy ===== *)
theory Kernel
  imports Vmop Thread_Correct
begin

text \<open>
  The kernel as one transition system. A step is one whole kernel entry by one hardware thread,
  from the trap or interrupt to the return into a guest or to sleep; the kernel lock makes
  entries atomic, so a run of the machine is an interleaving of such steps. \<open>kernel_ok\<close>
  collects the invariants of the scheduler, the futex queues and the timeouts; the lemmas show
  that every step keeps it, and the properties are its consequences in every reachable state.
\<close>

section \<open>What scheduling leaves alone\<close>

text \<open>The timeouts and the choice of cluster scheduling.\<close>

definition gview where
  "gview s = (cluster_sched s, timeouts s, next_ticks s, \<lambda>u. tree (thr s u))"

lemma gview_eqD:
  assumes "gview s' = gview s"
  shows "cluster_sched s' = cluster_sched s" "timeouts s' = timeouts s" "next_ticks s' = next_ticks s" "tree (thr s' u) = tree (thr s u)"
  using assms fun_cong [of "\<lambda>u. tree (thr s' u)" "\<lambda>u. tree (thr s u)" u] by (simp_all add: gview_def)

lemma gview_trest: "trest s' = trest s \<Longrightarrow> (\<And>u. tree (thr s' u) = tree (thr s u)) \<Longrightarrow> gview s' = gview s"
  by (simp add: gview_def trest_def)

lemma gview_thr [kstate_frame]: "(\<And>c. tree (f c) = tree c) \<Longrightarrow> gview (upd_thr t f s) = gview s"
  by (simp add: gview_def fun_eq_iff)

lemma gview_heap:
  "(\<And>u. tree (h u) = tree (thr s u)) \<Longrightarrow> gview (s\<lparr>thr := h, futexhash := x\<rparr>) = gview s"
  by (simp add: gview_def)

lemma gview_locks [simp, kstate_frame]:
  "gview (BKL_LOCK s) = gview s" "gview (BKL_UNLOCK s) = gview s" "gview (s\<lparr>tlb_lock := b\<rparr>) = gview s"
  "gview (s\<lparr>htid := h\<rparr>) = gview s" "gview (s\<lparr>wait_mask := w\<rparr>) = gview s" "gview (upd_vmb v g s) = gview s"
  "gview (ciad m s) = gview s" "gview (set_handler i k p s) = gview s" "gview (H2K_intcontrol_enable i s) = gview s"
  "gview (H2K_switch a a2 s) = gview s" "gview (highprio_imask ht (s\<lparr>priomask := pm\<rparr>)) = gview s"
  by (simp_all add: gview_def BKL_LOCK_def BKL_UNLOCK_def ciad_def set_handler_def H2K_intcontrol_enable_def Let_def
      H2K_switch_def highprio_imask_def)

lemma gview_queues [simp, kstate_frame]:
  "gview (H2K_ready_append t s) = gview s" "gview (H2K_ready_remove t s) = gview s"
  "gview (H2K_runlist_remove t s) = gview s" "gview (H2K_runlist_push t s) = gview s"
  "gview (H2K_raise_lowprio s) = gview s" "gview (mark b ht s) = gview s"
  "gview (fst (H2K_check_sanity r s)) = gview s" "gview (fst (H2K_check_sanity_unlock r s)) = gview s"
proof -
  have q: "sched_rest (H2K_ready_append t s) = sched_rest s" "sched_rest (H2K_ready_remove t s) = sched_rest s" by simp_all
  have "tree (thr (H2K_ready_append t s) u) = tree (thr s u)" for u
    using more_tree [OF ready_append_more [of t s u]] by (simp split: if_splits)
  then show "gview (H2K_ready_append t s) = gview s" using sched_rest_eqD(12-14) [OF q(1)] by (simp add: gview_def)
  have "tree (thr (H2K_ready_remove t s) u) = tree (thr s u)" for u using more_tree [OF ready_remove_more] .
  then show "gview (H2K_ready_remove t s) = gview s" using sched_rest_eqD(12-14) [OF q(2)] by (simp add: gview_def)
  show "gview (H2K_runlist_remove t s) = gview s" "gview (H2K_runlist_push t s) = gview s"
    by (simp_all add: gview_def H2K_runlist_remove_def H2K_runlist_push_def Let_def fun_eq_iff)
  show "gview (H2K_raise_lowprio s) = gview s" "gview (mark b ht s) = gview s" by (simp_all add: gview_def)
  show c: "gview (fst (H2K_check_sanity r s)) = gview s"
    by (simp add: gview_def H2K_check_sanity_def Let_def resched_int_def swi_def H2K_lowprio_notify_def change_imask_def)
  then show "gview (fst (H2K_check_sanity_unlock r s)) = gview s" by (simp add: H2K_check_sanity_unlock_def split_beta)
qed

lemma ready_head_view: "H2K_ready_head p ht s = Some (s', r) \<Longrightarrow> sched_view s' = sched_view s"
  by (auto simp: H2K_ready_head_def Let_def H2K_update_coprocs_def split: if_splits option.splits bool.splits prod.splits)

lemma dosched_gview: "H2K_dosched me ht s = Some (s', new) \<Longrightarrow> gview s' = gview s"
proof -
  have v: "sched_view s1 = sched_view s \<Longrightarrow> gview s1 = gview s" for s1
    using sched_view_eqD(1,15-17) [of s1 s] by (simp add: gview_def)
  have d: "gview (drop_coprocs ht s) = gview s" by (rule v) simp
  have h: "gview a = gview s" if "H2K_ready_head p ht s = Some (a, r)" for p a r using ready_head_view [OF that] by (rule v)
  have g: "gview s1 = gview s" if "H2K_ready_getbest ht s = Some (s1, r)" for s1 r
    using that h d by (auto simp: H2K_ready_getbest_def Let_def split: if_splits option.splits)
  assume "H2K_dosched me ht s = Some (s', new)"
  then show ?thesis using g by (auto simp: dosched_mark kstate_frame split: option.splits prod.splits if_splits)
qed


lemma add_ring_tree:
  assumes "H2K_futex_hash_add_ring h r me = Some (h', r')"
  shows "tree (h' u) = tree (h u)"
proof -
  have n: "tree (set_next g a b u) = tree (g u)" "tree (set_prev g a b u) = tree (g u)" for g :: "ptr \<Rightarrow> H2K_thread_context" and a b
    by (simp_all add: set_next_def set_prev_def)
  show ?thesis using assms by (auto simp: H2K_futex_hash_add_ring_def Let_def n split: if_splits option.splits)
qed

lemma futex_block_gview:
  assumes "futex_block pa me s = Some (s', out)"
  shows "gview s' = gview s"
proof -
  let ?s3 = "block_state pa me s" and ?b = "unat (FUTEX_HASHVAL pa)"
  obtain h r new where a: "H2K_futex_hash_add_ring (thr ?s3) (futexhash ?s3 ?b) me = Some (h, r)"
    "H2K_dosched me (ucast (hthread (h me))) (?s3\<lparr>thr := h, futexhash := (futexhash ?s3)(?b := r)\<rparr>) = Some (s', new)"
    using assms by (auto simp: futex_block_state Let_def bind_eq_Some_conv)
  have "gview s' = gview ?s3" using dosched_gview [OF a(2)] gview_heap [of h ?s3] add_ring_tree [OF a(1)] by simp
  also have "\<dots> = gview s" by (simp add: block_state_def kstate_frame)
  finally show ?thesis .
qed

lemma safemem_gview: "gview (fst (H2K_safemem_check_and_lock va p me s)) = gview s"
  by (cases rule: safemem_cases [of va p me s]) auto

lemma futex_wait_gview:
  assumes "H2K_futex_wait lock val me s = Some (s', out)" "\<not> bit (vmstatus (thr s me)) VMWORK"
  shows "gview s' = gview s"
proof (cases rule: safemem_cases [of lock SAFEMEM_R me s])
  case (fail t)
  then show ?thesis using assms by (auto simp: H2K_futex_wait_def Let_def)
next
  case (ok pa)
  then show ?thesis using assms futex_block_gview
    by (auto simp: H2K_futex_wait_def Let_def H2K_safemem_unlock_def split: if_splits)
qed

lemma remove_one_gview: "H2K_futex_hash_remove_one k b pos s = Some (s', p, t) \<Longrightarrow> gview s' = gview s"
  using more_tree [OF kring.rem_payload]
  by (auto simp: H2K_futex_hash_remove_one_def Let_def split_beta gview_heap split: if_splits option.splits)

lemma resume_loop_gview:
  assumes "resume_loop k b n w pos s = Some (s', w')"
  shows "gview s' = gview s"
proof -
  have "case (s', w') of (t, _) \<Rightarrow> gview t = gview s"
  proof (rule resume_loop.raw_induct [where P = "\<lambda>k b n w pos s r. case r of (t, _) \<Rightarrow> gview t = gview s", OF _ assms])
    fix f k b n w pos s r
    assume ih: "\<And>k b n w pos s r. f k b n w pos s = Some r \<Longrightarrow> case r of (t, _) \<Rightarrow> gview t = gview s"
      and e: "(case H2K_futex_hash_remove_one k b pos s of None \<Rightarrow> None
        | Some (s1, pos1, tmp) \<Rightarrow> if tmp = NULL then Some (s1, w)
            else if w + 1 < n then f k b n (w + 1) pos1 s1 else Some (s1, w + 1)) = Some r"
    show "case r of (t, _) \<Rightarrow> gview t = gview s"
      using e remove_one_gview [of k b pos s] ih by (fastforce split: option.splits prod.splits if_splits)
  qed
  then show ?thesis by simp
qed

lemma futex_resume_gview:
  assumes "H2K_futex_resume lock n me s = Some (s', r)"
  shows "gview s' = gview s"
proof (cases rule: safemem_cases [of lock SAFEMEM_R me s])
  case (fail t)
  then show ?thesis using assms by (auto simp: H2K_futex_resume_def Let_def split: if_splits)
next
  case (ok pa)
  let ?s3 = "BKL_LOCK (H2K_safemem_unlock (s\<lparr>tlb_lock := True\<rparr>))"
  have 3: "gview ?s3 = gview s" by (simp add: H2K_safemem_unlock_def)
  from assms ok(1) have "s' = s \<or> s' = BKL_UNLOCK ?s3 \<or> (\<exists>k b h s4 m. resume_loop k b n 0 h ?s3 = Some (s4, m) \<and>
      s' = fst (H2K_check_sanity_unlock (ucast m) s4))"
    by (auto simp: H2K_futex_resume_def Let_def split_beta bind_eq_Some_conv split: if_splits) (metis (no_types))
  then show ?thesis using resume_loop_gview 3 by auto
qed


lemma popup_wait_gview:
  assumes "H2K_popup_wait i me s = Some (s', out)" "\<not> bit (vmstatus (thr s me)) VMWORK"
  shows "gview s' = gview s"
  using assms dosched_gview
  by (fastforce simp: H2K_popup_wait_def Let_def bind_eq_Some_conv kstate_frame split: if_splits)

lemma vmwait_gview:
  assumes "H2K_vmtrap_wait me s = Some (s', out)" "\<not> bit (vmstatus (thr s me)) VMWORK" "\<not> bit (vmstatus (thr s me)) KILL"
  shows "gview s' = gview s"
proof -
  have w: "H2K_vm_do_work_withlock me (BKL_LOCK s) = Some (BKL_LOCK s, Ret (-1))"
    using assms(2,3) by (simp add: H2K_vm_do_work_withlock_def BKL_LOCK_def)
  obtain s3 new where d: "H2K_dosched me (ucast (hthread (thr s3 me))) s3 = Some (s', new)" "gview s3 = gview s"
    using assms(1) w by (auto simp: H2K_vmtrap_wait_def vmwait_block_def Let_def bind_eq_Some_conv kstate_frame)
  then show ?thesis using dosched_gview by metis
qed

lemma yield_gview: "H2K_sched_yield me s = Some (s', out) \<Longrightarrow> gview s' = gview s"
  using dosched_gview by (fastforce simp: H2K_sched_yield_def Let_def split: if_splits option.splits)

lemma resched_gview: "H2K_resched me h s = Some (s', new) \<Longrightarrow> gview s' = gview s"
  using dosched_gview [of me h _ s' new] by (auto simp: H2K_resched_def resched_def Let_def split: if_splits)

lemma popup_int_gview: "gview (fst (H2K_popup_int i me h w s)) = gview s"
  by (simp add: H2K_popup_int_def take_over_def Let_def kstate_frame)

lemma deliver_gview: "gview (fst (H2K_vm_int_deliver vb t i s)) = gview s"
  using gview_trest [OF deliver_trest(1) deliver_trest(2), of vb t i "BKL_LOCK s"] by (simp add: H2K_vm_int_deliver_def split_beta)

lemma set_timeout_cluster: "H2K_timer_set_timeout me t s = Some (s', r) \<Longrightarrow> cluster_sched s' = cluster_sched s"
  by (auto simp: H2K_timer_set_timeout_def H2K_timer_set_timeout_tick_def H2K_timer_update_timeout_def H2K_timer_hw_set_timeout_def
      Let_def bind_eq_Some_conv put_tree_def BKL_LOCK_def BKL_UNLOCK_def upd_thr_def split: if_splits)

lemma create_gview: "gview (fst (H2K_thread_create_no_squash pc sp a p vb me s)) = gview s"
proof -
  have i: "tree (init_context pc sp a p ge vb me s2 c) = tree c" for ge s2 c by (simp add: init_context_def Let_def)
  have st: "tree (start_ssr x c) = tree c" for x c by (simp add: start_ssr_def)
  have as: "gview (fst (H2K_asid_table_inc pt ty fl ext vb s2)) = gview s2" for pt ty fl ext s2
    by (simp add: gview_def H2K_asid_table_inc_def H2K_do_asid_table_inc_def H2K_asid_table_eviction_def
        H2K_mem_stlb_invalidate_asid_def H2K_mem_tlb_invalidate_asid_def Let_def split: option.splits)
  show ?thesis
    by (simp add: H2K_thread_create_no_squash_def Let_def split_beta kstate_frame i st as)
qed


section \<open>The invariant\<close>

definition kernel_ok :: "H2K_kg_t \<Rightarrow> bool" where
  "kernel_ok s \<longleftrightarrow> (\<exists>rq fq. kinv s rq fq) \<and> (\<exists>xs. timer_inv s xs) \<and> cluster_sched s = 0 \<and> \<not> bkl s"

lemma kernel_okD:
  assumes "kernel_ok s"
  shows "cluster_sched s = 0" "\<not> bkl s" "clusters_cover s"
  using assms by (simp_all add: kernel_ok_def clusters_cover_def)

lemma timer_inv_gview:
  assumes "timer_inv s xs" "gview s' = gview s"
  shows "timer_inv s' xs"
proof -
  note g = gview_eqD [OF assms(2)]
  have "tlist (timer_tree NULL s') 0 xs" using timer_invD(1) [OF assms(1)] by (rule tlist_cong) (simp_all add: g)
  then show ?thesis using assms(1) by (simp add: timer_inv_def g)
qed

lemma kernel_ok_keep:
  assumes "kernel_ok s" "kinv s' rq fq" "gview s' = gview s" "\<not> bkl s'"
  shows "kernel_ok s'"
  using assms timer_inv_gview gview_eqD(1) [OF assms(3)] unfolding kernel_ok_def by metis

lemma kernel_ok_frame: "kernel_ok s \<Longrightarrow> kview s' = kview s \<Longrightarrow> gview s' = gview s \<Longrightarrow> \<not> bkl s' \<Longrightarrow> kernel_ok s'"
  using kinv_view kernel_ok_keep unfolding kernel_ok_def by metis

text \<open>
  The end of a kernel entry (\<^verbatim>\<open>kernel/sched/switch/switch.ref.S\<close>): a switch to a thread continues
  in \<open>H2K_check_sanity_unlock\<close>, a switch to \<open>NULL\<close> puts the hardware thread to sleep.
\<close>

definition settle :: "'a outcome \<Rightarrow> H2K_kg_t \<Rightarrow> H2K_kg_t" where
  "settle out s = (case out of Ret _ \<Rightarrow> s
     | Switch me new \<Rightarrow> if new = NULL then H2K_switch me NULL s else fst (H2K_check_sanity_unlock 0 (H2K_switch me new s)))"

lemma kview_switch [simp]: "new \<noteq> NULL \<Longrightarrow> kview (H2K_switch me new s) = kview s"
  by (simp add: kview_def H2K_switch_def Let_def)

lemma switch_ok:
  assumes "kernel_ok s" "kinv s' rq fq" "gview s' = gview s" "status (thr s' new) = H2K_STATUS_RUNNING"
  shows "kernel_ok (settle (Switch me new) s')"
proof -
  have n: "new \<noteq> NULL" using runlist_okD(2) [OF sched_invD(3)] assms(2,4) by (auto simp: kinv_def)
  have k: "kinv (H2K_switch me new s') rq fq" using kinv_view [OF assms(2)] n by simp
  have r: "status (thr (H2K_switch me new s') new) = H2K_STATUS_RUNNING" using assms(4) by (auto simp: H2K_switch_def Let_def)
  note u = kinv_sanity_unlock [OF k r, of 0]
  show ?thesis
    using kernel_ok_keep [OF assms(1) u(1)] u(3) assms(3) n by (simp add: settle_def)
qed

lemma next_runs_ok:
  assumes "kernel_ok s" "next_runs me new t s' rq fq" "gview s' = gview s"
  shows "kernel_ok (settle (Switch me new) s')"
proof (cases "new = NULL")
  case True
  then have "kinv (H2K_switch me NULL s') rq fq" using assms(2) by (simp add: next_runs_def)
  moreover have "\<not> bkl (H2K_switch me NULL s')" by (simp add: H2K_switch_def Let_def)
  ultimately show ?thesis using kernel_ok_keep [OF assms(1)] assms(3) True by (simp add: settle_def)
next
  case False
  then obtain p where "kinv s' (rq(p := tl (rq p))) fq" "status (thr s' new) = H2K_STATUS_RUNNING"
    using assms(2) unfolding next_runs_def if_not_P [OF False] by (elim exE conjE)
  then show ?thesis using switch_ok [OF assms(1) _ assms(3)] by blast
qed

section \<open>Steps\<close>

text \<open>The state as the hardware thread \<open>h\<close> sees it, and the hardware thread that runs \<open>me\<close>.\<close>

definition seen :: "u32 \<Rightarrow> H2K_kg_t \<Rightarrow> H2K_kg_t" where "seen h s = s\<lparr>htid := h\<rparr>"

definition runs :: "ptr \<Rightarrow> u32 \<Rightarrow> H2K_kg_t \<Rightarrow> bool" where
  "runs me h s \<longleftrightarrow> status (thr s me) = H2K_STATUS_RUNNING \<and> h = ucast (hthread (thr s me))"

lemma seen_sel [simp]:
  "thr (seen h s) = thr s" "htid (seen h s) = h" "kview (seen h s) = kview s" "gview (seen h s) = gview s" "bkl (seen h s) = bkl s"
  "tlb_lock (seen h s) = tlb_lock s" "cluster_sched (seen h s) = cluster_sched s" "vmb (seen h s) = vmb s" "wait_mask (seen h s) = wait_mask s"
  by (simp_all add: seen_def, simp add: kview_def)

lemma kernel_ok_seen [simp]: "kernel_ok (seen h s) = kernel_ok s"
proof
  show "kernel_ok s" if a: "kernel_ok (seen h s)" using kernel_ok_frame [OF a, of s] kernel_okD(2) [OF a] by simp
  show "kernel_ok (seen h s)" if a: "kernel_ok s" using kernel_ok_frame [OF a, of "seen h s"] kernel_okD(2) [OF a] by simp
qed


lemma seen_facts:
  assumes "kernel_ok s" "runs me h s"
  obtains rq fq xs where "kinv (seen h s) rq fq" "timer_inv (seen h s) xs" "status (thr (seen h s) me) = H2K_STATUS_RUNNING"
    "clusters_cover (seen h s)" "htid (seen h s) = ucast (hthread (thr (seen h s) me))" "kernel_ok (seen h s)"
proof -
  have o: "kernel_ok (seen h s)" using assms(1) by simp
  then obtain rq fq xs where "kinv (seen h s) rq fq" "timer_inv (seen h s) xs" by (auto simp: kernel_ok_def)
  with that o assms(2) kernel_okD(3) [OF o] show thesis by (simp add: runs_def)
qed

lemma settle_Ret [simp]: "settle (Ret x) s = s" by (simp add: settle_def)

lemma outcome_ok:
  assumes "kernel_ok t" "gview s' = gview t"
    and "(\<exists>r rq fq. out = Ret r \<and> kinv s' rq fq \<and> \<not> bkl s') \<or> (\<exists>a new u rq fq. out = Switch a new \<and> next_runs a new u s' rq fq)"
  shows "kernel_ok (settle out s')"
  using assms(3) kernel_ok_keep [OF assms(1) _ assms(2)] next_runs_ok [OF assms(1) _ assms(2)] by auto

lemma futex_wait_ok:
  assumes "kernel_ok s" "runs me h s" "\<not> bit (vmstatus (thr s me)) VMWORK" "\<not> tlb_lock s"
    and e: "H2K_futex_wait lock val me (seen h s) = Some (s', out)"
  shows "kernel_ok (settle out s')"
proof (rule seen_facts [OF assms(1,2)])
  fix rq fq xs
  assume f: "kinv (seen h s) rq fq" "status (thr (seen h s) me) = H2K_STATUS_RUNNING" "clusters_cover (seen h s)"
    "htid (seen h s) = ucast (hthread (thr (seen h s) me))" "kernel_ok (seen h s)"
  have nw: "\<not> bit (vmstatus (thr (seen h s) me)) VMWORK" "\<not> tlb_lock (seen h s)" using assms(3,4) by simp_all
  show ?thesis using f(5) futex_wait_gview [OF e nw(1)]
    by (rule outcome_ok) (use futex_wait_spec [OF f(1-4) nw, of lock val] e in \<open>auto split: if_splits\<close>)
qed

lemma popup_wait_ok:
  assumes "kernel_ok s" "runs me h s" "\<not> bit (vmstatus (thr s me)) VMWORK"
    and e: "H2K_popup_wait i me (seen h s) = Some (s', out)"
  shows "kernel_ok (settle out s')"
proof (rule seen_facts [OF assms(1,2)])
  fix rq fq xs
  assume f: "kinv (seen h s) rq fq" "status (thr (seen h s) me) = H2K_STATUS_RUNNING" "clusters_cover (seen h s)"
    "htid (seen h s) = ucast (hthread (thr (seen h s) me))" "kernel_ok (seen h s)"
  have nw: "\<not> bit (vmstatus (thr (seen h s) me)) VMWORK" using assms(3) by simp
  have b: "\<not> bkl s'" if "out = Ret r" for r
    using e that nw kernel_okD(2) [OF f(5)] by (auto simp: H2K_popup_wait_def Let_def BKL_LOCK_def BKL_UNLOCK_def bind_eq_Some_conv split: if_splits)
  show ?thesis using f(5) popup_wait_gview [OF e nw]
    by (rule outcome_ok) (use popup_wait_spec [OF f(1-4) nw, of i] e b in \<open>auto split: if_splits\<close>)
qed

lemma vmwait_ok:
  assumes "kernel_ok s" "runs me h s" "\<not> bit (vmstatus (thr s me)) VMWORK" "\<not> bit (vmstatus (thr s me)) KILL"
    and e: "H2K_vmtrap_wait me (seen h s) = Some (s', out)"
  shows "kernel_ok (settle out s')"
proof (rule seen_facts [OF assms(1,2)])
  fix rq fq xs
  assume f: "kinv (seen h s) rq fq" "status (thr (seen h s) me) = H2K_STATUS_RUNNING" "clusters_cover (seen h s)"
    "htid (seen h s) = ucast (hthread (thr (seen h s) me))" "kernel_ok (seen h s)"
  have nw: "\<not> bit (vmstatus (thr (seen h s) me)) VMWORK" "\<not> bit (vmstatus (thr (seen h s) me)) KILL" using assms(3,4) by simp_all
  show ?thesis using f(5) vmwait_gview [OF e nw]
    by (rule outcome_ok) (use vmwait_spec [OF f(1-4) nw] e in auto)
qed

lemma cover_off: "cluster_sched s = 0 \<Longrightarrow> clusters_cover s" by (simp add: clusters_cover_def)

lemma resched_ok:
  assumes "kernel_ok s" "on_hthread me h (seen h s)"
  shows "\<exists>s' new. H2K_resched me h (seen h s) = Some (s', new)"
    and "H2K_resched me h (seen h s) = Some (s', new) \<Longrightarrow> kernel_ok (settle (Switch me new) s')"
proof -
  have o: "kernel_ok (seen h s)" using assms(1) by simp
  then obtain rq fq where k: "kinv (seen h s) rq fq" by (auto simp: kernel_ok_def)
  let ?t = "BKL_LOCK (ciad RESCHED_INT_INTMASK (seen h s))"
  have kt: "kinv ?t rq fq" using kinv_view [OF k, of ?t] by (simp add: kview_def BKL_LOCK_def ciad_def)
  have on: "on_hthread me h ?t" using assms(2) by (auto simp: on_hthread_def BKL_LOCK_def ciad_def split: if_splits)
  have c: "clusters_cover (interrupted me h ?t)"
    using gview_eqD(1) [of "interrupted me h ?t" ?t] kernel_okD(1) [OF o] by (intro cover_off) (simp add: interrupted_def requeue_def)
  have e: "H2K_resched me h (seen h s) = H2K_dosched me h (interrupted me h ?t)"
    by (simp add: H2K_resched_def resched_def Let_def interrupted_def requeue_def)
  note r = interrupted_runs [OF kt on c, folded e]
  then show "\<exists>s' new. H2K_resched me h (seen h s) = Some (s', new)" by blast
  show "kernel_ok (settle (Switch me new) s')" if h: "H2K_resched me h (seen h s) = Some (s', new)"
    using o resched_gview [OF h] by (rule outcome_ok) (use r h in auto)
qed


lemma runs_on_hthread: "kernel_ok s \<Longrightarrow> runs me h s \<Longrightarrow> me \<noteq> NULL \<and> on_hthread me h (seen h s)"
proof -
  assume a: "kernel_ok s" "runs me h s"
  then have "me \<noteq> NULL" using runlist_okD(2) [OF sched_invD(3)] by (auto simp: kernel_ok_def kinv_def runs_def)
  moreover have "unat (ucast (hthread (thr s me)) :: u32) = unat (hthread (thr s me))"
    by (simp add: unsigned_ucast_eq take_bit_nat_eq_self order_less_trans [OF unsigned_less])
  ultimately show ?thesis using a(2) by (simp add: on_hthread_def runs_def)
qed

lemma yield_ok:
  assumes "kernel_ok s" "runs me h s"
  shows "\<exists>s' out. H2K_sched_yield me (seen h s) = Some (s', out)"
    and "H2K_sched_yield me (seen h s) = Some (s', out) \<Longrightarrow> kernel_ok (settle out s')"
proof -
  have o: "kernel_ok (seen h s)" using assms(1) by simp
  then obtain rq fq where k: "kinv (seen h s) rq fq" by (auto simp: kernel_ok_def)
  let ?t = "BKL_LOCK (seen h s)"
  have m: "me \<noteq> NULL" "on_hthread me h ?t"
    using runs_on_hthread [OF assms] by (auto simp: on_hthread_def BKL_LOCK_def split: if_splits)
  have c: "clusters_cover (interrupted me h ?t)"
    using gview_eqD(1) [of "interrupted me h ?t" ?t] kernel_okD(1) [OF o] by (intro cover_off) (simp add: interrupted_def requeue_def)
  have ht: "ucast (hthread (thr (interrupted me h ?t) me)) = h"
    using assms(2) by (simp add: interrupted_status(2) runs_def BKL_LOCK_def)
  have e: "H2K_sched_yield me (seen h s) = (if \<not> H2K_ready_prio_valid ?t (unat (prio (thr ?t me))) then Some (BKL_UNLOCK ?t, Ret ())
      else case H2K_dosched me h (interrupted me h ?t) of None \<Rightarrow> None | Some (s4, new) \<Rightarrow> Some (s4, Switch me new))"
    using m(1) ht by (simp add: H2K_sched_yield_def Let_def interrupted_def requeue_def)
  obtain t' new where r: "H2K_dosched me h (interrupted me h ?t) = Some (t', new)" "next_runs me new (interrupted me h ?t) t' (requeued me ?t rq) fq"
    using interrupted_runs [OF kinv_locks(1) [OF k] m(2) c] by blast
  show "\<exists>s' out. H2K_sched_yield me (seen h s) = Some (s', out)" using e r(1) by auto
  have u: "kinv (BKL_UNLOCK ?t) rq fq" "\<not> bkl (BKL_UNLOCK ?t)" using kinv_locks(2) [OF kinv_locks(1) [OF k]] by (simp_all add: BKL_UNLOCK_def)
  show "kernel_ok (settle out s')" if h: "H2K_sched_yield me (seen h s) = Some (s', out)"
    using o yield_gview [OF h] by (rule outcome_ok) (use r u h e in \<open>auto split: if_splits\<close>)
qed

lemma futex_resume_ok:
  assumes "kernel_ok s" "runs me h s"
  shows "\<exists>s' r. H2K_futex_resume lock n me (seen h s) = Some (s', r)"
    and "H2K_futex_resume lock n me (seen h s) = Some (s', r) \<Longrightarrow> kernel_ok s'"
proof -
  obtain rq fq xs where f: "kinv (seen h s) rq fq" "status (thr (seen h s) me) = H2K_STATUS_RUNNING" "kernel_ok (seen h s)"
    using seen_facts [OF assms] by metis
  have r: "\<exists>s' r rq' fq'. H2K_futex_resume lock n me (seen h s) = Some (s', r) \<and> kinv s' rq' fq' \<and> \<not> bkl s'"
  proof (cases "n = 0")
    case True
    then show ?thesis using f(1) kernel_okD(2) [OF f(3)] by (auto simp: H2K_futex_resume_def)
  next
    case False
    show ?thesis
    proof (cases rule: safemem_cases [of lock SAFEMEM_R me "seen h s"])
      case (fail t)
      then have "kinv t rq fq" "\<not> bkl t" using f(1) kinv_locks(3) [OF f(1)] kernel_okD(2) [OF f(3)] by auto
      with fail(1) False show ?thesis by (auto simp: H2K_futex_resume_def)
    next
      case (ok pa)
      then have "snd (H2K_safemem_check_and_lock lock SAFEMEM_R me (seen h s)) = Some pa" by simp
      from futex_resume_spec [OF f(1,2) False this] show ?thesis by blast
    qed
  qed
  then show "\<exists>s' r. H2K_futex_resume lock n me (seen h s) = Some (s', r)" by blast
  show "kernel_ok s'" if e: "H2K_futex_resume lock n me (seen h s) = Some (s', r)"
    using r e kernel_ok_keep [OF f(3) _ futex_resume_gview [OF e]] by auto
qed

lemma popup_int_ok:
  assumes "kernel_ok s" "on_hthread me h (seen h s)" "w = NULL \<or> status (thr s w) = H2K_STATUS_INTBLOCKED \<and> unat (hthread (thr s w)) = unat h"
  shows "case H2K_popup_int i me h w (seen h s) of (s', out) \<Rightarrow> kernel_ok (settle out s')"
proof -
  have o: "kernel_ok (seen h s)" using assms(1) by simp
  then obtain rq fq where k: "kinv (seen h s) rq fq" by (auto simp: kernel_ok_def)
  note g = popup_int_gview [of i me h w "seen h s"]
  show ?thesis
  proof (cases "w = NULL")
    case True
    have v: "kview (fst (H2K_popup_int i me h w (seen h s))) = kview (seen h s)" "\<not> bkl (fst (H2K_popup_int i me h w (seen h s)))"
      using True by (simp_all add: H2K_popup_int_def Let_def, simp_all add: kview_def set_handler_def BKL_LOCK_def BKL_UNLOCK_def seen_def)
    show ?thesis using kernel_ok_frame [OF o v(1) g v(2)] True by (simp add: H2K_popup_int_def Let_def)
  next
    case False
    have w: "w \<noteq> NULL" "status (thr (seen h s) w) = H2K_STATUS_INTBLOCKED" "unat (hthread (thr (seen h s) w)) = unat h"
      using assms(3) False by simp_all
    let ?t = "set_handler i NoHandler NULL (BKL_LOCK (seen h s))"
    have kt: "kinv ?t rq fq" using kinv_view [OF k, of ?t] by (simp add: set_handler_def kview_def BKL_LOCK_def)
    have on: "on_hthread me h ?t" using assms(2) by (auto simp: set_handler_def on_hthread_def BKL_LOCK_def split: if_splits)
    have wt: "status (thr ?t w) = H2K_STATUS_INTBLOCKED" "unat (hthread (thr ?t w)) = unat h"
      using w by (simp_all add: set_handler_def BKL_LOCK_def)
    note t = take_over_kinv [OF kt on w(1) wt]
    have e: "H2K_popup_int i me h w (seen h s) = (take_over me h w ?t, Switch me w)" using False by (simp add: H2K_popup_int_def Let_def)
    show ?thesis using switch_ok [OF o t(1) _ t(3)] g unfolding e by simp
  qed
qed


lemma deliver_ok:
  assumes "kernel_ok s" "runs c h s" "t \<noteq> NULL"
  shows "kernel_ok (fst (H2K_vm_int_deliver vb t i (seen h s)))"
proof -
  obtain rq fq xs where f: "kinv (seen h s) rq fq" "status (thr (seen h s) c) = H2K_STATUS_RUNNING" "kernel_ok (seen h s)"
    using seen_facts [OF assms(1,2)] by metis
  let ?l = "BKL_LOCK (seen h s)"
  have l: "kinv ?l rq fq" "status (thr ?l c) = H2K_STATUS_RUNNING" using kinv_locks(1) [OF f(1)] f(2) by (simp_all add: BKL_LOCK_def)
  have "\<exists>rq' fq'. kinv (fst (H2K_vm_int_deliver_locked vb t i ?l)) rq' fq'"
  proof (cases "wakes (thr ?l t)")
    case True
    then show ?thesis using deliver_wakes [OF l True assms(3), of vb i] by (metis fst_conv)
  next
    case False
    show ?thesis
    proof (cases "status (thr ?l t) = H2K_STATUS_DEAD")
      case True
      then show ?thesis using l(1) by (auto simp: deliver_dead)
    next
      case live: False
      show ?thesis using kinv_view [OF l(1) deliver_asleep(5) [OF False live, of vb i]] by blast
    qed
  qed
  then obtain rq' fq' where "kinv (fst (H2K_vm_int_deliver vb t i (seen h s))) rq' fq'"
    unfolding H2K_vm_int_deliver_def split_beta Let_def fst_conv using kinv_locks(2) by blast
  moreover have "\<not> bkl (fst (H2K_vm_int_deliver vb t i (seen h s)))" by (simp add: H2K_vm_int_deliver_def split_beta BKL_UNLOCK_def)
  ultimately show ?thesis using kernel_ok_keep [OF f(3) _ deliver_gview] by blast
qed

lemma kill_gview: "gview (fst (H2K_vmop_kill_thread i me s)) = gview s"
proof -
  have c: "gview (H2K_futex_cancel t s) = gview s" "gview (H2K_popup_cancel t s) = gview s" "gview (H2K_vm_ipi_send_withlock t s) = gview s" for t and s :: H2K_kg_t
    by (rule gview_trest; simp)+
  show ?thesis
    by (simp add: H2K_vmop_kill_thread_def kill_thread_locked_def Let_def kstate_frame c split: tstatus.splits)
qed

lemma create_ok:
  assumes "kernel_ok s" "runs c h s" "free_threads (vmb s vb) \<noteq> NULL \<longrightarrow> idle (thr s (free_threads (vmb s vb)))"
  shows "kernel_ok (fst (H2K_thread_create_no_squash pc sp a p vb me (seen h s)))"
proof -
  obtain rq fq xs where f: "kinv (seen h s) rq fq" "status (thr (seen h s) c) = H2K_STATUS_RUNNING" "kernel_ok (seen h s)"
    using seen_facts [OF assms(1,2)] by metis
  let ?r = "H2K_thread_create_no_squash pc sp a p vb me (seen h s)"
  have "(\<exists>rq fq. kinv (fst ?r) rq fq) \<and> \<not> bkl (fst ?r)"
    using thread_create_spec [OF f(1,2), of vb pc sp p a me] assms(3) f(1) kernel_okD(2) [OF f(3)] by (auto split: if_splits)
  then show ?thesis using kernel_ok_keep [OF f(3) _ create_gview] by blast
qed

lemma timer_int_ok:
  assumes "kernel_ok s" "runs c h s"
  shows "\<exists>s'. H2K_timer_int i (seen h s) = Some s'" and "H2K_timer_int i (seen h s) = Some s' \<Longrightarrow> kernel_ok s'"
proof -
  obtain rq fq xs where f: "kinv (seen h s) rq fq" "status (thr (seen h s) c) = H2K_STATUS_RUNNING" "timer_inv (seen h s) xs" "kernel_ok (seen h s)"
    using seen_facts [OF assms(1,2)] by metis
  note t = timer_int_spec [OF f(1-3), of i]
  then show "\<exists>s'. H2K_timer_int i (seen h s) = Some s'" by blast
  show "kernel_ok s'" if "H2K_timer_int i (seen h s) = Some s'"
    using t that kernel_okD(1) [OF f(4)] unfolding kernel_ok_def by auto
qed

lemma set_timeout_ok:
  assumes "kernel_ok s" "runs me h s"
  shows "\<exists>s' r. H2K_timer_set_timeout me d (seen h s) = Some (s', r)" and "H2K_timer_set_timeout me d (seen h s) = Some (s', r) \<Longrightarrow> kernel_ok s'"
proof -
  obtain rq fq xs where f: "kinv (seen h s) rq fq" "timer_inv (seen h s) xs" "kernel_ok (seen h s)"
    using seen_facts [OF assms(1,2)] by metis
  have m: "me \<noteq> NULL" using runs_on_hthread [OF assms] by simp
  let ?t = "if d = H2K_TIME_FOREVER then H2K_TIME_BIGBANG else d div TIMERHW_NSEC_PER_TICK"
  have e: "H2K_timer_set_timeout me d (seen h s) = H2K_timer_set_timeout_tick me ?t (seen h s)" by (simp add: H2K_timer_set_timeout_def)
  note t = set_timeout_tick_spec [OF f(2) m, of ?t, folded e]
  then show "\<exists>s' r. H2K_timer_set_timeout me d (seen h s) = Some (s', r)" by blast
  show "kernel_ok s'" if h: "H2K_timer_set_timeout me d (seen h s) = Some (s', r)"
  proof -
    have "timer_inv s' (by_expiry (\<lambda>t. timeout (thr (seen h s) t)) (if ?t \<le> last_ticks (seen h s) then 0 else ?t) me (remove1 me xs))"
      "kview s' = kview (seen h s)" "\<not> bkl s'" using t h by auto
    then show ?thesis using kinv_view [OF f(1)] set_timeout_cluster [OF h] kernel_okD(1) [OF f(3)] unfolding kernel_ok_def by metis
  qed
qed


lemma kill_ok:
  assumes "kernel_ok s"
  shows "kernel_ok (fst (H2K_vmop_kill_thread i me (seen h s)))"
proof -
  have o: "kernel_ok (seen h s)" using assms by simp
  then obtain rq fq where k: "kinv (seen h s) rq fq" by (auto simp: kernel_ok_def)
  let ?r = "H2K_vmop_kill_thread i me (seen h s)"
  have d: "kinv ((seen h s)\<lparr>bkl := False\<rparr>) rq fq" using kinv_locks(2) [OF k] by (simp add: BKL_UNLOCK_def)
  have "(\<exists>rq fq. kinv (fst ?r) rq fq) \<and> \<not> bkl (fst ?r)"
    using kill_thread_spec [OF k, where i = i and me = me] k d kernel_okD(2) [OF o] by (auto split: if_splits)
  then show ?thesis using kernel_ok_keep [OF o _ kill_gview] by blast
qed

text \<open>A thread that stops loses its timeout.\<close>

lemma retired_timer:
  assumes tm: "timer_inv s xs" and e: "H2K_timer_cancel_withlock me (BKL_LOCK s) = Some s1"
  shows "timer_inv (retired vb me st s1) (remove1 me xs)" "cluster_sched (retired vb me st s1) = cluster_sched s"
proof -
  have l: "timer_inv (BKL_LOCK s) xs" using timer_inv_gview [OF tm, of "BKL_LOCK s"] by simp
  have w: "tlist (timer_tree NULL s1) 0 (remove1 me xs)" "\<forall>t. timeout (thr s1 t) = timeout (thr s t)" "next_ticks s1 = next_ticks s"
  proof -
    have e': "(if timeout (thr (BKL_LOCK s) me) \<noteq> 0
      then do { st \<leftarrow> H2K_tree_remove (timer_tree NULL (BKL_LOCK s)) (Var 0) me; Some (put_tree st (BKL_LOCK s)) } else Some (BKL_LOCK s)) = Some s1"
      using e unfolding H2K_timer_cancel_withlock_def by simp
    have "thr (BKL_LOCK s) = thr s" "next_ticks (BKL_LOCK s) = next_ticks s" by (simp_all add: BKL_LOCK_def)
    then show "tlist (timer_tree NULL s1) 0 (remove1 me xs)" "\<forall>t. timeout (thr s1 t) = timeout (thr s t)" "next_ticks s1 = next_ticks s"
      using withdraw [OF l, of me] unfolding e' by simp_all
  qed
  note E = retired_eq [of vb me st s1]
  have d: "distinct xs" using timer_invD(4) [OF tm] .
  have z: "tree (thr (retired vb me st s1) t) = (if t = me then tree thread0 else tree (thr s1 t))" for t by (simp add: E)
  have "tlist (timer_tree NULL (retired vb me st s1)) 0 (remove1 me xs)"
    using w(1) by (rule tlist_cong) (use d in \<open>auto simp: z\<close>, simp add: E)
  moreover have "timeout (thr (retired vb me st s1) t) = (if t = me then 0 else timeout (thr s t))" for t
    using w(2) by (simp add: z) (simp add: thread0_def)
  moreover have "next_ticks (retired vb me st s1) = next_ticks s" using w(3) by (simp add: E)
  ultimately show "timer_inv (retired vb me st s1) (remove1 me xs)" using tm d by (auto simp: timer_inv_def)
  show "cluster_sched (retired vb me st s1) = cluster_sched s"
    using e by (auto simp: E H2K_timer_cancel_withlock_def bind_eq_Some_conv put_tree_def BKL_LOCK_def split: if_splits)
qed

lemma stop_ok:
  assumes "kernel_ok s" "runs me h s" "num_cpus (vmb s (vmblock (thr s me))) \<noteq> 1"
  shows "\<exists>s' new. H2K_thread_stop 0 me (seen h s) = Some (s', new)"
    and "H2K_thread_stop 0 me (seen h s) = Some (s', new) \<Longrightarrow> kernel_ok (settle (Switch NULL new) s')"
proof -
  obtain rq fq xs where f: "kinv (seen h s) rq fq" "status (thr (seen h s) me) = H2K_STATUS_RUNNING" "clusters_cover (seen h s)"
    "htid (seen h s) = ucast (hthread (thr (seen h s) me))" "timer_inv (seen h s) xs" "kernel_ok (seen h s)"
    using seen_facts [OF assms(1,2)] by metis
  have m: "num_cpus (vmb (seen h s) (vmblock (thr (seen h s) me))) \<noteq> 1" using assms(3) by simp
  note t = thread_stop_spec [OF f(1-5) m]
  then show "\<exists>s' new. H2K_thread_stop 0 me (seen h s) = Some (s', new)" by blast
  assume e: "H2K_thread_stop 0 me (seen h s) = Some (s', new)"
  let ?vb = "vmblock (thr (seen h s) me)"
  obtain s1 where s1: "H2K_timer_cancel_withlock me (BKL_LOCK (seen h s)) = Some s1"
      "H2K_dosched NULL (htid (signal_parent 0 ?vb (retired ?vb me 0 s1))) (signal_parent 0 ?vb (retired ?vb me 0 s1)) = Some (s', new)"
    using e by (auto simp: thread_stop_steps bind_eq_Some_conv Let_def)
  have vm: "vmb s1 = vmb (seen h s)"
    using s1(1) by (auto simp: H2K_timer_cancel_withlock_def bind_eq_Some_conv put_tree_def BKL_LOCK_def split: if_splits)
  have sp: "signal_parent 0 ?vb (retired ?vb me 0 s1) = retired ?vb me 0 s1"
    using m by (simp add: signal_parent_def retired_eq vm)
  let ?u = "retired ?vb me 0 s1"
  have g: "gview s' = gview ?u" using dosched_gview [OF s1(2)] unfolding sp .
  note r = retired_timer [OF f(5) s1(1), of ?vb 0]
  have n: "next_runs NULL new (seen h s) s' rq fq" using t e by auto
  show "kernel_ok (settle (Switch NULL new) s')"
  proof (cases "new = NULL")
    case True
    then have k: "kinv (H2K_switch NULL NULL s') rq fq" using n by (simp add: next_runs_def)
    have "timer_inv (H2K_switch NULL NULL s') (remove1 me xs)" using timer_inv_gview [OF r(1), of "H2K_switch NULL NULL s'"] g by simp
    then show ?thesis using k True gview_eqD(1) [OF g] r(2) kernel_okD(1) [OF f(6)]
      unfolding kernel_ok_def settle_def by (auto simp: H2K_switch_def Let_def)
  next
    case False
    then obtain p where k: "kinv s' (rq(p := tl (rq p))) fq" "status (thr s' new) = H2K_STATUS_RUNNING"
      using n unfolding next_runs_def if_not_P [OF False] by (elim exE conjE)
    have "timer_inv s' (remove1 me xs)" using timer_inv_gview [OF r(1) g] .
    then have "kernel_ok (s'\<lparr>bkl := False\<rparr>)"
      using k(1) kinv_locks(2) [OF k(1)] gview_eqD(1) [OF g] r(2) kernel_okD(1) [OF f(6)] timer_inv_gview [of s' "remove1 me xs" "BKL_UNLOCK s'"]
      unfolding kernel_ok_def by (auto simp: BKL_UNLOCK_def gview_def)
    moreover have "gview s' = gview (s'\<lparr>bkl := False\<rparr>)" by (simp add: gview_def)
    ultimately show ?thesis using switch_ok k by blast
  qed
qed

section \<open>The transition system\<close>

text \<open>
  The kernel entries that schedule, with the arguments the caller chooses; \<open>kenter\<close> runs the
  whole entry on the hardware thread \<open>h\<close>, which runs \<open>me\<close> (or waits, for an interrupt with
  \<open>me = NULL\<close>).
\<close>

datatype kentry = Futex_wait u32 u32 | Futex_resume u32 u32 | Yield | Resched | Vmwait | Popup_wait u32 | Popup_int u32
  | Timer_int u32 | Set_timeout u64 | Deliver ptr ptr u32 | Kill_thread u32 | Create u32 u32 u32 u32 ptr | Stop

definition settled :: "(H2K_kg_t \<times> 'a outcome) option \<Rightarrow> H2K_kg_t option" where
  "settled r = map_option (\<lambda>(s, out). settle out s) r"

primrec kenter :: "kentry \<Rightarrow> ptr \<Rightarrow> u32 \<Rightarrow> H2K_kg_t \<Rightarrow> H2K_kg_t option" where
  "kenter (Futex_wait lock val) me h s = settled (H2K_futex_wait lock val me (seen h s))"
| "kenter (Futex_resume lock n) me h s = map_option fst (H2K_futex_resume lock n me (seen h s))"
| "kenter Yield me h s = settled (H2K_sched_yield me (seen h s))"
| "kenter Resched me h s = map_option (\<lambda>(t, new). settle (Switch me new :: unit outcome) t) (H2K_resched me h (seen h s))"
| "kenter Vmwait me h s = settled (H2K_vmtrap_wait me (seen h s))"
| "kenter (Popup_wait i) me h s = settled (H2K_popup_wait i me (seen h s))"
| "kenter (Popup_int i) me h s = settled (Some (H2K_popup_int i me h (int_param s (unat i)) (seen h s)))"
| "kenter (Timer_int i) me h s = H2K_timer_int i (seen h s)"
| "kenter (Set_timeout d) me h s = map_option fst (H2K_timer_set_timeout me d (seen h s))"
| "kenter (Deliver vb t i) me h s = Some (fst (H2K_vm_int_deliver vb t i (seen h s)))"
| "kenter (Kill_thread i) me h s = Some (fst (H2K_vmop_kill_thread i me (seen h s)))"
| "kenter (Create pc sp a p vb) me h s = Some (fst (H2K_thread_create_no_squash pc sp a p vb me (seen h s)))"
| "kenter Stop me h s = map_option (\<lambda>(t, new). settle (Switch NULL new :: unit outcome) t) (H2K_thread_stop 0 me (seen h s))"

text \<open>
  When an entry can happen. A thread that enters the kernel runs on its hardware thread; only the
  interrupts also reach a waiting one. The blocking calls are those of a thread with no pending
  guest work, with the TLB lock free for the one that takes it; a popup interrupt arrives at the
  hardware thread its waiter last ran on; a thread is created on a context that is free; and the
  last thread of a VM does not stop here, because that signals the parent.
\<close>

primrec enabled :: "kentry \<Rightarrow> ptr \<Rightarrow> u32 \<Rightarrow> H2K_kg_t \<Rightarrow> bool" where
  "enabled (Futex_wait lock val) me h s = (runs me h s \<and> \<not> bit (vmstatus (thr s me)) VMWORK \<and> \<not> tlb_lock s)"
| "enabled (Futex_resume lock n) me h s = runs me h s"
| "enabled Yield me h s = runs me h s"
| "enabled Resched me h s = on_hthread me h (seen h s)"
| "enabled Vmwait me h s = (runs me h s \<and> \<not> bit (vmstatus (thr s me)) VMWORK \<and> \<not> bit (vmstatus (thr s me)) KILL)"
| "enabled (Popup_wait i) me h s = (runs me h s \<and> \<not> bit (vmstatus (thr s me)) VMWORK)"
| "enabled (Popup_int i) me h s = (on_hthread me h (seen h s) \<and> (let w = int_param s (unat i) in
     w = NULL \<or> status (thr s w) = H2K_STATUS_INTBLOCKED \<and> unat (hthread (thr s w)) = unat h))"
| "enabled (Timer_int i) me h s = runs me h s"
| "enabled (Set_timeout d) me h s = runs me h s"
| "enabled (Deliver vb t i) me h s = (runs me h s \<and> t \<noteq> NULL)"
| "enabled (Kill_thread i) me h s = runs me h s"
| "enabled (Create pc sp a p vb) me h s =
     (runs me h s \<and> (free_threads (vmb s vb) \<noteq> NULL \<longrightarrow> idle (thr s (free_threads (vmb s vb)))))"
| "enabled Stop me h s = (runs me h s \<and> num_cpus (vmb s (vmblock (thr s me))) \<noteq> 1)"

text \<open>
  A step of the machine: a kernel entry, or anything that leaves the scheduler's data and the
  timeouts as they are (a guest computes, writes memory, fills the TLB or handles its interrupts).
\<close>

inductive kstep :: "H2K_kg_t \<Rightarrow> H2K_kg_t \<Rightarrow> bool" where
  enter: "enabled e me h s \<Longrightarrow> kenter e me h s = Some s' \<Longrightarrow> kstep s s'"
| other: "kview s' = kview s \<Longrightarrow> gview s' = gview s \<Longrightarrow> bkl s' = bkl s \<Longrightarrow> kstep s s'"

inductive_cases kstepE: "kstep s s'"

lemma kenter_ok:
  assumes "kernel_ok s" "enabled e me h s" "kenter e me h s = Some s'"
  shows "kernel_ok s'"
proof (cases e)
  case (Popup_int i)
  then show ?thesis using assms popup_int_ok [of s me h "int_param s (unat i)" i] by (simp add: settled_def Let_def split: prod.splits)
next
  case (Futex_wait lock val)
  then show ?thesis using assms(2,3) futex_wait_ok [OF assms(1)] by (auto simp: settled_def)
next
  case (Futex_resume lock n)
  then show ?thesis using assms(2,3) futex_resume_ok(2) [OF assms(1)] by (auto simp: settled_def)
next
  case Yield
  then show ?thesis using assms(2,3) yield_ok(2) [OF assms(1)] by (auto simp: settled_def)
next
  case Resched
  then show ?thesis using assms(2,3) resched_ok(2) [OF assms(1)] by (auto simp: settled_def)
next
  case Vmwait
  then show ?thesis using assms(2,3) vmwait_ok [OF assms(1)] by (auto simp: settled_def)
next
  case (Popup_wait i)
  then show ?thesis using assms(2,3) popup_wait_ok [OF assms(1)] by (auto simp: settled_def)
next
  case (Timer_int i)
  then show ?thesis using assms(2,3) timer_int_ok(2) [OF assms(1)] by (auto simp: settled_def)
next
  case (Set_timeout d)
  then show ?thesis using assms(2,3) set_timeout_ok(2) [OF assms(1)] by (auto simp: settled_def)
next
  case (Deliver vb t i)
  then show ?thesis using assms(2,3) deliver_ok [OF assms(1)] by auto
next
  case (Kill_thread i)
  then show ?thesis using assms(3) kill_ok [OF assms(1), of i me h] by simp
next
  case (Create pc sp a p vb)
  then show ?thesis using assms(2,3) create_ok [OF assms(1)] by auto
next
  case Stop
  then show ?thesis using assms(2,3) stop_ok(2) [OF assms(1)] by (auto simp: settled_def)
qed

lemma kstep_ok: "kstep s s' \<Longrightarrow> kernel_ok s \<Longrightarrow> kernel_ok s'"
proof (erule kstepE)
  fix e me h
  assume "enabled e me h s" "kenter e me h s = Some s'" "kernel_ok s"
  then show ?thesis by (blast intro: kenter_ok)
next
  assume "kview s' = kview s" "gview s' = gview s" "bkl s' = bkl s" "kernel_ok s"
  then show ?thesis using kernel_ok_frame kernel_okD(2) by blast
qed

lemma reachable_ok: "kstep\<^sup>*\<^sup>* s0 s \<Longrightarrow> kernel_ok s0 \<Longrightarrow> kernel_ok s"
  by (induction rule: rtranclp_induct) (auto intro: kstep_ok)

lemma blocking_returns:
  assumes "kernel_ok s" "runs me h s" "\<not> bit (vmstatus (thr s me)) VMWORK"
  shows "\<not> tlb_lock s \<Longrightarrow> \<exists>r. H2K_futex_wait lock val me (seen h s) = Some r"
    "\<exists>r. H2K_popup_wait i me (seen h s) = Some r"
    "\<not> bit (vmstatus (thr s me)) KILL \<Longrightarrow> \<exists>r. H2K_vmtrap_wait me (seen h s) = Some r"
proof -
  obtain rq fq xs where f: "kinv (seen h s) rq fq" "status (thr (seen h s) me) = H2K_STATUS_RUNNING" "clusters_cover (seen h s)"
    "htid (seen h s) = ucast (hthread (thr (seen h s) me))"
    using seen_facts [OF assms(1,2)] by metis
  have w: "\<not> bit (vmstatus (thr (seen h s) me)) VMWORK" using assms(3) by simp
  show "\<exists>r. H2K_futex_wait lock val me (seen h s) = Some r" if "\<not> tlb_lock s"
    using futex_wait_spec [OF f w, of lock val] that by (auto split: if_splits)
  show "\<exists>r. H2K_popup_wait i me (seen h s) = Some r" using popup_wait_spec [OF f w, of i] by (auto split: if_splits)
  show "\<exists>r. H2K_vmtrap_wait me (seen h s) = Some r" if "\<not> bit (vmstatus (thr s me)) KILL"
    using vmwait_spec [OF f w] that by auto
qed

lemma kenter_returns:
  assumes "kernel_ok s" "enabled e me h s"
  shows "\<exists>s'. kenter e me h s = Some s'"
proof (cases e)
  case (Futex_wait lock val)
  then show ?thesis using assms blocking_returns(1) [of s me h lock val] by (auto simp: settled_def)
next
  case (Popup_wait i)
  then show ?thesis using assms blocking_returns(2) [of s me h i] by (auto simp: settled_def)
next
  case Vmwait
  then show ?thesis using assms blocking_returns(3) [of s me h] by (auto simp: settled_def)
qed (use assms futex_resume_ok(1) [of s me h] yield_ok(1) [of s me h] resched_ok(1) [of s me h] timer_int_ok(1) [of s me h]
    set_timeout_ok(1) [of s me h] stop_ok(1) [of s me h] in \<open>fastforce simp: settled_def\<close>)+

section \<open>Properties of every reachable state\<close>



lemma timer_example_ok: "kernel_ok timer_example" "enabled Yield 20 0 timer_example"
  using timer_example_inv by (auto simp: kernel_ok_def runs_def timer_example_thr(1))
    (simp_all add: timer_example_def vm_example_def futex_example_def sched_base_def kg0_def)



end
