(* ===== verification/Hwconfig.thy ===== *)
theory Hwconfig
  imports Globals Kernel
begin

text \<open>
  The hardware configuration trap (\<^verbatim>\<open>kernel/traps/hwconfig/hwconfig.ref.c\<close>), single-thread mode
  (\<^verbatim>\<open>kernel/util/stmode/stmode.ref.c\<close>) and the initialisation of the L2 cache
  (\<^verbatim>\<open>kernel/init/l2cache/l2cache.ref.c\<close>, for the architectures with a configuration table). The
  build has no coprocessor extensions (\<^verbatim>\<open>HAVE_EXTENSIONS\<close>, \<^verbatim>\<open>DO_EXT_SWITCH\<close>) and has cluster scheduling
  and \<^verbatim>\<open>HMX_HLX_SUPPORT\<close>; devices are present. The cache instructions have no effect on the modelled
  state; \<open>devmem\<close> is the device memory by virtual address.

  The properties: enabling a coprocessor under cluster scheduling hands the hardware thread to the
  next thread and keeps the kernel invariant; disabling it gives its slot back; starting hardware
  threads picks the least available ones; and the size of the tightly coupled memory is kept in
  bytes but read as pages by the offset translation.
\<close>

section \<open>Machine operations\<close>

definition H2K_clear_gie :: "H2K_kg_t \<Rightarrow> H2K_kg_t" where "H2K_clear_gie s = s\<lparr>hw_syscfg := unset_bit 4 (hw_syscfg s)\<rparr>"
definition H2K_set_gie :: "H2K_kg_t \<Rightarrow> H2K_kg_t" where "H2K_set_gie s = s\<lparr>hw_syscfg := set_bit 4 (hw_syscfg s)\<rparr>"
definition H2K_set_syscfg :: "u32 \<Rightarrow> H2K_kg_t \<Rightarrow> H2K_kg_t" where "H2K_set_syscfg v s = s\<lparr>hw_syscfg := v\<rparr>"
definition H2K_get_vwctrl :: "H2K_kg_t \<Rightarrow> u32" where "H2K_get_vwctrl s = hw_vwctrl s (unat (htid s))"
definition H2K_set_vwctrl :: "u32 \<Rightarrow> H2K_kg_t \<Rightarrow> H2K_kg_t" where
  "H2K_set_vwctrl v s = s\<lparr>hw_vwctrl := (hw_vwctrl s)(unat (htid s) := v)\<rparr>"

text \<open>Starting threads: the enables of the existing threads of the mask are set.\<close>

definition H2K_start_threads :: "u32 \<Rightarrow> H2K_kg_t \<Rightarrow> H2K_kg_t" where
  "H2K_start_threads m s = s\<lparr>hw_modectl := hw_modectl s OR (m AND hw_hthreads s)\<rparr>"

definition MODECTL_E_MASK :: u32 where "MODECTL_E_MASK = 0xffff"
definition MAX_HTHREADS_MASK :: u32 where "MAX_HTHREADS_MASK = 0xffff"

section \<open>Single-thread mode\<close>

definition H2K_stmode_begin :: "H2K_kg_t \<Rightarrow> H2K_kg_t \<times> int" where
  "H2K_stmode_begin s =
     (let s1 = H2K_clear_gie (BKL_LOCK s);
          tmp = hw_modectl s1;
          on = tmp AND drop_bit 16 (NOT tmp);
          rest = on AND (on - 1)
      in if rest = 0 then (BKL_UNLOCK s1, 0) else (BKL_UNLOCK (H2K_set_gie s1), -1))"

definition H2K_stmode_end :: "H2K_kg_t \<Rightarrow> H2K_kg_t" where
  "H2K_stmode_end s = H2K_set_gie s"

section \<open>Device registers\<close>

definition L2CFG_BASE_VA :: u32 where "L2CFG_BASE_VA = 0xffd00000"

definition xreg :: "H2K_kg_t \<Rightarrow> u32 \<Rightarrow> u32 \<Rightarrow> u32" where
  "xreg s cfg_offset offset = L2CFG_BASE_VA + (cfg_shifted s cfg_offset AND 0xfffff) + (offset AND NOT 3)"

definition getxreg :: "u32 \<Rightarrow> u32 \<Rightarrow> H2K_kg_t \<Rightarrow> u32" where
  "getxreg cfg_offset offset s = devmem s (xreg s cfg_offset offset)"

definition setxreg :: "u32 \<Rightarrow> u32 \<Rightarrow> u32 \<Rightarrow> H2K_kg_t \<Rightarrow> H2K_kg_t \<times> u32" where
  "setxreg cfg_offset offset val s =
     (let reg = xreg s cfg_offset offset in (s\<lparr>devmem := (devmem s)(reg := val)\<rparr>, devmem s reg))"

definition ECCREGS_NREGS :: nat where "ECCREGS_NREGS = 8"
definition ECCREGS_STRIDE :: u32 where "ECCREGS_STRIDE = 0x100"

definition ecc_write :: "u32 \<Rightarrow> nat \<Rightarrow> H2K_kg_t \<Rightarrow> H2K_kg_t" where
  "ecc_write ecc i s =
     (let off = ECCREGS_STRIDE * of_nat i;
          tmp = insert_field (getxreg CFG_TABLE_ECC_BASE off s) (if bit ecc i then 0xa else 0x5) 4 0
      in fst (setxreg CFG_TABLE_ECC_BASE off tmp s))"

section \<open>L2 cache\<close>

definition SYSCFG_L2CFG :: u32 where "SYSCFG_L2CFG = push_bit 16 7"
definition SYSCFG_L2NWA :: u32 where "SYSCFG_L2NWA = push_bit 21 1"
definition SYSCFG_L2NRA :: u32 where "SYSCFG_L2NRA = push_bit 22 1"
definition SYSCFG_L2WB :: u32 where "SYSCFG_L2WB = push_bit 23 1"

text \<open>
  Up to the instruction that kills the cache: write-through without allocation, then size 0. The
  register value comes from before \<open>H2K_stmode_begin\<close>.
\<close>

definition l2_drain :: "u32 \<Rightarrow> H2K_kg_t \<Rightarrow> H2K_kg_t \<times> u32" where
  "l2_drain syscfg s =
     (let c1 = syscfg AND NOT SYSCFG_L2WB AND NOT SYSCFG_L2NWA AND NOT SYSCFG_L2NRA;
          s1 = H2K_set_syscfg c1 s;
          c2 = c1 AND NOT SYSCFG_L2CFG
      in (H2K_set_syscfg c2 s1, c2))"

definition H2K_trap_do_hwconfig_l2cache :: "u32 \<Rightarrow> u32 \<Rightarrow> u32 \<Rightarrow> H2K_kg_t \<Rightarrow> H2K_kg_t \<times> u32" where
  "H2K_trap_do_hwconfig_l2cache ecc sz0 use_wb0 s =
     (let syscfg = hw_syscfg s;
          cur_nwa = syscfg AND SYSCFG_L2NWA;
          cur_nra = syscfg AND SYSCFG_L2NRA;
          sz = sz0 AND 7;
          use_wb = use_wb0 AND 1;
          (s1, r) = H2K_stmode_begin s
      in if r \<noteq> 0 then (s1, -1)
         else
           let (s2, c2) = l2_drain syscfg s1;
               c3 = c2 OR push_bit 16 sz OR push_bit 23 use_wb OR (cur_nwa OR cur_nra);
               s3 = (if ecc \<noteq> ecc_enable s2 then (fold (ecc_write ecc) [0..<ECCREGS_NREGS] s2)\<lparr>ecc_enable := ecc\<rparr> else s2);
               s4 = H2K_stmode_end ((H2K_set_syscfg c3 s3)\<lparr>syscfg_val := c3\<rparr>);
               s5 = s4\<lparr>l2tags := sz\<rparr>
           in (s5\<lparr>tcm_size := l2size s5 - l2tag_bytes s5\<rparr>, 0))"

definition H2K_trap_hwconfig_l2cache :: "u32 \<Rightarrow> u32 \<Rightarrow> H2K_kg_t \<Rightarrow> H2K_kg_t \<times> u32" where
  "H2K_trap_hwconfig_l2cache sz use_wb s = H2K_trap_do_hwconfig_l2cache (ecc_enable s) sz use_wb s"

definition H2K_trap_hwconfig_ecc :: "u32 \<Rightarrow> H2K_kg_t \<Rightarrow> H2K_kg_t \<times> u32" where
  "H2K_trap_hwconfig_ecc ecc s =
     (if ecc \<ge> push_bit ECCREGS_NREGS 1 then (s, -1)
      else
        let s1 = fold (\<lambda>i s. if getxreg CFG_TABLE_ECC_BASE (ECCREGS_STRIDE * of_nat i) s AND 0xa \<noteq> 0
                   then s\<lparr>ecc_enable := ecc_enable s OR push_bit i 1\<rparr> else s) [0..<ECCREGS_NREGS] s;
            syscfg = hw_syscfg s1
        in H2K_trap_do_hwconfig_l2cache ecc (drop_bit 16 (syscfg AND SYSCFG_L2CFG)) (drop_bit 23 (syscfg AND SYSCFG_L2WB)) s1)"

definition H2K_trap_hwconfig_partitions :: "u32 \<Rightarrow> u32 \<Rightarrow> H2K_kg_t \<Rightarrow> H2K_kg_t \<times> u32" where
  "H2K_trap_hwconfig_partitions whatcache configval s =
     (let s1 = BKL_LOCK s;
          syscfg = Q6_R_insert_RP (hw_syscfg s1) configval 2 (25 + 2 * whatcache);
          s2 = (H2K_set_syscfg syscfg s1)\<lparr>syscfg_val := syscfg\<rparr>
      in (BKL_UNLOCK s2, 0))"

section \<open>Bits of the caller's registers\<close>

definition put_ccr :: "ptr \<Rightarrow> u32 \<Rightarrow> nat \<Rightarrow> nat \<Rightarrow> H2K_kg_t \<Rightarrow> H2K_kg_t" where
  "put_ccr me v width off = upd_thr me (\<lambda>c. c\<lparr>ccr := insert_field (ccr c) v width off\<rparr>)"

definition H2K_trap_hwconfig_prefetch :: "u32 \<Rightarrow> u32 \<Rightarrow> ptr \<Rightarrow> H2K_kg_t \<Rightarrow> H2K_kg_t \<times> u32" where
  "H2K_trap_hwconfig_prefetch whatcache configval me s =
     (if whatcache = 0 then put_ccr me configval 1 16 s
      else if whatcache = 1 then put_ccr me configval 1 17 s
      else if whatcache = 2 then put_ccr me configval 1 20 s
      else if whatcache = 3 then put_ccr me configval 1 18 s
      else if whatcache = 4 then put_ccr me configval 1 19 s
      else s, 0)"

definition H2K_trap_hwconfig_coproc_bits :: "u32 \<Rightarrow> ptr \<Rightarrow> H2K_kg_t \<Rightarrow> H2K_kg_t \<times> u32" where
  "H2K_trap_hwconfig_coproc_bits coproc me s = (put_ccr me coproc 1 3 s, 0)"

definition H2K_trap_hwconfig_l2cp :: "u32 \<Rightarrow> ptr \<Rightarrow> H2K_kg_t \<Rightarrow> H2K_kg_t \<times> u32" where
  "H2K_trap_hwconfig_l2cp configval me s = (put_ccr me configval 2 6 s, 0)"

text \<open>Leaving the hardware thread as if by a reschedule interrupt; the trap returns 0 when the thread runs again.\<close>

definition coproc_block :: "ptr \<Rightarrow> H2K_kg_t \<Rightarrow> (H2K_kg_t \<times> u32 outcome) option" where
  "coproc_block me s =
     (let s1 = upd_thr me (\<lambda>c. c\<lparr>r00 := 0\<rparr>) s;
          s2 = H2K_ready_append me (H2K_runlist_remove me s1)
      in do { (s3, new) \<leftarrow> H2K_dosched me (ucast (hthread (thr s2 me))) s2; Some (s3, Switch me new) })"

definition put_hlx :: "u32 \<Rightarrow> u32 \<Rightarrow> ptr \<Rightarrow> H2K_kg_t \<Rightarrow> H2K_kg_t" where
  "put_hlx xa3 xe3 me s = put_ccr me xe3 1 28 (put_ccr me xa3 1 21 s)"

definition H2K_trap_hwconfig_hlxbits :: "u32 \<Rightarrow> u32 \<Rightarrow> ptr \<Rightarrow> H2K_kg_t \<Rightarrow> (H2K_kg_t \<times> u32 outcome) option" where
  "H2K_trap_hwconfig_hlxbits xa3 xe3 me s =
     (if 0 < hlx_contexts s
      then
        if cluster_sched s \<noteq> 0
        then
          let s1 = BKL_LOCK s; c = thr s1 me
          in if xe3 \<noteq> 0 \<and> \<not> ccr_xe3 c then coproc_block me (put_hlx xa3 xe3 me s1)
             else
               let s2 = (if xe3 = 0 \<and> ccr_xe3 c
                         then xex (ucast (hthread c)) (ssr_xe c) (ssr_xe2 c) False (ssr_xe c) (ssr_xe2 c) True s1 else s1)
               in Some (put_hlx xa3 xe3 me (BKL_UNLOCK s2), Ret 0)
        else Some (put_hlx xa3 xe3 me s, Ret 0)
      else Some (s, Ret (-1)))"

definition put_hmx :: "u32 \<Rightarrow> ptr \<Rightarrow> H2K_kg_t \<Rightarrow> H2K_kg_t" where
  "put_hmx xe2 me = upd_thr me (\<lambda>c. c\<lparr>ssr := insert_field (ssr c) xe2 1 26\<rparr>)"

definition H2K_trap_hwconfig_hmxbits :: "u32 \<Rightarrow> ptr \<Rightarrow> H2K_kg_t \<Rightarrow> (H2K_kg_t \<times> u32 outcome) option" where
  "H2K_trap_hwconfig_hmxbits xe2 me s =
     (if 0 < hmx_units s
      then
        if cluster_sched s \<noteq> 0
        then
          let s1 = BKL_LOCK s; c = thr s1 me
          in if xe2 \<noteq> 0 \<and> \<not> ssr_xe2 c then coproc_block me (put_hmx xe2 me s1)
             else
               let s2 = (if xe2 = 0 \<and> ssr_xe2 c
                         then xex (ucast (hthread c)) (ssr_xe c) False (ccr_xe3 c) (ssr_xe c) True (ccr_xe3 c) s1 else s1)
               in Some (put_hmx xe2 me (BKL_UNLOCK s2), Ret 0)
        else Some (put_hmx xe2 me s, Ret 0)
      else Some (s, Ret (-1)))"

text \<open>The bits are the kernel's business when the number is in the range of vector contexts.\<close>

definition put_ext :: "u32 \<Rightarrow> u32 \<Rightarrow> ptr \<Rightarrow> H2K_kg_t \<Rightarrow> H2K_kg_t" where
  "put_ext xa xe me s =
     (if xa \<ge> coproc_contexts s
      then upd_thr me (\<lambda>c. c\<lparr>ssr := insert_field (insert_field (ssr c) xa 3 27) xe 1 31, vmstatus := unset_bit 6 (vmstatus c)\<rparr>) s
      else s)"

definition H2K_trap_hwconfig_extbits :: "u32 \<Rightarrow> u32 \<Rightarrow> ptr \<Rightarrow> H2K_kg_t \<Rightarrow> (H2K_kg_t \<times> u32 outcome) option" where
  "H2K_trap_hwconfig_extbits xa xe me s =
     (if cluster_sched s \<noteq> 0
      then
        let s1 = BKL_LOCK s; c = thr s1 me
        in if xe \<noteq> 0 \<and> \<not> ssr_xe c then coproc_block me (put_ext xa xe me s1)
           else
             let s2 = (if xe = 0 \<and> ssr_xe c
                       then xex (ucast (hthread c)) False (ssr_xe2 c) (ccr_xe3 c) True (ssr_xe2 c) (ccr_xe3 c) s1 else s1)
             in Some (put_ext xa xe me (BKL_UNLOCK s2), Ret 0)
      else Some (put_ext xa xe me s, Ret 0))"

text \<open>The two operations on the power and the length of vectors do nothing in this build.\<close>

definition H2K_trap_hwconfig_vlength :: "u32 \<Rightarrow> H2K_kg_t \<Rightarrow> H2K_kg_t \<times> u32" where
  "H2K_trap_hwconfig_vlength vlength s = (s, -1)"

definition H2K_trap_hwconfig_extpower :: "u32 \<Rightarrow> H2K_kg_t \<Rightarrow> H2K_kg_t \<times> u32" where
  "H2K_trap_hwconfig_extpower state s = (s, -1)"

section \<open>Register windows\<close>

definition L2REGS_MAX :: u32 where "L2REGS_MAX = 0x4000"
definition CLADEREGS_MAX :: u32 where "CLADEREGS_MAX = 0x10 * 4 + 0x1c"
definition ECCREGS_MAX :: u32 where "ECCREGS_MAX = ECCREGS_STRIDE * 7"
definition KERROR_L2CACHE_INIT_CONFIG :: u32 where "KERROR_L2CACHE_INIT_CONFIG = 4"
definition KERROR_HWCONFIG_L2REG_RANGE :: u32 where "KERROR_HWCONFIG_L2REG_RANGE = 5"
definition KERROR_HWCONFIG_CLADEREG_RANGE :: u32 where "KERROR_HWCONFIG_CLADEREG_RANGE = 6"
definition KERROR_HWCONFIG_STRIDE_PREFETCHER_RANGE :: u32 where "KERROR_HWCONFIG_STRIDE_PREFETCHER_RANGE = 8"
definition KERROR_HWCONFIG_DPM_VOLTLMTMGMT_RANGE :: u32 where "KERROR_HWCONFIG_DPM_VOLTLMTMGMT_RANGE = 9"
definition KERROR_HWCONFIG_ECCREG_RANGE :: u32 where "KERROR_HWCONFIG_ECCREG_RANGE = 10"

definition H2K_trap_hwconfig_getl2reg :: "u32 \<Rightarrow> H2K_kg_t \<Rightarrow> H2K_kg_t \<times> u32" where
  "H2K_trap_hwconfig_getl2reg offset s =
     (if offset > L2REGS_MAX then (s\<lparr>kernel_error := KERROR_HWCONFIG_L2REG_RANGE\<rparr>, 0)
      else (s, getxreg CFG_TABLE_L2REGS offset s))"

text \<open>Bit of the register and bit of the address, for region, compressed, high, small and large exceptions.\<close>

definition clade_regs :: "(nat \<times> nat) list" where
  "clade_regs = [(0, 29), (12, 16), (8, 12), (0, 0), (8, 12)]"

definition clade_shift :: "u32 \<Rightarrow> nat" where
  "clade_shift offset =
     (let idx = (if offset = 0 then 0 else unat ((offset mod 0x10) div 4) + 1); (regbit, addrbit) = clade_regs ! idx
      in addrbit - regbit)"

definition H2K_trap_hwconfig_getcladereg :: "u32 \<Rightarrow> H2K_kg_t \<Rightarrow> H2K_kg_t \<times> u32" where
  "H2K_trap_hwconfig_getcladereg offset s =
     (if offset > CLADEREGS_MAX then (s\<lparr>kernel_error := KERROR_HWCONFIG_CLADEREG_RANGE\<rparr>, 0)
      else (s, push_bit (clade_shift offset) (getxreg CFG_TABLE_CLADEREGS offset s)))"

definition H2K_trap_hwconfig_setl2reg :: "u32 \<Rightarrow> u32 \<Rightarrow> H2K_kg_t \<Rightarrow> H2K_kg_t \<times> u32" where
  "H2K_trap_hwconfig_setl2reg offset val s =
     (if offset > L2REGS_MAX then (s\<lparr>kernel_error := KERROR_HWCONFIG_L2REG_RANGE\<rparr>, 0)
      else setxreg CFG_TABLE_L2REGS offset val s)"

definition H2K_trap_hwconfig_setcladereg :: "u32 \<Rightarrow> u32 \<Rightarrow> H2K_kg_t \<Rightarrow> H2K_kg_t \<times> u32" where
  "H2K_trap_hwconfig_setcladereg offset val s =
     (if offset > CLADEREGS_MAX then (s\<lparr>kernel_error := KERROR_HWCONFIG_CLADEREG_RANGE\<rparr>, 0)
      else
        let (s1, ret) = setxreg CFG_TABLE_CLADEREGS offset (drop_bit (clade_shift offset) val) s
        in (s1, push_bit (clade_shift offset) ret))"

text \<open>
  Locking lines of the L2 cache: \<open>hw_l2locka a n\<close> says whether the n-th attempt on the line at
  \<open>a\<close> succeeds. The offset of the line wraps, so the loop may not end.
\<close>

definition line_locked :: "(u32 \<Rightarrow> nat \<Rightarrow> bool) \<Rightarrow> u32 \<Rightarrow> bool" where
  "line_locked hw_l2locka a = (\<exists>n\<le>1024 * 1024. hw_l2locka a n)"

partial_function (option) l2_lock_loop :: "(u32 \<Rightarrow> nat \<Rightarrow> bool) \<Rightarrow> u32 \<Rightarrow> u32 \<Rightarrow> u32 \<Rightarrow> u32 option" where
  "l2_lock_loop hw_l2locka addr len off =
     (if off < len
      then if line_locked hw_l2locka (addr + off) then l2_lock_loop hw_l2locka addr len (off + 64) else Some 1
      else Some 0)"

definition H2K_trap_hwconfig_l2locka :: "(u32 \<Rightarrow> nat \<Rightarrow> bool) \<Rightarrow> u32 \<Rightarrow> u32 \<Rightarrow> ptr \<Rightarrow> H2K_kg_t \<Rightarrow> (H2K_kg_t \<times> u32) option" where
  "H2K_trap_hwconfig_l2locka hw_l2locka addr len me s =
     (case H2K_safemem_check_and_lock addr SAFEMEM_RW me s of
        (s1, None) \<Rightarrow> Some (s1, 1)
      | (s1, Some pa) \<Rightarrow> do { ret \<leftarrow> l2_lock_loop hw_l2locka addr len 0; Some (H2K_safemem_unlock s1, ret) })"

definition H2K_trap_hwconfig_l2unlock :: "H2K_kg_t \<Rightarrow> H2K_kg_t \<times> u32" where
  "H2K_trap_hwconfig_l2unlock s = (s, 0)"

definition H2K_trap_hwconfig_hwintop :: "u32 \<Rightarrow> H2K_kg_t \<Rightarrow> H2K_kg_t \<times> u32" where
  "H2K_trap_hwconfig_hwintop op_and_int s =
     (let op = drop_bit 16 op_and_int; intno = op_and_int AND 0xffff
      in if unat intno \<ge> MAX_INTERRUPTS then (s, 1)
         else if op \<ge> 3 then (s, 1)
         else (if op = 0 then H2K_intcontrol_enable intno s
               else if op = 1 then H2K_intcontrol_disable intno s
               else H2K_intcontrol_raise intno s, 0))"

section \<open>Hardware threads\<close>

definition count_threads :: "H2K_kg_t \<Rightarrow> H2K_kg_t" where
  "count_threads s =
     (let m = hw_modectl s AND MODECTL_E_MASK in s\<lparr>hthreads_mask := m, hthreads := of_nat (popcount m)\<rparr>)"

definition H2K_trap_hwconfig_hwthreads_mask :: "u32 \<Rightarrow> H2K_kg_t \<Rightarrow> H2K_kg_t \<times> u32" where
  "H2K_trap_hwconfig_hwthreads_mask m s =
     (let s1 = H2K_cluster_config (count_threads (H2K_start_threads ((m AND MAX_HTHREADS_MASK) OR 0x1) s))
      in (s1, hthreads_mask s1))"

partial_function (option) pick_threads :: "u32 \<Rightarrow> nat \<Rightarrow> nat \<Rightarrow> nat \<Rightarrow> u32 \<Rightarrow> u32 option" where
  "pick_threads m num i nthreads new_mask =
     (if nthreads < num
      then if bit m i then pick_threads m num (i + 1) (nthreads + 1) (new_mask OR push_bit i 1)
           else pick_threads m num (i + 1) nthreads new_mask
      else Some new_mask)"

definition H2K_trap_hwconfig_hwthreads_num :: "u32 \<Rightarrow> H2K_kg_t \<Rightarrow> (H2K_kg_t \<times> u32) option" where
  "H2K_trap_hwconfig_hwthreads_num num s =
     do {
       m \<leftarrow> (if 0x65 < arch s
             then let avail = H2K_cfg_table s CFG_TABLE_HTHREADS_MASK in pick_threads avail (min (unat num) (popcount avail)) 0 0 0
             else Some (push_bit (unat num) 1 - 1));
       let s1 = s\<lparr>hthreads_mask := m\<rparr>;
       let s2 = H2K_cluster_config (count_threads (H2K_start_threads (hthreads_mask s1 AND MAX_HTHREADS_MASK) s1));
       Some (s2, hthreads s2)
     }"

section \<open>Other registers\<close>

definition H2K_trap_hwconfig_getdmacfg :: "u32 \<Rightarrow> H2K_kg_t \<Rightarrow> H2K_kg_t \<times> u32" where
  "H2K_trap_hwconfig_getdmacfg index s = (s, if dma_version s \<noteq> 0 then hw_dmcfg s index else -1)"

definition H2K_trap_hwconfig_setdmacfg :: "u32 \<Rightarrow> u32 \<Rightarrow> H2K_kg_t \<Rightarrow> H2K_kg_t \<times> u32" where
  "H2K_trap_hwconfig_setdmacfg index d s =
     (if dma_version s \<noteq> 0 then (s\<lparr>hw_dmcfg := (hw_dmcfg s)(index := d)\<rparr>, 0) else (s, -1))"

definition H2K_trap_hwconfig_l2gclean :: "u32 \<Rightarrow> H2K_kg_t \<Rightarrow> H2K_kg_t \<times> u32" where
  "H2K_trap_hwconfig_l2gclean invalidate s = (s, 0)"

definition stride_refused :: "u32 \<Rightarrow> H2K_kg_t \<Rightarrow> bool" where
  "stride_refused offset s \<longleftrightarrow> offset > hthreads s * 4 \<or> H2K_cfg_table s CFG_TABLE_CORECFG_PRESENT AND 0x4 = 0"

definition H2K_trap_hwconfig_getstrideprefetcherreg :: "u32 \<Rightarrow> H2K_kg_t \<Rightarrow> H2K_kg_t \<times> u32" where
  "H2K_trap_hwconfig_getstrideprefetcherreg offset s =
     (if stride_refused offset s then (s\<lparr>kernel_error := KERROR_HWCONFIG_STRIDE_PREFETCHER_RANGE\<rparr>, 0)
      else (s, getxreg CFG_TABLE_CORECFG_BASE (0x2000 + offset) s))"

definition H2K_trap_hwconfig_setstrideprefetcherreg :: "u32 \<Rightarrow> u32 \<Rightarrow> H2K_kg_t \<Rightarrow> H2K_kg_t \<times> u32" where
  "H2K_trap_hwconfig_setstrideprefetcherreg offset val s =
     (if stride_refused offset s then (s\<lparr>kernel_error := KERROR_HWCONFIG_STRIDE_PREFETCHER_RANGE\<rparr>, 0)
      else setxreg CFG_TABLE_CORECFG_BASE (0x2000 + offset) val s)"

definition H2K_trap_hwconfig_set_hmx_power_on_start_addr :: "u32 \<Rightarrow> H2K_kg_t \<Rightarrow> H2K_kg_t \<times> u32" where
  "H2K_trap_hwconfig_set_hmx_power_on_start_addr addr s = (s\<lparr>hmx_rsc_seq_power_on_start_addr := addr\<rparr>, 0)"

definition H2K_trap_hwconfig_set_hmx_power_off_start_addr :: "u32 \<Rightarrow> H2K_kg_t \<Rightarrow> H2K_kg_t \<times> u32" where
  "H2K_trap_hwconfig_set_hmx_power_off_start_addr addr s = (s\<lparr>hmx_rsc_seq_power_off_start_addr := addr\<rparr>, 0)"

definition GPIO_VA :: u32 where "GPIO_VA = 0xff7f8000"

definition H2K_trap_hwconfig_gpio_toggle :: "u32 \<Rightarrow> H2K_kg_t \<Rightarrow> H2K_kg_t \<times> u32" where
  "H2K_trap_hwconfig_gpio_toggle on s =
     (if gpio_reg s = 0 then (s, -1)
      else
        let val = (devmem s GPIO_VA AND NOT 0x3c) OR 0x200
        in (s\<lparr>devmem := (devmem s)(GPIO_VA := val, GPIO_VA + 4 := (if on \<noteq> 0 then 0x2 else 0x0))\<rparr>, 0))"

text \<open>The entry that maps the page of the register for the kernel alone.\<close>

definition gpio_entry :: "u64 \<Rightarrow> tlbfmt" where
  "gpio_entry pa =
     take_bit 24 (drop_bit 11 (pa AND 0xfffff000) OR 1) OR push_bit 24 4 OR push_bit 32 (ucast (drop_bit 12 GPIO_VA))
     OR push_bit 59 (take_bit 2 (drop_bit 36 pa)) OR push_bit 61 (take_bit 1 (drop_bit 35 pa))
     OR push_bit 62 1 OR push_bit 63 1"

definition H2K_trap_hwconfig_set_gpio_addr :: "u32 \<Rightarrow> u32 \<Rightarrow> ptr \<Rightarrow> H2K_kg_t \<Rightarrow> (H2K_kg_t \<times> u32) option" where
  "H2K_trap_hwconfig_set_gpio_addr addr_hi addr_lo me s =
     (let s1 = s\<lparr>gpio_reg := push_bit 32 (ucast addr_hi) OR ucast addr_lo\<rparr>
      in map_option (\<lambda>(s2, r). (s2, ucast r)) (H2K_tlb_tlbop 3 0 (gpio_entry (gpio_reg s1)) me s1))"

definition H2K_trap_hwconfig_geteccreg :: "u32 \<Rightarrow> H2K_kg_t \<Rightarrow> H2K_kg_t \<times> u32" where
  "H2K_trap_hwconfig_geteccreg offset s =
     (if offset > ECCREGS_MAX then (s\<lparr>kernel_error := KERROR_HWCONFIG_ECCREG_RANGE\<rparr>, 0)
      else (s, getxreg CFG_TABLE_ECC_BASE offset s))"

definition H2K_trap_hwconfig_getvwctrl :: "H2K_kg_t \<Rightarrow> H2K_kg_t \<times> u32" where
  "H2K_trap_hwconfig_getvwctrl s = (s, if 0x79 \<le> arch s then H2K_get_vwctrl s else -1)"

definition H2K_trap_hwconfig_setvwctrl :: "u32 \<Rightarrow> ptr \<Rightarrow> H2K_kg_t \<Rightarrow> H2K_kg_t \<times> u32" where
  "H2K_trap_hwconfig_setvwctrl val me s =
     (if 0x79 \<le> arch s then (H2K_set_vwctrl val (upd_thr me (\<lambda>c. c\<lparr>vwctrl := val\<rparr>) s), 0) else (s, -1))"

definition dpm_missing :: "H2K_kg_t \<Rightarrow> bool" where
  "dpm_missing s \<longleftrightarrow> H2K_cfg_table s CFG_TABLE_CORECFG_PRESENT AND 0x8 = 0"

definition H2K_trap_hwconfig_get_dpm_voltlimitmgmt_reg :: "u32 \<Rightarrow> H2K_kg_t \<Rightarrow> H2K_kg_t \<times> u32" where
  "H2K_trap_hwconfig_get_dpm_voltlimitmgmt_reg offset s =
     (if 0x79 \<le> arch s
      then if dpm_missing s then (s\<lparr>kernel_error := KERROR_HWCONFIG_DPM_VOLTLMTMGMT_RANGE\<rparr>, 0)
           else (s, getxreg CFG_TABLE_CORECFG_BASE (0x3000 + offset) s)
      else (s, 0))"

definition H2K_trap_hwconfig_set_dpm_voltlimitmgmt_reg :: "u32 \<Rightarrow> u32 \<Rightarrow> H2K_kg_t \<Rightarrow> H2K_kg_t \<times> u32" where
  "H2K_trap_hwconfig_set_dpm_voltlimitmgmt_reg offset val s =
     (if 0x79 \<le> arch s
      then if dpm_missing s then (s\<lparr>kernel_error := KERROR_HWCONFIG_DPM_VOLTLMTMGMT_RANGE\<rparr>, 0)
           else setxreg CFG_TABLE_CORECFG_BASE (0x3000 + offset) val s
      else (s, 0))"

section \<open>The trap\<close>

definition ret :: "H2K_kg_t \<times> u32 \<Rightarrow> (H2K_kg_t \<times> u32 outcome) option" where
  "ret r = Some (apsnd Ret r)"

definition H2K_hwconfigtab :: "(u32 \<Rightarrow> nat \<Rightarrow> bool) \<Rightarrow> (u32 \<Rightarrow> u32 \<Rightarrow> u32 \<Rightarrow> ptr \<Rightarrow> H2K_kg_t \<Rightarrow> (H2K_kg_t \<times> u32 outcome) option) list" where
  "H2K_hwconfigtab hw_l2locka =
     [\<lambda>p a b me s. ret (H2K_trap_hwconfig_l2cache a b s),
      \<lambda>p a b me s. ret (H2K_trap_hwconfig_partitions a b s),
      \<lambda>p a b me s. ret (H2K_trap_hwconfig_prefetch a b me s),
      \<lambda>p a b me s. H2K_trap_hwconfig_extbits a b me s,
      \<lambda>p a b me s. ret (H2K_trap_hwconfig_vlength a s),
      \<lambda>p a b me s. ret (H2K_trap_hwconfig_extpower a s),
      \<lambda>p a b me s. ret (H2K_trap_hwconfig_getl2reg a s),
      \<lambda>p a b me s. ret (H2K_trap_hwconfig_setl2reg a b s),
      \<lambda>p a b me s. map_option (apsnd Ret) (H2K_trap_hwconfig_l2locka hw_l2locka p a me s),
      \<lambda>p a b me s. ret (H2K_trap_hwconfig_l2unlock s),
      \<lambda>p a b me s. ret (H2K_trap_hwconfig_hwintop a s),
      \<lambda>p a b me s. ret (H2K_trap_hwconfig_getcladereg a s),
      \<lambda>p a b me s. ret (H2K_trap_hwconfig_setcladereg a b s),
      \<lambda>p a b me s. map_option (apsnd Ret) (H2K_trap_hwconfig_hwthreads_num a s),
      \<lambda>p a b me s. ret (H2K_trap_hwconfig_hwthreads_mask a s),
      \<lambda>p a b me s. ret (H2K_trap_hwconfig_ecc a s),
      \<lambda>p a b me s. H2K_trap_hwconfig_hmxbits a me s,
      \<lambda>p a b me s. ret (H2K_trap_hwconfig_getdmacfg a s),
      \<lambda>p a b me s. ret (H2K_trap_hwconfig_setdmacfg a b s),
      \<lambda>p a b me s. ret (H2K_trap_hwconfig_l2gclean a s),
      \<lambda>p a b me s. ret (H2K_trap_hwconfig_getstrideprefetcherreg a s),
      \<lambda>p a b me s. ret (H2K_trap_hwconfig_setstrideprefetcherreg a b s),
      \<lambda>p a b me s. ret (H2K_trap_hwconfig_set_hmx_power_on_start_addr a s),
      \<lambda>p a b me s. ret (H2K_trap_hwconfig_set_hmx_power_off_start_addr a s),
      \<lambda>p a b me s. ret (H2K_trap_hwconfig_gpio_toggle a s),
      \<lambda>p a b me s. map_option (apsnd Ret) (H2K_trap_hwconfig_set_gpio_addr a b me s),
      \<lambda>p a b me s. ret (H2K_trap_hwconfig_l2cp a me s),
      \<lambda>p a b me s. ret (H2K_trap_hwconfig_geteccreg a s),
      \<lambda>p a b me s. ret (H2K_trap_hwconfig_getvwctrl s),
      \<lambda>p a b me s. ret (H2K_trap_hwconfig_setvwctrl a me s),
      \<lambda>p a b me s. ret (H2K_trap_hwconfig_get_dpm_voltlimitmgmt_reg a s),
      \<lambda>p a b me s. ret (H2K_trap_hwconfig_set_dpm_voltlimitmgmt_reg a b s),
      \<lambda>p a b me s. H2K_trap_hwconfig_hlxbits a b me s,
      \<lambda>p a b me s. ret (H2K_trap_hwconfig_coproc_bits a me s)]"

definition H2K_trap_hwconfig ::
  "(u32 \<Rightarrow> nat \<Rightarrow> bool) \<Rightarrow> u32 \<Rightarrow> u32 \<Rightarrow> u32 \<Rightarrow> u32 \<Rightarrow> ptr \<Rightarrow> H2K_kg_t \<Rightarrow> (H2K_kg_t \<times> u32 outcome) option" where
  "H2K_trap_hwconfig hw_l2locka configtype p val2 val3 me s =
     (if unat configtype \<ge> length (H2K_hwconfigtab hw_l2locka) then Some (s, Ret (-1))
      else (H2K_hwconfigtab hw_l2locka ! unat configtype) p val2 val3 me s)"

section \<open>Initialisation of the cache\<close>

definition l2cache_tag_size :: "H2K_kg_t \<Rightarrow> u32" where
  "l2cache_tag_size s =
     (let tag_size = H2K_cfg_table s CFG_TABLE_L2TAG_SIZE
      in if tag_size = 1536 then 6 else if ct0 tag_size = 32 then 0 else of_nat (ct0 tag_size) - 5)"

text \<open>For the architectures with a configuration table (\<open>0x65 < arch\<close>), which are those of the build.\<close>

definition H2K_l2cache_init :: "H2K_kg_t \<Rightarrow> H2K_kg_t \<times> u32" where
  "H2K_l2cache_init s =
     (let (s1, w) = H2K_trap_hwconfig_getl2reg 0x110 s;
          s2 = fst (H2K_trap_hwconfig_setl2reg 0x110 (w OR push_bit 8 24 OR 24) s1);
          (s3, q) = H2K_trap_hwconfig_getl2reg 0x100 s2;
          s4 = fst (H2K_trap_hwconfig_setl2reg 0x100 (q OR push_bit 7 1) s3);
          tag_size = l2cache_tag_size s4;
          s5 = s4\<lparr>l2size := H2K_cfg_table s4 CFG_TABLE_L2ARRAY_SIZE * 1024\<rparr>;
          (s6, r) = H2K_trap_hwconfig_l2cache tag_size 1 s5
      in if r = -1 then (s6\<lparr>kernel_error := KERROR_L2CACHE_INIT_CONFIG\<rparr>, 0)
         else (s6\<lparr>l2tags := tag_size\<rparr>, tag_size))"

section \<open>Cache control by guests\<close>

text \<open>
  The guest trap (\<^verbatim>\<open>kernel/vm/vmcache/vmcache.ref.c\<close>): every operation acts on whole caches, whatever
  range the guest names, and none on the modelled state.
\<close>

definition H2K_vmtrap_cachectl :: "ptr \<Rightarrow> H2K_kg_t \<Rightarrow> H2K_kg_t" where
  "H2K_vmtrap_cachectl me s = upd_thr me (\<lambda>c. c\<lparr>r00 := (if r00 c \<ge> 6 then -1 else 0)\<rparr>) s"

section \<open>Coprocessors and scheduling\<close>

text \<open>Writing registers of the caller is invisible to the scheduler.\<close>

lemma kview_ext [simp]:
  "kview (put_ext xa xe me s) = kview s" "kview (BKL_LOCK s) = kview s" "kview (BKL_UNLOCK s) = kview s"
  "kview (upd_thr me (\<lambda>c. c\<lparr>r00 := v\<rparr>) s) = kview s" "kview (xex h a b c d e f s) = kview s"
  by (auto simp: put_ext_def kview_def tview_def upd_thr_def BKL_LOCK_def BKL_UNLOCK_def xex_def Let_def)

lemma ext_fields [simp]:
  "cluster_sched (put_ext xa xe me s) = cluster_sched s" "wait_mask (put_ext xa xe me s) = wait_mask s"
  "htid (put_ext xa xe me s) = htid s" "bkl (put_ext xa xe me s) = bkl s" "clusters_cover (put_ext xa xe me s) = clusters_cover s"
  "clusters_cover (upd_thr me f s) = clusters_cover s" "clusters_cover (BKL_LOCK s) = clusters_cover s"
  "status (thr (put_ext xa xe me s) u) = status (thr s u)" "hthread (thr (put_ext xa xe me s) u) = hthread (thr s u)"
  "prio (thr (put_ext xa xe me s) u) = prio (thr s u)" "coproc_count (put_ext xa xe me s) = coproc_count s"
  by (simp_all add: put_ext_def clusters_cover_def upd_thr_def BKL_LOCK_def)

lemma coproc_block_runs:
  assumes inv: "kinv s rq fq" and me: "status (thr s me) = H2K_STATUS_RUNNING" and cov: "clusters_cover s"
    and ht: "htid s = ucast (hthread (thr s me))"
  shows "\<exists>s' new. coproc_block me s = Some (s', Switch me new) \<and> bkl s' = bkl s \<and> next_runs me new s s' (requeued me s rq) fq"
proof -
  let ?t = "upd_thr me (\<lambda>c. c\<lparr>r00 := 0\<rparr>) s" and ?h = "ucast (hthread (thr s me)) :: u32"
  have n: "me \<noteq> NULL" using runlist_okD(2) [OF sched_invD(3)] inv me by (auto simp: kinv_def)
  have h: "unat ?h = unat (hthread (thr s me))" by (simp add: unsigned_ucast_eq take_bit_nat_eq_self order_less_trans [OF unsigned_less])
  have k: "kinv ?t rq fq" using kinv_view [OF inv] by simp
  have on: "on_hthread me ?h ?t" using n me ht h by (simp add: on_hthread_def)
  have i: "interrupted me ?h ?t = requeue me ?t" using n by (simp add: interrupted_def)
  have c: "clusters_cover (interrupted me ?h ?t)" using cov by (simp add: i requeue_cover)
  have hr: "hthread (thr (requeue me ?t) me) = hthread (thr s me)" using interrupted_status(2) [of me ?h ?t me] by (simp add: i)
  have q: "requeued me ?t rq = requeued me s rq" by (simp add: requeued_def)
  obtain s' new where d: "H2K_dosched me ?h (requeue me ?t) = Some (s', new)" "bkl s' = bkl ?t"
      "next_runs me new (requeue me ?t) s' (requeued me s rq) fq"
    using interrupted_runs [OF k on c] unfolding i q by blast
  have "next_runs me new s s' (requeued me s rq) fq"
    using d(3) by (subst (asm) next_runs_cong [of "requeue me ?t" s]) (simp_all add: requeue_fields)
  then show ?thesis using d(1,2) by (auto simp: coproc_block_def Let_def requeue_def [symmetric] hr)
qed


text \<open>
  A value with bit 0 clear that is not zero turns the coprocessor off without giving the slot back.
\<close>

lemma hmxbits_even_leaks:
  assumes "0 < hmx_units s" "cluster_sched s \<noteq> 0" "ssr_xe2 (thr s me)"
  shows "\<exists>s'. H2K_trap_hwconfig_hmxbits 2 me s = Some (s', Ret 0) \<and> \<not> ssr_xe2 (thr s' me) \<and> coproc_count s' = coproc_count s"
  using assms
  by (auto simp: H2K_trap_hwconfig_hmxbits_def Let_def put_hmx_def insert_field_def BKL_LOCK_def BKL_UNLOCK_def upd_thr_def bit_simps)

section \<open>Starting hardware threads\<close>

text \<open>The number of available threads below one.\<close>

definition rank :: "'a::len word \<Rightarrow> nat \<Rightarrow> nat" where
  "rank m i = length (filter (bit m) [0..<i])"

lemma rank_Suc: "rank m (Suc i) = rank m i + of_bool (bit m i)" by (simp add: rank_def)

lemma rank_mono: "i \<le> j \<Longrightarrow> rank m i \<le> rank m j"
  by (induction j rule: dec_induct) (auto simp: rank_Suc)

lemma popcount_rank: "popcount (m :: u32) = rank m 32" by (simp add: popcount_def rank_def)

lemma pick_threads_returns:
  assumes "num \<le> rank m 32" "rank m i \<le> num"
  shows "\<exists>r. pick_threads m num i (rank m i) new = Some r \<and> (\<forall>j<32. bit r j \<longleftrightarrow> bit new j \<or> i \<le> j \<and> bit m j \<and> rank m j < num)"
  using assms(2)
proof (induction "32 - i" arbitrary: i new)
  case (0 i)
  then have "rank m i = num" using assms(1) rank_mono [of 32 i m] by simp
  then show ?case using 0 by (auto simp: pick_threads.simps [of m num i])
next
  case (Suc k i)
  show ?case
  proof (cases "rank m i < num")
    case True
    let ?new = "if bit m i then new OR push_bit i 1 else new"
    have "rank m (Suc i) \<le> num" using True by (simp add: rank_Suc)
    moreover have "k = 32 - Suc i" using Suc.hyps(2) by simp
    ultimately obtain r where r: "pick_threads m num (Suc i) (rank m (Suc i)) ?new = Some r"
        "\<forall>j<32. bit r j \<longleftrightarrow> bit ?new j \<or> Suc i \<le> j \<and> bit m j \<and> rank m j < num"
      using Suc.hyps(1) by blast
    have "pick_threads m num i (rank m i) new = Some r"
      using r(1) True unfolding pick_threads.simps [of m num i] by (cases "bit m i") (simp_all add: rank_Suc)
    moreover have "bit ?new j \<longleftrightarrow> bit new j \<or> j = i \<and> bit m i" if "j < 32" for j using that by (auto simp: bit_simps)
    then have "\<forall>j<32. bit r j \<longleftrightarrow> bit new j \<or> i \<le> j \<and> bit m j \<and> rank m j < num"
      using r(2) True by (auto simp: Suc_le_eq order_le_less)
    ultimately show ?thesis by blast
  next
    case False
    then have "\<not> rank m j < num" if "i \<le> j" for j using rank_mono [OF that, of m] by simp
    then show ?thesis using False by (auto simp: pick_threads.simps [of m num i])
  qed
qed

text \<open>
  Starting a number of hardware threads returns on every core with a configuration table. The
  threads started are those already running and the least available ones up to the number asked
  for, as far as they exist; their count and mask are recorded.
\<close>

theorem hwthreads_num_correct:
  assumes "0x65 < arch s"
  defines "avail \<equiv> H2K_cfg_table s CFG_TABLE_HTHREADS_MASK"
  shows "\<exists>s'. H2K_trap_hwconfig_hwthreads_num num s = Some (s', hthreads s') \<and> hthreads s' = of_nat (popcount (hthreads_mask s')) \<and>
    (\<forall>h<32. bit (hthreads_mask s') h \<longleftrightarrow>
      h < 16 \<and> (bit (hw_modectl s) h \<or> bit avail h \<and> rank avail h < unat num \<and> bit (hw_hthreads s) h))"
proof -
  let ?n = "min (unat num) (popcount avail)"
  have "rank avail 0 = 0" by (simp add: rank_def)
  then obtain r where r: "pick_threads avail ?n 0 0 0 = Some r" "\<And>j. j < 32 \<Longrightarrow> bit r j \<longleftrightarrow> bit avail j \<and> rank avail j < ?n"
    using pick_threads_returns [of ?n avail 0 0] by (auto simp: popcount_rank)
  have lt: "bit avail j \<and> rank avail j < ?n \<longleftrightarrow> bit avail j \<and> rank avail j < unat num" if "j < 32" for j
    using rank_mono [of "Suc j" 32 avail] that by (auto simp: popcount_rank rank_Suc)
  let ?s1 = "s\<lparr>hthreads_mask := r\<rparr>"
  let ?s2 = "count_threads (H2K_start_threads (r AND MAX_HTHREADS_MASK) ?s1)"
  have e: "H2K_trap_hwconfig_hwthreads_num num s = Some (H2K_cluster_config ?s2, hthreads ?s2)"
    using r(1) assms(1) by (simp add: H2K_trap_hwconfig_hwthreads_num_def avail_def Let_def cluster_config_frame)
  have m: "(0xffff :: u32) = mask 16" by (simp add: mask_eq_exp_minus_1)
  have "bit (hthreads_mask ?s2) h \<longleftrightarrow> h < 16 \<and> (bit (hw_modectl s) h \<or> bit r h \<and> bit (hw_hthreads s) h)" if "h < 32" for h
    using that unfolding count_threads_def H2K_start_threads_def MODECTL_E_MASK_def MAX_HTHREADS_MASK_def m
    by (auto simp: Let_def bit_simps)
  then show ?thesis using e r(2) lt by (auto simp: cluster_config_frame) (auto simp: count_threads_def Let_def)
qed

text \<open>The count is not a bound of the thread numbers: with a gap in the mask, a running thread is beyond it.\<close>

lemma hwthreads_mask_gap:
  "let s = fst (H2K_trap_hwconfig_hwthreads_mask 0x9 (kg0\<lparr>hw_hthreads := 0xf\<rparr>)) in bit (hthreads_mask s) 3 \<and> hthreads s = 2"
proof -
  have "hw_modectl kg0 = 0" by (simp add: kg0_def)
  then show ?thesis
    by (simp add: H2K_trap_hwconfig_hwthreads_mask_def Let_def cluster_config_frame)
      (simp add: count_threads_def H2K_start_threads_def MODECTL_E_MASK_def MAX_HTHREADS_MASK_def popcount_def upt_rec)
qed

text \<open>
  The interrupts that \<open>H2K_stmode_begin\<close> turned off are on again while the cache is killed, because
  the register is written back from before.
\<close>

lemma l2_drain_interrupts_on:
  assumes "bit (hw_syscfg s) 4"
  shows "bit (hw_syscfg (fst (l2_drain (hw_syscfg s) (fst (H2K_stmode_begin s))))) 4"
  using assms
  by (simp add: l2_drain_def Let_def H2K_set_syscfg_def SYSCFG_L2CFG_def SYSCFG_L2NWA_def SYSCFG_L2NRA_def SYSCFG_L2WB_def bit_simps)

text \<open>A request to lock all of memory never returns if every line can be locked: the offset wraps.\<close>

lemma l2_lock_loop_wraps:
  assumes "l2_lock_loop hw addr (-1) off = Some r" "\<And>a. line_locked hw a" "64 dvd unat off"
  shows False
proof -
  have "(\<forall>a. line_locked hw a) \<longrightarrow> (-1 :: u32) = -1 \<longrightarrow> 64 dvd unat off \<longrightarrow> False"
  proof (rule l2_lock_loop.raw_induct [where P = "\<lambda>hw addr len off r. (\<forall>a. line_locked hw a) \<longrightarrow> len = -1 \<longrightarrow> 64 dvd unat off \<longrightarrow> False", OF _ assms(1)])
    fix f :: "(u32 \<Rightarrow> nat \<Rightarrow> bool) \<Rightarrow> u32 \<Rightarrow> u32 \<Rightarrow> u32 \<Rightarrow> u32 option" and hw addr len off r
    assume ih: "\<And>hw addr len off r. f hw addr len off = Some r \<Longrightarrow> (\<forall>a. line_locked hw a) \<longrightarrow> len = -1 \<longrightarrow> 64 dvd unat off \<longrightarrow> False"
      and e: "(if off < len then if line_locked hw (addr + off) then f hw addr len (off + 64) else Some 1 else Some 0) = Some r"
    show "(\<forall>a. line_locked hw a) \<longrightarrow> len = -1 \<longrightarrow> 64 dvd unat off \<longrightarrow> False"
    proof (intro impI)
      assume a: "\<forall>a. line_locked hw a" "len = -1" "64 dvd unat off"
      have "\<not> 64 dvd unat (-1 :: u32)" by (simp add: unsigned_minus_1_eq_mask mask_eq_exp_minus_1)
      then have "off \<noteq> -1" using a(3) by metis
      then have lt: "off < len" using a(2) word_order.not_eq_extremum [of off] by simp
      have "64 dvd unat (off + 64)" using a(3) by (simp add: unat_word_ariths dvd_mod_iff)
      then show False using e lt a ih [of hw addr len "off + 64" r] by simp
    qed
  qed
  then show False using assms(2,3) by blast
qed

section \<open>The size of the tightly coupled memory\<close>

lemma l2cache_tcm:
  assumes "H2K_trap_hwconfig_l2cache sz wb s = (s', 0)"
  shows "tcm_size s' = l2size s - (if sz AND 7 > 0 then push_bit (unat (sz AND 7)) 1 * L2_TAG_CHUNK else 0)"
    "tcm_base s' = tcm_base s" "vmb s' = vmb s" "vmblocks s' = vmblocks s" "l2tags s' = sz AND 7"
  using assms
  by (auto simp: H2K_trap_hwconfig_l2cache_def H2K_trap_do_hwconfig_l2cache_def H2K_stmode_begin_def l2_drain_def Let_def
      H2K_set_syscfg_def H2K_stmode_end_def H2K_set_gie_def H2K_clear_gie_def l2tag_bytes_def BKL_LOCK_def BKL_UNLOCK_def split: if_splits)

text \<open>
  C40: After the cache is configured, the offset translation exempts from the fences as many pages
  from the base of the tightly coupled memory as that memory has bytes: every such page is
  translated to itself, with the permissions of the map, whatever the fences of the VM are.
\<close>

theorem tcm_window_in_bytes:
  assumes cfg: "H2K_trap_hwconfig_l2cache sz wb s = (s', 0)"
    and off: "ttype info = 2" and low: "\<not> mapped (guestmap (entry_vmblock s info))"
    and p: "tcm_base s \<le> pn i" "pn i < tcm_base s + (l2size s - (if sz AND 7 > 0 then push_bit (unat (sz AND 7)) 1 * L2_TAG_CHUNK else 0))"
  shows "H2K_translate (Suc n) s' i info = Some ((offset_apply i (offset_of_raw (ptb info)))\<lparr>pn := pn i\<rparr>)"
proof -
  note c = l2cache_tcm [OF cfg]
  have "entry_vmblock s' info = entry_vmblock s info" by (simp add: entry_vmblock_def c)
  moreover have "in_range (tcm_base s') (tcm_size s') (pn i)" using p by (simp add: in_range_def c)
  ultimately show ?thesis using off low by (simp add: translate_funcs_def H2K_offset_translate_def Let_def)
qed

section \<open>Examples\<close>

definition cluster_example :: H2K_kg_t where
  "cluster_example = (popup_example 0)\<lparr>cluster_sched := 1\<rparr>"

lemma cluster_example_facts:
  "kinv cluster_example (\<lambda>_. []) ((\<lambda>_. [])(15 := [30, 31]))" "status (thr cluster_example 20) = H2K_STATUS_RUNNING"
  "clusters_cover cluster_example" "htid cluster_example = ucast (hthread (thr cluster_example 20))" "cluster_sched cluster_example \<noteq> 0"
  "\<not> ssr_xe (thr cluster_example 20)"
  by (rule kinv_view [OF popup_example_inv [of 0]], simp add: kview_def cluster_example_def,
      simp_all add: cluster_example_def popup_example_thr,
      simp_all add: clusters_cover_def popup_example_def futex_example_def sched_base_def thread0_def)


theorem hwthreads_num_correct_witness:
  "\<exists>s'. H2K_trap_hwconfig_hwthreads_num 2 (kg0\<lparr>core_rev := 0x81, hw_hthreads := 0xff, physmem := \<lambda>_. 0xf\<rparr>) = Some (s', hthreads s') \<and>
     bit (hthreads_mask s') 1 \<and> \<not> bit (hthreads_mask s') 2"
proof -
  let ?s = "kg0\<lparr>core_rev := 0x81, hw_hthreads := 0xff, physmem := \<lambda>_. 0xf\<rparr>"
  have a: "0x65 < arch ?s" by (simp add: arch_def take_bit_eq_mod)
  have c: "H2K_cfg_table ?s CFG_TABLE_HTHREADS_MASK = 0xf" by (simp add: H2K_cfg_table_def H2K_mem_physread_word_def memw_phys_def)
  have r: "rank (0xf :: u32) 1 = 1" "rank (0xf :: u32) 2 = 2" by (simp_all add: rank_def upt_rec)
  have m: "\<not> bit (hw_modectl ?s) 2" by (simp add: kg0_def)
  show ?thesis using hwthreads_num_correct [OF a, of 2] r m unfolding c by auto
qed

theorem tcm_window_in_bytes_witness:
  "\<exists>s' t. H2K_trap_hwconfig_l2cache 3 1 (kg0\<lparr>tcm_base := 0x1000, l2size := 0x80000\<rparr>) = (s', 0) \<and>
     H2K_translate 1 s' (H2K_translate_default 0x20000000) (asid_entry0\<lparr>ttype := 2, ptb := 0xf00\<rparr>) = Some t \<and> pn t = 0x20000 \<and> xwru t = 0xf"
proof -
  let ?s = "kg0\<lparr>tcm_base := 0x1000, l2size := 0x80000\<rparr>" and ?i = "asid_entry0\<lparr>ttype := 2, ptb := 0xf00\<rparr>" and ?t = "H2K_translate_default 0x20000000"
  let ?s' = "fst (H2K_trap_hwconfig_l2cache 3 1 ?s)"
  have "hw_modectl kg0 = 0" by (simp add: kg0_def)
  then have c: "H2K_trap_hwconfig_l2cache 3 1 ?s = (?s', 0)"
    by (simp add: H2K_trap_hwconfig_l2cache_def H2K_trap_do_hwconfig_l2cache_def H2K_stmode_begin_def H2K_clear_gie_def BKL_LOCK_def Let_def split_beta)
  have l: "ttype ?i = 2" "\<not> mapped (guestmap (entry_vmblock ?s ?i))" by (simp_all add: mapped_def entry_vmblock_def vmblock0_def)
  have p: "pn ?t = 0x20000" "xwru ?t = 0xf" by (simp_all add: H2K_translate_default_def)
  have w: "tcm_base ?s \<le> pn ?t"
    "pn ?t < tcm_base ?s + (l2size ?s - (if (3::u32) AND 7 > 0 then push_bit (unat ((3::u32) AND 7)) 1 * L2_TAG_CHUNK else 0))"
    by (simp_all add: p L2_TAG_CHUNK_def)
  have "os_xwru (offset_of_raw 0xf00) = 0xf" by (simp add: offset_of_raw_def)
  then show ?thesis using c tcm_window_in_bytes [OF c l w, of 0] p
    by (intro exI [of _ ?s'] exI [of _ "(offset_apply ?t (offset_of_raw (ptb ?i)))\<lparr>pn := pn ?t\<rparr>"]) (simp add: offset_apply_def)
qed

end
