(* ===== verification/Boot.thy ===== *)
theory Boot
  imports Hwconfig Config
begin

text \<open>
  Initialisation and boot: the interrupt table and the second-level interrupt controller
  (\<^verbatim>\<open>kernel/data/intconfig/intconfig.ref.c\<close>), the boot VM and the first thread
  (\<^verbatim>\<open>kernel/init/setup/setup.ref.c\<close>). The build starts one hardware thread (neither \<^verbatim>\<open>HTHREADS_MASK\<close> nor
  \<^verbatim>\<open>NUM_HTHREADS\<close>), does not copy itself to tightly coupled memory and has no coprocessor
  extensions; the symbols of the linker script are arguments.

  The property: from the state the boot assembly leaves (all contexts dead, interrupts of the
  hardware thread masked), boot returns and establishes the invariant of the kernel, with the
  boot thread running on hardware thread 0.
\<close>

section \<open>Interrupt configuration\<close>

definition FASTINT_TRAPMASK :: u32 where "FASTINT_TRAPMASK = 0xb"

definition H2K_register_fastint :: "u32 \<Rightarrow> ptr \<Rightarrow> ptr \<Rightarrow> H2K_kg_t \<Rightarrow> H2K_kg_t" where
  "H2K_register_fastint whatint fastint_handler me s =
     (if fastint_handler = NULL
      then set_handler whatint NoHandler NULL (H2K_intcontrol_disable whatint s)
      else
        let s1 = H2K_intcontrol_enable whatint (set_handler whatint H2K_fastint_h fastint_handler s);
            s2 = s1\<lparr>fastint_gp := gp (thr s1 me), fastint_ssr := (ssr (thr s1 me) AND 0x00007f00) OR 0x01880000\<rparr>
        in fold (\<lambda>i s. upd_thr (fastint_contexts s i) (vmblock_update (\<lambda>_. vmblock (thr s me))) s) [0..<MAX_HTHREADS] s2)"

text \<open>The words of the second-level controller, with the interrupts that are level-triggered.\<close>

definition MSS_SSBASE :: u32 where "MSS_SSBASE = 0xfc900000 - 0x80000"

definition level_irqs :: "u32 \<Rightarrow> nat list" where
  "level_irqs ssbase = (if ssbase = MSS_SSBASE then [245, 239, 75, 76] else [64, 38, 48, 49])"

definition clear_irq :: "nat \<Rightarrow> nat \<Rightarrow> H2K_kg_t \<Rightarrow> H2K_kg_t" where
  "clear_irq i irq s =
     (if i = (irq - 32) div 32 then s\<lparr>l2_int := (l2_int s)(0xa0 + i := unset_bit (irq mod 32) (l2_int s (0xa0 + i)))\<rparr> else s)"

definition l2_word_init :: "u32 \<Rightarrow> nat \<Rightarrow> H2K_kg_t \<Rightarrow> H2K_kg_t" where
  "l2_word_init ssbase i s =
     (let s1 = s\<lparr>l2_int := (l2_int s)(0x40 + i := 0, 0xa0 + i := -1, 0xc0 + i := 0, 0x100 + i := -1)\<rparr>;
          s2 = fold (clear_irq i) (level_irqs ssbase) s1
      in if ssbase \<noteq> MSS_SSBASE then clear_irq i 54 s2 else s2)"

definition H2K_intconfig_l2_init :: "u32 \<Rightarrow> H2K_kg_t \<Rightarrow> H2K_kg_t" where
  "H2K_intconfig_l2_init ssbase s = ciad 0x80000000 (fold (l2_word_init ssbase) [0..<(MAX_INTERRUPTS - 32) div 32] s)"

definition fastint_init :: "nat \<Rightarrow> H2K_kg_t \<Rightarrow> H2K_kg_t" where
  "fastint_init i s =
     (let tmp = fastint_contexts s i
      in upd_thr tmp (\<lambda>c. c\<lparr>hthread := of_nat i, trapmask := FASTINT_TRAPMASK, id := id_of_raw (of_nat i)\<rparr>)
           (H2K_thread_context_clear tmp s))"

definition H2K_intconfig_init :: "u32 \<Rightarrow> H2K_kg_t \<Rightarrow> H2K_kg_t" where
  "H2K_intconfig_init ssbase s =
     (let s1 = set_handler 1 H2K_resched_h 1 s;
          s2 = set_handler 6 H2K_resched_cluster_h 1 s1;
          s3 = set_handler 0 H2K_vm_ipi_do_h 1 s2;
          s4 = set_handler (timer_intnum s3) H2K_timer_int_h 1 s3;
          s5 = fold fastint_init [0..<unat (hthreads s4)] s4
      in H2K_intconfig_l2_init ssbase s5)"

section \<open>Boot\<close>

text \<open>The symbols of the linker script and the build.\<close>

record symbols =
  HEAP_SIZE :: u32
  STACK_SIZE :: u32
  H2K_ALLOC_HEAP_SIZE :: u32
  end_addr :: u32
  bootvm_entry_point :: u32
  H2K_LOAD_ADDR :: u32
  H2K_GIT_COMMIT :: u32

definition heap_top :: "symbols \<Rightarrow> u32" where
  "heap_top sy = ((if HEAP_SIZE sy = 0 then 0x4000000 else HEAP_SIZE sy) + end_addr sy + 15) AND -16"

definition stack_base :: "symbols \<Rightarrow> u32" where
  "stack_base sy = ((if STACK_SIZE sy = 0 then 0x100000 else STACK_SIZE sy) + heap_top sy) AND -16"

definition alloc_addr :: "symbols \<Rightarrow> u32" where
  "alloc_addr sy = (stack_base sy + 31) div 32 * 32"

definition alloc_size :: "symbols \<Rightarrow> u32" where
  "alloc_size sy = (if H2K_ALLOC_HEAP_SIZE sy = 0 then 1024 * 8 + 8 else H2K_ALLOC_HEAP_SIZE sy)"

definition H2K_init_setup_bootvm :: "H2K_kg_t \<Rightarrow> (H2K_kg_t \<times> ptr) option" where
  "H2K_init_setup_bootvm s =
     do { (s1, vm) \<leftarrow> H2K_trap_config 0 0 3 1 32 NULL s; Some (s1, vmblocks s1 (unat vm)) }"

text \<open>
  The initialisers that do nothing in this build (trace, ready list, low-priority mask, futexes,
  threads, address spaces, copy to tightly coupled memory, coprocessors) and the locks of
  profiling, logging and the debugger are left out.
\<close>

definition H2K_init_setup :: "symbols \<Rightarrow> u32 \<Rightarrow> u32 \<Rightarrow> u32 \<Rightarrow> u32 \<Rightarrow> u32 \<Rightarrow> H2K_kg_t \<Rightarrow> (H2K_kg_t \<times> ptr) option" where
  "H2K_init_setup sy mshift ssbase last_tlb tsize toff s =
     (let s1 = H2K_kg_init False (H2K_GIT_COMMIT sy) (H2K_LINK_ADDR - mshift - H2K_LOAD_ADDR sy) mshift last_tlb tsize toff s;
          s2 = H2K_tmpmap_init s1;
          s3 = fst (H2K_l2cache_init s2);
          s4 = H2K_runlist_init s3;
          s5 = H2K_intconfig_init ssbase s4;
          s6 = H2K_timer_init s5;
          s7 = H2K_mem_alloc_init (unat (alloc_addr sy)) (alloc_size sy) s6
      in H2K_init_setup_bootvm s7)"

definition BOOT_THREAD_USR :: u32 where "BOOT_THREAD_USR = 0x00057c00"
definition BOOT_THREAD_SSR :: u32 where "BOOT_THREAD_SSR = 0x01c60000 OR push_bit SSR_GUEST_BIT 1"
definition BOOT_THREAD_CCR :: u32 where "BOOT_THREAD_CCR = 0x00170000"
definition BOOT_TLB_PAGE_MASK :: u32 where "BOOT_TLB_PAGE_MASK = NOT (mask (12 + 2 * H2K_KERNEL_PGSIZE))"

definition boot_offset :: "u32 \<Rightarrow> H2K_offset_t" where
  "boot_offset mshift = \<lparr>os_size = of_nat H2K_KERNEL_PGSIZE, os_cccc = 7, os_weak_ccc = False, os_xwru = 0xf,
     os_pages = ucast (drop_bit PAGE_BITS mshift)\<rparr>"

text \<open>The fields of the first context; \<open>H2K_switch\<close> and the continuation load them.\<close>

definition boot_context :: "symbols \<Rightarrow> u32 \<Rightarrow> ptr \<Rightarrow> H2K_kg_t \<Rightarrow> H2K_thread_context \<Rightarrow> H2K_thread_context" where
  "boot_context sy mshift vb s c =
     c\<lparr>base_prio := ucast (bestprio (vmb s vb)), prio := ucast (bestprio (vmb s vb)), gp := 0, ugp := 0, usr := BOOT_THREAD_USR,
       ssr := BOOT_THREAD_SSR, vwctrl := H2K_get_vwctrl s, elr := bootvm_entry_point sy, r00 := mshift, r01 := 0,
       ccr := BOOT_THREAD_CCR, trapmask := vm_trapmask (vmb s vb), continuation := H2K_interrupt_restore, vmstatus := 0,
       tlbidxmask := -1\<rparr>"

definition boot_thread :: "symbols \<Rightarrow> u32 \<Rightarrow> ptr \<Rightarrow> H2K_kg_t \<Rightarrow> H2K_kg_t \<times> ptr" where
  "boot_thread sy mshift bootvm s =
     (let boot = free_threads (vmb s bootvm);
          s1 = upd_vmb bootvm (\<lambda>v. v\<lparr>free_threads := next (thr s boot), num_cpus := 1, guestmap := asid_entry0, fence_lo := 0,
                 fence_hi := 0xffffffff AND BOOT_TLB_PAGE_MASK\<rparr>) s;
          s2 = upd_thr boot (boot_context sy mshift bootvm s1) s1;
          (s3, asid) = H2K_asid_table_inc (offset_raw (boot_offset mshift)) 2 False 0 bootvm s2;
          s4 = BKL_LOCK (upd_thr boot (\<lambda>c. c\<lparr>ssr := set_ssr_asid (word_of_int asid) (ssr c)\<rparr>) s3);
          s5 = H2K_cluster_config (s4\<lparr>hthreads := 1, hthreads_mask := 0x1\<rparr>);
          s6 = (H2K_runlist_push boot s5)\<lparr>tlb_lock := False\<rparr>
      in (s6, boot))"

definition H2K_thread_boot :: "symbols \<Rightarrow> u32 \<Rightarrow> u32 \<Rightarrow> u32 \<Rightarrow> u32 \<Rightarrow> u32 \<Rightarrow> H2K_kg_t \<Rightarrow> (H2K_kg_t \<times> unit outcome) option" where
  "H2K_thread_boot sy mshift ssbase last_tlb tsize toff s =
     do {
       (s1, bootvm) \<leftarrow> H2K_init_setup sy mshift ssbase last_tlb tsize toff s;
       let (s2, boot) = boot_thread sy mshift bootvm s1;
       Some (s2, Switch NULL boot)
     }"

section \<open>What the initialisers leave alone\<close>

definition bview where
  "bview s = (thr s, ready s, ready_valids s, runlist s, runlist_prios s, priomask s, wait_mask s, hthreads s, cluster_sched s,
     futexhash s, vmblocks s, imask s, htid s)"

lemma bview_eqD:
  assumes "bview s' = bview s"
  shows "thr s' = thr s" "ready s' = ready s" "ready_valids s' = ready_valids s" "runlist s' = runlist s" "runlist_prios s' = runlist_prios s"
    "priomask s' = priomask s" "wait_mask s' = wait_mask s" "hthreads s' = hthreads s" "cluster_sched s' = cluster_sched s"
    "futexhash s' = futexhash s" "vmblocks s' = vmblocks s" "imask s' = imask s" "htid s' = htid s"
  using assms by (simp_all add: bview_def)

lemma bview_fold: "(\<And>x s. bview (f x s) = bview s) \<Longrightarrow> bview (fold f xs s) = bview s"
  by (induction xs arbitrary: s) simp_all

lemma bview_devices [simp]:
  "bview (put_flag n b s) = bview s" "bview (H2K_tmpmap_init s) = bview s" "bview (ciad m s) = bview s" "bview (set_handler i h q s) = bview s"
  "bview (H2K_intcontrol_enable i s) = bview s" "bview (fst (setxreg c off v s)) = bview s" "bview (ecc_write e j s) = bview s"
  "bview (H2K_mem_alloc_init a z s) = bview s" "bview (H2K_timer_init s) = bview s" "bview (clear_irq j k s) = bview s"
  by (simp_all add: bview_def put_flag_def H2K_tmpmap_init_def ciad_def set_handler_def H2K_intcontrol_enable_def setxreg_def ecc_write_def
      H2K_mem_alloc_init_def H2K_timer_init_def H2K_timer_get_ticks_def H2K_timer_update_time_def H2K_timer_hw_init_def H2K_timer_hw_set_timeout_def
      clear_irq_def Let_def)

lemma bview_l2 [simp]:
  "bview (fst (H2K_trap_hwconfig_getl2reg off s)) = bview s" "bview (fst (H2K_trap_hwconfig_setl2reg off v s)) = bview s"
  by (simp_all add: H2K_trap_hwconfig_getl2reg_def H2K_trap_hwconfig_setl2reg_def) (simp_all add: bview_def)

lemma bview_l2cache [simp]: "bview (fst (H2K_trap_hwconfig_l2cache sz wb s)) = bview s"
  by (simp add: bview_def H2K_trap_hwconfig_l2cache_def H2K_trap_do_hwconfig_l2cache_def H2K_stmode_begin_def l2_drain_def Let_def
      H2K_set_syscfg_def H2K_stmode_end_def H2K_set_gie_def H2K_clear_gie_def BKL_LOCK_def BKL_UNLOCK_def split_beta)

lemma bview_l2cache_init [simp]: "bview (fst (H2K_l2cache_init s)) = bview s"
proof -
  have e: "bview (s\<lparr>l2size := a\<rparr>) = bview s" "bview (s\<lparr>kernel_error := b\<rparr>) = bview s" "bview (s\<lparr>l2tags := b\<rparr>) = bview s" for s a b
    by (simp_all add: bview_def)
  show ?thesis by (simp add: H2K_l2cache_init_def Let_def split_beta e)
qed

lemma bview_intconfig [simp]: "hthreads s = 0 \<Longrightarrow> bview (H2K_intconfig_init ssbase s) = bview s"
proof -
  assume h: "hthreads s = 0"
  have w: "bview (l2_word_init ssbase i s) = bview s" for i s
  proof -
    have "bview (s\<lparr>l2_int := f\<rparr>) = bview s" for f by (simp add: bview_def)
    then show ?thesis by (simp add: l2_word_init_def Let_def bview_fold)
  qed
  have "hthreads (set_handler i k q s) = hthreads s" for i k q s by (simp add: set_handler_def)
  then show ?thesis by (simp add: H2K_intconfig_init_def H2K_intconfig_l2_init_def Let_def bview_fold w h)
qed

lemma kg_init_fields:
  fixes ext git poff mshift last_tlb tsize toff s
  defines "s' \<equiv> H2K_kg_init False git poff mshift last_tlb tsize toff s"
  shows "thr s' = thr s" "imask s' = imask s" "htid s' = htid s" "ready s' = (\<lambda>_. NULL)" "ready_valids s' = (\<lambda>_. 0)" "runlist s' = (\<lambda>_. NULL)"
    "priomask s' = 0" "wait_mask s' = 0" "hthreads s' = 0" "cluster_sched s' = 0" "futexhash s' = (\<lambda>_. NULL)" "vmblocks s' = (\<lambda>_. NULL)"
  by (simp_all add: s'_def H2K_kg_init_def Let_def put_flag_def kg_bzero_def)

text \<open>The state in which the boot VM is created: nothing is queued and nothing runs.\<close>

definition blank :: "H2K_kg_t \<Rightarrow> H2K_kg_t \<Rightarrow> bool" where
  "blank s0 s \<longleftrightarrow> thr s = thr s0 \<and> imask s = imask s0 \<and> htid s = htid s0 \<and> ready s = (\<lambda>_. NULL) \<and> ready_valids s = (\<lambda>_. 0) \<and>
     runlist s = (\<lambda>_. NULL) \<and> (\<forall>i<16. runlist_prios s i = -1) \<and> priomask s = 0 \<and> wait_mask s = 0 \<and> hthreads s = 0 \<and> cluster_sched s = 0 \<and>
     futexhash s = (\<lambda>_. NULL) \<and> vmblocks s = (\<lambda>_. NULL) \<and> timeouts s = NULL"

lemma init_blank:
  fixes sy mshift ssbase last_tlb tsize toff s
  defines "s5 \<equiv> H2K_intconfig_init ssbase (H2K_runlist_init (fst (H2K_l2cache_init (H2K_tmpmap_init
     (H2K_kg_init False (H2K_GIT_COMMIT sy) (H2K_LINK_ADDR - mshift - H2K_LOAD_ADDR sy) mshift last_tlb tsize toff s)))))"
  shows "blank s (H2K_mem_alloc_init a z (H2K_timer_init s5))"
proof -
  let ?s1 = "H2K_kg_init False (H2K_GIT_COMMIT sy) (H2K_LINK_ADDR - mshift - H2K_LOAD_ADDR sy) mshift last_tlb tsize toff s"
  let ?s3 = "fst (H2K_l2cache_init (H2K_tmpmap_init ?s1))"
  have 3: "bview ?s3 = bview ?s1" by simp
  note f = bview_eqD [OF 3]
  have "hthreads (H2K_runlist_init ?s3) = 0" using f(8) by (simp add: H2K_runlist_init_def kg_init_fields)
  then have "bview (H2K_mem_alloc_init a z (H2K_timer_init s5)) = bview (H2K_runlist_init ?s3)" by (simp add: s5_def)
  note g = bview_eqD [OF this]
  have "timeouts (H2K_mem_alloc_init a z (H2K_timer_init s5)) = NULL"
    by (simp add: H2K_mem_alloc_init_def H2K_timer_init_def H2K_timer_get_ticks_def H2K_timer_update_time_def H2K_timer_hw_init_def
        H2K_timer_hw_set_timeout_def H2K_intcontrol_enable_def ciad_def Let_def)
  then show ?thesis unfolding blank_def g by (simp add: H2K_runlist_init_def f kg_init_fields MAX_HTHREADS_def)
qed

section \<open>The boot VM\<close>

lemma bootvm_created:
  assumes b: "blank s0 s" and h: "heap_rep s bs" "alloc_base s + 4 * (total bs + 8) \<le> 2 ^ 32" "\<exists>b\<in>set bs. fits (VMBLOCK_SIZE 1 32) b"
  shows "\<exists>s1 vb boot. H2K_init_setup_bootvm s = Some (s1, vb) \<and> vb \<noteq> NULL \<and> boot \<noteq> NULL \<and> free_threads (vmb s1 vb) = boot \<and>
    vm_vmidx (vmb s1 vb) = 1 \<and> vmblocks s1 = (\<lambda>_. NULL)(1 := vb) \<and>
    thr s1 = (thr s0)(boot := fresh_context vb 1 0 NULL) \<and> blank (s0\<lparr>thr := thr s1\<rparr>) (s1\<lparr>vmblocks := \<lambda>_. NULL\<rparr>)"
proof -
  let ?sz = "VMBLOCK_SIZE 1 32"
  have p: "vm_params 1 32" by (simp add: vm_params_def H2K_ID_MAX_CPUS_def MAX_VM_INTS_def)
  obtain s1 vb where a: "H2K_mem_alloc ?sz s = Some (s1, vb)" "s1 = s\<lparr>alloc_heap := alloc_heap s1\<rparr>"
    "if \<forall>b\<in>set bs. \<not> fits ?sz b then vb = NULL \<and> s1 = s else vb \<noteq> NULL \<and> vb + unat ?sz \<le> 2 ^ 32 \<and> heap_rep (H2K_mem_alloc_free vb s1) bs"
    using alloc_block [OF h(1,2), of ?sz] by (elim exE conjE)
  have v: "vb \<noteq> NULL" "vb + unat ?sz \<le> 2 ^ 32" using a(3) h(3) by (auto split: if_splits)
  have f1: "bview s1 = bview s" "timeouts s1 = timeouts s" by (subst a(2), simp add: bview_def)+
  have u: "[1..<64] = 1 # [Suc 1..<64]" using upt_conv_Cons [of 1 64] by simp
  have "vmblocks s1 = (\<lambda>_. NULL)" using b bview_eqD(11) [OF f1(1)] by (simp add: blank_def)
  then have "free_slot s1 = Some 1" unfolding free_slot_def H2K_ID_MAX_VMS_def u by simp
  then have sl: "free_slot (BKL_LOCK (H2K_bzero_vmblock vb s1)) = Some 1" by (simp only: zeroed(6))
  let ?s2 = "BKL_LOCK (H2K_bzero_vmblock vb s1)"
  define s3 where "s3 = BKL_UNLOCK (upd_vmb vb (vm_vmidx_update (\<lambda>_. of_nat 1)) (?s2\<lparr>vmblocks := (vmblocks ?s2)(1 := vb)\<rparr>))"
  have v3: "vmb s3 vb = vmblock0\<lparr>vm_vmidx := of_nat 1\<rparr>" "thr s3 = thr s1"
    by (simp_all add: s3_def BKL_UNLOCK_def BKL_LOCK_def H2K_bzero_vmblock_def upd_vmb_def)
  have b3: "bview (s3\<lparr>vmblocks := \<lambda>_. NULL\<rparr>) = bview s" "timeouts s3 = timeouts s" "vmblocks s3 = (\<lambda>_. NULL)(1 := vb)"
    using b f1 bview_eqD(11) [OF f1(1)]
    by (simp_all add: bview_def blank_def s3_def BKL_UNLOCK_def BKL_LOCK_def H2K_bzero_vmblock_def upd_vmb_def)
  let ?s4 = "fill_vmblock vb 1 32 NULL s3"
  have e: "H2K_trap_config 0 0 3 1 32 NULL s = Some (?s4, vm_vmidx (vmb ?s4 vb))"
    using a(1) v(1) sl
    by (simp add: H2K_trap_config_def H2K_trap_config_vmblock_init_def cpus_ints_create create_at_def Let_def s3_def
        H2K_ID_MAX_CPUS_def MAX_VM_INTS_def)
  obtain sx where q: "?s4 = s3\<lparr>thr := thr (init_contexts vb (vb + 192) 0 (unat (1::u32)) sx),
    vmb := (vmb s3)(vb := vmblock0\<lparr>vm_vmidx := of_nat 1, max_cpus := 1, num_ints := 32, vm_trapmask := -1, vm_tlbidxmask := -1,
      parent := (if NULL \<noteq> NULL then id (thr s3 NULL) else id_of_raw 0), contexts := vb + 192,
      free_threads := (if (1::u32) = 0 then NULL else vb + 192 + (unat (1::u32) - 1) * CONTEXT_SIZE),
      intinfo := (PERCPU_INTERRUPTS, H2K_vm_cpuint_ops) # (if (32::u32) > 0 then [(32, H2K_vm_shint_ops)] else []) @ [(-1, H2K_vm_badint_ops)],
      int_v2p := Some (\<lambda>_. 0)\<rparr>)\<rparr>" "thr sx = thr s3" "vm_vmidx (vmb sx vb) = of_nat 1" "free_threads (vmb sx vb) = NULL"
    using fill_vmblock_eq [OF p v(2) v3(1), of NULL] by (elim exE conjE)
  have t: "thr ?s4 = (thr s0)(vb + 192 := fresh_context vb 1 0 NULL)"
    using b bview_eqD(1) [OF f1(1)] by (subst q(1)) (simp add: init_vm_context_eq q(2-4) v3(2) blank_def)
  have m: "free_threads (vmb ?s4 vb) = vb + 192" "vm_vmidx (vmb ?s4 vb) = 1" "vmblocks ?s4 = (\<lambda>_. NULL)(1 := vb)"
    by (subst q(1), simp add: b3)+
  have "bview (?s4\<lparr>vmblocks := \<lambda>_. NULL, thr := thr s0\<rparr>) = bview s" "timeouts ?s4 = timeouts s"
    using b3(1,2) b by (subst q(1), simp add: bview_def blank_def)+
  then have "blank (s0\<lparr>thr := thr ?s4\<rparr>) (?s4\<lparr>vmblocks := \<lambda>_. NULL\<rparr>)" using b by (simp add: blank_def bview_def)
  then show ?thesis using e v(1) t m by (intro exI [of _ ?s4] exI [of _ vb] exI [of _ "vb + 192"]) (simp add: H2K_init_setup_bootvm_def)
qed

section \<open>The boot thread\<close>

lemma asid_inc_keeps:
  "bview (fst (H2K_asid_table_inc pt ty fl ext vb s)) = bview s" "timeouts (fst (H2K_asid_table_inc pt ty fl ext vb s)) = timeouts s"
  "vmb (fst (H2K_asid_table_inc pt ty fl ext vb s)) = vmb s"
  by (simp_all add: bview_def H2K_asid_table_inc_def H2K_do_asid_table_inc_def H2K_asid_table_eviction_def
      H2K_mem_stlb_invalidate_asid_def H2K_mem_tlb_invalidate_asid_def Let_def split: option.splits)

lemma boot_thread_fields:
  fixes sy :: symbols and mshift :: u32 and vb :: ptr and s :: H2K_kg_t
  defines "boot \<equiv> free_threads (vmb s vb)" and "r \<equiv> boot_thread sy mshift vb s"
  shows "snd r = boot" "bkl (fst r)" "\<not> tlb_lock (fst r)" "hthreads (fst r) = 1" "num_cpus (vmb (fst r) vb) = 1"
    "t \<noteq> boot \<Longrightarrow> thr (fst r) t = thr s t"
    "status (thr (fst r) boot) = H2K_STATUS_RUNNING" "hthread (thr (fst r) boot) = hthread (thr s boot)" "tree (thr (fst r) boot) = tree (thr s boot)"
    "elr (thr (fst r) boot) = bootvm_entry_point sy"
    "ready (fst r) = ready s" "ready_valids (fst r) = ready_valids s" "priomask (fst r) = priomask s" "wait_mask (fst r) = wait_mask s"
    "cluster_sched (fst r) = cluster_sched s" "futexhash (fst r) = futexhash s" "imask (fst r) = imask s" "htid (fst r) = htid s" "timeouts (fst r) = timeouts s"
    "runlist (fst r) = (runlist s)(unat (hthread (thr s boot)) := boot)"
    "runlist_prios (fst r) = (runlist_prios s)(unat (hthread (thr s boot)) := ucast (prio (thr (fst r) boot)))"
    "vmblocks (fst r) = vmblocks s" "vm_vmidx (vmb (fst r) vb) = vm_vmidx (vmb s vb)"
proof -
  define s2 where "s2 = (let s1 = upd_vmb vb (\<lambda>v. v\<lparr>free_threads := next (thr s boot), num_cpus := 1, guestmap := asid_entry0, fence_lo := 0,
                 fence_hi := 0xffffffff AND BOOT_TLB_PAGE_MASK\<rparr>) s in upd_thr boot (boot_context sy mshift vb s1) s1)"
  define s3 where "s3 = fst (H2K_asid_table_inc (offset_raw (boot_offset mshift)) 2 False 0 vb s2)"
  define asid where "asid = snd (H2K_asid_table_inc (offset_raw (boot_offset mshift)) 2 False 0 vb s2)"
  define s5 where "s5 = H2K_cluster_config ((BKL_LOCK (upd_thr boot (\<lambda>c. c\<lparr>ssr := set_ssr_asid (word_of_int asid) (ssr c)\<rparr>) s3))\<lparr>hthreads := 1, hthreads_mask := 0x1\<rparr>)"
  have r: "r = ((H2K_runlist_push boot s5)\<lparr>tlb_lock := False\<rparr>, boot)"
    by (simp add: r_def boot_thread_def Let_def split_beta s5_def s3_def asid_def s2_def boot_def)
  note b3 = bview_eqD [OF asid_inc_keeps(1), of "offset_raw (boot_offset mshift)" 2 False 0 vb s2, folded s3_def] and
    v3 = asid_inc_keeps(2,3) [of "offset_raw (boot_offset mshift)" 2 False 0 vb s2, folded s3_def]
  have x: "ready s2 = ready s" "ready_valids s2 = ready_valids s" "priomask s2 = priomask s" "wait_mask s2 = wait_mask s" "cluster_sched s2 = cluster_sched s"
    "futexhash s2 = futexhash s" "imask s2 = imask s" "htid s2 = htid s" "timeouts s2 = timeouts s" "runlist s2 = runlist s" "runlist_prios s2 = runlist_prios s"
    "num_cpus (vmb s2 vb) = 1" "vmblocks s2 = vmblocks s" "vm_vmidx (vmb s2 vb) = vm_vmidx (vmb s vb)"
    by (simp_all add: s2_def Let_def upd_vmb_def upd_thr_def)
  have f5: "ready s5 = ready s" "ready_valids s5 = ready_valids s" "priomask s5 = priomask s" "wait_mask s5 = wait_mask s" "cluster_sched s5 = cluster_sched s"
    "futexhash s5 = futexhash s" "imask s5 = imask s" "htid s5 = htid s" "timeouts s5 = timeouts s" "runlist s5 = runlist s" "runlist_prios s5 = runlist_prios s"
    "bkl s5" "hthreads s5 = 1" "num_cpus (vmb s5 vb) = 1" "vmblocks s5 = vmblocks s" "vm_vmidx (vmb s5 vb) = vm_vmidx (vmb s vb)"
    by (simp_all add: s5_def H2K_cluster_config_def Let_def BKL_LOCK_def b3 v3 x upd_thr_def)
  have t5: "thr s5 t = (if t = boot then (thr s2 boot)\<lparr>ssr := set_ssr_asid (word_of_int asid) (ssr (thr s2 boot))\<rparr> else thr s2 t)" for t
    by (simp add: s5_def cluster_config_frame BKL_LOCK_def b3)
  have t2: "thr s2 t = (if t = boot then boot_context sy mshift vb (upd_vmb vb (\<lambda>v. v\<lparr>free_threads := next (thr s boot), num_cpus := 1,
      guestmap := asid_entry0, fence_lo := 0, fence_hi := 0xffffffff AND BOOT_TLB_PAGE_MASK\<rparr>) s) (thr s boot) else thr s t)" for t
    by (simp add: s2_def Let_def)
  have h: "hthread (thr s5 boot) = hthread (thr s boot)" "tree (thr s5 boot) = tree (thr s boot)" "elr (thr s5 boot) = bootvm_entry_point sy"
    by (simp_all add: t5 t2 boot_context_def)
  show "snd r = boot" "bkl (fst r)" "\<not> tlb_lock (fst r)" "hthreads (fst r) = 1" "num_cpus (vmb (fst r) vb) = 1"
    "t \<noteq> boot \<Longrightarrow> thr (fst r) t = thr s t"
    "status (thr (fst r) boot) = H2K_STATUS_RUNNING" "hthread (thr (fst r) boot) = hthread (thr s boot)" "tree (thr (fst r) boot) = tree (thr s boot)"
    "elr (thr (fst r) boot) = bootvm_entry_point sy"
    "ready (fst r) = ready s" "ready_valids (fst r) = ready_valids s" "priomask (fst r) = priomask s" "wait_mask (fst r) = wait_mask s"
    "cluster_sched (fst r) = cluster_sched s" "futexhash (fst r) = futexhash s" "imask (fst r) = imask s" "htid (fst r) = htid s" "timeouts (fst r) = timeouts s"
    "runlist (fst r) = (runlist s)(unat (hthread (thr s boot)) := boot)"
    "runlist_prios (fst r) = (runlist_prios s)(unat (hthread (thr s boot)) := ucast (prio (thr (fst r) boot)))"
    "vmblocks (fst r) = vmblocks s" "vm_vmidx (vmb (fst r) vb) = vm_vmidx (vmb s vb)"
    by (simp_all add: r H2K_runlist_push_def Let_def f5 h) (simp add: t5 t2)+
qed

section \<open>Boot establishes the invariant\<close>

text \<open>The state the boot assembly hands over: no context is alive, hardware thread 0 runs with its interrupts masked.\<close>

definition cold :: "H2K_kg_t \<Rightarrow> bool" where
  "cold s \<longleftrightarrow> (\<forall>t. status (thr s t) = H2K_STATUS_DEAD \<and> timeout (thr s t) = 0) \<and> htid s = 0 \<and> imask s 0 = -1"

lemma fresh_context_facts:
  "status (fresh_context vb v j nx) = H2K_STATUS_DEAD" "hthread (fresh_context vb v j nx) = 0" "tree (fresh_context vb v j nx) = tree thread0"
  "key (tree thread0) = 0"
  by (simp_all add: fresh_context_def thread0_def)

lemma boot_kernel_ok:
  fixes sy :: symbols and mshift :: u32
  assumes c: "cold s0" and b: "blank (s0\<lparr>thr := thr s1\<rparr>) (s1\<lparr>vmblocks := \<lambda>_. NULL\<rparr>)"
    and t: "thr s1 = (thr s0)(boot := fresh_context vb 1 0 NULL)" and f: "free_threads (vmb s1 vb) = boot" "boot \<noteq> NULL"
  defines "s' \<equiv> fst (boot_thread sy mshift vb s1)"
  shows "kernel_ok (settle (Switch NULL boot) s')" "t \<noteq> boot \<Longrightarrow> status (thr s' t) = H2K_STATUS_DEAD"
proof -
  note F = boot_thread_fields [where sy = sy and mshift = mshift and vb = vb and s = s1, unfolded f(1), folded s'_def]
  have B: "ready s' = (\<lambda>_. NULL)" "ready_valids s' = (\<lambda>_. 0)" "priomask s' = 0" "wait_mask s' = 0" "cluster_sched s' = 0"
    "futexhash s' = (\<lambda>_. NULL)" "imask s' 0 = -1" "timeouts s' = NULL" "runlist s' 0 = boot" "runlist_prios s' 0 = ucast (prio (thr s' boot))"
    "hthread (thr s' boot) = 0"
    using b c by (simp_all add: F blank_def cold_def t fresh_context_facts)
  have d: "status (thr s' u) = (if u = boot then H2K_STATUS_RUNNING else H2K_STATUS_DEAD)" for u using c F(6) [of u] F(7) by (simp add: t cold_def)
  then show "status (thr s' t) = H2K_STATUS_DEAD" if "t \<noteq> boot" for t using that by simp
  have tm: "timeout (thr s' u) = 0" for u using c F(6) [of u] F(9) by (cases "u = boot") (auto simp: t cold_def fresh_context_facts)
  have "ready_rep s' (\<lambda>_. [])" by (simp add: ready_rep_def is_ring_def cyc_def prio_bit_def B)
  moreover have "runlist_ok s'" using f(2) by (simp add: runlist_ok_def slot_ok_def F(4) B d MAX_HTHREADS_def split: if_splits)
  moreover have "lowprio_ok s'" "steer_ok s'" by (simp_all add: lowprio_ok_def steer_ok_def at_most_one_def B F(4))
  moreover have "futex_rep s' (\<lambda>_. [])" by (simp add: futex_rep_def is_ring_def cyc_def B d)
  ultimately have k: "kinv s' (\<lambda>_. []) (\<lambda>_. [])" by (simp add: kinv_def sched_inv_def d)
  have "tlist (timer_tree NULL s') 0 []"
    unfolding tlist_def by (intro exI [of _ Leaf]) (simp add: timer_tree_def B)
  then have "timer_inv s' []" by (simp add: timer_inv_def tm)
  then have "kernel_ok (s'\<lparr>bkl := False\<rparr>)"
    using kinv_locks(2) [OF k] timer_inv_gview [of s' "[]" "BKL_UNLOCK s'"] B(5) unfolding kernel_ok_def by (auto simp: BKL_UNLOCK_def gview_def)
  moreover have "gview s' = gview (s'\<lparr>bkl := False\<rparr>)" by (simp add: gview_def)
  ultimately show "kernel_ok (settle (Switch NULL boot) s')" using switch_ok [of _ s'] k F(7) by blast
qed

text \<open>
  C14: From the state the boot assembly hands over and with a heap large enough for the boot VM,
  boot returns: VM 1 is created with one context, which starts at the entry point of the boot VM as
  the only live thread, on hardware thread 0; and the kernel's invariant holds when it starts, so
  every state the system reaches from there is consistent.
\<close>

theorem boot_establishes:
  assumes c: "cold s" and z: "1024 \<le> alloc_size sy" "alloc_size sy < 2 ^ 29" "unat (alloc_addr sy) + 4 * unat (alloc_size sy) \<le> 2 ^ 32"
  shows "\<exists>s' boot. H2K_thread_boot sy mshift ssbase last_tlb tsize toff s = Some (s', Switch NULL boot) \<and>
    vm_vmidx (vmb s' (vmblocks s' 1)) = 1 \<and> num_cpus (vmb s' (vmblocks s' 1)) = 1 \<and>
    elr (thr s' boot) = bootvm_entry_point sy \<and> status (thr s' boot) = H2K_STATUS_RUNNING \<and> hthread (thr s' boot) = 0 \<and>
    (\<forall>t. t \<noteq> boot \<longrightarrow> status (thr s' t) = H2K_STATUS_DEAD) \<and> kernel_ok (settle (Switch NULL boot :: unit outcome) s')"
proof -
  define s7 where "s7 = H2K_mem_alloc_init (unat (alloc_addr sy)) (alloc_size sy) (H2K_timer_init (H2K_intconfig_init ssbase (H2K_runlist_init
     (fst (H2K_l2cache_init (H2K_tmpmap_init
       (H2K_kg_init False (H2K_GIT_COMMIT sy) (H2K_LINK_ADDR - mshift - H2K_LOAD_ADDR sy) mshift last_tlb tsize toff s)))))))"
  have u: "1024 \<le> unat (alloc_size sy)" using z(1) by (simp add: word_le_nat_alt)
  have h: "heap_rep s7 [(unat (alloc_size sy) - 8, True)]" unfolding s7_def by (rule init_rep) (use z(2) u in \<open>auto simp: word_le_nat_alt\<close>)
  have a: "alloc_base s7 + 4 * (total [(unat (alloc_size sy) - 8, True)] + 8) \<le> 2 ^ 32"
    using z(3) u by (simp add: s7_def H2K_mem_alloc_init_def Let_def)
  have "unat (VMBLOCK_SIZE 1 32) \<le> 1024"
    using size_unat [of 1 32] by (simp add: vm_params_def H2K_ID_MAX_CPUS_def MAX_VM_INTS_def mask_words_def)
  then have fit: "\<exists>b\<in>set [(unat (alloc_size sy) - 8, True)]. fits (VMBLOCK_SIZE 1 32) b" using u by (simp add: fits_def)
  have bl: "blank s s7" unfolding s7_def by (rule init_blank)
  obtain s1 vb boot where v: "H2K_init_setup_bootvm s7 = Some (s1, vb)" "boot \<noteq> NULL" "free_threads (vmb s1 vb) = boot"
      "vm_vmidx (vmb s1 vb) = 1" "vmblocks s1 = (\<lambda>_. NULL)(1 := vb)" "thr s1 = (thr s)(boot := fresh_context vb 1 0 NULL)"
      "blank (s\<lparr>thr := thr s1\<rparr>) (s1\<lparr>vmblocks := \<lambda>_. NULL\<rparr>)"
    using bootvm_created [OF bl h a fit] by (elim exE conjE)
  let ?s' = "fst (boot_thread sy mshift vb s1)"
  note F = boot_thread_fields [where sy = sy and mshift = mshift and vb = vb and s = s1, unfolded v(3)]
  note K = boot_kernel_ok [OF c v(7,6,3,2), where sy = sy and mshift = mshift]
  have "H2K_thread_boot sy mshift ssbase last_tlb tsize toff s = Some (?s', Switch NULL boot)"
    using v(1) F(1) by (simp add: H2K_thread_boot_def H2K_init_setup_def Let_def s7_def split_beta)
  moreover have "vmblocks ?s' 1 = vb" "vm_vmidx (vmb ?s' vb) = 1" "hthread (thr ?s' boot) = 0"
    using v(4,5,6) by (simp_all add: F fresh_context_facts)
  ultimately show ?thesis using F(5,7,10) K by (intro exI [of _ ?s'] exI [of _ boot]) simp
qed

definition boot_symbols :: symbols where
  "boot_symbols = \<lparr>HEAP_SIZE = 0, STACK_SIZE = 0, H2K_ALLOC_HEAP_SIZE = 0, end_addr = 0x1000, bootvm_entry_point = 0xc0000000,
     H2K_LOAD_ADDR = 0, H2K_GIT_COMMIT = 7\<rparr>"

theorem boot_establishes_witness:
  "\<exists>s' boot. H2K_thread_boot boot_symbols 0 0 63 64 0 (kg0\<lparr>imask := \<lambda>_. -1\<rparr>) = Some (s', Switch NULL boot) \<and>
     elr (thr s' boot) = 0xc0000000 \<and> kernel_ok (settle (Switch NULL boot :: unit outcome) s')"
proof -
  have "cold (kg0\<lparr>imask := \<lambda>_. -1\<rparr>)" by (simp add: cold_def thread0_def)
  moreover have "alloc_size boot_symbols = 8200" by (simp add: alloc_size_def boot_symbols_def)
  moreover have "alloc_addr boot_symbols = 0x4101000"
    by (simp add: alloc_addr_def stack_base_def heap_top_def boot_symbols_def)
  ultimately show ?thesis
    using boot_establishes [of "kg0\<lparr>imask := \<lambda>_. -1\<rparr>" boot_symbols 0 0 63 64 0] by (auto simp: boot_symbols_def)
qed

end
