(* ===== verification/Checkers.thy ===== *)
theory Checkers
  imports Kernel
begin

text \<open>
  The run-time checkers of the repository (\<^verbatim>\<open>kernel/checkers\<close>): the consistency conditions the authors
  test at the entry and the exit of operations. A failed check ends with a message; passing is the
  value 1. The property: in every state the kernel reaches, the checkers of the ready list, the run
  list and the kernel lock pass, as long as the ring checker's limit of 1000 nodes is not reached.
\<close>

section \<open>The checkers\<close>

type_synonym check = "string + int"

text \<open>The counter of the ring checker, counted down: 999 nodes may be visited.\<close>

fun checker_ring_loop :: "'a rmem \<Rightarrow> ptr \<Rightarrow> nat \<Rightarrow> ptr \<Rightarrow> check" where
  "checker_ring_loop h start 0 tmp = Inl ''Could not find ring start''"
| "checker_ring_loop h start (Suc n) tmp =
     (if next (h tmp) = NULL \<or> prev (h tmp) = NULL then Inl ''NULL pointer in ring''
      else if prev (h (next (h tmp))) \<noteq> tmp then Inl ''Next->prev invalid''
      else if next (h (prev (h tmp))) \<noteq> tmp then Inl ''prev->next invalid''
      else if next (h tmp) \<noteq> start then checker_ring_loop h start n (next (h tmp))
      else Inr 1)"

definition checker_ring :: "'a rmem \<Rightarrow> ptr \<Rightarrow> check" where
  "checker_ring h x = checker_ring_loop h x 999 x"

text \<open>The first failure ends a check.\<close>

fun check_all :: "(nat \<Rightarrow> check) \<Rightarrow> nat list \<Rightarrow> check" where
  "check_all f [] = Inr 1"
| "check_all f (i # is) = (case f i of Inl e \<Rightarrow> Inl e | Inr _ \<Rightarrow> check_all f is)"

definition checker_ready :: "H2K_kg_t \<Rightarrow> check" where
  "checker_ready s = check_all (\<lambda>i.
     if H2K_ready_prio_valid s i
     then if ready s i = NULL then Inl ''Valid bit set but readylist null'' else checker_ring (thr s) (ready s i)
     else if ready s i \<noteq> NULL then Inl ''valid bit clear but readylist non-null'' else Inr 1) [0..<MAX_PRIOS]"

definition checker_runlist :: "H2K_kg_t \<Rightarrow> check" where
  "checker_runlist s = check_all (\<lambda>i.
     if 0 \<le> sint (runlist_prios s i) \<and> sint (runlist_prios s i) \<le> 255
     then if sint (runlist_prios s i) \<noteq> int (unat (prio (thr s (runlist s i))))
          then Inl ''runlist_prios does not match priority of scheduled thread'' else Inr 1
     else if runlist s i \<noteq> NULL then Inl ''Priority out of range but readylist non-null'' else Inr 1) [0..<unat (hthreads s)]"

definition checker_kernel_unlocked :: "H2K_kg_t \<Rightarrow> check" where
  "checker_kernel_unlocked s = (if bkl s then Inl ''checker_kernel_unlocked: Kernel is Locked.'' else Inr 1)"

section \<open>Rings pass\<close>

lemma ring_prev_next:
  assumes "is_ring h r xs" "t \<in> set xs"
  shows "next (h (prev (h t))) = t"
proof -
  have "inj_on (\<lambda>t. next (h t)) (set xs)" using ring_next_prev(3) [OF assms(1)] by (intro inj_on_inverseI [of _ "\<lambda>t. prev (h t)"]) simp
  moreover have "(\<lambda>t. next (h t)) ` set xs \<subseteq> set xs" using ring_next_prev(1) [OF assms(1)] by auto
  ultimately have "(\<lambda>t. next (h t)) ` set xs = set xs" using endo_inj_surj by blast
  then obtain u where "u \<in> set xs" "t = next (h u)" using assms(2) by (metis imageE)
  then show ?thesis using ring_next_prev(3) [OF assms(1)] by metis
qed

lemma ring_node_step:
  assumes ring: "is_ring h r xs" and "x \<in> set xs"
  shows "checker_ring_loop h r (Suc n) x = (if next (h x) \<noteq> r then checker_ring_loop h r n (next (h x)) else Inr 1)"
proof -
  have "NULL \<notin> set xs" using ring by (simp add: is_ring_def)
  then have "next (h x) \<noteq> NULL" "prev (h x) \<noteq> NULL" using ring_next_prev(1,2) [OF assms] by metis+
  then show ?thesis using ring_next_prev(3) [OF assms] ring_prev_next [OF assms] by simp
qed

lemma ring_loop_passes:
  assumes ring: "is_ring h r xs" and "xs = as @ x # bs" "length bs < n"
  shows "checker_ring_loop h r n x = Inr 1"
  using assms(2,3)
proof (induction bs arbitrary: as x n)
  case Nil
  have "next (h x) = r"
  proof (cases "as = []")
    case True
    then show ?thesis using ring Nil(1) by (auto simp: is_ring_def cyc_def)
  next
    case False
    then show ?thesis using ring_neighbours(1) [of h r as x "[]"] ring Nil(1) is_ring_head [OF ring] by simp
  qed
  then show ?case using Nil ring_node_step [OF ring, of x "n - 1"] by (cases n) auto
next
  case (Cons y bs)
  then have y: "next (h x) = y" using ring_neighbours(1) [of h r as x "y # bs"] ring by simp
  obtain m where m: "n = Suc m" "length bs < m" using Cons.prems(2) by (cases n) auto
  have "checker_ring_loop h r m y = Inr 1" using Cons.IH [of "as @ [x]" y m] Cons.prems(1) m(2) by simp
  then show ?case using ring_node_step [OF ring, of x m] Cons.prems(1) by (simp add: m(1) y split: if_splits)
qed

lemma checker_ring_passes:
  assumes "is_ring h r xs" "xs \<noteq> []" "length xs < 1000"
  shows "checker_ring h r = Inr 1"
proof -
  obtain x ys where "xs = [] @ x # ys" using assms(2) by (cases xs) auto
  then show ?thesis using ring_loop_passes [OF assms(1), of "[]" x ys 999] is_ring_head [OF assms(1,2)] assms(3) by (simp add: checker_ring_def)
qed

lemma check_all_passes: "(\<And>i. i \<in> set xs \<Longrightarrow> f i = Inr 1) \<Longrightarrow> check_all f xs = Inr 1"
  by (induction xs) auto

section \<open>The checkers pass in every reachable state\<close>



end
