(* ===== verification/Pmutex.thy ===== *)
theory Pmutex
  imports H2K_Prelude
begin

text \<open>
  The mutexes of guest programs: \<^verbatim>\<open>libs/posix/pthread/mutex/pthread_mutex.ref.c\<close> over the plain
  mutex (\<^verbatim>\<open>libs/posix/pthread/plainmutex\<close>), a word that holds the identifier of its owner, with
  bit 0 set when threads may be blocked on it in the kernel. The uncontended paths are
  load-locked/store-conditional sequences in the guest; the contended ones are the kernel's
  priority-inheriting futexes (\<^verbatim>\<open>kernel/futex/futex_pi/futex_pi.ref.c\<close>).

  The model is a step relation over the interleavings of any number of threads: each thread has a
  program counter, and a step is one access to the shared mutex. Within the kernel, setting bit 0
  and testing the word are two steps, between which other threads may use the word.
\<close>

section \<open>State\<close>

datatype pm_pc = Idle
  | Lock_try | Lock_check | Trylock_try | Trylock_check | Deepen
  | Acquire | Kernel_lock | Kernel_test | Blocked
  | Set_depth | Set_owner
  | Undeepen | Test_depth | Clear_owner | Release | Kernel_unlock

text \<open>
  The four fields of \<open>pthread_mutex_t\<close>, the kernel's queue of threads blocked on the word, the
  holder of the kernel lock, the program counters, and, for the specification only, how many times
  each thread has locked the mutex and not unlocked it. Threads are named by their identifiers,
  whose low ten bits are \<open>0\<close> (\<^verbatim>\<open>kernel/data/idtype/idtype.h\<close>).
\<close>

record pthread_mutex_t =
  mutex :: u32
  mtype :: u32
  depth :: u32
  owner_id :: u32
  pm_waiters :: "u32 list"
  pm_bkl :: "u32 option"
  pcs :: "u32 \<Rightarrow> pm_pc"
  held :: "u32 \<Rightarrow> nat"

definition tid_ok :: "u32 \<Rightarrow> bool" where
  "tid_ok t \<longleftrightarrow> t \<noteq> 0 \<and> \<not> bit t 0"

definition PTHREAD_MUTEX_NORMAL :: u32 where "PTHREAD_MUTEX_NORMAL = 0"
definition PTHREAD_MUTEX_RECURSIVE :: u32 where "PTHREAD_MUTEX_RECURSIVE = 1"

definition pthread_mutex_init :: "u32 option \<Rightarrow> pthread_mutex_t" where
  "pthread_mutex_init attr =
     \<lparr>mutex = 0, mtype = (case attr of Some ty \<Rightarrow> ty | None \<Rightarrow> PTHREAD_MUTEX_NORMAL), depth = 0, owner_id = 0,
      pm_waiters = [], pm_bkl = None, pcs = (\<lambda>_. Idle), held = (\<lambda>_. 0)\<rparr>"

definition goto :: "u32 \<Rightarrow> pm_pc \<Rightarrow> pthread_mutex_t \<Rightarrow> pthread_mutex_t" where
  "goto t p s = s\<lparr>pcs := (pcs s)(t := p)\<rparr>"

text \<open>Return from a call that got the mutex.\<close>

definition locked :: "u32 \<Rightarrow> pthread_mutex_t \<Rightarrow> pthread_mutex_t" where
  "locked t s = goto t Idle (s\<lparr>held := (held s)(t := held s t + 1)\<rparr>)"

section \<open>The plain mutex and the kernel\<close>

text \<open>
  The kernel's side of a contended lock: it may return \<open>-1\<close> (\<open>fail\<close>: pending guest work, or an
  address it cannot write), which makes the guest try again; otherwise it takes the kernel lock,
  sets bit 0 and reads the word. The value \<open>1\<close> means that the mutex was free and is taken; any
  other value queues the caller, at the place \<open>i\<close> its priority gives.
\<close>

definition H2K_futex_lock_pi_enter :: "u32 \<Rightarrow> bool \<Rightarrow> pthread_mutex_t \<Rightarrow> pthread_mutex_t option" where
  "H2K_futex_lock_pi_enter t fail s =
     (if fail then Some (goto t Acquire s)
      else if pm_bkl s \<noteq> None then None
      else Some (goto t Kernel_test (s\<lparr>pm_bkl := Some t, mutex := set_bit 0 (mutex s)\<rparr>)))"

definition H2K_futex_lock_pi_test :: "u32 \<Rightarrow> nat \<Rightarrow> pthread_mutex_t \<Rightarrow> pthread_mutex_t" where
  "H2K_futex_lock_pi_test t i s =
     (if mutex s = 1 then goto t Set_depth (s\<lparr>mutex := t, pm_bkl := None\<rparr>)
      else goto t Blocked (s\<lparr>pm_bkl := None, pm_waiters := take i (pm_waiters s) @ t # drop i (pm_waiters s)\<rparr>))"

text \<open>
  The kernel's side of a contended unlock hands the mutex to the first thread in the queue: the word
  becomes its identifier with bit 0 set.
\<close>

definition H2K_futex_unlock_pi_word :: "u32 \<Rightarrow> bool \<Rightarrow> pthread_mutex_t \<Rightarrow> pthread_mutex_t option" where
  "H2K_futex_unlock_pi_word t fail s =
     (if fail then Some (goto t Release s)
      else if pm_bkl s \<noteq> None then None
      else case pm_waiters s of
        [] \<Rightarrow> Some (goto t Idle (s\<lparr>mutex := 0\<rparr>))
      | w # ws \<Rightarrow> Some (goto t Idle (goto w Set_depth (s\<lparr>mutex := w + 1, pm_waiters := ws\<rparr>))))"

definition pthread_plainmutex_trylock_id_np :: "u32 \<Rightarrow> pthread_mutex_t \<Rightarrow> pthread_mutex_t \<times> bool" where
  "pthread_plainmutex_trylock_id_np t s = (if mutex s = 0 then (s\<lparr>mutex := t\<rparr>, True) else (s, False))"

text \<open>
  \<open>pthread_plainmutex_lock_id_np\<close> repeats the attempt in the guest and the call of the kernel until
  one of them succeeds; a thread that waits in the kernel has no step of its own.
\<close>

definition pthread_plainmutex_lock_id_np :: "u32 \<Rightarrow> bool \<Rightarrow> nat \<Rightarrow> pthread_mutex_t \<Rightarrow> pthread_mutex_t option" where
  "pthread_plainmutex_lock_id_np t fail i s =
     (case pcs s t of
        Acquire \<Rightarrow> Some (if mutex s = 0 then goto t Set_depth (s\<lparr>mutex := t\<rparr>) else goto t Kernel_lock s)
      | Kernel_lock \<Rightarrow> H2K_futex_lock_pi_enter t fail s
      | Kernel_test \<Rightarrow> Some (H2K_futex_lock_pi_test t i s)
      | _ \<Rightarrow> None)"

definition pthread_plainmutex_unlock_id_np :: "u32 \<Rightarrow> bool \<Rightarrow> pthread_mutex_t \<Rightarrow> pthread_mutex_t option" where
  "pthread_plainmutex_unlock_id_np t fail s =
     (case pcs s t of
        Release \<Rightarrow> Some (if mutex s = t then goto t Idle (s\<lparr>mutex := 0\<rparr>) else goto t Kernel_unlock s)
      | Kernel_unlock \<Rightarrow> H2K_futex_unlock_pi_word t fail s
      | _ \<Rightarrow> None)"

section \<open>The mutex\<close>

definition pthread_mutex_lock :: "u32 \<Rightarrow> bool \<Rightarrow> nat \<Rightarrow> pthread_mutex_t \<Rightarrow> pthread_mutex_t option" where
  "pthread_mutex_lock t fail i s =
     (case pcs s t of
        Lock_try \<Rightarrow> (let (s', ok) = pthread_plainmutex_trylock_id_np t s in Some (goto t (if ok then Set_depth else Lock_check) s'))
      | Lock_check \<Rightarrow> Some (goto t (if mtype s = PTHREAD_MUTEX_RECURSIVE \<and> owner_id s = t then Deepen else Acquire) s)
      | Deepen \<Rightarrow> Some (locked t (s\<lparr>depth := depth s + 1\<rparr>))
      | Set_depth \<Rightarrow> Some (goto t Set_owner (s\<lparr>depth := 1\<rparr>))
      | Set_owner \<Rightarrow> Some (locked t (s\<lparr>owner_id := t\<rparr>))
      | _ \<Rightarrow> pthread_plainmutex_lock_id_np t fail i s)"

text \<open>\<open>EBUSY\<close> is the return to \<open>Idle\<close> without the mutex; the other ends are those of a lock.\<close>

definition pthread_mutex_trylock :: "u32 \<Rightarrow> pthread_mutex_t \<Rightarrow> pthread_mutex_t option" where
  "pthread_mutex_trylock t s =
     (case pcs s t of
        Trylock_try \<Rightarrow> (let (s', ok) = pthread_plainmutex_trylock_id_np t s in Some (goto t (if ok then Set_depth else Trylock_check) s'))
      | Trylock_check \<Rightarrow> Some (goto t (if mtype s \<noteq> PTHREAD_MUTEX_NORMAL \<and> owner_id s = t then Deepen else Idle) s)
      | _ \<Rightarrow> None)"

definition pthread_mutex_unlock :: "u32 \<Rightarrow> bool \<Rightarrow> pthread_mutex_t \<Rightarrow> pthread_mutex_t option" where
  "pthread_mutex_unlock t fail s =
     (case pcs s t of
        Undeepen \<Rightarrow> Some (goto t Test_depth (s\<lparr>depth := depth s - 1\<rparr>))
      | Test_depth \<Rightarrow> Some (goto t (if depth s = 0 then Clear_owner else Idle) s)
      | Clear_owner \<Rightarrow> Some (goto t Release (s\<lparr>owner_id := 0\<rparr>))
      | _ \<Rightarrow> pthread_plainmutex_unlock_id_np t fail s)"

text \<open>
  A thread calls lock and trylock at any time and unlock only when it has the mutex, as POSIX
  requires. A blocked thread leaves the queue when an interrupt is delivered to it
  (\<open>H2K_futex_cancel\<close>), and tries again.
\<close>

inductive mstep :: "pthread_mutex_t \<Rightarrow> pthread_mutex_t \<Rightarrow> bool" where
  call_lock: "tid_ok t \<Longrightarrow> pcs s t = Idle \<Longrightarrow> held s t < 2 ^ 32 - 1 \<Longrightarrow> mstep s (goto t Lock_try s)"
| call_trylock: "tid_ok t \<Longrightarrow> pcs s t = Idle \<Longrightarrow> held s t < 2 ^ 32 - 1 \<Longrightarrow> mstep s (goto t Trylock_try s)"
| call_unlock: "pcs s t = Idle \<Longrightarrow> 0 < held s t \<Longrightarrow> mstep s (goto t Undeepen (s\<lparr>held := (held s)(t := held s t - 1)\<rparr>))"
| lock_step: "pthread_mutex_lock t fail i s = Some s' \<Longrightarrow> mstep s s'"
| trylock_step: "pthread_mutex_trylock t s = Some s' \<Longrightarrow> mstep s s'"
| unlock_step: "pthread_mutex_unlock t fail s = Some s' \<Longrightarrow> mstep s s'"
| cancel: "pcs s t = Blocked \<Longrightarrow> mstep s (goto t Acquire (s\<lparr>pm_waiters := remove1 t (pm_waiters s)\<rparr>))"

section \<open>The invariant\<close>

definition owning :: "pm_pc \<Rightarrow> bool" where
  "owning p \<longleftrightarrow> (p \<in> {Set_depth, Set_owner, Undeepen, Test_depth, Clear_owner, Release, Kernel_unlock})"

definition named :: "pm_pc \<Rightarrow> bool" where
  "named p \<longleftrightarrow> (p \<notin> {Set_depth, Set_owner, Release, Kernel_unlock})"

definition owns :: "pthread_mutex_t \<Rightarrow> u32 \<Rightarrow> bool" where
  "owns s t \<longleftrightarrow> 0 < held s t \<or> owning (pcs s t)"

definition pm_holder :: "pthread_mutex_t \<Rightarrow> u32" where
  "pm_holder s = unset_bit 0 (mutex s)"

text \<open>What the word says of a thread, and what the other fields say of the owner.\<close>

definition word_inv :: "pthread_mutex_t \<Rightarrow> bool" where
  "word_inv s \<longleftrightarrow> (\<forall>t. owns s t \<longleftrightarrow> t \<noteq> 0 \<and> t = pm_holder s) \<and> (\<forall>t. pcs s t \<noteq> Idle \<or> 0 < held s t \<longrightarrow> tid_ok t)"

definition queue_inv :: "pthread_mutex_t \<Rightarrow> bool" where
  "queue_inv s \<longleftrightarrow> distinct (pm_waiters s) \<and> (\<forall>t. t \<in> set (pm_waiters s) \<longleftrightarrow> pcs s t = Blocked) \<and>
     (pm_waiters s \<noteq> [] \<longrightarrow> bit (mutex s) 0 \<and> pm_holder s \<noteq> 0) \<and>
     (\<forall>t. pcs s t = Kernel_test \<longleftrightarrow> pm_bkl s = Some t) \<and> (pm_bkl s \<noteq> None \<longrightarrow> bit (mutex s) 0)"

definition owner_inv :: "pthread_mutex_t \<Rightarrow> bool" where
  "owner_inv s \<longleftrightarrow> owner_id s = (if pm_holder s \<noteq> 0 \<and> named (pcs s (pm_holder s)) then pm_holder s else 0) \<and>
     (\<forall>t. owns s t \<longrightarrow> named (pcs s t) \<longrightarrow> depth s = of_nat (held s t + of_bool (pcs s t = Undeepen))) \<and>
     (\<forall>t. \<not> named (pcs s t) \<or> pcs s t = Clear_owner \<longrightarrow> held s t = 0) \<and>
     (\<forall>t. pcs s t = Set_owner \<longrightarrow> depth s = 1) \<and>
     (\<forall>t. pcs s t = Deepen \<longrightarrow> 0 < held s t) \<and>
     (\<forall>t. held s t < 2 ^ 32 \<and> (pcs s t \<in> {Lock_try, Lock_check, Trylock_try, Trylock_check, Deepen, Undeepen} \<longrightarrow> held s t < 2 ^ 32 - 1))"

definition mutex_inv :: "pthread_mutex_t \<Rightarrow> bool" where
  "mutex_inv s \<longleftrightarrow> word_inv s \<and> queue_inv s \<and> owner_inv s"

lemma unset_bit_even: "\<not> bit (t :: u32) 0 \<Longrightarrow> unset_bit 0 t = t"
  by (rule bit_eqI) (auto simp: bit_unset_bit_iff intro: ccontr)

lemma unset_bit_set [simp]: "unset_bit 0 (set_bit 0 (m :: u32)) = unset_bit 0 m"
  by (rule bit_eqI) (auto simp: bit_unset_bit_iff bit_set_bit_iff)

lemma set_unset_bit: "bit (m :: u32) 0 \<Longrightarrow> set_bit 0 (unset_bit 0 m) = m"
  by (rule bit_eqI) (auto simp: bit_unset_bit_iff bit_set_bit_iff)

lemma even_plus_1: "\<not> bit (w :: u32) 0 \<Longrightarrow> w + 1 = set_bit 0 w"
  by (simp add: set_bit_eq_or bit_0 or_one_eq)

lemma init_inv: "mutex_inv (pthread_mutex_init attr)"
  by (simp add: mutex_inv_def word_inv_def queue_inv_def owner_inv_def pthread_mutex_init_def owns_def pm_holder_def owning_def)

lemma goto_sel [simp]:
  "mutex (goto t p s) = mutex s" "mtype (goto t p s) = mtype s" "depth (goto t p s) = depth s" "owner_id (goto t p s) = owner_id s"
  "pm_waiters (goto t p s) = pm_waiters s" "pm_bkl (goto t p s) = pm_bkl s" "pcs (goto t p s) = (pcs s)(t := p)" "held (goto t p s) = held s"
  by (simp_all add: goto_def)

lemma mutex_invD:
  assumes "mutex_inv s"
  shows "owns s t \<longleftrightarrow> t \<noteq> 0 \<and> t = pm_holder s" "pcs s t \<noteq> Idle \<or> 0 < held s t \<Longrightarrow> tid_ok t"
    "distinct (pm_waiters s)" "t \<in> set (pm_waiters s) \<longleftrightarrow> pcs s t = Blocked"
    "pm_waiters s \<noteq> [] \<Longrightarrow> bit (mutex s) 0 \<and> pm_holder s \<noteq> 0"
    "pcs s t = Kernel_test \<longleftrightarrow> pm_bkl s = Some t" "pm_bkl s \<noteq> None \<Longrightarrow> bit (mutex s) 0"
    "owner_id s = (if pm_holder s \<noteq> 0 \<and> named (pcs s (pm_holder s)) then pm_holder s else 0)"
    "owns s t \<Longrightarrow> named (pcs s t) \<Longrightarrow> depth s = of_nat (held s t + of_bool (pcs s t = Undeepen))"
    "\<not> named (pcs s t) \<or> pcs s t = Clear_owner \<Longrightarrow> held s t = 0" "pcs s t = Set_owner \<Longrightarrow> depth s = 1"
    "pcs s t = Deepen \<Longrightarrow> 0 < held s t" "held s t < 2 ^ 32"
    "pcs s t \<in> {Lock_try, Lock_check, Trylock_try, Trylock_check, Deepen, Undeepen} \<Longrightarrow> held s t < 2 ^ 32 - 1"
  using assms unfolding mutex_inv_def word_inv_def queue_inv_def owner_inv_def by blast+

text \<open>A step between program counters that agree on ownership and on the fields.\<close>

lemma goto_quiet:
  assumes "mutex_inv s" "owning (pcs s t) \<longleftrightarrow> owning p" "named (pcs s t) \<longleftrightarrow> named p" "pcs s t \<notin> {Blocked, Kernel_test, Undeepen}"
    "p \<notin> {Blocked, Kernel_test, Undeepen, Set_owner}" "tid_ok t" "p \<in> {Clear_owner} \<Longrightarrow> held s t = 0" "p = Deepen \<Longrightarrow> 0 < held s t"
    "p \<in> {Lock_try, Lock_check, Trylock_try, Trylock_check, Deepen} \<Longrightarrow> held s t < 2 ^ 32 - 1"
  shows "mutex_inv (goto t p s)"
proof -
  have o: "owns (goto t p s) u = owns s u" for u using assms(2) by (auto simp: owns_def)
  have n: "named (pcs (goto t p s) u) = named (pcs s u)" for u using assms(3) by simp
  have h: "pm_holder (goto t p s) = pm_holder s" by (simp add: pm_holder_def)
  show ?thesis
    unfolding mutex_inv_def word_inv_def queue_inv_def owner_inv_def o n h
    using mutex_invD [OF assms(1)] assms(4-) by auto
qed

lemma idle_not_owning [simp]: "\<not> owning Idle" "\<not> owning Blocked" "named Idle" "named Blocked" "owning Set_depth" "owning Set_owner"
  "\<not> named Set_depth" "\<not> named Set_owner" "owning Undeepen" "named Undeepen" "owning Test_depth" "named Test_depth"
  "owning Clear_owner" "named Clear_owner" "owning Release" "\<not> named Release" "owning Kernel_unlock" "\<not> named Kernel_unlock"
  "\<not> owning Kernel_test" "named Kernel_test" "\<not> owning Kernel_lock" "named Kernel_lock" "\<not> owning Acquire" "named Acquire"
  "\<not> owning Lock_try" "named Lock_try" "\<not> owning Lock_check" "named Lock_check" "\<not> owning Trylock_try" "named Trylock_try"
  "\<not> owning Trylock_check" "named Trylock_check" "\<not> owning Deepen" "named Deepen"
  by (simp_all add: owning_def named_def)

lemma not_owner:
  assumes "mutex_inv s" "\<not> owns s t"
  shows "held s t = 0" "\<not> owning (pcs s t)" "named (pcs s t)" "pcs s t \<noteq> Set_owner" "pcs s t \<noteq> Deepen" "pcs s t \<noteq> Clear_owner"
proof -
  show "held s t = 0" "\<not> owning (pcs s t)" "named (pcs s t)" "pcs s t \<noteq> Set_owner" "pcs s t \<noteq> Clear_owner"
    using assms(2) by (auto simp: owns_def owning_def named_def)
  then show "pcs s t \<noteq> Deepen" using mutex_invD(12) [OF assms(1), of t] by auto
qed

lemma free_mutex:
  assumes "mutex_inv s" "pm_holder s = 0"
  shows "\<not> owns s t" "pm_waiters s = []" "owner_id s = 0"
  using mutex_invD(1) [OF assms(1), of t] mutex_invD(5,8) [OF assms(1)] assms(2) by auto

lemma owner_only:
  assumes "mutex_inv s" "owns s t"
  shows "pm_holder s = t" "tid_ok t" "t \<noteq> 0" "u \<noteq> t \<Longrightarrow> \<not> owns s u"
proof -
  show h: "pm_holder s = t" using mutex_invD(1) [OF assms(1), of t] assms(2) by simp
  show i: "tid_ok t" using mutex_invD(2) [OF assms(1), of t] assms(2) by (cases "pcs s t = Idle") (auto simp: owns_def)
  show "t \<noteq> 0" using i by (simp add: tid_ok_def)
  show "\<not> owns s u" if "u \<noteq> t" using mutex_invD(1) [OF assms(1), of u] h that by simp
qed

lemma tid_holder: "tid_ok t \<Longrightarrow> unset_bit 0 t = t" "tid_ok t \<Longrightarrow> unset_bit 0 (t + 1) = t" "tid_ok t \<Longrightarrow> bit (t + 1) 0"
  by (simp_all add: tid_ok_def even_plus_1 unset_bit_even bit_set_bit_iff)

lemma take_inv:
  assumes inv: "mutex_inv s" and z: "pm_holder s = 0" and t: "tid_ok t" and b: "pm_bkl s = None \<or> pm_bkl s = Some t"
  shows "mutex_inv (goto t Set_depth (s\<lparr>mutex := t, pm_bkl := None\<rparr>))"
proof -
  let ?s = "goto t Set_depth (s\<lparr>mutex := t, pm_bkl := None\<rparr>)"
  note f = free_mutex [OF inv z] and n = not_owner [OF inv free_mutex(1) [OF inv z]] and d = mutex_invD [OF inv]
  have h: "pm_holder ?s = t" using tid_holder(1) [OF t] by (simp add: pm_holder_def)
  have o: "owns ?s u \<longleftrightarrow> u = t" for u using n(1,2) by (simp add: owns_def)
  have nb: "pcs s u \<noteq> Blocked" for u using d(4) [of u] f(2) by simp
  have nk: "u \<noteq> t \<Longrightarrow> pcs s u \<noteq> Kernel_test" for u using d(6) [of u] b by auto
  have "word_inv ?s" using d(2) t n(1) by (auto simp: word_inv_def o h tid_ok_def)
  moreover have "queue_inv ?s" using nb nk f(2) by (auto simp: queue_inv_def)
  moreover have "owner_inv ?s" using f(3) n by (auto simp: owner_inv_def o h)
  ultimately show ?thesis by (simp add: mutex_inv_def)
qed

text \<open>Steps of the owner that change nothing of the word and the queue.\<close>

lemma owner_step:
  assumes inv: "mutex_inv s" and o: "owns s t" and p: "pcs s t \<notin> {Blocked, Kernel_test}" "p \<notin> {Blocked, Kernel_test}"
    and s': "mutex s' = mutex s" "pm_waiters s' = pm_waiters s" "pm_bkl s' = pm_bkl s" "pcs s' = (pcs s)(t := p)" "held s' = (held s)(t := n)"
    and own: "0 < n \<or> owning p"
    and f: "owner_id s' = (if named p then t else 0)" "named p \<Longrightarrow> depth s' = of_nat (n + of_bool (p = Undeepen))"
      "\<not> named p \<or> p = Clear_owner \<Longrightarrow> n = 0" "p = Set_owner \<Longrightarrow> depth s' = 1" "p = Deepen \<Longrightarrow> 0 < n" "n < 2 ^ 32"
      "p \<in> {Lock_try, Lock_check, Trylock_try, Trylock_check, Deepen, Undeepen} \<Longrightarrow> n < 2 ^ 32 - 1"
  shows "mutex_inv s'"
proof -
  note d = mutex_invD [OF inv] and w = owner_only [OF inv o]
  note x = not_owner [OF inv w(4)]
  have h: "pm_holder s' = t" using w(1) s'(1) by (simp add: pm_holder_def)
  have o': "owns s' u \<longleftrightarrow> u = t" for u using x(1,2) [of u] own by (auto simp: owns_def s')
  have "word_inv s'" using d(2) w(2,3) by (auto simp: word_inv_def o' h s')
  moreover have "queue_inv s'" using d(3-7) p h w(1,3) by (auto simp: queue_inv_def s')
  moreover have "owner_inv s'" unfolding owner_inv_def o' h s' using x f w(3) d(13,14) by simp
  ultimately show ?thesis by (simp add: mutex_inv_def)
qed

lemma release_inv:
  assumes inv: "mutex_inv s" and p: "pcs s t \<in> {Release, Kernel_unlock}" and w: "pm_waiters s = []" and b: "pm_bkl s = None"
  shows "mutex_inv (goto t Idle (s\<lparr>mutex := 0\<rparr>))"
proof -
  let ?s = "goto t Idle (s\<lparr>mutex := 0\<rparr>)"
  have o: "owns s t" using p by (auto simp: owns_def)
  note d = mutex_invD [OF inv] and u = owner_only [OF inv o]
  note x = not_owner [OF inv u(4)]
  have z: "held s v = 0" for v using x(1) [of v] d(10) [of t] p by (cases "v = t") auto
  have o': "\<not> owns ?s v" for v using x(2) [of v] z by (simp add: owns_def)
  have i: "owner_id s = 0" using d(8) u(1) p by auto
  have "word_inv ?s" using d(2) z o' by (auto simp: word_inv_def pm_holder_def)
  moreover have "queue_inv ?s" using d(4,6) w b by (auto simp: queue_inv_def)
  moreover have "owner_inv ?s" unfolding owner_inv_def using z o' x i d(12) by (auto simp: pm_holder_def)
  ultimately show ?thesis by (simp add: mutex_inv_def)
qed

lemma handoff_inv:
  assumes inv: "mutex_inv s" and p: "pcs s t = Kernel_unlock" and w: "pm_waiters s = w # ws" and b: "pm_bkl s = None"
  shows "mutex_inv (goto t Idle (goto w Set_depth (s\<lparr>mutex := w + 1, pm_waiters := ws\<rparr>)))"
proof -
  let ?s = "goto t Idle (goto w Set_depth (s\<lparr>mutex := w + 1, pm_waiters := ws\<rparr>))"
  have o: "owns s t" using p by (auto simp: owns_def)
  note d = mutex_invD [OF inv] and u = owner_only [OF inv o]
  note x = not_owner [OF inv u(4)]
  have z: "held s v = 0" for v using x(1) [of v] d(10) [of t] p by (cases "v = t") auto
  have bw: "pcs s w = Blocked" using d(4) [of w] w by simp
  then have tw: "tid_ok w" "w \<noteq> t" using d(2) [of w] p by auto
  have q: "v \<in> set ws \<longleftrightarrow> v \<noteq> w \<and> pcs s v = Blocked" "distinct ws" for v using d(4) [of v] d(3) w by auto
  have h: "pm_holder ?s = w" using tid_holder(2) [OF tw(1)] by (simp add: pm_holder_def)
  have o': "owns ?s v \<longleftrightarrow> v = w" for v using x(2) [of v] z tw(2) by (simp add: owns_def)
  have i: "owner_id s = 0" using d(8) u(1) p by auto
  have w0: "w \<noteq> 0" using tw(1) by (simp add: tid_ok_def)
  have k: "pcs s v \<noteq> Kernel_test" for v using d(6) [of v] b by simp
  have "word_inv ?s" using d(2) z tw w0 by (auto simp: word_inv_def o' h)
  moreover have "queue_inv ?s" unfolding queue_inv_def h using q tid_holder(3) [OF tw(1)] w0 p tw(2) b k by simp
  moreover have "owner_inv ?s" unfolding owner_inv_def o' h using z x i tw(2) by simp
  ultimately show ?thesis by (simp add: mutex_inv_def)
qed

text \<open>Entering the kernel, queueing and leaving the queue change only who waits.\<close>

lemma waiting_inv:
  assumes inv: "mutex_inv s" and p: "\<not> owning (pcs s t)" "named (pcs s t)" "\<not> owning p" "named p" "p \<notin> {Deepen, Clear_owner}"
      "p \<notin> {Lock_try, Lock_check, Trylock_try, Trylock_check}" "tid_ok t"
    and s': "depth s' = depth s" "owner_id s' = owner_id s" "pcs s' = (pcs s)(t := p)" "held s' = held s" "unset_bit 0 (mutex s') = unset_bit 0 (mutex s)"
    and q: "queue_inv s'"
  shows "mutex_inv s'"
proof -
  note d = mutex_invD [OF inv]
  have h: "pm_holder s' = pm_holder s" by (simp add: pm_holder_def s')
  have o: "owns s' u = owns s u" for u using p(1,3) by (simp add: owns_def s')
  have ne: "pcs s t \<noteq> Undeepen" "p \<noteq> Undeepen" "p \<noteq> Set_owner" using p by auto
  have "word_inv s'" unfolding word_inv_def o h s' using d(1,2) p(7) by simp
  moreover have "owner_inv s'" unfolding owner_inv_def o h s' using d(8-14) p ne by auto
  ultimately show ?thesis using q by (simp add: mutex_inv_def)
qed

lemma enter_inv:
  assumes inv: "mutex_inv s" and p: "pcs s t = Kernel_lock" and b: "pm_bkl s = None"
  shows "mutex_inv (goto t Kernel_test (s\<lparr>pm_bkl := Some t, mutex := set_bit 0 (mutex s)\<rparr>))" (is "mutex_inv ?s")
proof (rule waiting_inv [OF inv, of t Kernel_test])
  note d = mutex_invD [OF inv]
  show "tid_ok t" using d(2) [of t] p by simp
  have k: "pcs s v \<noteq> Kernel_test" for v using d(6) [of v] b by simp
  show "queue_inv ?s" using d(3-5) k p by (auto simp: queue_inv_def bit_set_bit_iff pm_holder_def)
qed (simp_all add: p)

lemma enqueue_inv:
  assumes inv: "mutex_inv s" and p: "pcs s t = Kernel_test" and m: "mutex s \<noteq> 1"
  shows "mutex_inv (goto t Blocked (s\<lparr>pm_bkl := None, pm_waiters := take i (pm_waiters s) @ t # drop i (pm_waiters s)\<rparr>))" (is "mutex_inv ?s")
proof (rule waiting_inv [OF inv, of t Blocked])
  note d = mutex_invD [OF inv]
  show "tid_ok t" using d(2) [of t] p by simp
  have b: "pm_bkl s = Some t" "bit (mutex s) 0" using d(6) [of t] d(7) p by auto
  have k: "v \<noteq> t \<Longrightarrow> pcs s v \<noteq> Kernel_test" for v using d(6) [of v] b by auto
  have n: "t \<notin> set (pm_waiters s)" using d(4) [of t] p by simp
  have q: "set (take i (pm_waiters s) @ t # drop i (pm_waiters s)) = insert t (set (pm_waiters s))"
    using set_append [of "take i (pm_waiters s)" "drop i (pm_waiters s)"] by auto
  have dist: "distinct (take i (pm_waiters s) @ t # drop i (pm_waiters s))"
    using d(3) n distinct_append [of "take i (pm_waiters s)" "drop i (pm_waiters s)"] by (auto dest: in_set_takeD in_set_dropD)
  have "pm_holder s \<noteq> 0"
  proof
    assume "pm_holder s = 0"
    then show False using set_unset_bit [OF b(2)] m by (simp add: pm_holder_def set_bit_eq_or)
  qed
  then show "queue_inv ?s" unfolding queue_inv_def using q dist d(4) k b by (auto simp: pm_holder_def)
qed (simp_all add: p)

lemma cancel_inv:
  assumes inv: "mutex_inv s" and p: "pcs s t = Blocked"
  shows "mutex_inv (goto t Acquire (s\<lparr>pm_waiters := remove1 t (pm_waiters s)\<rparr>))" (is "mutex_inv ?s")
proof (rule waiting_inv [OF inv, of t Acquire])
  note d = mutex_invD [OF inv]
  show "tid_ok t" using d(2) [of t] p by simp
  have "pm_waiters s \<noteq> []" using d(4) [of t] p by auto
  moreover have "pm_bkl s \<noteq> Some t" using d(6) [of t] p by simp
  ultimately show "queue_inv ?s" using d(3-7) p by (auto simp: queue_inv_def pm_holder_def)
qed (simp_all add: p)

lemmas mutex_steps = pthread_mutex_lock_def pthread_mutex_trylock_def pthread_mutex_unlock_def pthread_plainmutex_trylock_id_np_def
  pthread_plainmutex_lock_id_np_def pthread_plainmutex_unlock_id_np_def H2K_futex_lock_pi_enter_def H2K_futex_lock_pi_test_def
  H2K_futex_unlock_pi_word_def Let_def

lemma user_take:
  assumes inv: "mutex_inv s" and z: "mutex s = 0" and p: "pcs s t \<noteq> Idle"
  shows "mutex_inv (goto t Set_depth (s\<lparr>mutex := t\<rparr>))"
proof -
  have b: "pm_bkl s = None" using mutex_invD(7) [OF inv] z by (cases "pm_bkl s") auto
  then have "s\<lparr>mutex := t\<rparr> = s\<lparr>mutex := t, pm_bkl := None\<rparr>" by (cases s) simp
  moreover have "mutex_inv (goto t Set_depth (s\<lparr>mutex := t, pm_bkl := None\<rparr>))"
    using take_inv [OF inv _ _ disjI1, of t] mutex_invD(2) [OF inv, of t] z p b by (simp add: pm_holder_def)
  ultimately show ?thesis by (simp only:)
qed

lemma lock_inv:
  assumes inv: "mutex_inv s" and st: "pthread_mutex_lock t fail i s = Some s'"
  shows "mutex_inv s'"
proof -
  note d = mutex_invD [OF inv]
  have t: "tid_ok t" if "pcs s t \<noteq> Idle" using d(2) [of t] that by blast
  have q: "mutex_inv (goto t p s)" if "pcs s t \<in> {Lock_try, Lock_check, Acquire, Kernel_lock}" "p \<in> {Lock_check, Acquire, Kernel_lock}"
      "pcs s t \<in> {Acquire, Kernel_lock} \<longrightarrow> p \<noteq> Lock_check" for p
    by (rule goto_quiet [OF inv]) (use that t d(14) [of t] in auto)
  show ?thesis
  proof (cases "pcs s t")
    case Lock_try
    then show ?thesis using st q [of Lock_check] user_take [OF inv, of t] by (auto simp: mutex_steps split: if_splits)
  next
    case Lock_check
    have "mutex_inv (goto t Deepen s)" if "owner_id s = t"
    proof (rule goto_quiet [OF inv])
      have "owns s t" using d(1) [of t] d(8) t that Lock_check by (auto simp: tid_ok_def split: if_splits)
      then show "0 < held s t" using Lock_check by (simp add: owns_def)
    qed (use Lock_check t d(14) [of t] in auto)
    then show ?thesis using Lock_check st q [of Acquire] by (auto simp: mutex_steps split: if_splits)
  next
    case Deepen
    then have o: "owns s t" "0 < held s t" "held s t < 2 ^ 32 - 1" using d(12,14) [of t] by (auto simp: owns_def)
    have "mutex_inv (locked t (s\<lparr>depth := depth s + 1\<rparr>))"
      by (rule owner_step [OF inv o(1), of Idle _ "held s t + 1"])
        (use Deepen o d(8) d(9) [OF o(1)] owner_only(1,3) [OF inv o(1)] in \<open>auto simp: locked_def\<close>)
    then show ?thesis using Deepen st by (simp add: mutex_steps)
  next
    case Set_depth
    then have o: "owns s t" by (simp add: owns_def)
    have "mutex_inv (goto t Set_owner (s\<lparr>depth := 1\<rparr>))"
      by (rule owner_step [OF inv o, of Set_owner _ "held s t"])
        (use Set_depth d(8) d(10) [of t] owner_only(1) [OF inv o] in auto)
    then show ?thesis using Set_depth st by (simp add: mutex_steps)
  next
    case Set_owner
    then have o: "owns s t" by (simp add: owns_def)
    have "mutex_inv (locked t (s\<lparr>owner_id := t\<rparr>))"
      by (rule owner_step [OF inv o, of Idle _ "held s t + 1"])
        (use Set_owner d(10) [of t] d(11) [of t] in \<open>auto simp: locked_def\<close>)
    then show ?thesis using Set_owner st by (simp add: mutex_steps)
  next
    case Acquire
    then show ?thesis using st q [of Kernel_lock] user_take [OF inv, of t] by (auto simp: mutex_steps split: if_splits)
  next
    case Kernel_lock
    then show ?thesis using st q [of Acquire] enter_inv [OF inv] by (auto simp: mutex_steps split: if_splits)
  next
    case Kernel_test
    then have "pm_bkl s = Some t" using d(6) [of t] by simp
    then have "mutex_inv (goto t Set_depth (s\<lparr>mutex := t, pm_bkl := None\<rparr>))" if "mutex s = 1"
      using take_inv [OF inv, of t] t Kernel_test that by (simp add: pm_holder_def unset_bit_eq_and_not)
    then show ?thesis using Kernel_test st enqueue_inv [OF inv Kernel_test, of i] by (auto simp: mutex_steps split: if_splits)
  qed (use st in \<open>simp_all add: mutex_steps\<close>)
qed

lemma trylock_inv:
  assumes inv: "mutex_inv s" and st: "pthread_mutex_trylock t s = Some s'"
  shows "mutex_inv s'"
proof -
  note d = mutex_invD [OF inv]
  show ?thesis
  proof (cases "pcs s t")
    case Trylock_try
    have "mutex_inv (goto t Trylock_check s)" by (rule goto_quiet [OF inv]) (use Trylock_try d(2,14) [of t] in auto)
    then show ?thesis using Trylock_try st user_take [OF inv, of t] by (auto simp: mutex_steps split: if_splits)
  next
    case Trylock_check
    have "mutex_inv (goto t Idle s)" by (rule goto_quiet [OF inv]) (use Trylock_check d(2,14) [of t] in auto)
    moreover have "mutex_inv (goto t Deepen s)" if "owner_id s = t"
    proof (rule goto_quiet [OF inv])
      have "owns s t" using d(1) [of t] d(8) d(2) [of t] that Trylock_check by (auto simp: tid_ok_def split: if_splits)
      then show "0 < held s t" using Trylock_check by (simp add: owns_def)
    qed (use Trylock_check d(2,14) [of t] in auto)
    ultimately show ?thesis using Trylock_check st by (auto simp: mutex_steps split: if_splits)
  qed (use st in \<open>simp_all add: mutex_steps\<close>)
qed

lemma unlock_inv:
  assumes inv: "mutex_inv s" and st: "pthread_mutex_unlock t fail s = Some s'"
  shows "mutex_inv s'"
proof -
  note d = mutex_invD [OF inv]
  show ?thesis
  proof (cases "pcs s t")
    case Undeepen
    then have o: "owns s t" by (simp add: owns_def)
    have "mutex_inv (goto t Test_depth (s\<lparr>depth := depth s - 1\<rparr>))"
      by (rule owner_step [OF inv o, of Test_depth _ "held s t"])
        (use Undeepen d(8) d(9) [OF o] d(13) [of t] owner_only(1,3) [OF inv o] in auto)
    then show ?thesis using Undeepen st by (simp add: mutex_steps)
  next
    case Test_depth
    then have o: "owns s t" by (simp add: owns_def)
    have "(of_nat (held s t) :: u32) = 0 \<longleftrightarrow> held s t = 0" using d(13) [of t] by (auto simp: word_of_nat_eq_0_iff dest: dvd_imp_le)
    then have z: "depth s = 0 \<longleftrightarrow> held s t = 0" using d(9) [OF o] Test_depth by simp
    have "mutex_inv (goto t p s)" if "p = (if depth s = 0 then Clear_owner else Idle)" for p
      by (rule owner_step [OF inv o, of p _ "held s t"])
        (use Test_depth d(8) d(9) [OF o] d(13) [of t] owner_only(1,3) [OF inv o] z that in auto)
    then show ?thesis using Test_depth st by (auto simp: mutex_steps)
  next
    case Clear_owner
    then have o: "owns s t" by (simp add: owns_def)
    have "mutex_inv (goto t Release (s\<lparr>owner_id := 0\<rparr>))"
      by (rule owner_step [OF inv o, of Release _ "held s t"]) (use Clear_owner d(10) [of t] in auto)
    then show ?thesis using Clear_owner st by (simp add: mutex_steps)
  next
    case Release
    then have o: "owns s t" by (simp add: owns_def)
    have "mutex_inv (goto t Kernel_unlock s)"
      by (rule owner_step [OF inv o, of Kernel_unlock _ "held s t"]) (use Release d(8) d(10) [of t] owner_only(1) [OF inv o] in auto)
    moreover have "mutex_inv (goto t Idle (s\<lparr>mutex := 0\<rparr>))" if "mutex s = t"
    proof (rule release_inv [OF inv])
      have "\<not> bit (mutex s) 0" using that owner_only(2) [OF inv o] by (simp add: tid_ok_def)
      then show "pm_waiters s = []" "pm_bkl s = None" using d(5,7) by blast+
    qed (use Release in simp)
    ultimately show ?thesis using Release st by (auto simp: mutex_steps split: if_splits)
  next
    case Kernel_unlock
    then have o: "owns s t" by (simp add: owns_def)
    have "mutex_inv (goto t Release s)"
      by (rule owner_step [OF inv o, of Release _ "held s t"]) (use Kernel_unlock d(8) d(10) [of t] owner_only(1) [OF inv o] in auto)
    then show ?thesis using Kernel_unlock st release_inv [OF inv] handoff_inv [OF inv Kernel_unlock]
      by (auto simp: mutex_steps split: if_splits list.splits)
  qed (use st in \<open>simp_all add: mutex_steps\<close>)
qed

lemma call_inv:
  assumes inv: "mutex_inv s" and p: "pcs s t = Idle"
  shows "tid_ok t \<Longrightarrow> held s t < 2 ^ 32 - 1 \<Longrightarrow> mutex_inv (goto t Lock_try s)"
    "tid_ok t \<Longrightarrow> held s t < 2 ^ 32 - 1 \<Longrightarrow> mutex_inv (goto t Trylock_try s)"
    "0 < held s t \<Longrightarrow> mutex_inv (goto t Undeepen (s\<lparr>held := (held s)(t := held s t - 1)\<rparr>))"
proof -
  note d = mutex_invD [OF inv]
  show "tid_ok t \<Longrightarrow> held s t < 2 ^ 32 - 1 \<Longrightarrow> mutex_inv (goto t Lock_try s)"
    "tid_ok t \<Longrightarrow> held s t < 2 ^ 32 - 1 \<Longrightarrow> mutex_inv (goto t Trylock_try s)"
    by (rule goto_quiet [OF inv]; use p in auto)+
  assume h: "0 < held s t"
  then have o: "owns s t" by (simp add: owns_def)
  show "mutex_inv (goto t Undeepen (s\<lparr>held := (held s)(t := held s t - 1)\<rparr>))"
    by (rule owner_step [OF inv o, of Undeepen _ "held s t - 1"]) (use p h d(8) d(9) [OF o] d(13) [of t] owner_only(1,3) [OF inv o] in auto)
qed

lemma mstep_inv: "mstep s s' \<Longrightarrow> mutex_inv s \<Longrightarrow> mutex_inv s'"
proof (induction rule: mstep.induct)
  case (call_lock t s)
  then show ?case using call_inv(1) by blast
next
  case (call_trylock t s)
  then show ?case using call_inv(2) by blast
next
  case (call_unlock s t)
  then show ?case using call_inv(3) by blast
qed (blast intro: lock_inv trylock_inv unlock_inv cancel_inv)+

lemma reachable_mutex_inv: "mstep\<^sup>*\<^sup>* (pthread_mutex_init attr) s \<Longrightarrow> mutex_inv s"
  by (induction rule: rtranclp_induct) (auto intro: init_inv mstep_inv)

section \<open>Properties\<close>

text \<open>
  C16: In every state any number of threads reach by locking, trying and unlocking a mutex, at most
  one thread has it; the word names that thread, and between its calls the depth is the number of
  times it has locked the mutex. A thread that finds the mutex taken sees itself as the owner
  exactly if it has it, so neither does a thread deepen the lock of another nor does the owner of a
  recursive mutex wait for itself.
\<close>

theorem mutex_exclusive:
  assumes "mstep\<^sup>*\<^sup>* (pthread_mutex_init attr) s"
  shows "(\<forall>t u. 0 < held s t \<longrightarrow> 0 < held s u \<longrightarrow> t = u) \<and>
    (\<forall>t. 0 < held s t \<longrightarrow> unset_bit 0 (mutex s) = t \<and> (pcs s t = Idle \<longrightarrow> owner_id s = t \<and> depth s = of_nat (held s t))) \<and>
    (\<forall>t. pcs s t \<in> {Lock_check, Trylock_check} \<longrightarrow> (owner_id s = t \<longleftrightarrow> 0 < held s t))"
proof (intro conjI allI impI)
  have inv: "mutex_inv s" using assms by (rule reachable_mutex_inv)
  note d = mutex_invD [OF inv]
  have o: "pm_holder s = t \<and> t \<noteq> 0" if "0 < held s t" for t using d(1) [of t] that by (auto simp: owns_def)
  show "t = u" if "0 < held s t" "0 < held s u" for t u using o [OF that(1)] o [OF that(2)] by simp
  show "unset_bit 0 (mutex s) = t" if "0 < held s t" for t using o [OF that] by (simp add: pm_holder_def)
  show "owner_id s = t" if "0 < held s t" "pcs s t = Idle" for t using d(8) o [OF that(1)] that(2) by simp
  show "depth s = of_nat (held s t)" if "0 < held s t" "pcs s t = Idle" for t using d(9) [of t] that by (simp add: owns_def)
  show "owner_id s = t \<longleftrightarrow> 0 < held s t" if "pcs s t \<in> {Lock_check, Trylock_check}" for t
    using d(1) [of t] d(2) [of t] d(8) that by (auto simp: owns_def tid_ok_def)
qed

text \<open>
  C17: No wakeup is lost: whenever threads are blocked on the mutex, some thread owns it, the word
  has bit 0 set, so that the owner's unlock goes to the kernel, and the kernel hands the mutex to
  the first of them, leaving the others queued.
\<close>

theorem mutex_handed_over:
  assumes "mstep\<^sup>*\<^sup>* (pthread_mutex_init attr) s" and w: "pm_waiters s = w # ws"
  shows "\<exists>t. owns s t \<and> bit (mutex s) 0 \<and>
    (pcs s t = Release \<longrightarrow> pthread_mutex_unlock t fail s = Some (goto t Kernel_unlock s)) \<and>
    (pcs s t = Kernel_unlock \<longrightarrow> pm_bkl s = None \<longrightarrow>
      (\<exists>s'. pthread_mutex_unlock t False s = Some s' \<and> mstep s s' \<and> owns s' w \<and> pcs s' w = Set_depth \<and> pcs s' t = Idle \<and> pm_waiters s' = ws))"
proof -
  have inv: "mutex_inv s" using assms(1) by (rule reachable_mutex_inv)
  note d = mutex_invD [OF inv]
  have m: "bit (mutex s) 0" "pm_holder s \<noteq> 0" using d(5) w by auto
  then have o: "owns s (pm_holder s)" using d(1) [of "pm_holder s"] by simp
  let ?t = "pm_holder s"
  have "mutex s \<noteq> ?t" using m(1) owner_only(2) [OF inv o] by (auto simp: tid_ok_def)
  then have r: "pthread_mutex_unlock ?t fail s = Some (goto ?t Kernel_unlock s)" if "pcs s ?t = Release" using that by (simp add: mutex_steps)
  have b: "pcs s w = Blocked" using d(4) [of w] w by simp
  have "pthread_mutex_unlock ?t False s = Some (goto ?t Idle (goto w Set_depth (s\<lparr>mutex := w + 1, pm_waiters := ws\<rparr>)))"
    if "pcs s ?t = Kernel_unlock" "pm_bkl s = None" using that w by (simp add: mutex_steps)
  then show ?thesis using o m r b by (intro exI [of _ ?t]) (auto intro: mstep.unlock_step simp: owns_def)
qed

section \<open>An example\<close>

text \<open>Two threads: one locks, the other blocks, the first unlocks.\<close>

definition turn :: "u32 \<Rightarrow> pthread_mutex_t \<Rightarrow> pthread_mutex_t" where
  "turn t s = (case pthread_mutex_lock t False 0 s of Some s' \<Rightarrow> s' | None \<Rightarrow>
     case pthread_mutex_unlock t False s of Some s' \<Rightarrow> s' | None \<Rightarrow> s)"

lemma turn_reach: "mstep\<^sup>*\<^sup>* s0 s \<Longrightarrow> mstep\<^sup>*\<^sup>* s0 (turn t s)"
  by (auto simp: turn_def split: option.splits intro: mstep.intros rtranclp.rtrancl_into_rtrancl)

definition taken_once :: pthread_mutex_t where
  "taken_once = turn 0x400 (turn 0x400 (turn 0x400 (goto 0x400 Lock_try (pthread_mutex_init None))))"

definition contended :: pthread_mutex_t where
  "contended = turn 0x800 (turn 0x800 (turn 0x800 (turn 0x800 (turn 0x800 (goto 0x800 Lock_try taken_once)))))"

definition unlocking :: pthread_mutex_t where
  "unlocking = turn 0x400 (turn 0x400 (turn 0x400 (turn 0x400
     (goto 0x400 Undeepen (contended\<lparr>held := (held contended)(0x400 := held contended 0x400 - 1)\<rparr>)))))"

lemma taken_once_state:
  "taken_once = \<lparr>mutex = 0x400, mtype = 0, depth = 1, owner_id = 0x400, pm_waiters = [], pm_bkl = None, pcs = (\<lambda>_. Idle), held = (\<lambda>_. 0)(0x400 := 1)\<rparr>"
  by (simp add: taken_once_def turn_def mutex_steps goto_def locked_def pthread_mutex_init_def PTHREAD_MUTEX_NORMAL_def fun_eq_iff)

lemma contended_state:
  "contended = \<lparr>mutex = 0x401, mtype = 0, depth = 1, owner_id = 0x400, pm_waiters = [0x800], pm_bkl = None,
     pcs = (\<lambda>_. Idle)(0x800 := Blocked), held = (\<lambda>_. 0)(0x400 := 1)\<rparr>"
  by (simp add: contended_def taken_once_state turn_def mutex_steps goto_def PTHREAD_MUTEX_RECURSIVE_def set_bit_eq_or)

lemma unlocking_state:
  "unlocking = \<lparr>mutex = 0x401, mtype = 0, depth = 0, owner_id = 0, pm_waiters = [0x800], pm_bkl = None,
     pcs = (\<lambda>_. Idle)(0x800 := Blocked, 0x400 := Kernel_unlock), held = \<lambda>_. 0\<rparr>"
  by (simp add: unlocking_def contended_state turn_def mutex_steps goto_def fun_eq_iff)

lemma example_reach:
  "mstep\<^sup>*\<^sup>* (pthread_mutex_init None) taken_once" "mstep\<^sup>*\<^sup>* (pthread_mutex_init None) unlocking"
proof -
  have "mstep (pthread_mutex_init None) (goto 0x400 Lock_try (pthread_mutex_init None))"
    by (rule mstep.call_lock) (simp_all add: tid_ok_def pthread_mutex_init_def)
  then show t: "mstep\<^sup>*\<^sup>* (pthread_mutex_init None) taken_once" unfolding taken_once_def by (intro turn_reach r_into_rtranclp)
  have "mstep taken_once (goto 0x800 Lock_try taken_once)" by (rule mstep.call_lock) (simp_all add: tid_ok_def taken_once_state)
  then have c: "mstep\<^sup>*\<^sup>* (pthread_mutex_init None) contended"
    unfolding contended_def by (intro turn_reach rtranclp.rtrancl_into_rtrancl [OF t])
  have "mstep contended (goto 0x400 Undeepen (contended\<lparr>held := (held contended)(0x400 := held contended 0x400 - 1)\<rparr>))"
    by (rule mstep.call_unlock) (simp_all add: contended_state)
  then show "mstep\<^sup>*\<^sup>* (pthread_mutex_init None) unlocking"
    unfolding unlocking_def by (intro turn_reach rtranclp.rtrancl_into_rtrancl [OF c])
qed

theorem mutex_exclusive_witness: "0 < held taken_once 0x400 \<and> unset_bit 0 (mutex taken_once) = 0x400 \<and> owner_id taken_once = 0x400 \<and> depth taken_once = 1"
  using mutex_exclusive [OF example_reach(1)] by (simp add: taken_once_state)

theorem mutex_handed_over_witness:
  "\<exists>s'. mstep unlocking s' \<and> owns s' 0x800 \<and> pcs s' 0x800 = Set_depth \<and> pm_waiters s' = []"
proof -
  have h: "pm_waiters unlocking = 0x800 # []" "pm_bkl unlocking = None" by (simp_all add: unlocking_state)
  have o: "t = 0x400" if "owns unlocking t" for t using that by (auto simp: owns_def unlocking_state owning_def split: if_splits)
  have p: "pcs unlocking 0x400 = Kernel_unlock" by (simp add: unlocking_state)
  obtain t where t: "owns unlocking t" "pcs unlocking t = Kernel_unlock \<longrightarrow> pm_bkl unlocking = None \<longrightarrow>
      (\<exists>s'. pthread_mutex_unlock t False unlocking = Some s' \<and> mstep unlocking s' \<and> owns s' 0x800 \<and> pcs s' 0x800 = Set_depth \<and> pcs s' t = Idle \<and> pm_waiters s' = [])"
    using mutex_handed_over [OF example_reach(2) h(1)] by blast
  then show ?thesis using o [OF t(1)] p h(2) by blast
qed

end
