(* ===== verification/Pipe.thy ===== *)
theory Pipe
  imports H2K_Prelude
begin

text \<open>
  The message pipes of guest programs, \<^verbatim>\<open>libs/h2_compat/pipe/h2_pipe.ref.c\<close>: a circular buffer
  with two counting semaphores, one mutex for the senders and none for the receivers, who advance
  the index with a load-locked/store-conditional sequence. Any number of senders and receivers run
  concurrently; a step is one access to shared memory, one operation on the mutex or one atomic
  update of a semaphore word (\<^verbatim>\<open>libs/posix/pthread/sem\<close>).

  The pipe refines a bounded queue: a message enters it when it is written into the buffer and
  leaves it when the store-conditional of a receiver succeeds.
\<close>

section \<open>Semaphores\<close>

text \<open>
  The word of a semaphore holds its value and the number of waiting threads
  (\<^verbatim>\<open>libs/posix/pthread/sem/pthread_sem.h\<close>). Waiting takes the value at once if it is not \<open>0\<close>;
  otherwise the thread announces itself and repeats, after each return from the kernel, to take
  value and announcement together.
\<close>

record pthread_sem_t =
  sem_val :: u16
  n_waiting :: u16

definition PTHREAD_SEM_VALUE_MAX_NP :: u32 where "PTHREAD_SEM_VALUE_MAX_NP = 0x7fff"

definition pthread_sem_init_np :: "u32 \<Rightarrow> pthread_sem_t" where
  "pthread_sem_init_np v = \<lparr>sem_val = ucast (if v > PTHREAD_SEM_VALUE_MAX_NP then PTHREAD_SEM_VALUE_MAX_NP else v), n_waiting = 0\<rparr>"

definition pthread_sem_trywait_np :: "pthread_sem_t \<Rightarrow> pthread_sem_t option" where
  "pthread_sem_trywait_np m = (if sem_val m = 0 then None else Some (m\<lparr>sem_val := sem_val m - 1\<rparr>))"

definition sem_announce :: "pthread_sem_t \<Rightarrow> pthread_sem_t" where
  "sem_announce m = m\<lparr>n_waiting := n_waiting m + 1\<rparr>"

definition sem_retake :: "pthread_sem_t \<Rightarrow> pthread_sem_t option" where
  "sem_retake m = (if sem_val m = 0 then None
     else Some \<lparr>sem_val = sem_val m - 1, n_waiting = (if n_waiting m = 0 then 0 else n_waiting m - 1)\<rparr>)"

definition pthread_sem_add_np :: "u16 \<Rightarrow> pthread_sem_t \<Rightarrow> pthread_sem_t option" where
  "pthread_sem_add_np amount m = (if sem_val m > 0x7fff - amount then None else Some (m\<lparr>sem_val := sem_val m + amount\<rparr>))"

text \<open>The value is all that the callers see of a semaphore.\<close>

abbreviation sval :: "pthread_sem_t \<Rightarrow> nat" where "sval m \<equiv> unat (sem_val m)"

lemma unat_pred16: "(x :: u16) \<noteq> 0 \<Longrightarrow> unat x = unat (x - 1) + 1"
  using unat_gt_0 [of x] by (simp add: unat_minus_one)

lemma sem_init_val: "sval (pthread_sem_init_np v) = min (unat v) 0x7fff"
  by (auto simp: pthread_sem_init_np_def PTHREAD_SEM_VALUE_MAX_NP_def unsigned_ucast_eq take_bit_nat_eq_self word_less_nat_alt min_def)

lemma sem_takes:
  "pthread_sem_trywait_np m = Some m' \<Longrightarrow> sval m = sval m' + 1" "sem_retake m = Some m' \<Longrightarrow> sval m = sval m' + 1" "sval (sem_announce m) = sval m"
  by (auto simp: pthread_sem_trywait_np_def sem_retake_def sem_announce_def split: if_splits dest!: unat_pred16)

lemma sem_up:
  assumes "sval m < 0x7fff"
  shows "\<exists>m'. pthread_sem_add_np 1 m = Some m' \<and> sval m' = sval m + 1"
proof -
  have "unat (sem_val m + 1) = unat (sem_val m) + 1" using unat_suc [of "sem_val m" "0x7fff"] assms by simp
  moreover have "\<not> sem_val m > 0x7fff - 1" using assms by (simp add: word_less_nat_alt)
  ultimately show ?thesis by (simp add: pthread_sem_add_np_def)
qed

section \<open>Pipes\<close>

datatype pipe_ret = Start | Sent | Refused | Got u64

datatype pipe_pc = Returned pipe_ret
  | Send_down u64 | Send_wait u64 | Send_lock u64 | Send_idx u64 | Send_adv u64 u32 | Send_put u64 u32 | Send_unlock | Send_up
  | Try_lock u64 | Try_down u64 | Try_fail
  | Recv_down | Recv_wait | Recv_ll | Recv_read u32 | Recv_sc u32 u64 | Recv_up u64 | Tryrecv_down

text \<open>
  The fields of \<open>h2_pipe_t\<close>, the program counters of the threads, which of them have a load-locked
  reservation on the index of the receivers, and, for the specification only, the messages written
  and read so far.
\<close>

record h2_pipe_t =
  howfull :: pthread_sem_t
  howempty :: pthread_sem_t
  sendidx :: u32
  recvidx :: u32
  psize :: u32
  sendmutex :: "nat option"
  pdata :: "nat \<Rightarrow> u64"
  ppc :: "pipe_pc list"
  linked :: "nat \<Rightarrow> bool"
  sent :: "u64 list"
  received :: "u64 list"

text \<open>
  Creating a pipe: \<open>data\<close> is the buffer of the caller or what \<open>h2_malloc\<close> returned (\<open>None\<close> for
  \<open>NULL\<close>), \<open>n\<close> the number of threads that will use it. \<open>h2_pipe_alloc\<close> computes the size from a
  number of bytes; the structure has 48 of them.
\<close>

definition h2_pipe_create :: "nat \<Rightarrow> (nat \<Rightarrow> u64) option \<Rightarrow> u32 \<Rightarrow> h2_pipe_t option" where
  "h2_pipe_create n data data_elements =
     (if data_elements = 0 \<or> bit data_elements 31 then None
      else case data of None \<Rightarrow> None
      | Some d \<Rightarrow> Some \<lparr>howfull = pthread_sem_init_np 0, howempty = pthread_sem_init_np data_elements, sendidx = 0, recvidx = 0,
          psize = data_elements, sendmutex = None, pdata = d, ppc = replicate n (Returned Start), linked = (\<lambda>_. False), sent = [], received = []\<rparr>)"

definition SIZEOF_PIPE :: u32 where "SIZEOF_PIPE = 48"

definition h2_pipe_alloc :: "nat \<Rightarrow> bool \<Rightarrow> (nat \<Rightarrow> u64) option \<Rightarrow> u32 \<Rightarrow> h2_pipe_t option" where
  "h2_pipe_alloc n ret data sz =
     (let datasize = (sz AND - 8) - SIZEOF_PIPE
      in if SIZEOF_PIPE + 8 > sz \<or> \<not> ret then None
         else case data of None \<Rightarrow> None
         | Some d \<Rightarrow> Some \<lparr>howfull = pthread_sem_init_np 0, howempty = pthread_sem_init_np (datasize div 8), sendidx = 0, recvidx = 0,
             psize = datasize div 8, sendmutex = None, pdata = d, ppc = replicate n (Returned Start), linked = (\<lambda>_. False), sent = [], received = []\<rparr>)"

definition at_pc :: "nat \<Rightarrow> pipe_pc \<Rightarrow> h2_pipe_t \<Rightarrow> h2_pipe_t" where
  "at_pc t p s = s\<lparr>ppc := (ppc s)[t := p]\<rparr>"

text \<open>\<open>h2_sem_up\<close> whose result the caller ignores.\<close>

definition h2_sem_up :: "pthread_sem_t \<Rightarrow> pthread_sem_t" where
  "h2_sem_up m = (case pthread_sem_add_np 1 m of Some m' \<Rightarrow> m' | None \<Rightarrow> m)"

definition h2_pipe_send :: "nat \<Rightarrow> h2_pipe_t \<Rightarrow> h2_pipe_t option" where
  "h2_pipe_send t s =
     (case ppc s ! t of
        Send_down d \<Rightarrow> Some (case pthread_sem_trywait_np (howempty s) of
            Some m \<Rightarrow> at_pc t (Send_lock d) (s\<lparr>howempty := m\<rparr>)
          | None \<Rightarrow> at_pc t (Send_wait d) (s\<lparr>howempty := sem_announce (howempty s)\<rparr>))
      | Send_wait d \<Rightarrow> map_option (\<lambda>m. at_pc t (Send_lock d) (s\<lparr>howempty := m\<rparr>)) (sem_retake (howempty s))
      | Send_lock d \<Rightarrow> if sendmutex s = None then Some (at_pc t (Send_idx d) (s\<lparr>sendmutex := Some t\<rparr>)) else None
      | Send_idx d \<Rightarrow> Some (at_pc t (Send_adv d (sendidx s)) s)
      | Send_adv d oldidx \<Rightarrow> Some (at_pc t (Send_put d oldidx) (s\<lparr>sendidx := if oldidx = psize s - 1 then 0 else oldidx + 1\<rparr>))
      | Send_put d oldidx \<Rightarrow> Some (at_pc t Send_unlock (s\<lparr>pdata := (pdata s)(unat oldidx := d), sent := sent s @ [d]\<rparr>))
      | Send_unlock \<Rightarrow> Some (at_pc t Send_up (s\<lparr>sendmutex := None\<rparr>))
      | Send_up \<Rightarrow> Some (at_pc t (Returned Sent) (s\<lparr>howfull := h2_sem_up (howfull s)\<rparr>))
      | _ \<Rightarrow> None)"

definition h2_pipe_trysend :: "nat \<Rightarrow> h2_pipe_t \<Rightarrow> h2_pipe_t option" where
  "h2_pipe_trysend t s =
     (case ppc s ! t of
        Try_lock d \<Rightarrow> Some (if sendmutex s = None then at_pc t (Try_down d) (s\<lparr>sendmutex := Some t\<rparr>) else at_pc t (Returned Refused) s)
      | Try_down d \<Rightarrow> Some (case pthread_sem_trywait_np (howempty s) of
            Some m \<Rightarrow> at_pc t (Send_idx d) (s\<lparr>howempty := m\<rparr>)
          | None \<Rightarrow> at_pc t Try_fail s)
      | Try_fail \<Rightarrow> Some (at_pc t (Returned Refused) (s\<lparr>sendmutex := None\<rparr>))
      | _ \<Rightarrow> h2_pipe_send t s)"

definition get_recv_data :: "nat \<Rightarrow> h2_pipe_t \<Rightarrow> h2_pipe_t option" where
  "get_recv_data t s =
     (case ppc s ! t of
        Recv_ll \<Rightarrow> Some (at_pc t (Recv_read (recvidx s)) (s\<lparr>linked := (linked s)(t := True)\<rparr>))
      | Recv_read i \<Rightarrow> Some (at_pc t (Recv_sc i (pdata s (unat i))) s)
      | Recv_sc i v \<Rightarrow> Some (if linked s t
            then at_pc t (Recv_up v) (s\<lparr>recvidx := if sint (psize s - 1) > sint i then i + 1 else 0, linked := (\<lambda>_. False), received := received s @ [v]\<rparr>)
            else at_pc t Recv_ll s)
      | _ \<Rightarrow> None)"

definition h2_pipe_recv :: "nat \<Rightarrow> h2_pipe_t \<Rightarrow> h2_pipe_t option" where
  "h2_pipe_recv t s =
     (case ppc s ! t of
        Recv_down \<Rightarrow> Some (case pthread_sem_trywait_np (howfull s) of
            Some m \<Rightarrow> at_pc t Recv_ll (s\<lparr>howfull := m\<rparr>)
          | None \<Rightarrow> at_pc t Recv_wait (s\<lparr>howfull := sem_announce (howfull s)\<rparr>))
      | Recv_wait \<Rightarrow> map_option (\<lambda>m. at_pc t Recv_ll (s\<lparr>howfull := m\<rparr>)) (sem_retake (howfull s))
      | Recv_up v \<Rightarrow> Some (at_pc t (Returned (Got v)) (s\<lparr>howempty := h2_sem_up (howempty s)\<rparr>))
      | _ \<Rightarrow> get_recv_data t s)"

definition h2_pipe_tryrecv :: "nat \<Rightarrow> h2_pipe_t \<Rightarrow> h2_pipe_t option" where
  "h2_pipe_tryrecv t s =
     (case ppc s ! t of
        Tryrecv_down \<Rightarrow> Some (case pthread_sem_trywait_np (howfull s) of
            Some m \<Rightarrow> at_pc t Recv_ll (s\<lparr>howfull := m\<rparr>)
          | None \<Rightarrow> at_pc t (Returned Refused) s)
      | _ \<Rightarrow> h2_pipe_recv t s)"

text \<open>
  The steps of a set of threads. A reservation can be lost at any time, for instance to an interrupt.
\<close>

inductive pstep :: "h2_pipe_t \<Rightarrow> h2_pipe_t \<Rightarrow> bool" where
  call: "t < length (ppc s) \<Longrightarrow> ppc s ! t = Returned r \<Longrightarrow> p \<in> {Send_down d, Try_lock d, Recv_down, Tryrecv_down} \<Longrightarrow> pstep s (at_pc t p s)"
| sends: "t < length (ppc s) \<Longrightarrow> h2_pipe_trysend t s = Some s' \<Longrightarrow> pstep s s'"
| receives: "t < length (ppc s) \<Longrightarrow> h2_pipe_tryrecv t s = Some s' \<Longrightarrow> pstep s s'"
| lose: "pstep s (s\<lparr>linked := (linked s)(t := False)\<rparr>)"

section \<open>The invariant\<close>

text \<open>
  Who has a token of which semaphore: a sender that may write, a sender that has written, a
  receiver that may read, a receiver that has read; and who holds the mutex.
\<close>

fun may_put :: "pipe_pc \<Rightarrow> bool" where
  "may_put (Send_lock d) = True" | "may_put (Send_idx d) = True" | "may_put (Send_adv d i) = True" | "may_put (Send_put d i) = True" | "may_put _ = False"

fun has_put :: "pipe_pc \<Rightarrow> bool" where
  "has_put Send_unlock = True" | "has_put Send_up = True" | "has_put _ = False"

fun may_get :: "pipe_pc \<Rightarrow> bool" where
  "may_get Recv_ll = True" | "may_get (Recv_read i) = True" | "may_get (Recv_sc i v) = True" | "may_get _ = False"

fun has_got :: "pipe_pc \<Rightarrow> bool" where
  "has_got (Recv_up v) = True" | "has_got _ = False"

fun in_crit :: "pipe_pc \<Rightarrow> bool" where
  "in_crit (Send_idx d) = True" | "in_crit (Send_adv d i) = True" | "in_crit (Send_put d i) = True" | "in_crit Send_unlock = True"
| "in_crit (Try_down d) = True" | "in_crit Try_fail = True" | "in_crit _ = False"

fun at_put :: "pipe_pc \<Rightarrow> bool" where
  "at_put (Send_put d i) = True" | "at_put _ = False"

definition num :: "(pipe_pc \<Rightarrow> bool) \<Rightarrow> h2_pipe_t \<Rightarrow> nat" where
  "num P s = length (filter P (ppc s))"

definition token_inv :: "h2_pipe_t \<Rightarrow> bool" where
  "token_inv s \<longleftrightarrow> length (sent s) = length (received s) + sval (howfull s) + num may_get s + num has_put s \<and>
     sval (howempty s) + num may_put s + num has_got s + sval (howfull s) + num may_get s + num has_put s = min (unat (psize s)) 0x7fff"

definition crit_inv :: "h2_pipe_t \<Rightarrow> bool" where
  "crit_inv s \<longleftrightarrow> (\<forall>t<length (ppc s). in_crit (ppc s ! t) \<longleftrightarrow> sendmutex s = Some t)"

definition slot_of :: "h2_pipe_t \<Rightarrow> nat \<Rightarrow> nat" where
  "slot_of s k = k mod unat (psize s)"

definition pc_inv :: "h2_pipe_t \<Rightarrow> nat \<Rightarrow> pipe_pc \<Rightarrow> bool" where
  "pc_inv s t p \<longleftrightarrow> (case p of
       Send_adv d i \<Rightarrow> i = sendidx s
     | Send_put d i \<Rightarrow> unat i = slot_of s (length (sent s))
     | Recv_read i \<Rightarrow> linked s t \<longrightarrow> i = recvidx s
     | Recv_sc i v \<Rightarrow> linked s t \<longrightarrow> i = recvidx s \<and> v = sent s ! length (received s)
     | _ \<Rightarrow> True)"

definition buffer_inv :: "h2_pipe_t \<Rightarrow> bool" where
  "buffer_inv s \<longleftrightarrow> 0 < unat (psize s) \<and> unat (psize s) < 2 ^ 31 \<and>
     unat (recvidx s) = slot_of s (length (received s)) \<and>
     unat (sendidx s) = slot_of s (length (sent s) + num at_put s) \<and>
     received s = take (length (received s)) (sent s) \<and>
     (\<forall>k. length (received s) \<le> k \<longrightarrow> k < length (sent s) \<longrightarrow> pdata s (slot_of s k) = sent s ! k)"

definition pipe_inv :: "h2_pipe_t \<Rightarrow> bool" where
  "pipe_inv s \<longleftrightarrow> token_inv s \<and> crit_inv s \<and> buffer_inv s \<and> (\<forall>t<length (ppc s). pc_inv s t (ppc s ! t))"

lemma at_pc_sel [simp]:
  "howfull (at_pc t p s) = howfull s" "howempty (at_pc t p s) = howempty s" "sendidx (at_pc t p s) = sendidx s" "recvidx (at_pc t p s) = recvidx s"
  "psize (at_pc t p s) = psize s" "sendmutex (at_pc t p s) = sendmutex s" "pdata (at_pc t p s) = pdata s" "ppc (at_pc t p s) = (ppc s)[t := p]"
  "linked (at_pc t p s) = linked s" "sent (at_pc t p s) = sent s" "received (at_pc t p s) = received s"
  by (simp_all add: at_pc_def)

lemma filter_update:
  "t < length xs \<Longrightarrow> length (filter P (xs[t := x])) + of_bool (P (xs ! t)) = length (filter P xs) + of_bool (P x)"
proof (induction xs arbitrary: t)
  case (Cons y ys)
  then show ?case by (cases t) auto
qed simp

lemma num_at:
  "t < length (ppc s) \<Longrightarrow> num P (at_pc t p s) + of_bool (P (ppc s ! t)) = num P s + of_bool (P p)"
  by (simp add: num_def filter_update)

lemma num_pos: "t < length (ppc s) \<Longrightarrow> P (ppc s ! t) \<Longrightarrow> 0 < num P s"
  unfolding num_def by (auto simp: filter_empty_conv)

lemma num_zero: "(\<And>t. t < length (ppc s) \<Longrightarrow> \<not> P (ppc s ! t)) \<Longrightarrow> num P s = 0"
  unfolding num_def by (auto simp: filter_empty_conv in_set_conv_nth)

text \<open>Tokens move only with the program counter and the semaphores.\<close>

lemma token_step:
  assumes "token_inv s" "t < length (ppc s)" "ppc s' = (ppc s)[t := p]" "psize s' = psize s" "ppc s ! t = q"
    and "length (sent s') + length (received s) + sval (howfull s) + of_bool (may_get q) + of_bool (has_put q) =
      length (sent s) + length (received s') + sval (howfull s') + of_bool (may_get p) + of_bool (has_put p)"
    and "sval (howempty s') + sval (howfull s') + of_bool (may_put p) + of_bool (has_got p) + of_bool (may_get p) + of_bool (has_put p) =
      sval (howempty s) + sval (howfull s) + of_bool (may_put q) + of_bool (has_got q) + of_bool (may_get q) + of_bool (has_put q)"
  shows "token_inv s'"
proof -
  have n: "num P s' + of_bool (P q) = num P s + of_bool (P p)" for P
    using filter_update [OF assms(2), of P p] assms(3,5) by (simp add: num_def)
  show ?thesis using assms(1,4,6,7) n [of may_get] n [of has_put] n [of may_put] n [of has_got]
    unfolding token_inv_def by (intro conjI) (linarith, simp)
qed

lemma crit_step:
  assumes "crit_inv s" "t < length (ppc s)" "ppc s' = (ppc s)[t := p]"
    and "if in_crit p then sendmutex s' = Some t \<and> (in_crit (ppc s ! t) \<or> sendmutex s = None)
      else if in_crit (ppc s ! t) then sendmutex s' = None else sendmutex s' = sendmutex s"
  shows "crit_inv s'"
  using assms unfolding crit_inv_def by (auto simp: nth_list_update split: if_splits)

lemma pc_inv_cong:
  assumes "sendidx s' = sendidx s" "recvidx s' = recvidx s" "psize s' = psize s" "sent s' = sent s" "received s' = received s" "linked s' t = linked s t"
  shows "pc_inv s' t p = pc_inv s t p"
  using assms by (simp add: pc_inv_def slot_of_def cong: pipe_pc.case_cong)

lemma pipe_invD:
  assumes "pipe_inv s"
  shows "token_inv s" "crit_inv s" "buffer_inv s" "t < length (ppc s) \<Longrightarrow> pc_inv s t (ppc s ! t)"
  using assms by (simp_all add: pipe_inv_def)

lemma only_crit:
  assumes "pipe_inv s" "t < length (ppc s)" "in_crit (ppc s ! t)" "u < length (ppc s)" "u \<noteq> t"
  shows "\<not> in_crit (ppc s ! u)"
  using pipe_invD(2) [OF assms(1)] assms(2-) by (auto simp: crit_inv_def)

lemma quiet_step:
  assumes inv: "pipe_inv s" and t: "t < length (ppc s)" and s': "ppc s' = (ppc s)[t := p]"
    and eq: "sendidx s' = sendidx s" "recvidx s' = recvidx s" "psize s' = psize s" "sent s' = sent s" "received s' = received s" "pdata s' = pdata s"
      "\<And>u. u \<noteq> t \<Longrightarrow> linked s' u = linked s u"
    and q: "ppc s ! t = q" "\<not> at_put q" "\<not> at_put p"
    and tok: "sval (howfull s) + of_bool (may_get q) + of_bool (has_put q) = sval (howfull s') + of_bool (may_get p) + of_bool (has_put p)"
      "sval (howempty s') + of_bool (may_put p) + of_bool (has_got p) = sval (howempty s) + of_bool (may_put q) + of_bool (has_got q)"
    and crit: "if in_crit p then sendmutex s' = Some t \<and> (in_crit q \<or> sendmutex s = None)
      else if in_crit q then sendmutex s' = None else sendmutex s' = sendmutex s"
    and pc: "pc_inv s' t p"
  shows "pipe_inv s'"
proof -
  have "num at_put s' = num at_put s" using filter_update [OF t, of at_put p] q by (simp add: num_def s')
  then have "buffer_inv s'" using pipe_invD(3) [OF inv] by (simp add: buffer_inv_def slot_of_def eq)
  moreover have "token_inv s'" by (rule token_step [OF pipe_invD(1) [OF inv] t s' eq(3) q(1)]) (use tok eq in simp_all)
  moreover have "crit_inv s'" by (rule crit_step [OF pipe_invD(2) [OF inv] t s']) (use crit q(1) in simp)
  moreover have "pc_inv s' u (ppc s' ! u)" if "u < length (ppc s')" for u
    using pc pc_inv_cong [OF eq(1,2,3,4,5) eq(7), of u] pipe_invD(4) [OF inv, of u] that s' by (cases "u = t") auto
  ultimately show ?thesis by (simp add: pipe_inv_def)
qed

lemma next_slot:
  assumes "unat i = k mod unat n" "0 < unat (n :: u32)" "unat n < 2 ^ 31"
  shows "unat (if i = n - 1 then 0 else i + 1) = Suc k mod unat n" "unat (if sint (n - 1) > sint i then i + 1 else 0) = Suc k mod unat n"
proof -
  have n: "unat (n - 1) = unat n - 1" using assms(2) by (simp add: unat_minus_one unat_gt_0)
  have lt: "unat i < unat n" using assms(1,2) by simp
  have e: "i = n - 1 \<longleftrightarrow> Suc (k mod unat n) = unat n" using n assms(1,2) by (auto simp: word_unat_eq_iff)
  have "unat (i + 1) = unat i + 1" using unat_suc [OF lt] .
  then show 1: "unat (if i = n - 1 then 0 else i + 1) = Suc k mod unat n" using e assms(1) by (simp add: mod_Suc)
  have "sint i = int (unat i)" "sint (n - 1) = int (unat n - 1)" using sint_small [of i] sint_small [of "n - 1"] n lt assms(3) by (simp_all only:)
  then have "sint (n - 1) > sint i \<longleftrightarrow> unat i < unat n - 1" by (simp only: of_nat_less_iff)
  moreover have "i = n - 1 \<longleftrightarrow> unat i = unat n - 1" by (simp only: word_unat_eq_iff n)
  ultimately have "sint (n - 1) > sint i \<longleftrightarrow> i \<noteq> n - 1" using lt by linarith
  then show "unat (if sint (n - 1) > sint i then i + 1 else 0) = Suc k mod unat n" using 1 by auto
qed

text \<open>The three steps that change the indices or the contents.\<close>

lemma tokens:
  assumes "pipe_inv s"
  shows "length (received s) \<le> length (sent s)"
    "t < length (ppc s) \<Longrightarrow> may_get (ppc s ! t) \<Longrightarrow> length (received s) < length (sent s)"
    "t < length (ppc s) \<Longrightarrow> may_put (ppc s ! t) \<Longrightarrow> length (sent s) - length (received s) < unat (psize s)"
    "t < length (ppc s) \<Longrightarrow> has_put (ppc s ! t) \<Longrightarrow> sval (howfull s) < 0x7fff"
    "t < length (ppc s) \<Longrightarrow> has_got (ppc s ! t) \<Longrightarrow> sval (howempty s) < 0x7fff"
    "length (sent s) - length (received s) \<le> unat (psize s)"
  using pipe_invD(1) [OF assms] num_pos [of t s may_get] num_pos [of t s may_put] num_pos [of t s has_put] num_pos [of t s has_got]
  by (auto simp: token_inv_def)

lemma advance_step:
  assumes inv: "pipe_inv s" and t: "t < length (ppc s)" and p: "ppc s ! t = Send_adv d i"
  shows "pipe_inv (at_pc t (Send_put d i) (s\<lparr>sendidx := if i = psize s - 1 then 0 else i + 1\<rparr>))" (is "pipe_inv ?s")
proof -
  note oc = only_crit [OF inv t]
  have other: "\<not> in_crit (ppc s ! u)" if "u < length (ppc s)" "u \<noteq> t" for u using oc that p by simp
  have z: "num at_put s = 0"
  proof (rule num_zero)
    show "\<not> at_put (ppc s ! u)" if "u < length (ppc s)" for u using other [OF that] p by (cases "u = t"; cases "ppc s ! u") auto
  qed
  have o: "num at_put ?s = 1" using num_at [of t "s\<lparr>sendidx := if i = psize s - 1 then 0 else i + 1\<rparr>" at_put "Send_put d i"] t p z
    by (simp add: num_def)
  have b: "buffer_inv s" and i: "i = sendidx s" using pipe_invD(3) [OF inv] pipe_invD(4) [OF inv t] p by (simp_all add: pc_inv_def)
  then have u: "unat i = length (sent s) mod unat (psize s)" "0 < unat (psize s)" "unat (psize s) < 2 ^ 31"
    using z by (simp_all add: buffer_inv_def slot_of_def)
  have "buffer_inv ?s" using b next_slot(1) [OF u] unfolding buffer_inv_def o by (simp add: slot_of_def)
  moreover have "token_inv ?s" by (rule token_step [where p = "Send_put d i", OF pipe_invD(1) [OF inv] t _ _ p]) simp_all
  moreover have "crit_inv ?s" by (rule crit_step [where p = "Send_put d i", OF pipe_invD(2) [OF inv] t]) (use p t pipe_invD(2) [OF inv] in \<open>auto simp: crit_inv_def\<close>)
  moreover have "pc_inv ?s v (ppc ?s ! v)" if "v < length (ppc ?s)" for v
  proof (cases "v = t")
    case True
    then show ?thesis using t u(1) by (simp add: pc_inv_def slot_of_def)
  next
    case False
    then show ?thesis using other [of v] pipe_invD(4) [OF inv, of v] that by (cases "ppc s ! v") (simp_all add: pc_inv_def slot_of_def)
  qed
  ultimately show ?thesis by (simp add: pipe_inv_def)
qed

lemma put_step:
  assumes inv: "pipe_inv s" and t: "t < length (ppc s)" and p: "ppc s ! t = Send_put d i"
  shows "pipe_inv (at_pc t Send_unlock (s\<lparr>pdata := (pdata s)(unat i := d), sent := sent s @ [d]\<rparr>))" (is "pipe_inv ?s")
proof -
  have other: "\<not> in_crit (ppc s ! u)" if "u < length (ppc s)" "u \<noteq> t" for u using only_crit [OF inv t] that p by simp
  note b = pipe_invD(3) [OF inv] and k = tokens [OF inv]
  have n: "num at_put ?s + 1 = num at_put s"
    using num_at [of t "s\<lparr>pdata := (pdata s)(unat i := d), sent := sent s @ [d]\<rparr>" at_put Send_unlock] t p by (simp add: num_def)
  have i: "unat i = slot_of s (length (sent s))" using pipe_invD(4) [OF inv t] p by (simp add: pc_inv_def)
  have room: "length (sent s) - length (received s) < unat (psize s)" using k(3) [OF t] p by simp
  have ne: "slot_of s j \<noteq> unat i" if "length (received s) \<le> j" "j < length (sent s)" for j
  proof
    assume "slot_of s j = unat i"
    then have "unat (psize s) dvd length (sent s) - j" using that(2) by (auto simp: i slot_of_def dest: mod_eq_dvd_iff_nat [THEN iffD1, OF less_imp_le, rotated, OF sym])
    then show False using room that by (auto dest: dvd_imp_le)
  qed
  have "slot_of s (length (sent s) + num at_put s) = slot_of s (Suc (length (sent s)) + num at_put ?s)" by (simp add: n [symmetric])
  then have "buffer_inv ?s"
    using b ne i k(1) unfolding buffer_inv_def by (auto simp: slot_of_def nth_append less_Suc_eq)
  moreover have "token_inv ?s" by (rule token_step [where p = Send_unlock, OF pipe_invD(1) [OF inv] t _ _ p]) simp_all
  moreover have "crit_inv ?s" by (rule crit_step [where p = Send_unlock, OF pipe_invD(2) [OF inv] t]) (use p t pipe_invD(2) [OF inv] in \<open>auto simp: crit_inv_def\<close>)
  moreover have "pc_inv ?s v (ppc ?s ! v)" if "v < length (ppc ?s)" for v
  proof (cases "v = t")
    case True
    then show ?thesis using t by (simp add: pc_inv_def)
  next
    case False
    then show ?thesis using other [of v] pipe_invD(4) [OF inv, of v] k(2) [of v] that
      by (cases "ppc s ! v") (simp_all add: pc_inv_def slot_of_def nth_append)
  qed
  ultimately show ?thesis by (simp add: pipe_inv_def)
qed

lemma get_step:
  assumes inv: "pipe_inv s" and t: "t < length (ppc s)" and p: "ppc s ! t = Recv_sc i v" and l: "linked s t"
  shows "pipe_inv (at_pc t (Recv_up v) (s\<lparr>recvidx := if sint (psize s - 1) > sint i then i + 1 else 0, linked := (\<lambda>_. False), received := received s @ [v]\<rparr>))"
    (is "pipe_inv ?s")
    and "v = sent s ! length (received s)"
proof -
  note b = pipe_invD(3) [OF inv] and k = tokens [OF inv]
  have r: "length (received s) < length (sent s)" using k(2) [OF t] p by simp
  have i: "i = recvidx s" and v: "v = sent s ! length (received s)" using pipe_invD(4) [OF inv t] p l by (simp_all add: pc_inv_def)
  show "v = sent s ! length (received s)" by (rule v)
  have n: "num at_put ?s = num at_put s"
    using num_at [of t "s\<lparr>recvidx := if sint (psize s - 1) > sint i then i + 1 else 0, linked := (\<lambda>_. False), received := received s @ [v]\<rparr>" at_put "Recv_up v"] t p
    by (simp add: num_def)
  have u: "unat i = length (received s) mod unat (psize s)" "0 < unat (psize s)" "unat (psize s) < 2 ^ 31"
    using b i by (simp_all add: buffer_inv_def slot_of_def)
  have tk: "received ?s = take (length (received ?s)) (sent ?s)" using b r by (simp add: v take_Suc_conv_app_nth buffer_inv_def)
  have "buffer_inv ?s" unfolding buffer_inv_def n using b next_slot(2) [OF u] tk Suc_leI [OF r] by (simp add: slot_of_def buffer_inv_def min_absorb2)
  moreover have "token_inv ?s" by (rule token_step [where p = "Recv_up v", OF pipe_invD(1) [OF inv] t _ _ p]) simp_all
  moreover have "crit_inv ?s" by (rule crit_step [where p = "Recv_up v", OF pipe_invD(2) [OF inv] t]) (use p in simp_all)
  moreover have "pc_inv ?s u (ppc ?s ! u)" if "u < length (ppc ?s)" for u
    using pipe_invD(4) [OF inv, of u] that by (cases "u = t"; cases "ppc s ! u") (simp_all add: pc_inv_def slot_of_def)
  ultimately show "pipe_inv ?s" by (simp add: pipe_inv_def)
qed

text \<open>All other steps move tokens and the mutex only.\<close>

lemma h2_sem_up_val: "sval m < 0x7fff \<Longrightarrow> sval (h2_sem_up m) = sval m + 1"
  using sem_up [of m] by (auto simp: h2_sem_up_def)

lemmas pipe_steps = h2_pipe_send_def h2_pipe_trysend_def h2_pipe_recv_def h2_pipe_tryrecv_def get_recv_data_def

lemma send_step:
  assumes inv: "pipe_inv s" and t: "t < length (ppc s)" and st: "h2_pipe_trysend t s = Some s'"
  shows "pipe_inv s'"
proof -
  have cr: "in_crit (ppc s ! t) \<longleftrightarrow> sendmutex s = Some t" using pipe_invD(2) [OF inv] t by (simp add: crit_inv_def)
  note q = quiet_step [OF inv t, where s' = s'] and v = h2_sem_up_val [OF tokens(4) [OF inv t]]
  show ?thesis
  proof (cases "ppc s ! t")
    case (Send_down d)
    then show ?thesis
    proof (cases "pthread_sem_trywait_np (howempty s)")
      case None
      then show ?thesis using Send_down st by (intro q [of "Send_wait d"]) (auto simp: pipe_steps pc_inv_def sem_takes)
    next
      case (Some m)
      then show ?thesis using Send_down st sem_takes(1) [OF Some] by (intro q [of "Send_lock d"]) (auto simp: pipe_steps pc_inv_def)
    qed
  next
    case (Send_wait d)
    then obtain m where m: "sem_retake (howempty s) = Some m" "s' = at_pc t (Send_lock d) (s\<lparr>howempty := m\<rparr>)" using st by (auto simp: pipe_steps)
    then show ?thesis using Send_wait sem_takes(2) [OF m(1)] by (intro q [of "Send_lock d"]) (auto simp: pc_inv_def)
  next
    case (Send_lock d)
    then show ?thesis using st by (intro q [of "Send_idx d"]) (auto simp: pipe_steps pc_inv_def split: if_splits)
  next
    case (Send_idx d)
    then show ?thesis using st cr by (intro q [of "Send_adv d (sendidx s)"]) (auto simp: pipe_steps pc_inv_def)
  next
    case (Send_adv d i)
    then show ?thesis using st advance_step [OF inv t Send_adv] by (simp add: pipe_steps)
  next
    case (Send_put d i)
    then show ?thesis using st put_step [OF inv t Send_put] by (simp add: pipe_steps)
  next
    case Send_unlock
    then show ?thesis using st by (intro q [of Send_up]) (auto simp: pipe_steps pc_inv_def)
  next
    case Send_up
    then show ?thesis using st v by (intro q [of "Returned Sent"]) (auto simp: pipe_steps pc_inv_def)
  next
    case (Try_lock d)
    then show ?thesis
    proof (cases "sendmutex s")
      case None
      then show ?thesis using Try_lock st by (intro q [of "Try_down d"]) (auto simp: pipe_steps pc_inv_def)
    next
      case (Some u)
      then show ?thesis using Try_lock st by (intro q [of "Returned Refused"]) (auto simp: pipe_steps pc_inv_def)
    qed
  next
    case (Try_down d)
    then show ?thesis
    proof (cases "pthread_sem_trywait_np (howempty s)")
      case None
      then show ?thesis using Try_down st cr by (intro q [of Try_fail]) (auto simp: pipe_steps pc_inv_def)
    next
      case (Some m)
      then show ?thesis using Try_down st cr sem_takes(1) [OF Some] by (intro q [of "Send_idx d"]) (auto simp: pipe_steps pc_inv_def)
    qed
  next
    case Try_fail
    then show ?thesis using st by (intro q [of "Returned Refused"]) (auto simp: pipe_steps pc_inv_def)
  qed (use st in \<open>simp_all add: pipe_steps\<close>)
qed

lemma receive_step:
  assumes inv: "pipe_inv s" and t: "t < length (ppc s)" and st: "h2_pipe_tryrecv t s = Some s'"
  shows "pipe_inv s'"
proof -
  note q = quiet_step [OF inv t, where s' = s'] and v = h2_sem_up_val [OF tokens(5) [OF inv t]]
  have down: ?thesis if "ppc s ! t \<in> {Recv_down, Tryrecv_down}"
  proof (cases "pthread_sem_trywait_np (howfull s)")
    case None
    then show ?thesis using that st
      by (intro q [of "if ppc s ! t = Recv_down then Recv_wait else Returned Refused"]) (auto simp: pipe_steps pc_inv_def sem_takes)
  next
    case (Some m)
    then show ?thesis using that st sem_takes(1) [OF Some] by (intro q [of Recv_ll]) (auto simp: pipe_steps pc_inv_def)
  qed
  show ?thesis
  proof (cases "ppc s ! t")
    case Recv_wait
    then obtain m where m: "sem_retake (howfull s) = Some m" "s' = at_pc t Recv_ll (s\<lparr>howfull := m\<rparr>)" using st by (auto simp: pipe_steps)
    then show ?thesis using Recv_wait sem_takes(2) [OF m(1)] by (intro q [of Recv_ll]) (auto simp: pc_inv_def)
  next
    case Recv_ll
    then show ?thesis using st by (intro q [of "Recv_read (recvidx s)"]) (auto simp: pipe_steps pc_inv_def)
  next
    case (Recv_read i)
    have r: "length (received s) < length (sent s)" using tokens(2) [OF inv t] Recv_read by simp
    then have "pdata s (unat (recvidx s)) = sent s ! length (received s)" using pipe_invD(3) [OF inv] by (simp add: buffer_inv_def)
    then show ?thesis using st Recv_read pipe_invD(4) [OF inv t]
      by (intro q [of "Recv_sc i (pdata s (unat i))"]) (auto simp: pipe_steps pc_inv_def)
  next
    case (Recv_sc i v)
    then show ?thesis
    proof (cases "linked s t")
      case True
      then show ?thesis using Recv_sc st get_step(1) [OF inv t Recv_sc True] by (simp add: pipe_steps)
    next
      case False
      then show ?thesis using Recv_sc st by (intro q [of Recv_ll]) (auto simp: pipe_steps pc_inv_def)
    qed
  next
    case (Recv_up x)
    then show ?thesis using st v by (intro q [of "Returned (Got x)"]) (auto simp: pipe_steps pc_inv_def)
  qed (use st down in \<open>simp_all add: pipe_steps\<close>)
qed

lemma pstep_inv: "pstep s s' \<Longrightarrow> pipe_inv s \<Longrightarrow> pipe_inv s'"
proof (induction rule: pstep.induct)
  case (call t s r p d)
  then show ?case
    by (intro quiet_step [where s' = "at_pc t p s" and p = p and q = "Returned r", OF call.prems call.hyps(1)]) (auto simp: pc_inv_def)
next
  case (sends t s s')
  then show ?case by (blast intro: send_step)
next
  case (receives t s s')
  then show ?case by (blast intro: receive_step)
next
  case (lose s t)
  have "pc_inv (s\<lparr>linked := (linked s)(t := False)\<rparr>) u p" if "pc_inv s u p" for u p
    using that by (cases p) (simp_all add: pc_inv_def slot_of_def)
  then show ?case using lose by (simp add: pipe_inv_def token_inv_def crit_inv_def buffer_inv_def slot_of_def num_def)
qed

lemma fresh_inv:
  assumes "0 < unat k" "unat k < 2 ^ 31"
  shows "pipe_inv \<lparr>howfull = pthread_sem_init_np 0, howempty = pthread_sem_init_np k, sendidx = 0, recvidx = 0, psize = k, sendmutex = None,
    pdata = d, ppc = replicate n (Returned Start), linked = (\<lambda>_. False), sent = [], received = []\<rparr>"
  using assms sem_init_val [of k] sem_init_val [of 0]
  by (simp add: pipe_inv_def token_inv_def crit_inv_def buffer_inv_def slot_of_def num_def pc_inv_def)

lemma create_inv: "h2_pipe_create n data k = Some s \<Longrightarrow> pipe_inv s"
proof -
  assume c: "h2_pipe_create n data k = Some s"
  then have k: "k \<noteq> 0" "\<not> bit k 31" by (auto simp: h2_pipe_create_def split: if_splits)
  have "\<not> bit k m" if "31 \<le> m" for m using k(2) that bit_imp_le_length [of k m] by (cases "m = 31") auto
  then have "unat k < 2 ^ 31" by (rule word_bits_lt_exp)
  moreover have "0 < unat k" using k(1) by (simp add: unat_gt_0)
  ultimately show ?thesis using c fresh_inv by (auto simp: h2_pipe_create_def split: if_splits option.splits)
qed

lemma alloc_inv: "h2_pipe_alloc n ret data sz = Some s \<Longrightarrow> pipe_inv s"
proof -
  assume c: "h2_pipe_alloc n ret data sz = Some s"
  let ?k = "((sz AND - 8) - SIZEOF_PIPE) div 8"
  have m: "- 8 = NOT (mask 3 :: u32)" by (simp add: mask_eq_exp_minus_1)
  have "sz AND - 8 = push_bit 3 (drop_bit 3 sz)" unfolding m by (rule bit_eqI) (auto simp: bit_and_iff bit_not_iff bit_mask_iff bit_push_bit_iff bit_drop_bit_eq not_less)
  moreover have "unat sz < 2 ^ 32" using unsigned_less [of sz] by simp
  then have "unat (push_bit 3 (drop_bit 3 sz)) = unat sz div 8 * 8"
    by (simp only: unsigned_push_bit_eq unsigned_drop_bit_eq) (simp add: drop_bit_eq_div push_bit_eq_mult take_bit_nat_eq_self)
  ultimately have v: "unat (sz AND - 8) = unat sz div 8 * 8" by (simp only:)
  have "\<not> SIZEOF_PIPE + 8 > sz" using c by (auto simp: h2_pipe_alloc_def Let_def split: if_splits)
  then have l: "56 \<le> unat sz" by (simp add: SIZEOF_PIPE_def word_less_nat_alt)
  then have le: "(48 :: u32) \<le> sz AND - 8" using v by (simp add: word_le_nat_alt)
  have "unat ?k = (unat sz div 8 * 8 - 48) div 8" by (simp only: SIZEOF_PIPE_def unat_div unat_sub [OF le] v) simp
  moreover have "(x * 8 - 48) div 8 = x - 6" for x :: nat using nonzero_mult_div_cancel_right [of 8 "x - 6"] by (simp add: diff_mult_distrib)
  moreover have "7 \<le> unat sz div 8" using div_le_mono [OF l, of 8] by simp
  ultimately have "0 < unat ?k" "unat ?k < 2 ^ 31" using \<open>unat sz < 2 ^ 32\<close> by auto
  then show ?thesis using c fresh_inv by (auto simp: h2_pipe_alloc_def Let_def split: if_splits option.splits)
qed

lemma reachable_pipe_inv:
  assumes "h2_pipe_create n data k = Some s0 \<or> h2_pipe_alloc n ret data k = Some s0" "pstep\<^sup>*\<^sup>* s0 s"
  shows "pipe_inv s"
  using assms(2)
proof (induction rule: rtranclp_induct)
  case base
  then show ?case using assms(1) create_inv alloc_inv by blast
qed (rule pstep_inv)

section \<open>Refinement of a bounded queue\<close>

definition queue_of :: "h2_pipe_t \<Rightarrow> u64 list" where
  "queue_of s = drop (length (received s)) (sent s)"

text \<open>What one step does to the queue.\<close>

definition queue_step :: "h2_pipe_t \<Rightarrow> h2_pipe_t \<Rightarrow> bool" where
  "queue_step s s' \<longleftrightarrow> queue_of s' = queue_of s \<or>
     (\<exists>t d i. ppc s ! t = Send_put d i \<and> queue_of s' = queue_of s @ [d]) \<or>
     (\<exists>t i v. ppc s ! t = Recv_sc i v \<and> ppc s' ! t = Recv_up v \<and> queue_of s = v # queue_of s')"

lemma queue_same: "sent s' = sent s \<Longrightarrow> received s' = received s \<Longrightarrow> queue_step s s'"
  by (simp add: queue_step_def queue_of_def)

lemma put_queue:
  assumes "pipe_inv s" "h2_pipe_trysend t s = Some s'" "ppc s ! t = Send_put d i"
  shows "queue_step s s'"
  using assms(2,3) tokens(1) [OF assms(1)] by (auto simp: pipe_steps queue_step_def queue_of_def intro!: exI [of _ t])

lemma get_queue:
  assumes inv: "pipe_inv s" and t: "t < length (ppc s)" and st: "h2_pipe_tryrecv t s = Some s'" and p: "ppc s ! t = Recv_sc i v" and l: "linked s t"
  shows "queue_step s s'"
proof -
  have r: "length (received s) < length (sent s)" using tokens(2) [OF inv t] p by simp
  have "queue_of s = v # queue_of s'" using get_step(2) [OF inv t p l] st p l Cons_nth_drop_Suc [OF r] by (auto simp: pipe_steps queue_of_def)
  moreover have "ppc s' ! t = Recv_up v" using st p l t by (auto simp: pipe_steps)
  ultimately show ?thesis using p by (auto simp: queue_step_def)
qed

lemma pstep_queue:
  assumes inv: "pipe_inv s" and st: "pstep s s'"
  shows "queue_step s s'"
  using st
proof cases
  case (call t r p d)
  then show ?thesis by (intro queue_same) simp_all
next
  case (sends t)
  then show ?thesis using put_queue [OF inv sends(2)]
    by (cases "ppc s ! t") (auto intro!: queue_same simp: pipe_steps split: option.splits if_splits)
next
  case (receives t)
  show ?thesis
  proof (cases "\<exists>i v. ppc s ! t = Recv_sc i v \<and> linked s t")
    case True
    then show ?thesis using get_queue [OF inv receives] by blast
  next
    case False
    then show ?thesis using receives by (cases "ppc s ! t") (auto intro!: queue_same simp: pipe_steps split: option.splits if_splits)
  qed
next
  case (lose t)
  then show ?thesis by (intro queue_same) simp_all
qed

text \<open>
  C15: A pipe is a bounded queue, whatever senders and receivers run concurrently. In every reachable
  state the messages received are the first ones sent, in order, and those in between fit the
  buffer; every step leaves the queue alone, appends the message of the sender that takes it, or
  removes the first message, which is the one its receiver returns. When no call is in progress,
  a message can be received exactly if the queue is not empty, and sent exactly if it holds fewer
  than the size of the pipe (at most the largest value of a semaphore).
\<close>

theorem pipe_refines_queue:
  assumes "h2_pipe_create n data k = Some s0 \<or> h2_pipe_alloc n ret data k = Some s0" "pstep\<^sup>*\<^sup>* s0 s"
  shows "sent s = received s @ queue_of s \<and> length (queue_of s) \<le> unat (psize s) \<and> (\<forall>s'. pstep s s' \<longrightarrow> queue_step s s') \<and>
    ((\<forall>t<length (ppc s). \<exists>r. ppc s ! t = Returned r) \<longrightarrow>
      (pthread_sem_trywait_np (howfull s) \<noteq> None \<longleftrightarrow> queue_of s \<noteq> []) \<and>
      (pthread_sem_trywait_np (howempty s) \<noteq> None \<longleftrightarrow> length (queue_of s) < min (unat (psize s)) 0x7fff))"
proof (intro conjI impI allI)
  have inv: "pipe_inv s" using assms by (rule reachable_pipe_inv)
  have "received s = take (length (received s)) (sent s)" using pipe_invD(3) [OF inv] by (simp add: buffer_inv_def)
  then show "sent s = received s @ queue_of s" unfolding queue_of_def by (metis append_take_drop_id)
  show "length (queue_of s) \<le> unat (psize s)" using tokens(6) [OF inv] by (simp add: queue_of_def)
  show "queue_step s s'" if "pstep s s'" for s' using pstep_queue [OF inv that] .
  assume q: "\<forall>t<length (ppc s). \<exists>r. ppc s ! t = Returned r"
  have z: "num P s = 0" if "\<And>r. \<not> P (Returned r)" for P by (rule num_zero) (use q that in metis)
  have tok: "length (queue_of s) = sval (howfull s)" "sval (howempty s) + sval (howfull s) = min (unat (psize s)) 0x7fff"
    using pipe_invD(1) [OF inv] z [of may_get] z [of has_put] z [of may_put] z [of has_got] by (simp_all add: token_inv_def queue_of_def)
  have w: "pthread_sem_trywait_np m \<noteq> None \<longleftrightarrow> 0 < sval m" for m by (simp add: pthread_sem_trywait_np_def unat_gt_0)
  show "pthread_sem_trywait_np (howfull s) \<noteq> None \<longleftrightarrow> queue_of s \<noteq> []" unfolding w tok(1) [symmetric] by simp
  show "pthread_sem_trywait_np (howempty s) \<noteq> None \<longleftrightarrow> length (queue_of s) < min (unat (psize s)) 0x7fff"
    unfolding w using tok by linarith
qed

section \<open>An example\<close>

text \<open>A pipe of two messages, one of which thread 0 has sent and thread 1 received.\<close>

definition pipe_turn :: "nat \<Rightarrow> h2_pipe_t \<Rightarrow> h2_pipe_t" where
  "pipe_turn t s = (case h2_pipe_trysend t s of Some s' \<Rightarrow> s' | None \<Rightarrow> case h2_pipe_tryrecv t s of Some s' \<Rightarrow> s' | None \<Rightarrow> s)"

lemma pipe_turn_reach: "t < length (ppc s) \<Longrightarrow> pstep\<^sup>*\<^sup>* s0 s \<Longrightarrow> pstep\<^sup>*\<^sup>* s0 (pipe_turn t s)"
  by (auto simp: pipe_turn_def split: option.splits intro: pstep.intros rtranclp.rtrancl_into_rtrancl)

lemma pipe_turn_length [simp]: "length (ppc (pipe_turn t s)) = length (ppc s)"
  by (cases "ppc s ! t") (auto simp: pipe_turn_def pipe_steps split: option.splits if_splits)

definition new_pipe :: h2_pipe_t where
  "new_pipe = \<lparr>howfull = pthread_sem_init_np 0, howempty = pthread_sem_init_np 2, sendidx = 0, recvidx = 0, psize = 2, sendmutex = None,
     pdata = (\<lambda>_. 0), ppc = [Returned Start, Returned Start], linked = (\<lambda>_. False), sent = [], received = []\<rparr>"

definition pipe_sent :: h2_pipe_t where
  "pipe_sent = pipe_turn 0 (pipe_turn 0 (pipe_turn 0 (pipe_turn 0 (pipe_turn 0 (pipe_turn 0 (pipe_turn 0 (at_pc 0 (Try_lock 7) new_pipe)))))))"

definition pipe_passed :: h2_pipe_t where
  "pipe_passed = pipe_turn 1 (pipe_turn 1 (pipe_turn 1 (pipe_turn 1 (pipe_turn 1 (at_pc 1 Tryrecv_down pipe_sent)))))"

lemma new_pipe_created: "h2_pipe_create 2 (Some (\<lambda>_. 0)) 2 = Some new_pipe"
  by (simp add: h2_pipe_create_def new_pipe_def numeral_2_eq_2)

lemmas pipe_eval = pipe_turn_def pipe_steps at_pc_def pthread_sem_trywait_np_def h2_sem_up_def pthread_sem_add_np_def

lemma pipe_sent_state:
  "pipe_sent = \<lparr>howfull = \<lparr>sem_val = 1, n_waiting = 0\<rparr>, howempty = \<lparr>sem_val = 1, n_waiting = 0\<rparr>, sendidx = 1, recvidx = 0, psize = 2,
     sendmutex = None, pdata = (\<lambda>_. 0)(0 := 7), ppc = [Returned Sent, Returned Start], linked = (\<lambda>_. False), sent = [7], received = []\<rparr>"
  by (simp add: pipe_sent_def new_pipe_def pipe_eval pthread_sem_init_np_def PTHREAD_SEM_VALUE_MAX_NP_def)

lemma pipe_passed_state:
  "pipe_passed = \<lparr>howfull = \<lparr>sem_val = 0, n_waiting = 0\<rparr>, howempty = \<lparr>sem_val = 2, n_waiting = 0\<rparr>, sendidx = 1, recvidx = 1, psize = 2,
     sendmutex = None, pdata = (\<lambda>_. 0)(0 := 7), ppc = [Returned Sent, Returned (Got 7)], linked = (\<lambda>_. False), sent = [7], received = [7]\<rparr>"
  by (simp add: pipe_passed_def pipe_sent_state pipe_eval)

lemma pipe_example_reach: "pstep\<^sup>*\<^sup>* new_pipe pipe_passed"
proof -
  have "pstep new_pipe (at_pc 0 (Try_lock 7) new_pipe)" by (rule pstep.call) (auto simp: new_pipe_def)
  then have 1: "pstep\<^sup>*\<^sup>* new_pipe pipe_sent" unfolding pipe_sent_def by (intro pipe_turn_reach r_into_rtranclp) (simp_all add: new_pipe_def)
  have "pstep pipe_sent (at_pc 1 Tryrecv_down pipe_sent)" by (rule pstep.call) (auto simp: pipe_sent_state)
  then show ?thesis unfolding pipe_passed_def
    by (intro pipe_turn_reach rtranclp.rtrancl_into_rtrancl [OF 1]) (simp_all add: pipe_sent_state)
qed

theorem pipe_refines_queue_witness:
  "sent pipe_passed = [7] \<and> queue_of pipe_passed = [] \<and> ppc pipe_passed ! 1 = Returned (Got 7) \<and> pthread_sem_trywait_np (howfull pipe_passed) = None"
proof -
  have "\<forall>t<length (ppc pipe_passed). \<exists>r. ppc pipe_passed ! t = Returned r" by (auto simp: pipe_passed_state less_Suc_eq nth_Cons')
  moreover have "sent pipe_passed = [7]" "queue_of pipe_passed = []" "ppc pipe_passed ! 1 = Returned (Got 7)"
    by (simp_all add: pipe_passed_state queue_of_def)
  ultimately show ?thesis using pipe_refines_queue [OF disjI1, OF new_pipe_created pipe_example_reach] by auto
qed

end
