(* ===== verification/Spec2Isabelle.thy ===== *)
theory Spec2Isabelle
  imports Futex_Queue Tlbfmt Alloc Asid Futex Vmint_Correct Timer_Correct Popup Tlb Config Thread_Correct Boot Checkers Pmutex Pipe
begin

text \<open>
  A verification library for the Hexagon hypervisor (H2), \<^verbatim>\<open>src/kernel\<close>, and for the guest
  synchronisation built on it.

  \<^bold>\<open>The program.\<close> H2 runs virtual machines on the hardware threads of a Hexagon core. Guests enter
  the kernel by traps, the hardware by interrupts and TLB misses; every entry runs C code under one
  kernel lock and ends by returning to a guest, by switching to another context or by putting the
  hardware thread to sleep. Threads move between the ready list (a ring per priority with a bit
  mask), the run list (a slot per hardware thread), the futex hash (rings in order of priority),
  the handlers of physical interrupts, and the states waiting and dead; timeouts are a search tree
  beside these. A VM is a block of contexts with virtual interrupt controllers, a guest map and
  fences; its pages reach the hardware TLB through a translator, a software TLB and a table of
  address spaces.

  \<^bold>\<open>Theories and sources.\<close>
  \<^item> \<open>H2K_Prelude\<close>: integer types, bit counting, shared lemmas.
  \<^item> \<open>Ring\<close> (\<^verbatim>\<open>util/ring\<close>), \<open>Treenode\<close> (\<^verbatim>\<open>util/tree\<close>): the pointer structures, on memories that
    are functions from addresses to nodes.
  \<^item> \<open>Kernel_State\<close> (\<^verbatim>\<open>data/context\<close>, \<^verbatim>\<open>data/vm\<close>, \<^verbatim>\<open>data/globals/globals.h\<close>, \<^verbatim>\<open>util/hw\<close>): the
    records of contexts, VM blocks and globals (\<open>H2K_kg_t\<close>, with the device registers the code uses).
  \<^item> \<open>Readylist\<close>, \<open>Runlist\<close>, \<open>Sched\<close> (\<^verbatim>\<open>data/readylist\<close>, \<^verbatim>\<open>data/runlist\<close>, \<^verbatim>\<open>sched\<close>): scheduling, with
    the accounting of coprocessors per cluster; \<open>sched_inv\<close> is the invariant.
  \<^item> \<open>Futex_Queue\<close>, \<open>Futex\<close> (\<^verbatim>\<open>futex\<close>, \<^verbatim>\<open>mem/safemem\<close>): waiting, waking, priority inheritance;
    \<open>kinv\<close> joins the scheduler's and the futexes' invariants.
  \<^item> \<open>Vmint\<close>, \<open>Vmint_Correct\<close> (\<^verbatim>\<open>vm/vmipi\<close>, \<^verbatim>\<open>vm/vmint\<close>, \<^verbatim>\<open>vm/cpuint\<close>, \<^verbatim>\<open>vm/shint\<close>, \<^verbatim>\<open>vm/badint\<close>): virtual
    interrupts; \<open>Timer\<close>, \<open>Timer_Correct\<close> (\<^verbatim>\<open>time/timer\<close>): timeouts; \<open>Popup\<close> (\<^verbatim>\<open>event/popup\<close>,
    \<^verbatim>\<open>event/intpool\<close>): threads that wait for physical interrupts.
  \<^item> \<open>Tlbfmt\<close>, \<open>Translate\<close> (\<^verbatim>\<open>mem/tlbfmt\<close>, \<^verbatim>\<open>mem/translate\<close>, \<^verbatim>\<open>mem/linear\<close>, \<^verbatim>\<open>mem/offset\<close>, \<^verbatim>\<open>mem/pagewalk\<close>,
    \<^verbatim>\<open>mem/varadix\<close>), \<open>Asid\<close> (\<^verbatim>\<open>mem/asid\<close>, \<^verbatim>\<open>mem/stlb\<close>, \<^verbatim>\<open>mem/tlbmisc\<close>), \<open>Tlb\<close> (\<^verbatim>\<open>mem/tlbfill\<close>,
    \<^verbatim>\<open>mem/tmpmap\<close>, \<^verbatim>\<open>mem/pagefault\<close>, \<^verbatim>\<open>traps/tlb\<close>), \<open>Alloc\<close> (\<^verbatim>\<open>mem/alloc\<close>): memory.
  \<^item> \<open>Thread_Life\<close>, \<open>Thread_Correct\<close> (\<^verbatim>\<open>thread\<close>, \<^verbatim>\<open>error/fatal\<close>, \<^verbatim>\<open>vm/vmevent\<close>, \<^verbatim>\<open>vm/vmwork\<close>), \<open>Vmtrap\<close>
    (\<^verbatim>\<open>vm/vmfuncs\<close>, \<^verbatim>\<open>vm/vmmap\<close>, \<^verbatim>\<open>traps\<close>), \<open>Vmop\<close> (\<^verbatim>\<open>vm/vmop\<close>), \<open>Config\<close> (\<^verbatim>\<open>traps/config\<close>): threads,
    guest traps and VMs.
  \<^item> \<open>Globals\<close> (\<^verbatim>\<open>data/globals/globals.ref.c\<close>, \<^verbatim>\<open>util/hw/cfg_table\<close>, \<^verbatim>\<open>traps/info\<close>), \<open>Hwconfig\<close>
    (\<^verbatim>\<open>traps/hwconfig\<close>, \<^verbatim>\<open>util/stmode\<close>, \<^verbatim>\<open>init/l2cache\<close>, \<^verbatim>\<open>vm/vmcache\<close>), \<open>Boot\<close> (\<^verbatim>\<open>data/intconfig\<close>,
    \<^verbatim>\<open>init/setup\<close>): configuration and boot.
  \<^item> \<open>Kernel\<close>: the kernel as one transition system; \<open>Checkers\<close> (\<^verbatim>\<open>checkers\<close>): the run-time checkers
    of the repository.
  \<^item> \<open>Pmutex\<close> (\<^verbatim>\<open>libs/posix/pthread/mutex\<close>, \<^verbatim>\<open>plainmutex\<close>) and \<open>Pipe\<close> (\<^verbatim>\<open>libs/h2_compat/pipe\<close>,
    \<^verbatim>\<open>libs/posix/pthread/sem\<close>): guest mutexes on the kernel's priority-inheriting futexes, and
    message pipes, under interleaving of any number of threads at each access to shared memory.

  Definitions have the names of the C functions, on explicit state: an operation takes and returns
  the record of globals. A C function that may end in a switch returns an \<open>outcome\<close> (\<open>Ret\<close> or
  \<open>Switch\<close>); errors are the numbers the code returns or values of sum and option types. Integers
  keep their width; addresses of kernel objects are natural numbers with \<open>0\<close> for \<open>NULL\<close>.

  \<^bold>\<open>What is shown.\<close> For each component, what every operation does on each branch, errors included,
  and that it keeps the component's invariant (\<open>ready_rep\<close>, \<open>sched_inv\<close>, \<open>futex_rep\<close>, \<open>kinv\<close>,
  \<open>timer_inv\<close>, \<open>heap_rep\<close>, the table invariants of \<open>Asid\<close> and \<open>Tlb\<close>). The operations refine abstract
  ones: rings are lists, trees are sorted lists, the heap is a list of blocks, a linear translation
  is a search of a list, the software TLB a keyed store, a pipe a bounded queue. Across components:
  boot establishes \<open>kernel_ok\<close>; every kernel entry keeps it, whatever hardware thread takes it and
  in whatever order; every enabled entry returns; the checkers of the authors pass in every
  reachable state; no guest table makes a translation leave the fences or add permissions; a guest
  mutex is exclusive and no wakeup of it is lost.

  \<^bold>\<open>Interfaces.\<close> \<open>ring_interface\<close> (rings, interpreted on the kernel's rings), \<open>ready_queue\<close> (queues
  of threads by priority, on the ready list), \<open>int_source\<close> (an interrupt controller that offers and
  takes the least pending interrupt, on the per-CPU and the shared controllers), \<open>next_level\<close> (the
  translator a guest map hands over to, on the dispatcher), \<open>tlb_match\<close> (lookup and insertion in
  a set-associative table, on the software TLB).

  \<^bold>\<open>Loops, bounds and fuel.\<close> Pointer loops are \<open>partial_function (option)\<close>; that they return is part
  of the theorems. Translation takes the depth of nested guest maps as a number; along an acyclic
  chain of maps every depth above its length gives the same result (\<open>translate_returns\<close>). The ring
  checker stops after the 1000 nodes the code allows.

  \<^bold>\<open>Assumptions of the model.\<close> The kernel lock makes the entries of \<open>Kernel\<close> atomic; the entries it
  has are futex wait and wake, yield, reschedule, wait, popup wait and interrupt, timer interrupt
  and timeout, interrupt delivery, thread creation, stopping and killing, and \<open>kernel_ok\<close> is for
  cluster scheduling off (the scheduler's own theorems cover it on). Memory outside the kernel's
  structures is a function of physical addresses. The build is the one for architecture versions
  from 81 with devices, \<open>CLUSTER_SCHED\<close>, the coprocessor bits of HMX and HLX, 16 hardware threads, no
  \<open>HAVE_EXTENSIONS\<close> (except in the initialisation of globals, which has both) and one hardware thread
  started at boot. In \<open>Pmutex\<close> the identifiers of threads are not \<open>0\<close> and have bit 0 clear, as
  \<^verbatim>\<open>kernel/data/idtype\<close> gives them, and a thread unlocks only what it has locked; in \<open>Pipe\<close> the mutex
  is the exclusive one \<open>Pmutex\<close> establishes.

  \<^bold>\<open>Not modelled.\<close> The assembly of the vectors, the context switch and the boot stub, which moves
  registers around the C functions; power sequences of coprocessors and the copy to tightly coupled
  memory, which the build leaves out; built-in cache tables of cores without a configuration table;
  trace, log, profiling, crash and simulator support, on which no decision depends; the raw dump of
  a context, whose byte layout the records do not have; the generator of structure offsets. Of the
  code that runs in guests, the boot program, the QuRT layer, thread libraries and system calls.
\<close>

end
